(* ===== verification/CPrelude.thy ===== *)
theory CPrelude
  imports Main "HOL-Library.Word"
begin

text \<open>
  Shared vocabulary of the development: the outcome of a C routine (a value, or a reason why
  the process stopped), sequencing of such routines, first-match scans of arrays, and the few
  routines of the C library that the programs use on strings (strtok, fgets, decimal output).
\<close>

section \<open>Outcomes of C routines\<close>

text \<open>
  A routine either returns a value (\<open>Inr\<close>) or the process ends (\<open>Inl\<close>): by \<open>exit\<close> with a
  status after printing a message, by \<open>abort\<close>, or because it ran into behaviour that the C
  standard leaves undefined (an access outside an array, a division by zero), which the model
  makes a result of its own instead of giving it some arbitrary value.
\<close>

datatype halt = Exit int string | Abort string | UB string

type_synonym 'a res = "halt + 'a"

definition bindR :: "'e + 'a \<Rightarrow> ('a \<Rightarrow> 'e + 'b) \<Rightarrow> 'e + 'b" where
  "bindR m f = (case m of Inl e \<Rightarrow> Inl e | Inr x \<Rightarrow> f x)"

named_theorems res_simps

lemma bindR_Inl [simp]: "bindR (Inl e) f = Inl e"
  by (simp add: bindR_def)

lemma bindR_Inr [simp]: "bindR (Inr x) f = f x"
  by (simp add: bindR_def)

lemma bindR_Inr_iff [res_simps]: "bindR m f = Inr y \<longleftrightarrow> (\<exists>x. m = Inr x \<and> f x = Inr y)"
  by (simp add: bindR_def split: sum.split)

lemma bindR_Inl_iff:
  "bindR m f = Inl e \<longleftrightarrow> m = Inl e \<or> (\<exists>x. m = Inr x \<and> f x = Inl e)"
  by (simp add: bindR_def split: sum.split)

lemma bindR_InrE:
  assumes "bindR m f = Inr y"
  obtains x where "m = Inr x" and "f x = Inr y"
  using assms by (auto simp: bindR_Inr_iff)

lemma bindR_assoc: "bindR (bindR m f) g = bindR m (\<lambda>x. bindR (f x) g)"
  by (simp add: bindR_def split: sum.split)

lemma bindR_cong [fundef_cong]:
  "m = m' \<Longrightarrow> (\<And>x. m' = Inr x \<Longrightarrow> f x = f' x) \<Longrightarrow> bindR m f = bindR m' f'"
  by (simp add: bindR_def split: sum.split)

lemma if_Inr_iff [res_simps]:
  "(if b then Inl e else m) = Inr y \<longleftrightarrow> \<not> b \<and> m = Inr y"
  "(if b then m else Inl e) = Inr y \<longleftrightarrow> b \<and> m = Inr y"
  by auto

lemma Some_eq_map_option: "Some y = map_option f z \<longleftrightarrow> (\<exists>x. z = Some x \<and> f x = y)"
  by (cases z) auto

section \<open>First-match scans of arrays\<close>

text \<open>
  The loop \<open>for (i = 0; i < n; i++) if (P(a[i])) return i;\<close> over an array of \<open>n\<close> entries.
\<close>

fun index_of :: "('a \<Rightarrow> bool) \<Rightarrow> 'a list \<Rightarrow> nat option" where
  "index_of P [] = None"
| "index_of P (x # xs) = (if P x then Some 0 else map_option Suc (index_of P xs))"

lemma index_of_None: "index_of P xs = None \<longleftrightarrow> (\<forall>x \<in> set xs. \<not> P x)"
  by (induction xs) auto

lemma index_of_NoneI: "\<forall>x \<in> set xs. \<not> P x \<Longrightarrow> index_of P xs = None"
  by (simp add: index_of_None)

lemma index_of_SomeD:
  "index_of P xs = Some i \<Longrightarrow> i < length xs \<and> P (xs ! i) \<and> (\<forall>j < i. \<not> P (xs ! j))"
proof (induction xs arbitrary: i)
  case (Cons x xs)
  show ?case
  proof (cases "P x")
    case False
    with Cons.prems obtain k where "index_of P xs = Some k" and "i = Suc k" by auto
    with Cons.IH [of k] False show ?thesis by (auto simp: nth_Cons split: nat.split)
  qed (use Cons.prems in auto)
qed simp

lemma index_of_append_old:
  "index_of P xs = Some i \<Longrightarrow> index_of P (xs @ ys) = Some i"
  by (induction xs arbitrary: i) (auto split: if_splits)

lemma index_of_append_new:
  "index_of P xs = None \<Longrightarrow> index_of P (xs @ ys) = map_option (\<lambda>k. length xs + k) (index_of P ys)"
  by (cases "index_of P ys"; induction xs) (auto simp: index_of_NoneI)

lemma index_of_map: "index_of P (map f xs) = index_of (\<lambda>x. P (f x)) xs"
  by (induction xs) auto

lemma index_of_append_none:
  "index_of P ys = None \<Longrightarrow> index_of P (xs @ ys) = index_of P xs"
  by (induction xs) auto

lemma index_of_update_other:
  "\<not> P (xs ! i) \<Longrightarrow> \<not> P y \<Longrightarrow> index_of P (xs[i := y]) = index_of P xs"
  by (induction xs arbitrary: i) (auto split: nat.split)

lemma index_of_update_here:
  "index_of P xs = None \<Longrightarrow> P y \<Longrightarrow> i < length xs \<Longrightarrow> index_of P (xs[i := y]) = Some i"
  by (induction xs arbitrary: i) (auto split: nat.split if_splits)

lemma index_ofI:
  "i < length xs \<Longrightarrow> P (xs ! i) \<Longrightarrow> (\<And>j. j < i \<Longrightarrow> \<not> P (xs ! j)) \<Longrightarrow> index_of P xs = Some i"
proof (induction xs arbitrary: i)
  case (Cons x xs)
  show ?case
  proof (cases i)
    case 0
    with Cons.prems show ?thesis by simp
  next
    case (Suc k)
    have "\<not> P x" using Cons.prems(3) [of 0] Suc by simp
    moreover have "index_of P xs = Some k"
    proof (rule Cons.IH)
      fix j
      assume "j < k"
      then show "\<not> P (xs ! j)" using Cons.prems(3) [of "Suc j"] Suc by simp
    qed (use Cons.prems Suc in auto)
    ultimately show ?thesis using Suc by simp
  qed
qed simp

lemma nth_update_if: "xs[i := y] ! j = (if i = j \<and> i < length xs then y else xs ! j)"
  by (induction xs arbitrary: i j) (auto simp: nth_Cons split: nat.split)

lemma map_of_update_nth:
  assumes "distinct (map f xs)" and "i < length xs" and "f y = f (xs ! i)"
  shows "map_of (map (\<lambda>e. (f e, g e)) (xs[i := y])) = (map_of (map (\<lambda>e. (f e, g e)) xs))(f y \<mapsto> g y)"
  using assms
proof (induction xs arbitrary: i)
  case (Cons x xs)
  show ?case
  proof (cases i)
    case 0
    with Cons.prems show ?thesis by (auto simp: fun_eq_iff)
  next
    case (Suc k)
    have "f y \<in> f ` set xs" using Cons.prems(2,3) Suc by auto
    with Cons.prems(1) have "f x \<noteq> f y" by auto
    with Cons.IH [of k] Cons.prems Suc show ?thesis by (auto simp: fun_upd_twist)
  qed
qed simp

section \<open>Strings of the C library\<close>

abbreviation NUL :: char where "NUL \<equiv> CHR 0x00"
abbreviation NL :: char where "NL \<equiv> CHR 0x0A"
abbreviation CR :: char where "CR \<equiv> CHR 0x0D"
abbreviation TAB :: char where "TAB \<equiv> CHR 0x09"
abbreviation BSL :: char where "BSL \<equiv> CHR 0x5C"

text \<open>The C string that starts at the first byte of a buffer ends before its first NUL.\<close>

definition cstr :: "string \<Rightarrow> string" where
  "cstr b = takeWhile (\<lambda>c. c \<noteq> NUL) b"

lemma cstr_name: "NUL \<notin> set name \<Longrightarrow> cstr (name @ NUL # rest) = name"
  unfolding cstr_def by (induction name) auto

definition dig :: "nat \<Rightarrow> char" where
  "dig d = ''0123456789'' ! d"

text \<open>Decimal output of an unsigned and of a signed number (the conversions %u, %d and %ld).\<close>

fun dec :: "nat \<Rightarrow> string" where
  "dec n = (if n < 10 then [dig n] else dec (n div 10) @ [dig (n mod 10)])"

declare dec.simps [simp del]

definition deci :: "int \<Rightarrow> string" where
  "deci z = (if z < 0 then CHR ''-'' # dec (nat (- z)) else dec (nat z))"

lemma dec_nonempty [simp]: "dec n \<noteq> []"
  by (subst dec.simps) simp

text \<open>Digits, and the length of decimal output.\<close>

definition digit_val :: "char \<Rightarrow> nat" where
  "digit_val c = of_char c - 48"

definition is_digit :: "char \<Rightarrow> bool" where
  "is_digit c \<longleftrightarrow> c \<in> set ''0123456789''"

lemma less_10_cases: "(d :: nat) < 10 \<Longrightarrow> d \<in> {0, 1, 2, 3, 4, 5, 6, 7, 8, 9}"
  by auto

lemma dig_facts: "d < 10 \<Longrightarrow> is_digit (dig d) \<and> digit_val (dig d) = d \<and> dig d \<noteq> CHR '' ''"
  by (drule less_10_cases) (auto simp: dig_def is_digit_def digit_val_def)

lemma dec_digits: "\<forall>c \<in> set (dec n). is_digit c"
  by (induction n rule: dec.induct) (subst dec.simps, auto simp: dig_facts)

lemma foldl_dec: "foldl (\<lambda>n c. 10 * n + digit_val c) 0 (dec n) = n"
  by (induction n rule: dec.induct) (subst dec.simps, auto simp: dig_facts)

lemma dec_not_NUL: "NUL \<notin> set (dec n)"
proof -
  have "\<not> is_digit NUL" by (simp add: is_digit_def)
  then show ?thesis using dec_digits [of n] by blast
qed

lemma length_dec: "0 < w \<Longrightarrow> n < 10 ^ w \<Longrightarrow> length (dec n) \<le> w"
proof (induction n arbitrary: w rule: dec.induct)
  case (1 n)
  show ?case
  proof (cases "n < 10")
    case True
    then show ?thesis using 1 by (subst dec.simps) simp
  next
    case False
    then obtain v where v: "w = Suc v" using 1(2) by (cases w) auto
    with False 1(3) have "0 < v" by (cases v) auto
    with v have v: "w = Suc v" "0 < v" by simp_all
    then have "n div 10 < 10 ^ v" using 1(3) by (simp add: less_mult_imp_div_less mult.commute)
    then have "length (dec (n div 10)) \<le> v" using 1(1) [OF False] v by blast
    then show ?thesis using False v by (subst dec.simps) simp
  qed
qed

text \<open>The range of int.\<close>

definition int_ok :: "int \<Rightarrow> bool" where
  "int_ok z \<longleftrightarrow> - (2 ^ 31) \<le> z \<and> z < 2 ^ 31"

text \<open>atoi of the C library; the value of a number that is no int is undefined.\<close>

definition int_or_ub :: "string \<Rightarrow> int \<Rightarrow> int res" where
  "int_or_ub w z = (if int_ok z then Inr z else Inl (UB w))"

definition atoi :: "string \<Rightarrow> int res" where
  "atoi s =
     (let t = dropWhile (\<lambda>c. c \<in> set '' '' \<or> c = TAB \<or> c = NL \<or> c = CR) s;
          neg = (t \<noteq> [] \<and> hd t = CHR ''-'');
          u = (if t \<noteq> [] \<and> (hd t = CHR ''-'' \<or> hd t = CHR ''+'') then tl t else t);
          v = int (foldl (\<lambda>n c. 10 * n + digit_val c) 0 (takeWhile is_digit u))
      in int_or_ub ''atoi'' (if neg then - v else v))"

lemma int_or_ub_ok: "int_or_ub w z = Inr n \<Longrightarrow> int_ok n"
  by (auto simp: int_or_ub_def split: if_splits)

lemma foldl_dec_atoi: "takeWhile is_digit (dec n) = dec n"
  using dec_digits [of n] by (simp add: takeWhile_eq_all_conv)

lemma is_digit_not: "is_digit c \<Longrightarrow> c \<noteq> CHR '' '' \<and> c \<noteq> TAB \<and> c \<noteq> NL \<and> c \<noteq> CR \<and> c \<noteq> CHR ''-'' \<and> c \<noteq> CHR ''+''"
  by (auto simp: is_digit_def)

text \<open>atoi reads back what %d printed.\<close>

lemma atoi_deci: "int_ok z \<Longrightarrow> atoi (deci z) = Inr z"
proof -
  assume z: "int_ok z"
  have d: "dec n \<noteq> []" "is_digit (hd (dec n))" for n using dec_digits [of n] by (simp_all add: list.set_sel(1))
  have h: "dropWhile (\<lambda>c. c \<in> set '' '' \<or> c = TAB \<or> c = NL \<or> c = CR) (dec n) = dec n" for n
    using d [of n] is_digit_not by (cases "dec n") auto
  have m: "hd (dec n) \<noteq> CHR ''-'' \<and> hd (dec n) \<noteq> CHR ''+''" for n using d [of n] is_digit_not by blast
  show ?thesis
  proof (cases "z < 0")
    case True
    then show ?thesis using z by (simp add: atoi_def deci_def foldl_dec_atoi foldl_dec int_or_ub_def Let_def)
  next
    case False
    then show ?thesis using z d m h by (simp add: atoi_def deci_def foldl_dec_atoi foldl_dec int_or_ub_def Let_def)
  qed
qed

text \<open>The white space that separates tokens, in bufargs.c and calld.h.\<close>

definition WHITE :: string where "WHITE = [CHR '' '', TAB, NL]"

text \<open>
  One call of strtok: leading delimiters are skipped, the token runs up to the next delimiter
  (which is overwritten by NUL) and the rest, after that delimiter, is what a following
  \<open>strtok(NULL, ...)\<close> continues with. \<open>None\<close> is the NULL result.
\<close>

definition strtok :: "string \<Rightarrow> string \<Rightarrow> (string \<times> string) option" where
  "strtok delims s =
     (let t = dropWhile (\<lambda>c. c \<in> set delims) s in
      if t = [] then None
      else Some (takeWhile (\<lambda>c. c \<notin> set delims) t,
                 drop 1 (dropWhile (\<lambda>c. c \<notin> set delims) t)))"

text \<open>
  One call of fgets with a buffer of \<open>n\<close> bytes on a file with these contents at this
  position: at most \<open>n - 1\<close> bytes, up to and with the first newline. \<open>None\<close> is the NULL
  result at end of file.
\<close>

fun take_line :: "nat \<Rightarrow> string \<Rightarrow> string" where
  "take_line 0 cs = []"
| "take_line (Suc k) [] = []"
| "take_line (Suc k) (c # cs) = c # (if c = NL then [] else take_line k cs)"

definition fgets :: "nat \<Rightarrow> string \<Rightarrow> nat \<Rightarrow> (string \<times> nat) option" where
  "fgets n content pos =
     (let rest = drop pos content in
      if rest = [] then None
      else (let l = take_line (n - 1) rest in Some (l, pos + length l)))"

lemma strtok_rest_shorter:
  "strtok d s = Some (t, r) \<Longrightarrow> length r < length s"
proof -
  assume a: "strtok d s = Some (t, r)"
  let ?u = "dropWhile (\<lambda>c. c \<in> set d) s"
  let ?v = "dropWhile (\<lambda>c. c \<notin> set d) ?u"
  from a have ne: "?u \<noteq> []" and r: "r = drop 1 ?v"
    by (auto simp: strtok_def Let_def split: if_splits)
  have "hd ?u \<notin> set d" using ne hd_dropWhile [of "\<lambda>c. c \<in> set d" s] by auto
  with ne have "length ?v < length ?u"
    by (cases ?u) (auto simp: le_imp_less_Suc length_dropWhile_le)
  moreover have "length ?u \<le> length s" by (rule length_dropWhile_le)
  ultimately show "length r < length s" by (simp add: r)
qed

lemma strtok_token:
  "strtok d s = Some (t, r) \<Longrightarrow> t \<noteq> [] \<and> (\<forall>c \<in> set t. c \<notin> set d)"
proof -
  assume a: "strtok d s = Some (t, r)"
  let ?u = "dropWhile (\<lambda>c. c \<in> set d) s"
  from a have ne: "?u \<noteq> []" and t: "t = takeWhile (\<lambda>c. c \<notin> set d) ?u"
    by (auto simp: strtok_def Let_def split: if_splits)
  have "hd ?u \<notin> set d" using ne hd_dropWhile [of "\<lambda>c. c \<in> set d" s] by auto
  with ne t show ?thesis by (cases ?u) (auto dest: set_takeWhileD)
qed

lemma take_line_nonempty: "0 < n \<Longrightarrow> s \<noteq> [] \<Longrightarrow> take_line n s \<noteq> []"
  by (cases n; cases s) auto

lemma length_take_line: "length (take_line n s) \<le> n"
  by (induction n s rule: take_line.induct) auto

lemma length_take_line_le: "length (take_line n s) \<le> length s"
  by (induction n s rule: take_line.induct) auto

lemma fgets_progress:
  assumes "fgets n c pos = Some (l, pos')" and "1 < n"
  shows "pos < pos' \<and> pos' \<le> length c \<and> length l < n"
proof -
  from assms have r: "drop pos c \<noteq> []" and l: "l = take_line (n - 1) (drop pos c)"
    and p: "pos' = pos + length l"
    by (auto simp: fgets_def Let_def split: if_splits)
  have "l \<noteq> []" unfolding l using take_line_nonempty [OF _ r, of "n - 1"] assms(2) by simp
  moreover have "length l \<le> length c - pos"
    using length_take_line_le [of "n - 1" "drop pos c"] by (simp add: l)
  moreover have "length l \<le> n - 1" unfolding l by (rule length_take_line)
  moreover have "pos < length c" using r by simp
  ultimately show ?thesis using p assms(2) by auto
qed

end
