(* ===== verification/BufArgs.thy ===== *)
theory BufArgs
  imports CPrelude
begin

text \<open>
  Splitting a request into an argument vector: lib.sun/bufargs.c. The user's function that gets
  the vector is a parameter. The vector is the list of its strings; its terminating NULL takes
  one of the MAXARGC entries.
\<close>

section \<open>Model\<close>

definition MAXARGC :: nat where "MAXARGC = 50"



text \<open>
  The loop over the remaining tokens: \<open>argv\<close> is what has been stored so far and \<open>argc\<close> its last
  index. \<open>None\<close> stands for the return of -1.
\<close>

function args_loop :: "string \<Rightarrow> nat \<Rightarrow> string list \<Rightarrow> (nat \<times> string list) option" where
  "args_loop rest argc argv =
     (case strtok WHITE rest of
        None \<Rightarrow> Some (argc + 1, argv)
      | Some (ptr, rest) \<Rightarrow>
          if MAXARGC - 1 \<le> argc + 1 then None else args_loop rest (argc + 1) (argv @ [ptr]))"
  by pat_completeness auto
termination
  by (relation "measure (\<lambda>(rest, argc, argv). length rest)") (auto dest: strtok_rest_shorter)

declare args_loop.simps [simp del]

text \<open>
  The first call of strtok overwrites the byte after the first token by NUL; \<open>argv[0]\<close> is the
  start of the buffer, which is not the token when the buffer begins with white space.
\<close>

definition buf_args :: "string \<Rightarrow> (nat \<Rightarrow> string list \<Rightarrow> 'u \<Rightarrow> int \<times> 'u) \<Rightarrow> 'u \<Rightarrow> int \<times> 'u" where
  "buf_args buf optfunc u =
     (case strtok WHITE (cstr buf) of
        None \<Rightarrow> (-1, u)
      | Some (tok, rest) \<Rightarrow>
          (let argv0 = takeWhile (\<lambda>c. c \<in> set WHITE) (cstr buf) @ tok in
           case args_loop rest 0 [argv0] of
             None \<Rightarrow> (-1, u)
           | Some (argc, argv) \<Rightarrow> optfunc argc argv u))"

text \<open>What is left in the buffer as a C string when buf_args is done with it.\<close>

definition buf_left :: "string \<Rightarrow> string" where
  "buf_left buf = takeWhile (\<lambda>c. c \<in> set WHITE) (cstr buf)
     @ (case strtok WHITE (cstr buf) of None \<Rightarrow> [] | Some (tok, _) \<Rightarrow> tok)"

section \<open>Specification: the words of a string\<close>

function words :: "string \<Rightarrow> string list" where
  "words s = (case strtok WHITE s of None \<Rightarrow> [] | Some (t, r) \<Rightarrow> t # words r)"
  by pat_completeness auto
termination
  by (relation "measure length") (auto dest: strtok_rest_shorter)

declare words.simps [simp del]

lemma args_loop_words:
  "argc + 1 = length argv \<Longrightarrow> length argv \<le> MAXARGC - 1 \<Longrightarrow> args_loop rest argc argv =
     (if length argv + length (words rest) \<le> MAXARGC - 1
      then Some (length argv + length (words rest), argv @ words rest) else None)"
proof (induction rest argc argv rule: args_loop.induct)
  case (1 rest argc argv)
  show ?case
  proof (cases "strtok WHITE rest")
    case None
    then show ?thesis using "1.prems" by (simp add: args_loop.simps [of rest] words.simps [of rest])
  next
    case (Some tr)
    obtain t r where tr: "tr = (t, r)" by (cases tr)
    show ?thesis
    proof (cases "MAXARGC - 1 \<le> argc + 1")
      case True
      then show ?thesis using Some tr "1.prems" by (simp add: args_loop.simps [of rest] words.simps [of rest])
    next
      case False
      from "1.IH" [OF Some tr [symmetric] False] False Some tr "1.prems" show ?thesis
        by (simp add: args_loop.simps [of rest] words.simps [of rest])
    qed
  qed
qed

lemma strtok_takeWhile:
  assumes "s \<noteq> []" and "hd s \<notin> set d"
  shows "takeWhile (\<lambda>c. c \<in> set d) s = []"
  using assms by (cases s) auto

text \<open>The words of a string that is put together with white space.\<close>

lemma words_empty [simp]: "words [] = []"
  by (simp add: words.simps [of "[]"] strtok_def)

lemma words_white: "w \<in> set WHITE \<Longrightarrow> words (w # s) = words s"
  by (simp add: words.simps [of "w # s"] words.simps [of s] strtok_def)

lemma words_one: "x \<noteq> [] \<Longrightarrow> \<forall>c \<in> set x. c \<notin> set WHITE \<Longrightarrow> words x = [x]"
proof -
  assume x: "x \<noteq> []" "\<forall>c \<in> set x. c \<notin> set WHITE"
  have d: "dropWhile (\<lambda>c. c \<in> set WHITE) x = x" using x by (cases x) auto
  have t: "takeWhile (\<lambda>c. c \<notin> set WHITE) x = x" "dropWhile (\<lambda>c. c \<notin> set WHITE) x = []" using x(2) by simp_all
  have "strtok WHITE x = Some (x, [])" unfolding strtok_def Let_def d t using x(1) by simp
  then show ?thesis by (simp add: words.simps [of x])
qed

lemma words_first:
  assumes x: "x \<noteq> []" "\<forall>c \<in> set x. c \<notin> set WHITE" and w: "w \<in> set WHITE"
  shows "words (x @ w # s) = x # words s"
proof -
  have "dropWhile (\<lambda>c. c \<in> set WHITE) (x @ w # s) = x @ w # s" using x by (cases x) auto
  moreover have "takeWhile (\<lambda>c. c \<notin> set WHITE) (x @ w # s) = x" "dropWhile (\<lambda>c. c \<notin> set WHITE) (x @ w # s) = w # s"
    using x(2) w by (simp_all add: takeWhile_append dropWhile_append)
  ultimately show ?thesis using x(1) by (simp add: words.simps [of "x @ w # s"] strtok_def)
qed

lemma words_sep: "w \<in> set WHITE \<Longrightarrow> words (s @ w # t) = words s @ words t"
proof (induction "length s" arbitrary: s rule: less_induct)
  case less
  show ?case
  proof (cases s)
    case Nil
    then show ?thesis using less.prems by (simp add: words_white)
  next
    case (Cons c s')
    show ?thesis
    proof (cases "c \<in> set WHITE")
      case True
      then show ?thesis using Cons less.hyps [of s'] less.prems by (simp add: words_white)
    next
      case False
      let ?x = "takeWhile (\<lambda>c. c \<notin> set WHITE) s" and ?y = "dropWhile (\<lambda>c. c \<notin> set WHITE) s"
      have x: "?x \<noteq> []" "\<forall>c \<in> set ?x. c \<notin> set WHITE" using False Cons by (auto dest: set_takeWhileD)
      show ?thesis
      proof (cases ?y)
        case Nil
        then have s: "s = ?x" by (metis append_Nil2 takeWhile_dropWhile_id)
        have "words (?x @ w # t) = ?x # words t" by (rule words_first [OF x less.prems])
        moreover have "words ?x = [?x]" by (rule words_one [OF x])
        ultimately show ?thesis using s by simp
      next
        case (Cons v y)
        then have v: "v \<in> set WHITE" using hd_dropWhile [of "\<lambda>c. c \<notin> set WHITE" s] by simp
        have s: "s = ?x @ v # y" using takeWhile_dropWhile_id [of "\<lambda>c. c \<notin> set WHITE" s] Cons by simp
        then have "length y < length s" by (metis add_Suc_right length_Cons length_append less_add_Suc2)
        then have IH: "words (y @ w # t) = words y @ words t" using less.hyps less.prems by blast
        have "words (?x @ v # (y @ w # t)) = ?x # words y @ words t" using words_first [OF x v] IH by simp
        moreover have "words (?x @ v # y) = ?x # words y" using words_first [OF x v] .
        ultimately show ?thesis using s by (metis append.assoc append_Cons)
      qed
    qed
  qed
qed

section \<open>Properties\<close>

text \<open>
  for a buffer that does not begin with white space, buf_args calls the user's function with
  exactly the words of the string and their number, and returns what it returns; it returns -1
  without calling it exactly when there is no word or there are more than 49 of them.
\<close>

theorem buf_args_words:
  assumes "cstr buf = [] \<or> hd (cstr buf) \<notin> set WHITE"
  shows "buf_args buf f u =
    (let ws = words (cstr buf) in if ws = [] \<or> MAXARGC - 1 < length ws then (-1, u) else f (length ws) ws u)"
proof (cases "strtok WHITE (cstr buf)")
  case None
  then show ?thesis by (simp add: buf_args_def words.simps [of "cstr buf"])
next
  case (Some tr)
  obtain t r where tr: "tr = (t, r)" by (cases tr)
  have "cstr buf \<noteq> []" using Some by (auto simp: strtok_def)
  then have "takeWhile (\<lambda>c. c \<in> set WHITE) (cstr buf) = []" using assms by (simp add: strtok_takeWhile)
  then show ?thesis using Some tr args_loop_words [of 0 "[t]" r]
    by (auto simp: buf_args_def words.simps [of "cstr buf"] MAXARGC_def Let_def)
qed

theorem buf_args_words_witness:
  "buf_args (''call  -d host'' @ [NUL]) (\<lambda>argc argv u. (int argc, argv)) [] = (3, [''call'', ''-d'', ''host''])"
  by (subst buf_args_words) (simp_all add: cstr_def WHITE_def words.simps strtok_def MAXARGC_def Let_def)

text \<open>
  after leading white space \<open>argv[0]\<close> is not the first word: the white space stays in front
  of it, although the comment says that the vector holds the arguments.
\<close>

theorem buf_args_leading_space:
  assumes "w \<in> set WHITE" and "strtok WHITE (cstr buf) = Some (t, r)" and "length (words (cstr buf)) < MAXARGC"
    and "hd (cstr buf) \<notin> set WHITE"
  shows "buf_args (w # buf) f u = f (length (words (cstr buf))) ((w # t) # words r) u"
proof -
  have w: "w \<noteq> NUL" using assms(1) by (auto simp: WHITE_def)
  have ne: "cstr buf \<noteq> []" using assms(2) by (auto simp: strtok_def)
  have "cstr (w # buf) = w # cstr buf" using w by (simp add: cstr_def)
  moreover from this have "strtok WHITE (cstr (w # buf)) = Some (t, r)" using assms(1,2) by (simp add: strtok_def)
  moreover have "takeWhile (\<lambda>c. c \<in> set WHITE) (w # cstr buf) = [w]"
    using strtok_takeWhile [OF ne assms(4)] assms(1) by simp
  ultimately show ?thesis using assms(2,3) args_loop_words [of 0 "[w # t]" r]
    by (auto simp: buf_args_def words.simps [of "cstr buf"] MAXARGC_def Let_def)
qed

theorem buf_args_leading_space_witness:
  "buf_args ('' call x'' @ [NUL]) (\<lambda>argc argv u. (int argc, argv)) [] = (2, ['' call'', ''x''])"
  using buf_args_leading_space [of "CHR '' ''" "''call x'' @ [NUL]" "''call''" "''x''" "\<lambda>argc argv u. (int argc, argv)" "[]"]
  by (simp add: cstr_def WHITE_def words.simps strtok_def MAXARGC_def)

end
