(* ===== verification/ErrLog.thy ===== *)
theory ErrLog
  imports CPrelude
begin

text \<open>
  The error routines of the library: lib.sun/error.c (err_doit and its five front ends, for
  programs with a terminal) and lib.sun/errorlog.c (log_doit and its front ends, for daemons).
  The message argument is the text that \<open>vsprintf(buf, fmt, ap)\<close> produces from the caller's
  format and arguments; the text of \<open>strerror(errno)\<close> is a field of the state. A front end
  that calls \<open>exit\<close> or \<open>abort\<close> has no value to return: its result is always \<open>Inl\<close>.
\<close>

section \<open>The process state the routines write to\<close>

record proc_io =
  debug :: int
  errno_text :: string
  stderr_out :: string
  syslog_out :: "(nat \<times> string) list"
  heap :: nat \<comment> \<open>how many further calls of malloc and realloc succeed\<close>

definition MAXLINE :: nat where "MAXLINE = 4096"
definition LOG_ERR :: nat where "LOG_ERR = 3"

text \<open>A failing allocation returns NULL: here \<open>None\<close>.\<close>

definition malloc :: "'a proc_io_scheme \<Rightarrow> 'a proc_io_scheme option" where
  "malloc s = (if heap s = 0 then None else Some (s\<lparr>heap := heap s - 1\<rparr>))"

section \<open>error.c\<close>

text \<open>
  The line is built in \<open>char buf[MAXLINE]\<close> with vsprintf, sprintf and strcat, none of which
  knows the size of the buffer: a text that does not fit with its terminating NUL writes past
  the end of the array.
\<close>

definition err_doit :: "bool \<Rightarrow> string \<Rightarrow> 'a proc_io_scheme \<Rightarrow> 'a proc_io_scheme res" where
  "err_doit errnoflag msg s =
     (let buf = msg @ (if errnoflag then '': '' @ errno_text s else []) @ [NL] in
      if MAXLINE < length buf + 1 then Inl (UB ''err_doit: buf overflow'')
      else Inr (s\<lparr>stderr_out := stderr_out s @ buf\<rparr>))"

definition err_ret :: "string \<Rightarrow> 'a proc_io_scheme \<Rightarrow> 'a proc_io_scheme res" where
  "err_ret msg s = err_doit True msg s"

definition err_sys :: "string \<Rightarrow> 'a proc_io_scheme \<Rightarrow> 'b res" where
  "err_sys msg s = bindR (err_doit True msg s) (\<lambda>_. Inl (Exit 1 msg))"

definition err_dump :: "string \<Rightarrow> 'a proc_io_scheme \<Rightarrow> 'b res" where
  "err_dump msg s = bindR (err_doit True msg s) (\<lambda>_. Inl (Abort msg))"

definition err_msg :: "string \<Rightarrow> 'a proc_io_scheme \<Rightarrow> 'a proc_io_scheme res" where
  "err_msg msg s = err_doit False msg s"

definition err_quit :: "string \<Rightarrow> 'a proc_io_scheme \<Rightarrow> 'b res" where
  "err_quit msg s = bindR (err_doit False msg s) (\<lambda>_. Inl (Exit 1 msg))"

section \<open>errorlog.c\<close>

text \<open>
  When the process runs as a daemon the finished line is passed to syslog as its \<^emph>\<open>format\<close>
  (\<open>syslog(priority, buf)\<close>): \<open>%m\<close> is replaced by the errno text, \<open>%%\<close> by a percent
  sign, and any other conversion fetches an argument that was never passed.
\<close>

fun syslog_format :: "string \<Rightarrow> string \<Rightarrow> string option" where
  "syslog_format e [] = Some []"
| "syslog_format e [c] = (if c = CHR ''%'' then None else Some [c])"
| "syslog_format e (c # d # cs) =
     (if c \<noteq> CHR ''%'' then map_option ((#) c) (syslog_format e (d # cs))
      else if d = CHR ''m'' then map_option ((@) e) (syslog_format e cs)
      else if d = CHR ''%'' then map_option ((#) d) (syslog_format e cs)
      else None)"

definition log_doit :: "bool \<Rightarrow> nat \<Rightarrow> string \<Rightarrow> 'a proc_io_scheme \<Rightarrow> 'a proc_io_scheme res" where
  "log_doit errnoflag priority msg s =
     (let buf = msg @ (if errnoflag then '': '' @ errno_text s else []) @ [NL] in
      if MAXLINE < length buf + 1 then Inl (UB ''log_doit: buf overflow'')
      else if debug s \<noteq> 0 then Inr (s\<lparr>stderr_out := stderr_out s @ buf\<rparr>)
      else (case syslog_format (errno_text s) buf of
              None \<Rightarrow> Inl (UB ''syslog: conversion without argument'')
            | Some line \<Rightarrow> Inr (s\<lparr>syslog_out := syslog_out s @ [(priority, line)]\<rparr>)))"

definition log_ret :: "string \<Rightarrow> 'a proc_io_scheme \<Rightarrow> 'a proc_io_scheme res" where
  "log_ret msg s = log_doit True LOG_ERR msg s"

definition log_sys :: "string \<Rightarrow> 'a proc_io_scheme \<Rightarrow> 'b res" where
  "log_sys msg s = bindR (log_doit True LOG_ERR msg s) (\<lambda>_. Inl (Exit 2 msg))"

definition log_msg :: "string \<Rightarrow> 'a proc_io_scheme \<Rightarrow> 'a proc_io_scheme res" where
  "log_msg msg s = log_doit False LOG_ERR msg s"

definition log_quit :: "string \<Rightarrow> 'a proc_io_scheme \<Rightarrow> 'b res" where
  "log_quit msg s = bindR (log_doit False LOG_ERR msg s) (\<lambda>_. Inl (Exit 2 msg))"

section \<open>Facts the callers use\<close>

lemma fatal_not_Inr [simp]:
  "err_sys m s \<noteq> Inr x" "err_dump m s \<noteq> Inr x" "err_quit m s \<noteq> Inr x"
  "log_sys m s \<noteq> Inr x" "log_quit m s \<noteq> Inr x"
  by (auto simp: err_sys_def err_dump_def err_quit_def log_sys_def log_quit_def bindR_Inr_iff)

lemma fatal_Inl: "\<exists>e. log_sys m s = Inl e" "\<exists>e. log_quit m s = Inl e"
  by (metis fatal_not_Inr sum.exhaust)+

lemma fatal_bindR [simp]:
  "bindR (err_sys m s) f = err_sys m s" "bindR (err_quit m s) f = err_quit m s"
  "bindR (log_sys m s) f = log_sys m s" "bindR (log_quit m s) f = log_quit m s"
  by (simp_all add: err_sys_def err_quit_def log_sys_def log_quit_def bindR_assoc)

lemma syslog_format_plain: "CHR ''%'' \<notin> set m \<Longrightarrow> syslog_format e m = Some m"
  by (induction e m rule: syslog_format.induct) auto

text \<open>The routines that return change nothing but the two output streams.\<close>

lemma log_msg_frame:
  "log_msg m s = Inr s' \<Longrightarrow> \<exists>e l. s' = s\<lparr>stderr_out := e, syslog_out := l\<rparr>"
  by (cases s) (auto simp: log_msg_def log_doit_def Let_def split: if_splits option.splits)

lemma err_msg_frame:
  "err_ret m s = Inr s' \<or> err_msg m s = Inr s' \<Longrightarrow> \<exists>e. s' = s\<lparr>stderr_out := e\<rparr>"
  by (auto simp: err_ret_def err_msg_def err_doit_def Let_def split: if_splits)

lemma log_msg_ok:
  "length m + 2 \<le> MAXLINE \<Longrightarrow> CHR ''%'' \<notin> set m \<Longrightarrow> \<exists>s'. log_msg m s = Inr s'"
  by (auto simp: log_msg_def log_doit_def Let_def syslog_format_plain)

lemma malloc_frame: "malloc s = Some s' \<Longrightarrow> s' = s\<lparr>heap := heap s - 1\<rparr> \<and> 0 < heap s"
  by (auto simp: malloc_def split: if_splits)

section \<open>Properties\<close>

text \<open>
  what log_msg does in a daemon. It returns exactly when the text with its newline and NUL
  fits the buffer of MAXLINE bytes and contains no conversion that syslog would look up an
  argument for; then one line is added to the log and nothing else changes. Otherwise the
  behaviour is undefined.
\<close>

theorem log_msg_daemon:
  assumes "debug s = 0"
  shows "log_msg m s =
    (case syslog_format (errno_text s) (m @ [NL]) of
       Some l \<Rightarrow> (if length m + 2 \<le> MAXLINE then Inr (s\<lparr>syslog_out := syslog_out s @ [(LOG_ERR, l)]\<rparr>)
                  else Inl (UB ''log_doit: buf overflow''))
     | None \<Rightarrow> Inl (UB (if length m + 2 \<le> MAXLINE then ''syslog: conversion without argument''
                        else ''log_doit: buf overflow'')))"
  using assms by (auto simp: log_msg_def log_doit_def Let_def split: option.split)

theorem log_msg_daemon_witness:
  "log_msg ''ab'' \<lparr>debug = 0, errno_text = [], stderr_out = [], syslog_out = [], heap = 0\<rparr> =
     Inr \<lparr>debug = 0, errno_text = [], stderr_out = [], syslog_out = [(3, ''ab'' @ [NL])], heap = 0\<rparr>"
  by (subst log_msg_daemon) (simp_all add: MAXLINE_def LOG_ERR_def)

end
