(* ===== verification/ByteIO.thy ===== *)
theory ByteIO
  imports ErrLog
begin

text \<open>
  Reading and writing exactly \<open>n\<close> bytes on a descriptor: lib.sun/readn.c and lib.sun/writen.c.
  What the kernel does with the next calls of read, write and sendmsg is part of the state: a
  queue of events per descriptor for read, one queue of results for the output calls. The
  counters of both routines have the unsigned type size_t, here a word of 32 bits.
\<close>

section \<open>The kernel's side\<close>

text \<open>
  A \<open>Data\<close> event is what has arrived and may be taken in pieces; an exhausted queue is end of
  file. A \<open>Wrote k\<close> event accepts \<open>k\<close> bytes, or all there are if there are fewer; an
  exhausted queue accepts everything.
\<close>

datatype rd_event = Data string | RdError
datatype wr_event = Wrote nat | WrError

text \<open>\<open>fd_out\<close> lists what was sent on each descriptor: the bytes and a passed descriptor.\<close>

record byte_io = proc_io +
  rd_env :: "int \<Rightarrow> rd_event list"
  wr_env :: "wr_event list"
  fd_out :: "int \<Rightarrow> (string \<times> int option) list"

fun read_ev :: "nat \<Rightarrow> rd_event list \<Rightarrow> string option \<times> rd_event list" where
  "read_ev n [] = (Some [], [])"
| "read_ev n (RdError # es) = (None, es)"
| "read_ev n (Data bs # es) =
     (if n < length bs then (Some (take n bs), Data (drop n bs) # es) else (Some bs, es))"

definition write_call :: "int \<Rightarrow> string \<Rightarrow> int option \<Rightarrow> 'a byte_io_scheme \<Rightarrow> int \<times> 'a byte_io_scheme" where
  "write_call fd bs rights s =
     (case wr_env s of
        WrError # es \<Rightarrow> (-1, s\<lparr>wr_env := es\<rparr>)
      | Wrote k # es \<Rightarrow> (int (min k (length bs)),
          s\<lparr>wr_env := es, fd_out := (fd_out s)(fd := fd_out s fd @ [(take k bs, rights)])\<rparr>)
      | [] \<Rightarrow> (int (length bs), s\<lparr>fd_out := (fd_out s)(fd := fd_out s fd @ [(bs, rights)])\<rparr>))"

section \<open>writen.c\<close>

text \<open>
  The buffer is the argument \<open>buf\<close>, the pointer an offset into it. The result of write is
  assigned to the unsigned \<open>nwritten\<close>, so that the test \<open>nwritten <= 0\<close> only sees 0; a failed
  call makes \<open>nleft\<close> grow and the pointer go back by one. The loop ends because every round
  consumes an event or accepts all that is left.
\<close>

definition wr_slice :: "string \<Rightarrow> int \<Rightarrow> nat \<Rightarrow> string option" where
  "wr_slice buf p k = (if p < 0 \<or> length buf < nat p + k then None else Some (take k (drop (nat p) buf)))"

function writen_loop :: "int \<Rightarrow> string \<Rightarrow> 32 word \<Rightarrow> int \<Rightarrow> 32 word \<Rightarrow> 'a byte_io_scheme
    \<Rightarrow> (int \<times> 'a byte_io_scheme) res" where
  "writen_loop fd buf n ptr nleft s =
     (if 0 < nleft then
        (case wr_slice buf ptr (unat nleft) of
           None \<Rightarrow> Inl (UB ''writen: outside the buffer'')
         | Some bs \<Rightarrow>
             (let (r, s') = write_call fd bs None s; nwritten = word_of_int r :: 32 word in
              if nwritten \<le> 0 then Inr (sint nwritten, s')
              else writen_loop fd buf n (ptr + sint nwritten) (nleft - nwritten) s'))
      else Inr (sint n, s))"
  by pat_completeness auto
termination
proof (relation "measure (\<lambda>(fd, buf, n, ptr, nleft, s). 2 * length (wr_env s) + (if nleft = 0 then 0 else 1))", simp)
  fix fd :: int and buf bs and n nleft nw :: "32 word" and ptr r :: int and s s' :: "'a byte_io_scheme" and x
  assume nl: "0 < nleft" and sl: "wr_slice buf ptr (unat nleft) = Some bs"
    and x: "x = write_call fd bs None s" "(r, s') = x" and nw: "nw = word_of_int r" "\<not> nw \<le> 0"
  have "wr_env s = [] \<Longrightarrow> r = int (unat nleft)"
    using x sl by (auto simp: write_call_def wr_slice_def split: if_splits)
  then have "wr_env s = [] \<Longrightarrow> nleft - nw = 0" using nw by simp
  moreover have "wr_env s \<noteq> [] \<Longrightarrow> length (wr_env s') < length (wr_env s)"
    using x by (auto simp: write_call_def split: list.splits wr_event.splits)
  moreover have "wr_env s = [] \<Longrightarrow> wr_env s' = []" using x by (auto simp: write_call_def)
  ultimately show "((fd, buf, n, ptr + sint nw, nleft - nw, s'), fd, buf, n, ptr, nleft, s)
      \<in> measure (\<lambda>(fd, buf, n, ptr, nleft, s). 2 * length (wr_env s) + (if nleft = 0 then 0 else 1))"
    using nl by (cases "wr_env s") auto
qed

declare writen_loop.simps [simp del]

definition writen :: "int \<Rightarrow> string \<Rightarrow> nat \<Rightarrow> 'a byte_io_scheme \<Rightarrow> (int \<times> 'a byte_io_scheme) res" where
  "writen fd buf n s = writen_loop fd buf (of_nat n) 0 (of_nat n) s"

section \<open>readn.c\<close>

text \<open>
  The caller's buffer is a list of bytes; storing outside it is undefined. As in writen, a
  failed read is not recognised: \<open>nread\<close> is unsigned.
\<close>

definition put_bytes :: "string \<Rightarrow> int \<Rightarrow> string \<Rightarrow> string option" where
  "put_bytes buf p bs = (if p < 0 \<or> length buf < nat p + length bs then None
     else Some (take (nat p) buf @ bs @ drop (nat p + length bs) buf))"

fun ev_size :: "rd_event list \<Rightarrow> nat" where
  "ev_size [] = 0"
| "ev_size (RdError # es) = Suc (ev_size es)"
| "ev_size (Data bs # es) = Suc (length bs) + ev_size es"

lemma read_ev_decreases:
  "0 < n \<Longrightarrow> read_ev n es = (r, es') \<Longrightarrow> es = [] \<or> ev_size es' < ev_size es"
  by (induction n es rule: read_ev.induct) (auto split: if_splits)

lemma read_ev_length: "read_ev n es = (Some bs, es') \<Longrightarrow> length bs \<le> n"
  by (induction n es rule: read_ev.induct) (auto split: if_splits)

definition read_call :: "int \<Rightarrow> nat \<Rightarrow> 'a byte_io_scheme \<Rightarrow> string option \<times> 'a byte_io_scheme" where
  "read_call fd n s = (let (r, es) = read_ev n (rd_env s fd) in (r, s\<lparr>rd_env := (rd_env s)(fd := es)\<rparr>))"

function readn_loop :: "int \<Rightarrow> 32 word \<Rightarrow> int \<Rightarrow> 32 word \<Rightarrow> string \<Rightarrow> 'a byte_io_scheme
    \<Rightarrow> (int \<times> string \<times> 'a byte_io_scheme) res" where
  "readn_loop fd n ptr nleft buf s =
     (if 0 < nleft then
        (let (r, s') = read_call fd (unat nleft) s;
             nread = (case r of None \<Rightarrow> -1 | Some bs \<Rightarrow> of_nat (length bs)) :: 32 word in
         case put_bytes buf ptr (case r of None \<Rightarrow> [] | Some bs \<Rightarrow> bs) of
           None \<Rightarrow> Inl (UB ''readn: outside the buffer'')
         | Some buf' \<Rightarrow>
             if nread < 0 then Inr (sint nread, buf', s')
             else if nread = 0 then Inr (sint (n - nleft), buf', s')
             else readn_loop fd n (ptr + sint nread) (nleft - nread) buf' s')
      else Inr (sint (n - nleft), buf, s))"
  by pat_completeness auto
termination
proof (relation "measure (\<lambda>(fd, n, ptr, nleft, buf, s). ev_size (rd_env s fd))", simp)
  fix fd :: int and n nleft nread :: "32 word" and ptr :: int and buf buf' and r :: "string option" and s s' :: "'a byte_io_scheme" and x
  assume nl: "0 < nleft" and x: "x = read_call fd (unat nleft) s" "(r, s') = x"
    and nr: "nread = (case r of None \<Rightarrow> -1 | Some bs \<Rightarrow> of_nat (length bs))" "nread \<noteq> 0"
  have ne: "r \<noteq> Some []" using nr by auto
  have "0 < unat nleft" using nl by (simp add: word_less_nat_alt)
  moreover obtain es where "read_ev (unat nleft) (rd_env s fd) = (r, es)" and "rd_env s' fd = es"
    using x by (auto simp: read_call_def split: prod.splits)
  ultimately have "ev_size (rd_env s' fd) < ev_size (rd_env s fd)"
    using read_ev_decreases [of "unat nleft" "rd_env s fd" r es] ne by auto
  then show "((fd, n, ptr + sint nread, nleft - nread, buf', s'), fd, n, ptr, nleft, buf, s)
      \<in> measure (\<lambda>(fd, n, ptr, nleft, buf, s). ev_size (rd_env s fd))" by simp
qed

declare readn_loop.simps [simp del]

definition readn :: "int \<Rightarrow> nat \<Rightarrow> string \<Rightarrow> 'a byte_io_scheme \<Rightarrow> (int \<times> string \<times> 'a byte_io_scheme) res" where
  "readn fd n buf s = readn_loop fd (of_nat n) 0 (of_nat n) buf s"

section \<open>What the routines do\<close>

definition sent :: "'a byte_io_scheme \<Rightarrow> int \<Rightarrow> string" where
  "sent s fd = concat (map fst (fd_out s fd))"

text \<open>
  Frames: two states with the same \<open>wr_core\<close> differ only in the output side of the kernel.
\<close>

definition wr_core :: "'a byte_io_scheme \<Rightarrow> 'a byte_io_scheme" where
  "wr_core s = s\<lparr>wr_env := [], fd_out := (\<lambda>_. [])\<rparr>"

lemma write_call_core: "wr_core (snd (write_call fd bs r s)) = wr_core s"
  by (simp add: write_call_def wr_core_def split: list.split wr_event.split)

lemma writen_loop_core:
  "writen_loop fd buf n ptr nleft s = Inr (r, s') \<Longrightarrow> wr_core s' = wr_core s"
proof (induction fd buf n ptr nleft s arbitrary: r s' rule: writen_loop.induct)
  case (1 fd buf n ptr nleft s)
  show ?case
  proof (cases "0 < nleft")
    case True
    with "1.prems" obtain bs where bs: "wr_slice buf ptr (unat nleft) = Some bs"
      by (auto simp: writen_loop.simps [of fd buf n ptr nleft s] split: option.splits)
    obtain k s1 where w: "write_call fd bs None s = (k, s1)" by (cases "write_call fd bs None s")
    have c: "wr_core s1 = wr_core s" using write_call_core [of fd bs None s] w by simp
    show ?thesis
    proof (cases "(word_of_int k :: 32 word) \<le> 0")
      case True
      then show ?thesis using "1.prems" \<open>0 < nleft\<close> bs w c
        by (simp add: writen_loop.simps [of fd buf n ptr nleft s] Let_def)
    next
      case False
      then have "writen_loop fd buf n (ptr + sint (word_of_int k :: 32 word)) (nleft - word_of_int k) s1 = Inr (r, s')"
        using "1.prems" \<open>0 < nleft\<close> bs w by (simp add: writen_loop.simps [of fd buf n ptr nleft s] Let_def)
      from "1.IH" [OF True bs w [symmetric] refl refl False this] c show ?thesis by simp
    qed
  qed (use "1.prems" in \<open>simp add: writen_loop.simps [of fd buf n ptr nleft s]\<close>)
qed

lemma writen_core: "writen fd buf n s = Inr (r, s') \<Longrightarrow> wr_core s' = wr_core s"
  by (auto simp: writen_def dest: writen_loop_core)

definition accepting :: "wr_event list \<Rightarrow> bool" where
  "accepting es \<longleftrightarrow> (\<forall>e \<in> set es. \<exists>k > 0. e = Wrote k)"

text \<open>One call of write on a kernel that accepts something.\<close>

lemma write_call_accepting:
  assumes "accepting (wr_env s)" and "bs \<noteq> []"
  obtains k s' where "write_call fd bs None s = (int k, s')" and "0 < k" and "k \<le> length bs"
    and "accepting (wr_env s')" and "sent s' fd = sent s fd @ take k bs"
    and "\<forall>g. g \<noteq> fd \<longrightarrow> fd_out s' g = fd_out s g"
proof (cases "wr_env s")
  case Nil
  show ?thesis
    by (rule that [of "length bs" "s\<lparr>fd_out := (fd_out s)(fd := fd_out s fd @ [(bs, None)])\<rparr>"])
       (use assms Nil in \<open>simp_all add: write_call_def sent_def accepting_def\<close>)
next
  case (Cons e es)
  with assms(1) obtain j where j: "e = Wrote j" "0 < j" by (auto simp: accepting_def)
  show ?thesis
    by (rule that [of "min j (length bs)" "s\<lparr>wr_env := es, fd_out := (fd_out s)(fd := fd_out s fd @ [(take j bs, None)])\<rparr>"])
       (use assms Cons j in \<open>simp_all add: write_call_def sent_def accepting_def min_def\<close>)
qed

text \<open>Small counts are read back from the 32-bit counters.\<close>

lemma of_nat_32:
  assumes "k < 2 ^ 31"
  shows "unat (word_of_nat k :: 32 word) = k" and "sint (word_of_nat k :: 32 word) = int k"
proof -
  show u: "unat (word_of_nat k :: 32 word) = k" using assms by (simp add: unat_of_nat)
  have "uint (word_of_nat k :: 32 word) = int k" using u by (simp add: uint_nat)
  then show "sint (word_of_nat k :: 32 word) = int k"
    using assms by (simp add: sint_uint signed_take_bit_int_eq_self_iff)
qed

lemma writen_loop_ok:
  assumes "accepting (wr_env s)" and "p + unat nleft = length buf" and "length buf < 2 ^ 31"
  shows "\<exists>s'. writen_loop fd buf n (int p) nleft s = Inr (sint n, s') \<and> accepting (wr_env s')
    \<and> sent s' fd = sent s fd @ drop p buf \<and> (\<forall>g. g \<noteq> fd \<longrightarrow> fd_out s' g = fd_out s g)"
  using assms
proof (induction "unat nleft" arbitrary: nleft p s rule: less_induct)
  case less
  show ?case
  proof (cases "nleft = 0")
    case True
    then show ?thesis using less.prems by (simp add: writen_loop.simps)
  next
    case False
    then have pos: "0 < unat nleft" by (simp add: unat_gt_0)
    let ?bs = "drop p buf"
    have bs: "wr_slice buf (int p) (unat nleft) = Some ?bs" and ne: "?bs \<noteq> []" and len: "length ?bs = unat nleft"
      using less.prems pos by (auto simp: wr_slice_def)
    obtain k s1 where w: "write_call fd ?bs None s = (int k, s1)" and k: "0 < k" "k \<le> unat nleft"
      and s1: "accepting (wr_env s1)" "sent s1 fd = sent s fd @ take k ?bs"
        "\<forall>g. g \<noteq> fd \<longrightarrow> fd_out s1 g = fd_out s g"
      by (rule write_call_accepting [OF less.prems(1) ne, of fd]) (use len in auto)
    have "k < 2 ^ 31" using k less.prems(2,3) by linarith
    note uk = of_nat_32 [OF this]
    have nz: "\<not> (word_of_nat k :: 32 word) \<le> 0" using uk(1) k by (auto simp: word_le_nat_alt)
    have sub: "unat (nleft - word_of_nat k) = unat nleft - k"
      using k uk(1) by (subst unat_sub) (auto simp: word_le_nat_alt)
    have step: "writen_loop fd buf n (int p) nleft s = writen_loop fd buf n (int (p + k)) (nleft - word_of_nat k) s1"
      using pos bs w nz uk(2) by (simp add: writen_loop.simps [of fd buf n "int p" nleft s] word_less_nat_alt)
    have "p + k + unat (nleft - word_of_nat k) = length buf" using sub k less.prems(2) by simp
    from less.hyps [OF _ s1(1) this less.prems(3)] sub k obtain s' where
      "writen_loop fd buf n (int (p + k)) (nleft - word_of_nat k) s1 = Inr (sint n, s')"
      and "accepting (wr_env s')" and "sent s' fd = sent s1 fd @ drop (p + k) buf"
      and "\<forall>g. g \<noteq> fd \<longrightarrow> fd_out s' g = fd_out s1 g"
      by auto
    moreover have "take k ?bs @ drop (p + k) buf = ?bs"
      by (metis append_take_drop_id drop_drop add.commute)
    ultimately show ?thesis using s1 step by auto
  qed
qed

lemma writen_ok:
  assumes "accepting (wr_env s)" and "length buf < 2 ^ 31"
  shows "\<exists>s'. writen fd buf (length buf) s = Inr (int (length buf), s') \<and> accepting (wr_env s')
    \<and> sent s' fd = sent s fd @ buf \<and> (\<forall>g. g \<noteq> fd \<longrightarrow> fd_out s' g = fd_out s g)"
  using writen_loop_ok [of s 0 "of_nat (length buf)" buf fd "of_nat (length buf)"] assms of_nat_32 [OF assms(2)]
  by (auto simp: writen_def)

text \<open>
  C26: writen sends the whole buffer. However the kernel cuts the calls of write, as long as each
  accepts something, it returns \<open>n\<close>, exactly the \<open>n\<close> bytes have been appended to what was sent
  on the descriptor, and nothing was sent on another one.
\<close>

theorem writen_complete:
  assumes "accepting (wr_env s)" and "length buf < 2 ^ 31"
  shows "\<exists>s'. writen fd buf (length buf) s = Inr (int (length buf), s')
    \<and> sent s' fd = sent s fd @ buf \<and> (\<forall>g. g \<noteq> fd \<longrightarrow> fd_out s' g = fd_out s g)"
  using writen_ok [OF assms] by blast

text \<open>
  writen does not see a failed write. When \<open>k\<close> bytes are accepted and the next call fails,
  it still returns \<open>n\<close>: the byte before the failure is sent a second time.
\<close>

theorem writen_error_unseen:
  assumes "wr_env s = [Wrote k, WrError]" and "0 < k" and "k < length buf" and "length buf < 2 ^ 31"
  shows "\<exists>s'. writen fd buf (length buf) s = Inr (int (length buf), s')
    \<and> sent s' fd = sent s fd @ take k buf @ drop (k - 1) buf"
proof -
  let ?n = "of_nat (length buf) :: 32 word"
  let ?s1 = "s\<lparr>wr_env := [WrError], fd_out := (fd_out s)(fd := fd_out s fd @ [(take k buf, None)])\<rparr>"
  let ?s2 = "?s1\<lparr>wr_env := []\<rparr>"
  have "k < 2 ^ 31" using assms by linarith
  note uk = of_nat_32 [OF this] and un = of_nat_32 [OF assms(4)]
  have nz: "\<not> (word_of_nat k :: 32 word) \<le> 0" using uk(1) assms(2) by (auto simp: word_le_nat_alt)
  have sub: "unat (?n - word_of_nat k) = length buf - k"
    using uk(1) un(1) assms(3) by (subst unat_sub) (auto simp: word_le_nat_alt)
  have sub1: "unat (?n - word_of_nat k + 1) = length buf - k + 1"
    using sub assms by (subst unat_word_ariths) auto
  have one: "writen fd buf (length buf) s = writen_loop fd buf ?n (int k) (?n - word_of_nat k) ?s1"
    using assms nz uk un unfolding writen_def
    by (subst writen_loop.simps) (auto simp: wr_slice_def write_call_def word_less_nat_alt)
  have two: "writen_loop fd buf ?n (int k) (?n - word_of_nat k) ?s1 = writen_loop fd buf ?n (int (k - 1)) (?n - word_of_nat k + 1) ?s2"
    using assms sub by (subst writen_loop.simps) (simp add: wr_slice_def write_call_def word_less_nat_alt Let_def)
  have "\<exists>s'. writen_loop fd buf ?n (int (k - 1)) (?n - word_of_nat k + 1) ?s2 = Inr (sint ?n, s') \<and> accepting (wr_env s')
    \<and> sent s' fd = sent ?s2 fd @ drop (k - 1) buf \<and> (\<forall>g. g \<noteq> fd \<longrightarrow> fd_out s' g = fd_out ?s2 g)"
    using assms sub1 by (intro writen_loop_ok) (auto simp: accepting_def)
  then show ?thesis using one two un(2) by (auto simp: sent_def)
qed

text \<open>The data of a queue of reads, when no call fails and none sees a premature end of file.\<close>

fun data :: "rd_event list \<Rightarrow> string" where
  "data [] = []"
| "data (Data bs # es) = bs @ data es"
| "data (RdError # es) = []"

definition delivering :: "rd_event list \<Rightarrow> bool" where
  "delivering es \<longleftrightarrow> (\<forall>e \<in> set es. \<exists>bs. e = Data bs \<and> bs \<noteq> [])"

lemma read_ev_delivering:
  assumes "delivering es" and "0 < n"
  obtains bs es' where "read_ev n es = (Some bs, es')" and "data es = bs @ data es'" and "delivering es'"
    and "length bs \<le> n" and "bs = [] \<longleftrightarrow> es = []"
proof (cases es)
  case Nil
  then show ?thesis using that [of "[]" "[]"] by (simp add: delivering_def)
next
  case (Cons e es1)
  with assms(1) obtain b where b: "e = Data b" "b \<noteq> []" "delivering es1" by (auto simp: delivering_def)
  show ?thesis
  proof (cases "n < length b")
    case True
    then show ?thesis using that [of "take n b" "Data (drop n b) # es1"] b Cons assms(2)
      by (simp add: delivering_def)
  next
    case False
    then show ?thesis using that [of b es1] b Cons by simp
  qed
qed

text \<open>The bytes taken from the queue are stored one after the other.\<close>

lemma readn_loop_ok:
  assumes "delivering (rd_env s fd)" and "p + unat nleft = n" and "n \<le> length buf" and "n < 2 ^ 31"
  shows "\<exists>m s'. m = min (unat nleft) (length (data (rd_env s fd))) \<and>
    readn_loop fd (of_nat n) (int p) nleft buf s =
      Inr (int (p + m), take p buf @ take m (data (rd_env s fd)) @ drop (p + m) buf, s')
    \<and> data (rd_env s' fd) = drop m (data (rd_env s fd)) \<and> delivering (rd_env s' fd)"
  using assms
proof (induction "unat nleft" arbitrary: nleft p s buf rule: less_induct)
  case less
  have pn: "p < 2 ^ 31" using less.prems by simp
  have ret: "sint (of_nat n - nleft :: 32 word) = int p"
  proof -
    have "of_nat n - nleft = (of_nat p :: 32 word)" by (simp flip: less.prems(2))
    then show ?thesis using of_nat_32(2) [OF pn] by simp
  qed
  show ?case
  proof (cases "nleft = 0")
    case True
    then show ?thesis using less.prems ret by (intro exI [of _ 0] exI [of _ s]) (simp add: readn_loop.simps)
  next
    case False
    then have pos: "0 < unat nleft" by (simp add: unat_gt_0)
    obtain bs es where r: "read_ev (unat nleft) (rd_env s fd) = (Some bs, es)" "data (rd_env s fd) = bs @ data es"
      "delivering es" "length bs \<le> unat nleft" "bs = [] \<longleftrightarrow> rd_env s fd = []"
      by (rule read_ev_delivering [OF less.prems(1) pos])
    let ?s1 = "s\<lparr>rd_env := (rd_env s)(fd := es)\<rparr>"
    let ?buf1 = "take p buf @ bs @ drop (p + length bs) buf"
    have put: "put_bytes buf (int p) bs = Some ?buf1" using r(4) less.prems(2,3) by (simp add: put_bytes_def)
    show ?thesis
    proof (cases "bs = []")
      case True
      then have "rd_env s fd = []" "es = []" using r by auto
      then show ?thesis using True put pos ret
        by (intro exI [of _ 0] exI [of _ ?s1])
           (simp add: readn_loop.simps [of fd _ _ nleft] read_call_def word_less_nat_alt delivering_def)
    next
      case False
      have "length bs < 2 ^ 31" using r(4) less.prems by simp
      note ub = of_nat_32 [OF this]
      have nz: "word_of_nat (length bs) \<noteq> (0 :: 32 word)" using ub(1) False by auto
      have sub: "unat (nleft - word_of_nat (length bs)) = unat nleft - length bs"
        using r(4) ub(1) by (subst unat_sub) (auto simp: word_le_nat_alt)
      have step: "readn_loop fd (of_nat n) (int p) nleft buf s =
          readn_loop fd (of_nat n) (int (p + length bs)) (nleft - word_of_nat (length bs)) ?buf1 ?s1"
        using r put pos ub nz by (simp add: readn_loop.simps [of fd _ _ nleft] read_call_def word_less_nat_alt Let_def)
      have "delivering (rd_env ?s1 fd)" "p + length bs + unat (nleft - word_of_nat (length bs)) = n"
        "n \<le> length ?buf1" "unat (nleft - word_of_nat (length bs)) < unat nleft"
        using r sub less.prems False pos by (auto simp: diff_less)
      note IH = less.hyps [OF this(4,1,2,3) less.prems(4)]
      have rd: "rd_env ?s1 fd = es" by simp
      let ?p1 = "p + length bs"
      from IH [unfolded sub rd] obtain m s' where m: "m = min (unat nleft - length bs) (length (data es))"
        and e: "readn_loop fd (of_nat n) (int ?p1) (nleft - word_of_nat (length bs)) ?buf1 ?s1 =
          Inr (int (?p1 + m), take ?p1 ?buf1 @ take m (data es) @ drop (?p1 + m) ?buf1, s')"
        and d: "data (rd_env s' fd) = drop m (data es)" "delivering (rd_env s' fd)"
        by blast
      have "take ?p1 ?buf1 = take p buf @ bs" "drop (?p1 + m) ?buf1 = drop (?p1 + m) buf"
        using less.prems(2,3) by (simp_all add: ac_simps)
      with m e d r(2,4) step show ?thesis
        by (intro exI [of _ "length bs + m"] exI [of _ s']) (auto simp: add.assoc)
    qed
  qed
qed

text \<open>
  readn returns the first \<open>n\<close> bytes of what arrives, or all of it when the end of file comes
  first, however the calls of read cut the data. They stand at the start of the buffer, the rest
  of the buffer is untouched, and the data after them stays on the descriptor.
\<close>

theorem readn_complete:
  assumes "delivering (rd_env s fd)" and "n \<le> length buf" and "n < 2 ^ 31"
  shows "\<exists>m s'. m = min n (length (data (rd_env s fd))) \<and>
    readn fd n buf s = Inr (int m, take m (data (rd_env s fd)) @ drop m buf, s')
    \<and> data (rd_env s' fd) = drop m (data (rd_env s fd))"
  using readn_loop_ok [of s fd 0 "of_nat n" n buf] assms of_nat_32 [OF assms(3)]
  by (auto simp: readn_def)

text \<open>
  readn does not see a failed read. When \<open>a\<close> arrives, a call fails and \<open>b\<close> arrives, it
  returns \<open>n\<close> as if all were well, with the last byte of \<open>a\<close> overwritten by the first of \<open>b\<close>.
\<close>

theorem readn_error_unseen:
  assumes "rd_env s fd = [Data a, RdError, Data b]" and "a \<noteq> []" and "length a < n"
    and "length b = n - length a + 1" and "n \<le> length buf" and "n < 2 ^ 31"
  shows "\<exists>s'. readn fd n buf s = Inr (int n, butlast a @ b @ drop n buf, s')"
proof -
  let ?n = "of_nat n :: 32 word" and ?k = "of_nat (length a) :: 32 word"
  let ?buf1 = "a @ drop (length a) buf"
  let ?s1 = "s\<lparr>rd_env := (rd_env s)(fd := [RdError, Data b])\<rparr>"
  let ?s2 = "s\<lparr>rd_env := (rd_env s)(fd := [Data b])\<rparr>"
  have "length a < 2 ^ 31" using assms by linarith
  note ua = of_nat_32 [OF this] and un = of_nat_32 [OF assms(6)]
  have nz: "?k \<noteq> 0" using ua(1) assms(2) by auto
  have sub: "unat (?n - ?k) = n - length a"
    using ua(1) un(1) assms(3) by (subst unat_sub) (auto simp: word_le_nat_alt)
  have sub1: "unat (?n - ?k + 1) = n - length a + 1" using sub assms by (subst unat_word_ariths) auto
  have one: "readn fd n buf s = readn_loop fd ?n (int (length a)) (?n - ?k) ?buf1 ?s1"
    using assms ua un nz unfolding readn_def
    by (subst readn_loop.simps) (auto simp: read_call_def put_bytes_def word_less_nat_alt Let_def)
  have two: "readn_loop fd ?n (int (length a)) (?n - ?k) ?buf1 ?s1 =
      readn_loop fd ?n (int (length a - 1)) (?n - ?k + 1) ?buf1 ?s2"
    using assms sub Suc_leI [of 0 "length a"]
    by (subst readn_loop.simps) (auto simp: read_call_def put_bytes_def word_less_nat_alt Let_def of_nat_diff)
  have "delivering (rd_env ?s2 fd)" using assms(3,4) by (auto simp: delivering_def)
  moreover have "length a - 1 + unat (?n - ?k + 1) = n" using sub1 assms(2,3) by (cases a) auto
  ultimately show ?thesis
    using readn_loop_ok [of ?s2 fd "length a - 1" "?n - ?k + 1" n ?buf1] assms sub1 one two
    by (auto simp: butlast_conv_take)
qed

definition byte_ex :: byte_io where
  "byte_ex = \<lparr>debug = 0, errno_text = [], stderr_out = [], syslog_out = [], heap = 0,
     rd_env = (\<lambda>_. [])(3 := [Data ''ab'', RdError, Data ''xyz''], 4 := [Data ''ab'', Data ''cde'']),
     wr_env = [Wrote 2, WrError], fd_out = (\<lambda>_. [])\<rparr>"

theorem writen_complete_witness:
  "\<exists>s'. writen 7 ''abcd'' (length ''abcd'') (byte_ex\<lparr>wr_env := [Wrote 2]\<rparr>) = Inr (4, s') \<and> sent s' 7 = ''abcd''"
  using writen_complete [of "byte_ex\<lparr>wr_env := [Wrote 2]\<rparr>" "''abcd''" 7]
  by (auto simp: byte_ex_def accepting_def sent_def)

theorem writen_error_unseen_witness:
  "\<exists>s'. writen 7 ''abcd'' (length ''abcd'') byte_ex = Inr (4, s') \<and> sent s' 7 = ''abbcd''"
  using writen_error_unseen [of byte_ex 2 "''abcd''" 7] by (auto simp: byte_ex_def sent_def)

theorem readn_complete_witness:
  "\<exists>s'. readn 4 (length ''abc'') ''....'' byte_ex = Inr (3, ''abc.'', s') \<and> data (rd_env s' 4) = ''de''"
  using readn_complete [of byte_ex 4 "length ''abc''" "''....''"] by (auto simp: byte_ex_def delivering_def)

theorem readn_error_unseen_witness:
  "\<exists>s'. readn 3 (length ''abcd'') ''.....'' byte_ex = Inr (4, ''axyz.'', s')"
  using readn_error_unseen [of byte_ex 3 "''ab''" "''xyz''" "length ''abcd''" "''.....''"] by (simp add: byte_ex_def)

end
