(* ===== verification/CLock.thy ===== *)
theory CLock
  imports ByteIO
begin

text \<open>
  The lock table of the calling server: calld/lock.c. A device is locked by its name (line)
  and unlocked by the process ID of the dialing child; pid 0 means available. The table grows
  by NALLOC entries at a time and never shrinks: every device ever asked about keeps its entry.
  \<open>nlocks\<close> of the source is the length of the list \<open>lock_tab\<close>.
\<close>

section \<open>State and operations\<close>

record Lock =
  lk_line :: string
  lk_pid :: int

record locks = byte_io +
  lock_tab :: "Lock list"
  lock_size :: nat

definition NALLOC :: nat where "NALLOC = 10"

text \<open>Make room for one more entry: the array grows when all of it is in use.\<close>

definition lock_grow :: "'a locks_scheme \<Rightarrow> 'a locks_scheme res" where
  "lock_grow s =
     (if lock_size s \<le> length (lock_tab s) then
        (case malloc s of
           None \<Rightarrow> err_sys ''can't alloc for lock array'' s
         | Some s \<Rightarrow> Inr (s\<lparr>lock_size := lock_size s + NALLOC\<rparr>))
      else Inr s)"

definition find_line :: "string \<Rightarrow> 'a locks_scheme \<Rightarrow> (nat \<times> 'a locks_scheme) res" where
  "find_line line s =
     (case index_of (\<lambda>e. line = lk_line e) (lock_tab s) of
        Some i \<Rightarrow> Inr (i, s)
      | None \<Rightarrow>
          bindR (lock_grow s) (\<lambda>s.
            case malloc s of
              None \<Rightarrow> log_sys ''calloc error'' s
            | Some s \<Rightarrow> Inr (length (lock_tab s),
                s\<lparr>lock_tab := lock_tab s @ [\<lparr>lk_line = line, lk_pid = 0\<rparr>]\<rparr>)))"

definition lock_set :: "string \<Rightarrow> int \<Rightarrow> 'a locks_scheme \<Rightarrow> 'a locks_scheme res" where
  "lock_set line pid s =
     bindR (log_msg (''locking '' @ line @ '' for pid '' @ deci pid) s) (\<lambda>s.
       bindR (find_line line s) (\<lambda>(i, s).
         Inr (s\<lparr>lock_tab := (lock_tab s)[i := (lock_tab s ! i)\<lparr>lk_pid := pid\<rparr>]\<rparr>)))"

definition lock_rel :: "int \<Rightarrow> 'a locks_scheme \<Rightarrow> 'a locks_scheme res" where
  "lock_rel pid s =
     (case index_of (\<lambda>e. lk_pid e = pid) (lock_tab s) of
        Some i \<Rightarrow>
          bindR (log_msg (''unlocking '' @ lk_line (lock_tab s ! i) @ '' for pid '' @ deci pid) s) (\<lambda>s.
            Inr (s\<lparr>lock_tab := (lock_tab s)[i := (lock_tab s ! i)\<lparr>lk_pid := 0\<rparr>]\<rparr>))
      | None \<Rightarrow> log_msg (''can't find lock for pid = '' @ deci pid) s)"

definition is_locked :: "string \<Rightarrow> 'a locks_scheme \<Rightarrow> (int \<times> 'a locks_scheme) res" where
  "is_locked line s =
     bindR (find_line line s) (\<lambda>(i, s). Inr (lk_pid (lock_tab s ! i), s))"

section \<open>Abstract view and invariant\<close>

definition holder :: "Lock list \<Rightarrow> string \<Rightarrow> int" where
  "holder t line =
     (case map_of (map (\<lambda>e. (lk_line e, lk_pid e)) t) line of None \<Rightarrow> 0 | Some p \<Rightarrow> p)"

definition held :: "'a locks_scheme \<Rightarrow> string \<Rightarrow> int" where
  "held s = holder (lock_tab s)"

definition lock_inv :: "'a locks_scheme \<Rightarrow> bool" where
  "lock_inv s \<longleftrightarrow> distinct (map lk_line (lock_tab s)) \<and> length (lock_tab s) \<le> lock_size s
     \<and> NALLOC dvd lock_size s"

text \<open>The holders after process \<open>p\<close> has given up what it held.\<close>

definition released :: "('l \<Rightarrow> int) \<Rightarrow> int \<Rightarrow> 'l \<Rightarrow> int" where
  "released h p = (\<lambda>l. if h l = p then 0 else h l)"

text \<open>No process holds two devices.\<close>

definition one_each :: "('l \<Rightarrow> int) \<Rightarrow> bool" where
  "one_each h \<longleftrightarrow> (\<forall>l l'. h l = h l' \<and> h l \<noteq> 0 \<longrightarrow> l = l')"

lemma holder_nth:
  "distinct (map lk_line t) \<Longrightarrow> i < length t \<Longrightarrow> holder t (lk_line (t ! i)) = lk_pid (t ! i)"
proof -
  assume d: "distinct (map lk_line t)" and i: "i < length t"
  have "(lk_line (t ! i), lk_pid (t ! i)) \<in> set (map (\<lambda>e. (lk_line e, lk_pid e)) t)"
    using i by (auto intro: image_eqI [OF _ nth_mem])
  moreover have "distinct (map fst (map (\<lambda>e. (lk_line e, lk_pid e)) t))"
    using d by (simp add: comp_def)
  ultimately show ?thesis by (simp add: holder_def)
qed

lemma holder_append_new:
  "line \<notin> lk_line ` set t \<Longrightarrow> holder (t @ [\<lparr>lk_line = line, lk_pid = 0\<rparr>]) = holder t"
  by (auto simp: holder_def fun_eq_iff map_add_def split: option.split
      dest: map_of_SomeD)

lemma holder_update:
  assumes "distinct (map lk_line t)" and "i < length t"
  shows "holder (t[i := (t ! i)\<lparr>lk_pid := p\<rparr>]) = (holder t)(lk_line (t ! i) := p)"
  using map_of_update_nth [of lk_line t i "(t ! i)\<lparr>lk_pid := p\<rparr>" lk_pid] assms
  by (auto simp: holder_def fun_eq_iff)

lemma map_update_pid: "map lk_line (t[i := (t ! i)\<lparr>lk_pid := p\<rparr>]) = map lk_line t"
  by (cases "i < length t") (auto simp: nth_list_update intro!: nth_equalityI)

lemma holder_nonzero: "holder t l = p \<Longrightarrow> p \<noteq> 0 \<Longrightarrow> \<exists>i < length t. lk_line (t ! i) = l \<and> lk_pid (t ! i) = p"
  by (auto simp: holder_def split: option.splits dest!: map_of_SomeD) (metis in_set_conv_nth)

section \<open>What the operations do\<close>

lemma find_line_spec:
  assumes "find_line line s = Inr (i, s')" and "lock_inv s"
  shows "lock_inv s' \<and> held s' = held s \<and> i < length (lock_tab s') \<and> lk_line (lock_tab s' ! i) = line"
proof (cases "index_of (\<lambda>e. line = lk_line e) (lock_tab s)")
  case None
  then have new: "line \<notin> lk_line ` set (lock_tab s)" by (auto simp: index_of_None)
  from None assms(1) obtain s1 s2 where g: "lock_grow s = Inr s1" and m: "malloc s1 = Some s2"
    and i: "i = length (lock_tab s2)"
    and s': "s' = s2\<lparr>lock_tab := lock_tab s2 @ [\<lparr>lk_line = line, lk_pid = 0\<rparr>]\<rparr>"
    by (auto simp: find_line_def bindR_Inr_iff split: option.splits)
  have t: "lock_tab s2 = lock_tab s" and sz: "length (lock_tab s) < lock_size s2" "NALLOC dvd lock_size s2"
    using g assms(2) malloc_frame [OF m]
    by (auto simp: lock_grow_def lock_inv_def NALLOC_def split: if_splits option.splits dest!: malloc_frame)
  show ?thesis using assms(2) new t sz
    by (auto simp: s' i lock_inv_def held_def holder_append_new)
next
  case (Some k)
  with assms show ?thesis by (auto simp: find_line_def dest: index_of_SomeD)
qed

lemma lock_inv_frame [simp]:
  "lock_inv (s\<lparr>stderr_out := e, syslog_out := l\<rparr>) = lock_inv s"
  "held (s\<lparr>stderr_out := e, syslog_out := l\<rparr>) = held s"
  by (simp_all add: lock_inv_def held_def)

lemma is_locked_spec:
  assumes "lock_inv s" and "is_locked line s = Inr (p, s')"
  shows "p = held s line \<and> held s' = held s \<and> lock_inv s'"
proof -
  from assms(2) obtain i where f: "find_line line s = Inr (i, s')" and p: "p = lk_pid (lock_tab s' ! i)"
    by (auto simp: is_locked_def bindR_Inr_iff)
  from find_line_spec [OF f assms(1)] have "lock_inv s'" "held s' = held s" "i < length (lock_tab s')"
    "lk_line (lock_tab s' ! i) = line" by auto
  moreover from this have "held s' line = p"
    using holder_nth [of "lock_tab s'" i] p by (simp add: held_def lock_inv_def)
  ultimately show ?thesis by simp
qed

lemma lock_set_spec:
  assumes "lock_inv s" and "lock_set line pid s = Inr s'"
  shows "held s' = (held s)(line := pid) \<and> lock_inv s'"
proof -
  from assms(2) obtain s1 i s2 where l: "log_msg (''locking '' @ line @ '' for pid '' @ deci pid) s = Inr s1"
    and f: "find_line line s1 = Inr (i, s2)"
    and s': "s' = s2\<lparr>lock_tab := (lock_tab s2)[i := (lock_tab s2 ! i)\<lparr>lk_pid := pid\<rparr>]\<rparr>"
    by (auto simp: lock_set_def bindR_Inr_iff)
  from log_msg_frame [OF l] assms(1) have "lock_inv s1" and h1: "held s1 = held s" by auto
  from find_line_spec [OF f this(1)] have "lock_inv s2" "held s2 = held s" "i < length (lock_tab s2)"
    "lk_line (lock_tab s2 ! i) = line" using h1 by auto
  then show ?thesis
    by (auto simp: s' lock_inv_def held_def holder_update map_update_pid)
qed

lemma lock_rel_spec:
  assumes inv: "lock_inv s" and one: "one_each (held s)" and nz: "pid \<noteq> 0"
    and r: "lock_rel pid s = Inr s'"
  shows "held s' = released (held s) pid \<and> lock_inv s'"
proof (cases "index_of (\<lambda>e. lk_pid e = pid) (lock_tab s)")
  case None
  then have "held s l \<noteq> pid" for l
    using nz holder_nonzero [of "lock_tab s" l pid] by (auto simp: held_def index_of_None)
  moreover from None r obtain e l where "s' = s\<lparr>stderr_out := e, syslog_out := l\<rparr>"
    by (auto simp: lock_rel_def dest: log_msg_frame)
  ultimately show ?thesis using inv by (auto simp: released_def)
next
  case (Some i)
  note i = index_of_SomeD [OF Some]
  from Some r obtain e l where
    s': "s' = s\<lparr>stderr_out := e, syslog_out := l, lock_tab := (lock_tab s)[i := (lock_tab s ! i)\<lparr>lk_pid := 0\<rparr>]\<rparr>"
    by (auto simp: lock_rel_def bindR_Inr_iff dest!: log_msg_frame)
  have d: "distinct (map lk_line (lock_tab s))" using inv by (simp add: lock_inv_def)
  have hi: "held s (lk_line (lock_tab s ! i)) = pid" using holder_nth [OF d] i by (simp add: held_def)
  have "held s' = (held s)(lk_line (lock_tab s ! i) := 0)"
    using holder_update [OF d] i by (simp add: s' held_def)
  also have "\<dots> = released (held s) pid"
    using one hi nz by (auto simp: one_each_def fun_eq_iff released_def)
  finally show ?thesis using inv by (simp add: s' lock_inv_def map_update_pid)
qed

text \<open>
  Frames: states with the same \<open>lock_core\<close> differ only in the lock table, the allocator and
  the message streams.
\<close>

definition lock_core :: "'a locks_scheme \<Rightarrow> 'a locks_scheme" where
  "lock_core s = s\<lparr>heap := 0, lock_tab := [], lock_size := 0, stderr_out := [], syslog_out := []\<rparr>"

lemma find_line_core: "find_line l s = Inr (i, s') \<Longrightarrow> lock_core s' = lock_core s"
  by (auto simp: find_line_def lock_grow_def bindR_Inr_iff lock_core_def malloc_def split: option.splits if_splits)

lemma is_locked_core: "is_locked l s = Inr (p, s') \<Longrightarrow> lock_core s' = lock_core s"
  by (auto simp: is_locked_def bindR_Inr_iff dest: find_line_core)

lemma log_msg_core: "log_msg m s = Inr s' \<Longrightarrow> lock_core s' = lock_core s"
  by (auto simp: lock_core_def dest!: log_msg_frame)

lemma lock_set_core:
  assumes "lock_set l p s = Inr s'"
  shows "lock_core s' = lock_core s"
proof -
  have upd: "lock_core (s\<lparr>lock_tab := t\<rparr>) = lock_core s" for t and s :: "'a locks_scheme"
    by (simp add: lock_core_def)
  from assms show ?thesis
    by (auto simp: lock_set_def bindR_Inr_iff upd dest!: log_msg_core find_line_core)
qed

lemma lock_rel_core: "lock_rel p s = Inr s' \<Longrightarrow> lock_core s' = lock_core s"
  by (auto simp: lock_rel_def bindR_Inr_iff lock_core_def split: option.splits dest!: log_msg_frame)

text \<open>Releasing keeps the table well-formed in every case, a pid that holds nothing included.\<close>

lemma lock_rel_inv: "lock_rel p s = Inr s' \<Longrightarrow> lock_inv s \<Longrightarrow> lock_inv s'"
  by (auto simp: lock_rel_def bindR_Inr_iff lock_inv_def map_update_pid split: option.splits dest!: log_msg_frame)

section \<open>The interface the server relies on\<close>

locale device_locks =
  fixes lookup :: "'l \<Rightarrow> 's \<Rightarrow> (int \<times> 's) res"
    and acquire :: "'l \<Rightarrow> int \<Rightarrow> 's \<Rightarrow> 's res"
    and release :: "int \<Rightarrow> 's \<Rightarrow> 's res"
    and owner :: "'s \<Rightarrow> 'l \<Rightarrow> int"
    and inv :: "'s \<Rightarrow> bool"
  assumes lookup: "inv s \<Longrightarrow> lookup l s = Inr (p, s') \<Longrightarrow> p = owner s l \<and> owner s' = owner s \<and> inv s'"
    and acquire: "inv s \<Longrightarrow> acquire l p s = Inr s' \<Longrightarrow> owner s' = (owner s)(l := p) \<and> inv s'"
    and release: "inv s \<Longrightarrow> one_each (owner s) \<Longrightarrow> p \<noteq> 0 \<Longrightarrow> release p s = Inr s' \<Longrightarrow>
      owner s' = released (owner s) p \<and> inv s'"
begin

text \<open>Taking a device that was found free, for a process that holds none, is exclusive.\<close>

lemma take_free:
  assumes "inv s" and "one_each (owner s)" and "lookup l s = Inr (0, s1)"
    and "acquire l p s1 = Inr s2" and "p \<noteq> 0" and "\<forall>l'. owner s l' \<noteq> p"
  shows "one_each (owner s2) \<and> owner s2 l = p \<and> (\<forall>l'. l' \<noteq> l \<longrightarrow> owner s2 l' = owner s l') \<and> inv s2"
proof -
  from lookup [OF assms(1,3)] have "inv s1" and o1: "owner s1 = owner s" by auto
  from acquire [OF this(1) assms(4)] have "owner s2 = (owner s)(l := p)" and "inv s2"
    by (auto simp: o1)
  with assms(2,5,6) show ?thesis by (fastforce simp: one_each_def)
qed

lemma release_exclusive:
  assumes "inv s" and "one_each (owner s)" and "p \<noteq> 0" and "release p s = Inr s'"
  shows "one_each (owner s') \<and> (\<forall>l. owner s' l \<noteq> p)"
  using release [OF assms] assms(2,3) by (auto simp: one_each_def released_def)

text \<open>Locking a free device for a new process and releasing that process restores the owners.\<close>

lemma take_release:
  assumes "inv s" and "one_each (owner s)" and "lookup l s = Inr (0, s1)"
    and "acquire l p s1 = Inr s2" and "p \<noteq> 0" and "\<forall>l'. owner s l' \<noteq> p"
    and "release p s2 = Inr s3"
  shows "owner s3 = owner s"
proof -
  note t = take_free [OF assms(1-6)]
  from lookup [OF assms(1,3)] have z: "owner s l = 0" by simp
  from t have "inv s2" and "one_each (owner s2)" by auto
  from release [OF this assms(5,7)] t z assms(6) show ?thesis by (auto simp: fun_eq_iff released_def)
qed

end

interpretation lk: device_locks is_locked lock_set lock_rel held lock_inv
  by unfold_locales (blast dest: is_locked_spec lock_set_spec lock_rel_spec)+

section \<open>Properties\<close>

text \<open>
  C8: a device that is_locked reports free and that lock_set then locks for a process holding
  no other device is held by exactly that process; every other device keeps its holder, no
  process holds two devices, and the table invariant (one entry per device, entries within the
  allocated array, which is a multiple of NALLOC long) is kept.
\<close>

theorem lock_take_exclusive:
  assumes "lock_inv s" and "one_each (held s)" and "is_locked line s = Inr (0, s1)"
    and "lock_set line pid s1 = Inr s2" and "pid \<noteq> 0" and "\<forall>l. held s l \<noteq> pid"
  shows "one_each (held s2) \<and> held s2 line = pid \<and> (\<forall>l. l \<noteq> line \<longrightarrow> held s2 l = held s l) \<and> lock_inv s2"
  using assms by (rule lk.take_free)

text \<open>
  lock_rel undoes it. After the device was taken for a process, releasing that process
  leaves every device with the holder it had before.
\<close>

theorem lock_take_release:
  assumes "lock_inv s" and "one_each (held s)" and "is_locked line s = Inr (0, s1)"
    and "lock_set line pid s1 = Inr s2" and "pid \<noteq> 0" and "\<forall>l. held s l \<noteq> pid"
    and "lock_rel pid s2 = Inr s3"
  shows "held s3 = held s"
  using assms by (rule lk.take_release)

definition lock_ex :: locks where
  "lock_ex = \<lparr>debug = 1, errno_text = [], stderr_out = [], syslog_out = [], heap = 9,
     rd_env = (\<lambda>_. []), wr_env = [], fd_out = (\<lambda>_. []),
              lock_tab = [\<lparr>lk_line = ''cua0'', lk_pid = 77\<rparr>], lock_size = 10\<rparr>"

lemma lock_ex_facts:
  "lock_inv lock_ex" "one_each (held lock_ex)" "\<forall>l. held lock_ex l \<noteq> 101"
  by (auto simp: lock_ex_def lock_inv_def NALLOC_def one_each_def held_def holder_def)

lemma lock_ex_run:
  "\<exists>s1 s2 s3. is_locked ''cua1'' lock_ex = Inr (0, s1) \<and> lock_set ''cua1'' 101 s1 = Inr s2
     \<and> lock_rel 101 s2 = Inr s3"
  by (simp add: lock_ex_def is_locked_def lock_set_def lock_rel_def find_line_def lock_grow_def malloc_def
      log_msg_def log_doit_def Let_def MAXLINE_def deci_def dec.simps dig_def)

theorem lock_take_exclusive_witness:
  "\<exists>s1 s2. is_locked ''cua1'' lock_ex = Inr (0, s1) \<and> lock_set ''cua1'' 101 s1 = Inr s2
     \<and> one_each (held s2) \<and> held s2 ''cua1'' = 101"
  using lock_ex_run lock_take_exclusive [OF lock_ex_facts(1,2) _ _ _ lock_ex_facts(3)] by fastforce

theorem lock_take_release_witness:
  "\<exists>s1 s2 s3. is_locked ''cua1'' lock_ex = Inr (0, s1) \<and> lock_set ''cua1'' 101 s1 = Inr s2
     \<and> lock_rel 101 s2 = Inr s3 \<and> held s3 = held lock_ex"
  using lock_ex_run lock_take_release [OF lock_ex_facts(1,2) _ _ _ lock_ex_facts(3)] by fastforce

end
