(* ===== verification/CClient.thy ===== *)
theory CClient
  imports CLock
begin

text \<open>
  The client table of the calling server: calld/client.c and the type Client of calld.h. One
  entry per connected caller; an entry with descriptor -1 is available. The array grows by
  NALLOC entries when no entry is available. \<open>client == NULL\<close> of the source is the empty list
  and \<open>client_size\<close> is the length of the list. malloc and realloc do not initialise the new
  entries: what they hold comes from the field \<open>fresh_mem\<close>, and client_alloc overwrites only
  the descriptor.
\<close>

section \<open>State and operations\<close>

datatype parity = NONE | EVEN | ODD

record Client =
  cl_fd :: int
  cl_pid :: int
  cl_uid :: int
  cl_childdone :: int
  cl_sysftell :: int
  cl_foundone :: int
  cl_Debug :: int
  cl_parity :: parity
  cl_speed :: string
  cl_sysname :: string

record clients = locks +
  client :: "Client list"
  fresh_mem :: "nat \<Rightarrow> Client"

definition client_alloc :: "'a clients_scheme \<Rightarrow> 'a clients_scheme res" where
  "client_alloc s =
     (case malloc s of
        None \<Rightarrow> err_sys ''can't alloc for client array'' s
      | Some s \<Rightarrow> Inr (s\<lparr>client := client s @
          map (\<lambda>i. (fresh_mem s i)\<lparr>cl_fd := -1\<rparr>) [length (client s) ..< length (client s) + NALLOC]\<rparr>))"

lemma client_alloc_InrD:
  assumes "client_alloc s = Inr s'"
  shows "\<exists>f. s' = s\<lparr>heap := heap s - 1, client := client s @ f\<rparr> \<and> length f = NALLOC \<and> (\<forall>c \<in> set f. cl_fd c = -1)"
proof -
  from assms obtain s1 where m: "malloc s = Some s1"
    and s': "s' = s1\<lparr>client := client s1 @
      map (\<lambda>i. (fresh_mem s1 i)\<lparr>cl_fd := -1\<rparr>) [length (client s1) ..< length (client s1) + NALLOC]\<rparr>"
    by (auto simp: client_alloc_def split: option.splits)
  from malloc_frame [OF m] show ?thesis
    by (intro exI [of _ "map (\<lambda>i. (fresh_mem s1 i)\<lparr>cl_fd := -1\<rparr>)
                 [length (client s1) ..< length (client s1) + NALLOC]"]) (auto simp: s')
qed

lemma client_alloc_free:
  "client_alloc s = Inr s' \<Longrightarrow> \<exists>c \<in> set (client s'). cl_fd c = -1"
proof -
  assume "client_alloc s = Inr s'"
  from client_alloc_InrD [OF this] obtain f where s': "s' = s\<lparr>heap := heap s - 1, client := client s @ f\<rparr>"
    and l: "length f = NALLOC" and f: "\<forall>c \<in> set f. cl_fd c = -1" by auto
  have "f ! 0 \<in> set f" using l by (auto simp: NALLOC_def)
  with f show ?thesis by (auto simp: s')
qed

text \<open>The part of client_add from the label \<open>again\<close> on: the second pass always finds an entry.\<close>

function client_add_again :: "int \<Rightarrow> int \<Rightarrow> 'a clients_scheme \<Rightarrow> (nat \<times> 'a clients_scheme) res" where
  "client_add_again fd uid s =
     (case index_of (\<lambda>c. cl_fd c = -1) (client s) of
        Some i \<Rightarrow> Inr (i, s\<lparr>client := (client s)[i := (client s ! i)\<lparr>cl_fd := fd, cl_uid := uid\<rparr>]\<rparr>)
      | None \<Rightarrow> bindR (client_alloc s) (\<lambda>s. client_add_again fd uid s))"
  by pat_completeness auto
termination
  by (relation "measure (\<lambda>(fd, uid, s). if \<exists>c \<in> set (client s). cl_fd c = -1 then 0 else 1)")
     (auto simp: index_of_None dest: client_alloc_free)

declare client_add_again.simps [simp del]

definition client_add :: "int \<Rightarrow> int \<Rightarrow> 'a clients_scheme \<Rightarrow> (nat \<times> 'a clients_scheme) res" where
  "client_add fd uid s =
     bindR (if client s = [] then client_alloc s else Inr s) (\<lambda>s. client_add_again fd uid s)"

definition client_del :: "int \<Rightarrow> 'a clients_scheme \<Rightarrow> 'a clients_scheme res" where
  "client_del fd s =
     (case index_of (\<lambda>c. cl_fd c = fd) (client s) of
        Some i \<Rightarrow> Inr (s\<lparr>client := (client s)[i := (client s ! i)\<lparr>cl_fd := -1\<rparr>]\<rparr>)
      | None \<Rightarrow> log_quit (''can't find client entry for fd '' @ deci fd) s)"

definition client_sigchld :: "int \<Rightarrow> int \<Rightarrow> 'a clients_scheme \<Rightarrow> 'a clients_scheme res" where
  "client_sigchld pid stat s =
     (case index_of (\<lambda>c. cl_pid c = pid) (client s) of
        Some i \<Rightarrow> Inr (s\<lparr>client := (client s)[i := (client s ! i)\<lparr>cl_childdone := stat\<rparr>]\<rparr>)
      | None \<Rightarrow> log_quit (''can't find client entry for pid '' @ deci pid) s)"

section \<open>Abstract view and invariant\<close>

definition live :: "'a clients_scheme \<Rightarrow> int set" where
  "live s = {fd. fd \<noteq> -1 \<and> (\<exists>c \<in> set (client s). cl_fd c = fd)}"

text \<open>The entry that serves a descriptor.\<close>

definition slot_of :: "'a clients_scheme \<Rightarrow> int \<Rightarrow> nat option" where
  "slot_of s fd = (if fd = -1 then None else index_of (\<lambda>c. cl_fd c = fd) (client s))"

definition unique_fds :: "Client list \<Rightarrow> bool" where
  "unique_fds t \<longleftrightarrow> (\<forall>i < length t. \<forall>j < length t.
     cl_fd (t ! i) = cl_fd (t ! j) \<and> cl_fd (t ! i) \<noteq> -1 \<longrightarrow> i = j)"

definition client_inv :: "'a clients_scheme \<Rightarrow> bool" where
  "client_inv s \<longleftrightarrow> NALLOC dvd length (client s) \<and> unique_fds (client s)"

lemma live_nth: "fd \<in> live s \<longleftrightarrow> fd \<noteq> -1 \<and> (\<exists>i < length (client s). cl_fd (client s ! i) = fd)"
  unfolding live_def by (auto simp: in_set_conv_nth) (metis nth_mem)

lemma slot_of_iff:
  assumes "client_inv s"
  shows "slot_of s fd = Some i \<longleftrightarrow> fd \<noteq> -1 \<and> i < length (client s) \<and> cl_fd (client s ! i) = fd"
proof
  assume "slot_of s fd = Some i"
  then show "fd \<noteq> -1 \<and> i < length (client s) \<and> cl_fd (client s ! i) = fd"
    by (auto simp: slot_of_def dest: index_of_SomeD split: if_splits)
next
  assume a: "fd \<noteq> -1 \<and> i < length (client s) \<and> cl_fd (client s ! i) = fd"
  have "index_of (\<lambda>c. cl_fd c = fd) (client s) = Some i"
  proof (rule index_ofI)
    fix j
    assume "j < i"
    then show "cl_fd (client s ! j) \<noteq> fd" using a assms unfolding client_inv_def unique_fds_def
      by (metis less_trans nat_neq_iff)
  qed (use a in auto)
  then show "slot_of s fd = Some i" using a by (simp add: slot_of_def)
qed

lemma live_slot: "fd \<in> live s \<longleftrightarrow> (\<exists>i. slot_of s fd = Some i)"
proof (cases "index_of (\<lambda>c. cl_fd c = fd) (client s)")
  case (Some i)
  from index_of_SomeD [OF this] Some show ?thesis by (auto simp: live_nth slot_of_def)
qed (auto simp: live_def slot_of_def index_of_None)

section \<open>What the operations do\<close>

text \<open>Between label and return only the allocation budget and the tail of the array change.\<close>

lemma client_add_again_spec:
  assumes "client_add_again fd uid s = Inr (i, s')"
  shows "\<exists>f h. (\<forall>c \<in> set f. cl_fd c = -1) \<and> NALLOC dvd length f \<and>
    index_of (\<lambda>c. cl_fd c = -1) (client s @ f) = Some i \<and>
    s' = s\<lparr>heap := h, client := (client s @ f)[i := ((client s @ f) ! i)\<lparr>cl_fd := fd, cl_uid := uid\<rparr>]\<rparr>"
  using assms
proof (induction fd uid s arbitrary: i s' rule: client_add_again.induct)
  case (1 fd uid s)
  show ?case
  proof (cases "index_of (\<lambda>c. cl_fd c = -1) (client s)")
    case (Some k)
    with "1.prems" have ik: "i = k"
      and s': "s' = s\<lparr>client := (client s)[k := (client s ! k)\<lparr>cl_fd := fd, cl_uid := uid\<rparr>]\<rparr>"
      by (auto simp: client_add_again.simps)
    show ?thesis using Some by (intro exI [of _ "[]"] exI [of _ "heap s"]) (simp add: ik s')
  next
    case None
    with "1.prems" obtain s1 where a: "client_alloc s = Inr s1" and r: "client_add_again fd uid s1 = Inr (i, s')"
      by (auto simp: client_add_again.simps [of fd uid s] bindR_Inr_iff)
    from client_alloc_InrD [OF a] obtain f1 where
      s1: "s1 = s\<lparr>heap := heap s - 1, client := client s @ f1\<rparr>" and
      f1: "length f1 = NALLOC" "\<forall>c \<in> set f1. cl_fd c = -1" by auto
    from "1.IH" [OF None a r] obtain f2 h where
      f2: "\<forall>c \<in> set f2. cl_fd c = -1" "NALLOC dvd length f2"
        "index_of (\<lambda>c. cl_fd c = -1) (client s1 @ f2) = Some i" and
      s': "s' = s1\<lparr>heap := h, client := (client s1 @ f2)[i := ((client s1 @ f2) ! i)\<lparr>cl_fd := fd, cl_uid := uid\<rparr>]\<rparr>"
      by auto
    show ?thesis
      by (rule exI [of _ "f1 @ f2"], rule exI [of _ h]) (use f1 f2 s1 s' in auto)
  qed
qed

lemma client_add_spec:
  assumes "client_add fd uid s = Inr (i, s')"
  shows "\<exists>f h. (\<forall>c \<in> set f. cl_fd c = -1) \<and> NALLOC dvd length f \<and>
    index_of (\<lambda>c. cl_fd c = -1) (client s @ f) = Some i \<and>
    s' = s\<lparr>heap := h, client := (client s @ f)[i := ((client s @ f) ! i)\<lparr>cl_fd := fd, cl_uid := uid\<rparr>]\<rparr>"
proof (cases "client s = []")
  case True
  with assms obtain s1 where a: "client_alloc s = Inr s1" and r: "client_add_again fd uid s1 = Inr (i, s')"
    by (auto simp: client_add_def bindR_Inr_iff)
  from client_alloc_InrD [OF a] True obtain f1 where
    s1: "s1 = s\<lparr>heap := heap s - 1, client := f1\<rparr>" and
    f1: "length f1 = NALLOC" "\<forall>c \<in> set f1. cl_fd c = -1" by auto
  from client_add_again_spec [OF r] obtain f2 h where
    f2: "\<forall>c \<in> set f2. cl_fd c = -1" "NALLOC dvd length f2"
      "index_of (\<lambda>c. cl_fd c = -1) (client s1 @ f2) = Some i" and
    s': "s' = s1\<lparr>heap := h, client := (client s1 @ f2)[i := ((client s1 @ f2) ! i)\<lparr>cl_fd := fd, cl_uid := uid\<rparr>]\<rparr>"
    by auto
  show ?thesis
    by (rule exI [of _ "f1 @ f2"], rule exI [of _ h]) (use True f1 f2 s1 s' in auto)
next
  case False
  with assms have "client_add_again fd uid s = Inr (i, s')" by (simp add: client_add_def)
  then show ?thesis by (rule client_add_again_spec)
qed

lemma unique_fds_append:
  assumes "unique_fds t" and "\<forall>c \<in> set f. cl_fd c = -1"
  shows "unique_fds (t @ f)"
  unfolding unique_fds_def
proof (intro allI impI)
  fix i j
  assume a: "i < length (t @ f)" "j < length (t @ f)"
    "cl_fd ((t @ f) ! i) = cl_fd ((t @ f) ! j) \<and> cl_fd ((t @ f) ! i) \<noteq> -1"
  have "k < length (t @ f) \<Longrightarrow> cl_fd ((t @ f) ! k) \<noteq> -1 \<Longrightarrow> k < length t" for k
    using assms(2) by (auto simp: nth_append split: if_splits)
  from this [of i] this [of j] a assms(1) show "i = j" by (auto simp: unique_fds_def nth_append)
qed

lemma unique_fds_update:
  assumes "unique_fds t" and "cl_fd c = -1 \<or> (\<forall>k < length t. k \<noteq> i \<longrightarrow> cl_fd (t ! k) \<noteq> cl_fd c)"
  shows "unique_fds (t[i := c])"
  using assms by (auto simp: unique_fds_def nth_update_if)

text \<open>An entry is added at an available index; the entries of the other descriptors stay.\<close>

lemma client_add_effect:
  assumes inv: "client_inv s" and fd: "fd \<noteq> -1" "slot_of s fd = None" and a: "client_add fd uid s = Inr (i, s')"
  shows "client_inv s' \<and> slot_of s' = (slot_of s)(fd \<mapsto> i) \<and> (\<forall>g. slot_of s g \<noteq> Some i)"
proof -
  from client_add_spec [OF a] obtain f h where f: "\<forall>c \<in> set f. cl_fd c = -1" "NALLOC dvd length f"
    and ix: "index_of (\<lambda>c. cl_fd c = -1) (client s @ f) = Some i"
    and s': "s' = s\<lparr>heap := h, client := (client s @ f)[i := ((client s @ f) ! i)\<lparr>cl_fd := fd, cl_uid := uid\<rparr>]\<rparr>"
    by auto
  let ?t = "client s @ f"
  note i = index_of_SomeD [OF ix]
  have app: "g \<noteq> -1 \<Longrightarrow> index_of (\<lambda>c. cl_fd c = g) ?t = index_of (\<lambda>c. cl_fd c = g) (client s)" for g
    using f(1) by (intro index_of_append_none) (auto simp: index_of_None)
  have fdn: "index_of (\<lambda>c. cl_fd c = fd) ?t = None" using fd app by (simp add: slot_of_def)
  have "slot_of s' = (slot_of s)(fd \<mapsto> i)"
  proof
    fix g
    show "slot_of s' g = ((slot_of s)(fd \<mapsto> i)) g"
    proof (cases "g = fd")
      case True
      then show ?thesis using fd index_of_update_here [OF fdn] i by (simp add: slot_of_def s')
    next
      case False
      have "g \<noteq> -1 \<Longrightarrow> index_of (\<lambda>c. cl_fd c = g) (client s') = index_of (\<lambda>c. cl_fd c = g) ?t"
        using False i by (auto simp: s' intro!: index_of_update_other)
      then show ?thesis using False app by (auto simp: slot_of_def)
    qed
  qed
  moreover have "unique_fds (client s')"
    using fdn inv f(1) unfolding s'
    by (auto simp: index_of_None client_inv_def intro!: unique_fds_update unique_fds_append simp del: set_append)
  moreover have "slot_of s g \<noteq> Some i" for g
    using i by (auto simp: slot_of_def nth_append dest: index_of_SomeD split: if_splits)
  ultimately show ?thesis using inv f(2) by (auto simp: client_inv_def s')
qed

lemma client_del_effect:
  assumes inv: "client_inv s" and fd: "slot_of s fd = Some i"
  shows "\<exists>s'. client_del fd s = Inr s' \<and> client_inv s' \<and> slot_of s' = (slot_of s)(fd := None)"
proof -
  let ?s = "s\<lparr>client := (client s)[i := (client s ! i)\<lparr>cl_fd := -1\<rparr>]\<rparr>"
  from fd have ix: "fd \<noteq> -1" "index_of (\<lambda>c. cl_fd c = fd) (client s) = Some i"
    by (auto simp: slot_of_def split: if_splits)
  note i = index_of_SomeD [OF ix(2)]
  have "slot_of ?s = (slot_of s)(fd := None)"
  proof
    fix g
    show "slot_of ?s g = ((slot_of s)(fd := None)) g"
    proof (cases "g = fd")
      case True
      have "cl_fd (client ?s ! k) \<noteq> fd" if "k < length (client s)" for k
        using that inv i ix(1) by (auto simp: client_inv_def unique_fds_def nth_update_if)
      then have "\<forall>c \<in> set (client ?s). cl_fd c \<noteq> fd" by (simp add: all_set_conv_all_nth)
      then show ?thesis using True by (simp add: slot_of_def index_of_None)
    next
      case False
      then show ?thesis using i by (auto simp: slot_of_def intro!: index_of_update_other)
    qed
  qed
  moreover have "client_inv ?s" using inv by (auto simp: client_inv_def intro!: unique_fds_update)
  moreover have "client_del fd s = Inr ?s" using ix by (simp add: client_del_def)
  ultimately show ?thesis by blast
qed

section \<open>The interface the server relies on\<close>

text \<open>A table of descriptors: each registered descriptor has an index of its own.\<close>

locale fd_table =
  fixes add :: "int \<Rightarrow> 'u \<Rightarrow> 's \<Rightarrow> ('i \<times> 's) res"
    and del :: "int \<Rightarrow> 's \<Rightarrow> 's res"
    and slot :: "'s \<Rightarrow> int \<rightharpoonup> 'i"
    and inv :: "'s \<Rightarrow> bool"
  assumes add: "inv s \<Longrightarrow> fd \<noteq> -1 \<Longrightarrow> slot s fd = None \<Longrightarrow> add fd u s = Inr (i, s') \<Longrightarrow>
      inv s' \<and> slot s' = (slot s)(fd \<mapsto> i) \<and> (\<forall>g. slot s g \<noteq> Some i)"
    and del: "inv s \<Longrightarrow> slot s fd = Some i \<Longrightarrow>
      \<exists>s'. del fd s = Inr s' \<and> inv s' \<and> slot s' = (slot s)(fd := None)"
begin

lemma add_inj:
  assumes "inv s" and "inj_on (slot s) (dom (slot s))" and "fd \<noteq> -1" and "slot s fd = None"
    and "add fd u s = Inr (i, s')"
  shows "inj_on (slot s') (dom (slot s'))"
  using add [OF assms(1,3-5)] assms(2) by (auto simp: inj_on_def dom_def)

lemma add_del:
  assumes "inv s" and "fd \<noteq> -1" and "slot s fd = None" and "add fd u s = Inr (i, s')"
  shows "\<exists>s''. del fd s' = Inr s'' \<and> inv s'' \<and> slot s'' = slot s"
  using add [OF assms] assms(3) del [of s' fd i] by (auto simp: fun_upd_idem)

text \<open>Two connections accepted one after the other never share an entry.\<close>

lemma add_add:
  assumes "inv s" and "fd \<noteq> -1" and "slot s fd = None" and "add fd u s = Inr (i, s1)"
    and "fd' \<noteq> -1" and "fd' \<noteq> fd" and "slot s fd' = None" and "add fd' u' s1 = Inr (j, s2)"
  shows "i \<noteq> j \<and> inv s2 \<and> slot s2 = (slot s)(fd \<mapsto> i, fd' \<mapsto> j)"
proof -
  from add [OF assms(1-4)] have s1: "inv s1" "slot s1 = (slot s)(fd \<mapsto> i)" by auto
  with assms(6,7) have "slot s1 fd' = None" by simp
  from add [OF s1(1) assms(5) this assms(8)] have "inv s2" "slot s2 = (slot s1)(fd' \<mapsto> j)" "slot s1 fd \<noteq> Some j"
    by auto
  then show ?thesis using s1(2) by auto
qed

end

interpretation cl: fd_table client_add client_del slot_of client_inv
  by unfold_locales (rule client_add_effect client_del_effect; assumption)+

section \<open>Properties\<close>

text \<open>
  two clients that connect one after the other get different entries of the client table,
  whether or not the array has to grow for them; every client already connected keeps its entry.
\<close>

theorem client_add_distinct:
  assumes "client_inv s" and "fd \<noteq> -1" and "slot_of s fd = None" and "client_add fd uid s = Inr (i, s1)"
    and "fd' \<noteq> -1" and "fd' \<noteq> fd" and "slot_of s fd' = None" and "client_add fd' uid' s1 = Inr (j, s2)"
  shows "i \<noteq> j \<and> client_inv s2 \<and> slot_of s2 = (slot_of s)(fd \<mapsto> i, fd' \<mapsto> j)"
  using assms by (rule cl.add_add)

text \<open>
  client_del undoes client_add: it never fails on a descriptor that was added, and the table
  then serves exactly the descriptors it served before, at the same indices.
\<close>

theorem client_add_del:
  assumes "client_inv s" and "fd \<noteq> -1" and "slot_of s fd = None" and "client_add fd uid s = Inr (i, s')"
  shows "\<exists>s''. client_del fd s' = Inr s'' \<and> client_inv s'' \<and> slot_of s'' = slot_of s"
  using assms by (rule cl.add_del)

text \<open>
  an entry that is reused keeps the process ID of its former client. When client A (process
  \<open>p\<close> is dialing for it) disconnects, its entry \<open>i\<close> is the first with that process ID and is the
  first available one, and B connects, then the termination of A's child is recorded for B.
\<close>

theorem client_reuse_stale_pid:
  assumes "slot_of s a = Some i" and "cl_pid (client s ! i) = p"
    and "\<forall>k < i. cl_fd (client s ! k) \<noteq> -1 \<and> cl_pid (client s ! k) \<noteq> p" and "b \<noteq> -1"
  shows "\<exists>s' c. bindR (client_del a s) (\<lambda>s. bindR (client_add b uid s) (\<lambda>(j, s). client_sigchld p stat s)) = Inr s'
    \<and> c = client s' ! i \<and> cl_fd c = b \<and> cl_uid c = uid \<and> cl_childdone c = stat"
proof -
  from assms(1) have ix: "a \<noteq> -1" "index_of (\<lambda>c. cl_fd c = a) (client s) = Some i"
    by (auto simp: slot_of_def split: if_splits)
  note i = index_of_SomeD [OF ix(2)]
  let ?t = "(client s)[i := (client s ! i)\<lparr>cl_fd := -1\<rparr>]"
  let ?u = "(client s)[i := (client s ! i)\<lparr>cl_fd := b, cl_uid := uid\<rparr>]"
  have del: "client_del a s = Inr (s\<lparr>client := ?t\<rparr>)" using ix by (simp add: client_del_def)
  have "index_of (\<lambda>c. cl_fd c = -1) ?t = Some i"
    using i assms(3) by (intro index_ofI) (auto simp: nth_update_if)
  then have add: "client_add b uid (s\<lparr>client := ?t\<rparr>) = Inr (i, s\<lparr>client := ?u\<rparr>)"
    using i by (auto simp: client_add_def client_add_again.simps [of b uid])
  have "index_of (\<lambda>c. cl_pid c = p) ?u = Some i"
    using i assms(2,3) by (intro index_ofI) (auto simp: nth_update_if)
  then show ?thesis using i by (simp add: del add client_sigchld_def)
qed

definition blank_client :: Client where
  "blank_client = \<lparr>cl_fd = -1, cl_pid = 0, cl_uid = 0, cl_childdone = 0, cl_sysftell = 0,
     cl_foundone = 0, cl_Debug = 0, cl_parity = NONE, cl_speed = [], cl_sysname = []\<rparr>"

text \<open>Two clients are connected; the first has a dialing child.\<close>

definition client_ex :: clients where
  "client_ex = \<lparr>debug = 0, errno_text = [], stderr_out = [], syslog_out = [], heap = 9,
     rd_env = (\<lambda>_. []), wr_env = [], fd_out = (\<lambda>_. []),
     lock_tab = [], lock_size = 0,
     client = [blank_client\<lparr>cl_fd := 4, cl_pid := 500\<rparr>, blank_client\<lparr>cl_fd := 5\<rparr>]
       @ replicate 8 blank_client,
     fresh_mem = (\<lambda>_. blank_client)\<rparr>"

lemma client_ex_facts:
  "client_inv client_ex" "slot_of client_ex 7 = None" "slot_of client_ex 8 = None" "slot_of client_ex 4 = Some 0"
  by (simp_all add: client_ex_def client_inv_def unique_fds_def slot_of_def blank_client_def NALLOC_def
      numeral_nat nth_Cons split: nat.split)

theorem client_add_distinct_witness:
  "\<exists>i j s1 s2. client_add 7 100 client_ex = Inr (i, s1) \<and> client_add 8 100 s1 = Inr (j, s2) \<and> i \<noteq> j
     \<and> slot_of s2 = (slot_of client_ex)(7 \<mapsto> i, 8 \<mapsto> j)"
proof -
  have "\<exists>i j s1 s2. client_add 7 100 client_ex = Inr (i, s1) \<and> client_add 8 100 s1 = Inr (j, s2)"
    by (simp add: client_add_def client_ex_def client_add_again.simps blank_client_def numeral_nat)
  then show ?thesis
    using client_add_distinct [OF client_ex_facts(1) _ client_ex_facts(2) _ _ _ client_ex_facts(3)] by fastforce
qed

theorem client_add_del_witness:
  "\<exists>i s1 s2. client_add 7 100 client_ex = Inr (i, s1) \<and> client_del 7 s1 = Inr s2 \<and> slot_of s2 = slot_of client_ex"
proof -
  have "\<exists>i s1. client_add 7 100 client_ex = Inr (i, s1)"
    by (simp add: client_add_def client_ex_def client_add_again.simps blank_client_def numeral_nat)
  then show ?thesis
    using client_add_del [OF client_ex_facts(1) _ client_ex_facts(2)] by fastforce
qed

theorem client_reuse_stale_pid_witness:
  "\<exists>s' c. bindR (client_del 4 client_ex) (\<lambda>s. bindR (client_add 9 7 s) (\<lambda>(j, s). client_sigchld 500 1 s)) = Inr s'
    \<and> c = client s' ! 0 \<and> cl_fd c = 9 \<and> cl_uid c = 7 \<and> cl_childdone c = 1"
  by (rule client_reuse_stale_pid) (simp_all add: client_ex_facts(4), simp_all add: client_ex_def blank_client_def)

end
