(* ===== verification/TableFile.thy ===== *)
theory TableFile
  imports CPrelude
begin

text \<open>
  Line-oriented tables: what the three configuration files of the calling server have in common.
  A file is a string with a read position; one line is classified as skipped (empty or comment),
  as lacking a field, or as a record. \<open>file_recs\<close> is the abstract content of a file: the
  list of its records in order, if no line is malformed. The locale \<open>record_stream\<close> is what
  a client needs to know of a reader, and proves that a search loop returns the first match.
\<close>

section \<open>Lines and records\<close>

datatype 'r parsed = Skip "string option" | Missing string | Fields 'r


record cfile =
  content :: string
  pos :: nat

text \<open>A line as fgets with a buffer of \<open>n\<close> bytes returns it, and the abstract content.\<close>

function file_recs :: "nat \<Rightarrow> (string \<Rightarrow> 'r parsed) \<Rightarrow> string \<Rightarrow> 'r list option" where
  "file_recs n ln rest =
     (if rest = [] \<or> n \<le> 1 then Some []
      else (let l = take_line (n - 1) rest; rest' = drop (length l) rest in
            case ln l of
              Skip _ \<Rightarrow> file_recs n ln rest'
            | Missing _ \<Rightarrow> None
            | Fields r \<Rightarrow> map_option ((#) r) (file_recs n ln rest')))"
  by pat_completeness auto
termination
  by (relation "measure (\<lambda>(n, ln, rest). length rest)")
     (simp_all add: take_line_nonempty)

declare file_recs.simps [simp del]

lemma file_recs_Nil [simp]: "file_recs n ln [] = Some []"
  by (simp add: file_recs.simps)

lemma take_line_line:
  "NL \<notin> set l \<Longrightarrow> length l < k \<Longrightarrow> take_line k (l @ NL # rest) = l @ [NL]"
proof (induction l arbitrary: k)
  case Nil
  then show ?case by (cases k) auto
next
  case (Cons c l)
  then show ?case by (cases k) auto
qed

lemma file_recs_line:
  assumes "NL \<notin> set l" and "length l + 1 < n"
  shows "file_recs n ln (l @ NL # rest) =
    (case ln (l @ [NL]) of Skip _ \<Rightarrow> file_recs n ln rest | Missing _ \<Rightarrow> None
       | Fields r \<Rightarrow> map_option ((#) r) (file_recs n ln rest))"
proof -
  have "take_line (n - 1) (l @ NL # rest) = l @ [NL]" using assms by (intro take_line_line) auto
  moreover have "drop (length (l @ [NL])) (l @ NL # rest) = rest" by simp
  ultimately show ?thesis using assms(2) by (subst file_recs.simps) (simp add: Let_def split: parsed.split)
qed

text \<open>A file written line by line, from a printer that the line parser inverts, is read back.\<close>

lemma file_recs_print:
  assumes "\<And>r. r \<in> set rs \<Longrightarrow> NL \<notin> set (pr r) \<and> length (pr r) + 1 < n \<and> ln (pr r @ [NL]) = Fields r"
  shows "file_recs n ln (concat (map (\<lambda>r. pr r @ [NL]) rs)) = Some rs"
  using assms by (induction rs) (simp_all add: file_recs_line)

text \<open>
  The loop that the three readers share, from the label \<open>again\<close> on: fgets a line, count it,
  go back for an empty line or a comment (the first field of the caller's record has been
  overwritten by then), stop at the end of the file, at a malformed line, or with a record.
\<close>

datatype 'r outcome = EOF 'r | Bad string | Rec 'r

function read_record :: "nat \<Rightarrow> (string \<Rightarrow> 'r parsed) \<Rightarrow> (string option \<Rightarrow> 'r \<Rightarrow> 'r) \<Rightarrow> 'r \<Rightarrow> cfile \<Rightarrow> nat
    \<Rightarrow> 'r outcome \<times> cfile \<times> nat" where
  "read_record n ln first r f lineno =
     (if n \<le> 1 then (EOF r, f, lineno)
      else (case fgets n (content f) (pos f) of
        None \<Rightarrow> (EOF r, f, lineno)
      | Some (line, p) \<Rightarrow>
          (let f = f\<lparr>pos := p\<rparr>; lineno = lineno + 1 in
           case ln line of
             Skip x \<Rightarrow> read_record n ln first (first x r) f lineno
           | Missing m \<Rightarrow> (Bad m, f, lineno)
           | Fields r \<Rightarrow> (Rec r, f, lineno))))"
  by pat_completeness auto
termination
  by (relation "measure (\<lambda>(n, ln, first, r, f, lineno). length (content f) - pos f)")
     (auto dest!: fgets_progress)

declare read_record.simps [simp del]

definition stream_recs :: "nat \<Rightarrow> (string \<Rightarrow> 'r parsed) \<Rightarrow> cfile \<Rightarrow> 'r list option" where
  "stream_recs n ln f = file_recs n ln (drop (pos f) (content f))"

lemma stream_recs_line:
  assumes "fgets n (content f) (pos f) = Some (line, p)" and "1 < n"
  shows "stream_recs n ln f =
    (case ln line of Skip _ \<Rightarrow> stream_recs n ln (f\<lparr>pos := p\<rparr>) | Missing _ \<Rightarrow> None
       | Fields r \<Rightarrow> map_option ((#) r) (stream_recs n ln (f\<lparr>pos := p\<rparr>)))"
proof -
  from assms(1) have "drop (pos f) (content f) \<noteq> []" and l: "line = take_line (n - 1) (drop (pos f) (content f))"
    and p: "p = pos f + length line"
    by (auto simp: fgets_def Let_def split: if_splits)
  then show ?thesis using assms(2)
    by (simp add: stream_recs_def file_recs.simps [of n ln "drop (pos f) (content f)"] Let_def
        add.commute split: parsed.split)
qed

text \<open>A call of the loop takes the next record of the abstract content.\<close>

lemma read_record_spec:
  assumes "read_record n ln first r f lineno = (out, f', k)" and "1 < n"
  shows "content f' = content f \<and> pos f \<le> pos f' \<and>
    (case out of EOF _ \<Rightarrow> stream_recs n ln f = Some [] \<and> stream_recs n ln f' = Some []
       | Bad _ \<Rightarrow> stream_recs n ln f = None
       | Rec r \<Rightarrow> pos f < pos f' \<and> pos f' \<le> length (content f) \<and>
           stream_recs n ln f = map_option ((#) r) (stream_recs n ln f'))"
  using assms
proof (induction n ln first r f lineno rule: read_record.induct)
  case (1 n ln first r f lineno)
  show ?case
  proof (cases "fgets n (content f) (pos f)")
    case None
    then have "drop (pos f) (content f) = []" by (simp add: fgets_def Let_def split: if_splits)
    with None "1.prems" show ?thesis by (auto simp: read_record.simps [of n] stream_recs_def)
  next
    case (Some lp)
    obtain line p where lp: "lp = (line, p)" by (cases lp)
    note prog = fgets_progress [OF Some [unfolded lp] "1.prems"(2)]
    note rl = stream_recs_line [OF Some [unfolded lp] "1.prems"(2), of ln]
    show ?thesis
    proof (cases "ln line")
      case (Skip x)
      with "1.prems" Some lp have "read_record n ln first (first x r) (f\<lparr>pos := p\<rparr>) (lineno + 1) = (out, f', k)"
        by (simp add: read_record.simps [of n ln first r] Let_def)
      from "1.IH" [OF _ Some lp [symmetric] refl refl Skip this] "1.prems"(2) prog rl Skip
      show ?thesis by (cases out) auto
    qed (use "1.prems" Some lp prog rl in \<open>auto simp: read_record.simps [of n ln first r] Let_def\<close>)
  qed
qed

text \<open>
  The rule the readers use: what follows the loop may rely on the abstract content, and on
  progress when there is a record.
\<close>

lemma read_record_cases:
  assumes "1 < n"
  obtains (eof) r f' k where "read_record n ln first r0 f lineno = (EOF r, f', k)"
      and "content f' = content f" and "stream_recs n ln f = Some []" and "stream_recs n ln f' = Some []"
  | (bad) m f' k where "read_record n ln first r0 f lineno = (Bad m, f', k)" and "stream_recs n ln f = None"
  | (found) r f' k where "read_record n ln first r0 f lineno = (Rec r, f', k)"
      and "content f' = content f" and "stream_recs n ln f = map_option ((#) r) (stream_recs n ln f')"
      and "length (content f') - pos f' < length (content f) - pos f" and "0 < pos f'"
proof -
  obtain out f' k where rr: "read_record n ln first r0 f lineno = (out, f', k)" by (metis prod_cases3)
  note sp = read_record_spec [OF rr assms]
  show thesis
    by (cases out) (use rr sp eof bad found in fastforce)+
qed

section \<open>Tokens of a printed line\<close>

definition token :: "string \<Rightarrow> bool" where
  "token t \<longleftrightarrow> t \<noteq> [] \<and> set t \<inter> (set WHITE \<union> {NUL}) = {}"

lemma token_not_NL: "token t \<Longrightarrow> NL \<notin> set t"
  by (auto simp: token_def WHITE_def)

lemma strtok_token_sep:
  assumes "t \<noteq> []" and "\<forall>c \<in> set t. c \<notin> set d" and "w \<in> set d"
  shows "strtok d (t @ w # rest) = Some (t, rest)"
proof -
  obtain c t' where t: "t = c # t'" using assms(1) by (cases t) auto
  have h: "c \<notin> set d" using assms(2) t by simp
  have "takeWhile (\<lambda>c. c \<notin> set d) (t @ w # rest) = t"
    and "dropWhile (\<lambda>c. c \<notin> set d) (t @ w # rest) = w # rest"
    using assms(2,3) by (auto simp: takeWhile_append dropWhile_append)
  with h show ?thesis by (simp add: strtok_def t Let_def)
qed

lemma strtok_word [simp]:
  "token t \<Longrightarrow> strtok WHITE (t @ CHR '' '' # rest) = Some (t, rest)"
  "token t \<Longrightarrow> strtok WHITE (t @ NL # rest) = Some (t, rest)"
  by (rule strtok_token_sep; force simp: token_def WHITE_def)+

lemma strtok_last:
  "t \<noteq> [] \<Longrightarrow> NL \<notin> set t \<Longrightarrow> strtok [NL] (t @ NL # rest) = Some (t, rest)"
  by (rule strtok_token_sep) auto

lemma cstr_no_NUL [simp]: "NUL \<notin> set s \<Longrightarrow> cstr s = s"
  by (auto simp: cstr_def takeWhile_eq_all_conv)

section \<open>Readers and searches\<close>

locale record_reader =
  fixes nxt :: "'r \<Rightarrow> 's \<Rightarrow> (int \<times> 'r \<times> 's) res"
    and recs :: "'s \<Rightarrow> 'r list option"
  assumes nxt_Cons: "recs s = Some (r # rs) \<Longrightarrow> \<exists>n s'. nxt r0 s = Inr (n, r, s') \<and> 0 \<le> n \<and> recs s' = Some rs"
    and nxt_Nil: "recs s = Some [] \<Longrightarrow> \<exists>n r s'. nxt r0 s = Inr (n, r, s') \<and> n < 0 \<and> recs s' = Some []"
begin

text \<open>On a well-formed table a call returns, and its sign tells whether there was a record.\<close>

lemma nxt_total:
  assumes "recs s = Some rs"
  shows "\<exists>n r s'. nxt r0 s = Inr (n, r, s') \<and> recs s' = Some (tl rs) \<and> (if rs = [] then n < 0 else 0 \<le> n \<and> r = hd rs)"
  using assms nxt_Nil [of s r0] nxt_Cons [of s "hd rs" "tl rs" r0] by (cases rs) auto

end

locale record_stream = record_reader nxt recs
  for nxt :: "'r \<Rightarrow> 's \<Rightarrow> (int \<times> 'r \<times> 's) res" and recs :: "'s \<Rightarrow> 'r list option" +
  fixes search :: "'k \<Rightarrow> 'r \<Rightarrow> 's \<Rightarrow> (int \<times> 'r \<times> 's) res"
    and matches :: "'k \<Rightarrow> 'r \<Rightarrow> bool"
  assumes search_unfold: "search k r0 s = bindR (nxt r0 s) (\<lambda>(n, r, s).
          if 0 \<le> n then (if matches k r then Inr (0, r, s) else search k r s) else Inr (-1, r, s))"
begin

lemma search_first_match:
  "recs s = Some rs \<Longrightarrow>
     (case List.find (matches k) rs of
        Some r \<Rightarrow> \<exists>s'. search k r0 s = Inr (0, r, s') \<and> recs s' = Some (tl (dropWhile (\<lambda>r. \<not> matches k r) rs))
      | None \<Rightarrow> \<exists>r s'. search k r0 s = Inr (-1, r, s') \<and> recs s' = Some [])"
proof (induction rs arbitrary: s r0)
  case Nil
  from nxt_Nil [OF Nil, of r0] show ?case by (auto simp: search_unfold [of k r0 s])
next
  case (Cons r rs)
  from nxt_Cons [OF Cons.prems, of r0] obtain n s' where
    n: "nxt r0 s = Inr (n, r, s')" "0 \<le> n" and rs: "recs s' = Some rs" by auto
  show ?case
  proof (cases "matches k r")
    case True
    then show ?thesis using n rs by (simp add: search_unfold [of k r0 s])
  next
    case False
    then have "search k r0 s = search k r s'" using n by (simp add: search_unfold [of k r0 s])
    then show ?thesis using Cons.IH [OF rs, of r] False by (simp split: option.splits)
  qed
qed

end

end
