(* ===== verification/CFiles.thy ===== *)
theory CFiles
  imports CClient TableFile
begin

text \<open>
  The three configuration files of the calling server: calld/sysfile.c (Systems), devfile.c
  (Devices) and dialfile.c (Dialers). Each keeps a stream, a line number for its messages and a
  line buffer; the fields of a record point into that buffer, so a record holds their values
  until the next call. A field of a record that may be the NULL pointer is an option.
  \<open>disk\<close> is what fopen finds under a name; a stream is a content with a position.
\<close>

section \<open>State\<close>

record Systems =
  sy_name :: "string option"
  sy_time :: string
  sy_type :: string
  sy_class :: string
  sy_phone :: string
  sy_login :: string

record Devices =
  dv_type :: "string option"
  dv_line :: string
  dv_line2 :: string
  dv_class :: string
  dv_dialer :: string

record Dialers =
  dl_dialer :: "string option"
  dl_sub :: string
  dl_expsend :: string

record files = clients +
  disk :: "string \<rightharpoonup> string"
  errmsg :: string
  fpsys :: "cfile option"
  syslineno :: nat
  fpdev :: "cfile option"
  devlineno :: nat
  fpdial :: "cfile option"
  diallineno :: nat

definition SYSTEMS :: string where "SYSTEMS = ''./Systems''"
definition DEVICES :: string where "DEVICES = ''./Devices''"
definition DIALERS :: string where "DIALERS = ''./Dialers''"

text \<open>sprintf into \<open>char errmsg[MAXLINE]\<close>.\<close>

definition set_errmsg :: "string \<Rightarrow> 'a files_scheme \<Rightarrow> 'a files_scheme res" where
  "set_errmsg m s = (if MAXLINE \<le> length m then Inl (UB ''errmsg overflow'') else Inr (s\<lparr>errmsg := m\<rparr>))"

section \<open>sysfile.c\<close>

text \<open>The fields of one line, and what is wrong with it when a field is missing.\<close>

definition sys_line :: "string \<Rightarrow> Systems parsed" where
  "sys_line line =
     (case strtok WHITE (cstr line) of
        None \<Rightarrow> if take 1 line = [NL] then Skip None else Missing ''name''
      | Some (name, r) \<Rightarrow>
          if hd name = CHR ''#'' then Skip (Some name)
          else (case strtok WHITE r of None \<Rightarrow> Missing ''time'' | Some (time, r) \<Rightarrow>
               (case strtok WHITE r of None \<Rightarrow> Missing ''type'' | Some (type, r) \<Rightarrow>
               (case strtok WHITE r of None \<Rightarrow> Missing ''class'' | Some (cls, r) \<Rightarrow>
               (case strtok WHITE r of None \<Rightarrow> Missing ''phone'' | Some (phone, r) \<Rightarrow>
               (case strtok [NL] r of None \<Rightarrow> Missing ''login'' | Some (login, r) \<Rightarrow>
                  Fields \<lparr>sy_name = Some name, sy_time = time, sy_type = type, sy_class = cls,
                          sy_phone = phone, sy_login = login\<rparr>))))))"

definition sys_open :: "'a files_scheme \<Rightarrow> (cfile \<times> 'a files_scheme) res" where
  "sys_open s =
     (case fpsys s of
        Some f \<Rightarrow> Inr (f, s)
      | None \<Rightarrow>
          (case disk s SYSTEMS of
             None \<Rightarrow> log_sys (''can't open '' @ SYSTEMS) s
           | Some c \<Rightarrow> (let f = \<lparr>content = c, pos = 0\<rparr> in Inr (f, s\<lparr>fpsys := Some f, syslineno := 0\<rparr>))))"

definition sys_next :: "Systems \<Rightarrow> 'a files_scheme \<Rightarrow> (int \<times> Systems \<times> 'a files_scheme) res" where
  "sys_next sys s =
     bindR (sys_open s) (\<lambda>(f, s).
       case read_record MAXLINE sys_line (\<lambda>x r. r\<lparr>sy_name := x\<rparr>) sys f (syslineno s) of
         (out, f, n) \<Rightarrow>
           (let s = s\<lparr>fpsys := Some f, syslineno := n\<rparr> in
            case out of
              EOF r \<Rightarrow> Inr (-1, r, s)
            | Bad m \<Rightarrow> log_quit (''missing `'' @ m @ [CHR 0x27] @ '' in Systems file, line '' @ dec n) s
            | Rec r \<Rightarrow> Inr (int (pos f), r, s)))"

definition sys_rew :: "'a files_scheme \<Rightarrow> 'a files_scheme" where
  "sys_rew s = s\<lparr>fpsys := map_option (\<lambda>f. f\<lparr>pos := 0\<rparr>) (fpsys s), syslineno := 0\<rparr>"

definition sys_posn :: "int \<Rightarrow> 'a files_scheme \<Rightarrow> 'a files_scheme res" where
  "sys_posn posn s =
     (if posn = 0 then Inr (sys_rew s)
      else (case fpsys s of
              None \<Rightarrow> Inl (UB ''fseek on NULL'')
            | Some f \<Rightarrow> if posn < 0 then log_sys ''fseek error'' s
                       else Inr (s\<lparr>fpsys := Some (f\<lparr>pos := nat posn\<rparr>)\<rparr>)))"

text \<open>What is left of the Systems file: its stream and records; a position returned by sys_next.\<close>

definition sys_stream :: "'a files_scheme \<Rightarrow> cfile option" where
  "sys_stream s = (case fpsys s of Some f \<Rightarrow> Some f | None \<Rightarrow> map_option (\<lambda>c. \<lparr>content = c, pos = 0\<rparr>) (disk s SYSTEMS))"

definition sys_recs :: "'a files_scheme \<Rightarrow> Systems list option" where
  "sys_recs s = Option.bind (sys_stream s) (stream_recs MAXLINE sys_line)"

definition bytes_left :: "cfile option \<Rightarrow> nat" where
  "bytes_left f = (case f of None \<Rightarrow> 0 | Some f \<Rightarrow> length (content f) - pos f)"

definition sys_core :: "'a files_scheme \<Rightarrow> 'a files_scheme" where
  "sys_core s = s\<lparr>fpsys := None, syslineno := 0\<rparr>"

lemma sys_core_eqD:
  assumes "sys_core s' = sys_core s"
  shows "errmsg s' = errmsg s" "disk s' = disk s" "client s' = client s" "lock_tab s' = lock_tab s"
    "lock_size s' = lock_size s" "fpdev s' = fpdev s"
  using arg_cong [OF assms, of errmsg] arg_cong [OF assms, of disk] arg_cong [OF assms, of client]
    arg_cong [OF assms, of lock_tab] arg_cong [OF assms, of lock_size] arg_cong [OF assms, of fpdev]
  by (simp_all add: sys_core_def)

lemma sys_next_spec:
  "case sys_next sys s of
     Inl _ \<Rightarrow> sys_recs s = None
   | Inr (n, r, s') \<Rightarrow> sys_core s' = sys_core s \<and> map_option content (sys_stream s') = map_option content (sys_stream s)
      \<and> (\<exists>f. fpsys s' = Some f \<and> (0 \<le> n \<longrightarrow> int (pos f) = n)) \<and>
      (if 0 \<le> n then 0 < n \<and> sys_recs s = map_option ((#) r) (sys_recs s')
          \<and> bytes_left (sys_stream s') < bytes_left (sys_stream s)
       else n = -1 \<and> sys_recs s = Some [] \<and> sys_recs s' = Some [])"
proof (cases "sys_open s")
  case (Inl e)
  then show ?thesis
    by (auto simp: sys_next_def sys_open_def sys_recs_def sys_stream_def Let_def split: option.splits)
next
  case (Inr fs)
  obtain f s1 where fs: "fs = (f, s1)" by (cases fs)
  have st: "sys_stream s = Some f" and "s1 = s\<lparr>fpsys := fpsys s1, syslineno := syslineno s1\<rparr>"
    using Inr by (auto simp: fs sys_open_def sys_stream_def Let_def split: option.splits)
  then obtain g l where s1: "s1 = s\<lparr>fpsys := g, syslineno := l\<rparr>" by blast
  have "1 < MAXLINE" by (simp add: MAXLINE_def)
  then show ?thesis
  proof (cases rule: read_record_cases [of MAXLINE sys_line "\<lambda>x r. r\<lparr>sy_name := x\<rparr>" sys f "syslineno s1"])
    case (bad m f' k)
    then show ?thesis
      using fatal_Inl(2) by (fastforce simp: sys_next_def Inr fs sys_recs_def st Let_def split: sum.split)
  qed (use st s1 in \<open>simp_all add: s1 sys_next_def Inr fs sys_core_def sys_recs_def sys_stream_def bytes_left_def Let_def\<close>)
qed

interpretation sy: record_reader sys_next sys_recs
proof
  show "sys_recs s = Some (r # rs) \<Longrightarrow> \<exists>n s'. sys_next r0 s = Inr (n, r, s') \<and> 0 \<le> n \<and> sys_recs s' = Some rs"
    for s :: "'a files_scheme" and r rs r0
    using sys_next_spec [of s r0] by (auto simp: Some_eq_map_option split: sum.splits if_splits)
  show "sys_recs s = Some [] \<Longrightarrow> \<exists>n r s'. sys_next r0 s = Inr (n, r, s') \<and> n < 0 \<and> sys_recs s' = Some []"
    for s :: "'a files_scheme" and r0
    using sys_next_spec [of s r0] by (auto simp: Some_eq_map_option split: sum.splits if_splits)
qed

section \<open>devfile.c\<close>

definition dev_line :: "string \<Rightarrow> Devices parsed" where
  "dev_line line =
     (case strtok WHITE (cstr line) of
        None \<Rightarrow> if take 1 line = [NL] then Skip None else Missing ''type''
      | Some (type, r) \<Rightarrow>
          if hd type = CHR ''#'' then Skip (Some type)
          else (case strtok WHITE r of None \<Rightarrow> Missing ''line'' | Some (l, r) \<Rightarrow>
               (case strtok WHITE r of None \<Rightarrow> Missing ''line2'' | Some (l2, r) \<Rightarrow>
               (case strtok WHITE r of None \<Rightarrow> Missing ''class'' | Some (cls, r) \<Rightarrow>
               (case strtok WHITE r of None \<Rightarrow> Missing ''dialer'' | Some (dialer, r) \<Rightarrow>
                  Fields \<lparr>dv_type = Some type, dv_line = l, dv_line2 = l2, dv_class = cls,
                          dv_dialer = dialer\<rparr>)))))"

definition dev_open :: "'a files_scheme \<Rightarrow> (cfile \<times> 'a files_scheme) res" where
  "dev_open s =
     (case fpdev s of
        Some f \<Rightarrow> Inr (f, s)
      | None \<Rightarrow>
          (case disk s DEVICES of
             None \<Rightarrow> log_sys (''can't open '' @ DEVICES) s
           | Some c \<Rightarrow> (let f = \<lparr>content = c, pos = 0\<rparr> in Inr (f, s\<lparr>fpdev := Some f, devlineno := 0\<rparr>))))"

definition dev_next :: "Devices \<Rightarrow> 'a files_scheme \<Rightarrow> (int \<times> Devices \<times> 'a files_scheme) res" where
  "dev_next dev s =
     bindR (dev_open s) (\<lambda>(f, s).
       case read_record MAXLINE dev_line (\<lambda>x r. r\<lparr>dv_type := x\<rparr>) dev f (devlineno s) of
         (out, f, n) \<Rightarrow>
           (let s = s\<lparr>fpdev := Some f, devlineno := n\<rparr> in
            case out of
              EOF r \<Rightarrow> Inr (-1, r, s)
            | Bad m \<Rightarrow> log_quit (''missing `'' @ m @ [CHR 0x27] @ '' in Devices file, line '' @ dec n) s
            | Rec r \<Rightarrow> Inr (0, r, s)))"

definition dev_rew :: "'a files_scheme \<Rightarrow> 'a files_scheme" where
  "dev_rew s = s\<lparr>fpdev := map_option (\<lambda>f. f\<lparr>pos := 0\<rparr>) (fpdev s), devlineno := 0\<rparr>"

text \<open>
  What is left of the file: its records, and their bytes, which dev_next decreases whenever it
  returns a record.
\<close>

definition dev_stream :: "'a files_scheme \<Rightarrow> cfile option" where
  "dev_stream s = (case fpdev s of Some f \<Rightarrow> Some f | None \<Rightarrow> map_option (\<lambda>c. \<lparr>content = c, pos = 0\<rparr>) (disk s DEVICES))"

definition dev_recs :: "'a files_scheme \<Rightarrow> Devices list option" where
  "dev_recs s = Option.bind (dev_stream s) (stream_recs MAXLINE dev_line)"

text \<open>
  What reading the Devices file leaves alone: two states with the same \<open>dev_core\<close> differ only
  in that stream and its line number.
\<close>

definition dev_core :: "'a files_scheme \<Rightarrow> 'a files_scheme" where
  "dev_core s = s\<lparr>fpdev := None, devlineno := 0\<rparr>"

lemma dev_next_spec:
  "case dev_next dev s of
     Inl _ \<Rightarrow> dev_recs s = None
   | Inr (n, d, s') \<Rightarrow> dev_core s' = dev_core s \<and> map_option content (dev_stream s') = map_option content (dev_stream s) \<and>
      (if 0 \<le> n then n = 0 \<and> dev_recs s = map_option ((#) d) (dev_recs s')
          \<and> bytes_left (dev_stream s') < bytes_left (dev_stream s)
       else n = -1 \<and> dev_recs s = Some [] \<and> dev_recs s' = Some [])"
proof (cases "dev_open s")
  case (Inl e)
  then show ?thesis
    by (auto simp: dev_next_def dev_open_def dev_recs_def dev_stream_def Let_def split: option.splits)
next
  case (Inr fs)
  obtain f s1 where fs: "fs = (f, s1)" by (cases fs)
  have st: "dev_stream s = Some f" and "s1 = s\<lparr>fpdev := fpdev s1, devlineno := devlineno s1\<rparr>"
    using Inr by (auto simp: fs dev_open_def dev_stream_def Let_def split: option.splits)
  then obtain g l where s1: "s1 = s\<lparr>fpdev := g, devlineno := l\<rparr>" by blast
  have "1 < MAXLINE" by (simp add: MAXLINE_def)
  then show ?thesis
  proof (cases rule: read_record_cases [of MAXLINE dev_line "\<lambda>x r. r\<lparr>dv_type := x\<rparr>" dev f "devlineno s1"])
    case (bad m f' k)
    then show ?thesis
      using fatal_Inl(2) by (fastforce simp: dev_next_def Inr fs dev_recs_def st Let_def split: sum.split)
  qed (use st in \<open>simp_all add: s1 dev_next_def Inr fs dev_core_def dev_recs_def dev_stream_def bytes_left_def Let_def\<close>)
qed

function dev_search :: "Systems \<Rightarrow> Devices \<Rightarrow> 'a files_scheme \<Rightarrow> (int \<times> Devices \<times> 'a files_scheme) res" where
  "dev_search sys dev s =
     bindR (dev_next dev s) (\<lambda>(n, dev, s).
       if 0 \<le> n then
         (if Some (sy_type sys) = dv_type dev \<and> sy_class sys = dv_class dev then Inr (0, dev, s)
          else dev_search sys dev s)
       else Inr (-1, dev, s))"
  by pat_completeness auto
termination
  by (relation "measure (\<lambda>(sys, dev, s). bytes_left (dev_stream s))")
     (use dev_next_spec in \<open>fastforce split: sum.splits if_splits\<close>)+

declare dev_search.simps [simp del]

definition dev_find :: "Devices \<Rightarrow> Systems \<Rightarrow> 'a files_scheme \<Rightarrow> (int \<times> Devices \<times> 'a files_scheme) res" where
  "dev_find dev sys s =
     bindR (dev_search sys dev (dev_rew s)) (\<lambda>(n, dev, s).
       if n = 0 then Inr (0, dev, s)
       else bindR (set_errmsg (''device `'' @ sy_type sys @ [CHR 0x27] @ ''/`'' @ sy_class sys
              @ [CHR 0x27] @ '' not found'' @ [NL]) s) (\<lambda>s. Inr (-1, dev, s)))"

lemma dev_core_eqD:
  assumes "dev_core s' = dev_core s"
  shows "fpsys s' = fpsys s" "syslineno s' = syslineno s" "errmsg s' = errmsg s" "disk s' = disk s"
    "client s' = client s" "lock_tab s' = lock_tab s" "lock_size s' = lock_size s"
  using arg_cong [OF assms, of fpsys] arg_cong [OF assms, of syslineno] arg_cong [OF assms, of errmsg]
    arg_cong [OF assms, of disk] arg_cong [OF assms, of client] arg_cong [OF assms, of lock_tab]
    arg_cong [OF assms, of lock_size]
  by (simp_all add: dev_core_def)

lemma dev_core_simps [simp]:
  "dev_core (dev_rew s) = dev_core s" "dev_core (s\<lparr>errmsg := m\<rparr>) = (dev_core s)\<lparr>errmsg := m\<rparr>"
  by (simp_all add: dev_core_def dev_rew_def)

lemma dev_stream_rew: "map_option content (dev_stream (dev_rew s)) = map_option content (dev_stream s)"
  by (simp add: dev_stream_def dev_rew_def option.map_comp comp_def split: option.split)

lemma dev_stream_errmsg [simp]: "dev_stream (s\<lparr>errmsg := m\<rparr>) = dev_stream s"
  by (simp add: dev_stream_def split: option.split)

definition dev_match :: "Systems \<Rightarrow> Devices \<Rightarrow> bool" where
  "dev_match sys d \<longleftrightarrow> Some (sy_type sys) = dv_type d \<and> sy_class sys = dv_class d"

text \<open>What a search that returns has done.\<close>

lemma dev_search_result:
  "dev_search sys d0 s = Inr (n, d, s') \<Longrightarrow>
     dev_core s' = dev_core s \<and> map_option content (dev_stream s') = map_option content (dev_stream s)
     \<and> (if n = 0 then dev_match sys d else n = -1)"
proof (induction sys d0 s arbitrary: n d s' rule: dev_search.induct)
  case (1 sys d0 s)
  from "1.prems" obtain m d1 s1 where nx: "dev_next d0 s = Inr (m, d1, s1)"
    and r: "(if 0 \<le> m then
         (if Some (sy_type sys) = dv_type d1 \<and> sy_class sys = dv_class d1 then Inr (0, d1, s1)
          else dev_search sys d1 s1) else Inr (-1, d1, s1)) = Inr (n, d, s')"
    by (auto simp: dev_search.simps [of sys d0 s] bindR_Inr_iff)
  have s1: "dev_core s1 = dev_core s" "map_option content (dev_stream s1) = map_option content (dev_stream s)"
    using dev_next_spec [of s d0] by (simp_all add: nx)
  show ?case
  proof (cases "0 \<le> m \<and> \<not> dev_match sys d1")
    case True
    with r have "dev_search sys d1 s1 = Inr (n, d, s')" by (auto simp: dev_match_def)
    with "1.IH" [OF nx refl refl] True s1 show ?thesis by (auto simp: dev_match_def)
  qed (use r s1 in \<open>auto simp: dev_match_def split: if_splits\<close>)
qed

lemma dev_find_result:
  assumes "dev_find d0 sys s = Inr (n, d, s')"
  shows "dev_core (s'\<lparr>errmsg := e\<rparr>) = dev_core (s\<lparr>errmsg := e\<rparr>) \<and>
    map_option content (dev_stream s') = map_option content (dev_stream s) \<and>
    (if n = 0 then dev_match sys d \<and> errmsg s' = errmsg s else n = -1 \<and> errmsg s' \<noteq> [])"
proof -
  from assms obtain m d1 s1 where f: "dev_search sys d0 (dev_rew s) = Inr (m, d1, s1)"
    and r: "(if m = 0 then Inr (0, d1, s1)
       else bindR (set_errmsg (''device `'' @ sy_type sys @ [CHR 0x27] @ ''/`'' @ sy_class sys
              @ [CHR 0x27] @ '' not found'' @ [NL]) s1) (\<lambda>s. Inr (-1, d1, s))) = Inr (n, d, s')"
    by (auto simp: dev_find_def bindR_Inr_iff)
  from dev_search_result [OF f] have "dev_core s1 = dev_core s" "m = 0 \<Longrightarrow> dev_match sys d1"
    "map_option content (dev_stream s1) = map_option content (dev_stream s)" by (auto simp: dev_stream_rew)
  with r dev_core_eqD(3) [of s1 s] show ?thesis
    by (auto simp: set_errmsg_def bindR_Inr_iff split: if_splits)
qed

interpretation dv: record_stream dev_next dev_recs dev_search dev_match
proof
  show "dev_recs s = Some (r # rs) \<Longrightarrow> \<exists>n s'. dev_next r0 s = Inr (n, r, s') \<and> 0 \<le> n \<and> dev_recs s' = Some rs"
    for s :: "'a files_scheme" and r rs r0
    using dev_next_spec [of s r0] by (auto simp: Some_eq_map_option split: sum.splits if_splits)
  show "dev_recs s = Some [] \<Longrightarrow> \<exists>n r s'. dev_next r0 s = Inr (n, r, s') \<and> n < 0 \<and> dev_recs s' = Some []"
    for s :: "'a files_scheme" and r0
    using dev_next_spec [of s r0] by (auto simp: Some_eq_map_option split: sum.splits if_splits)
qed (unfold dev_match_def, rule dev_search.simps)

text \<open>The records of the file, from its start.\<close>

definition device_table :: "'a files_scheme \<Rightarrow> Devices list option" where
  "device_table s = dev_recs (dev_rew s)"

lemma device_table_content:
  "device_table s = Option.bind (map_option content (dev_stream s)) (file_recs MAXLINE dev_line)"
  by (simp add: device_table_def dev_recs_def dev_stream_def dev_rew_def stream_recs_def option.map_comp comp_def
      bind_map_option split: option.split)

text \<open>On a well-formed file the search is the search of the table.\<close>

lemma dev_search_table:
  assumes "device_table s = Some ds"
  shows "case List.find (dev_match sys) ds of
      Some d \<Rightarrow> \<exists>s'. dev_search sys d0 (dev_rew s) = Inr (0, d, s')
    | None \<Rightarrow> \<exists>d s'. dev_search sys d0 (dev_rew s) = Inr (-1, d, s')"
  using dv.search_first_match [OF assms [unfolded device_table_def], of sys d0] by (auto split: option.splits)

lemma dev_find_table:
  assumes "device_table s = Some ds" and "dev_find d0 sys s = Inr (n, d, s')"
  shows "case List.find (dev_match sys) ds of Some d' \<Rightarrow> n = 0 \<and> d = d' | None \<Rightarrow> n = -1"
  using dev_search_table [OF assms(1), of sys d0] assms(2)
  by (auto simp: dev_find_def bindR_Inr_iff split: option.splits)

section \<open>dialfile.c\<close>

definition dial_line :: "string \<Rightarrow> Dialers parsed" where
  "dial_line line =
     (case strtok WHITE (cstr line) of
        None \<Rightarrow> if take 1 line = [NL] then Skip None else Missing ''dialer''
      | Some (dialer, r) \<Rightarrow>
          if hd dialer = CHR ''#'' then Skip (Some dialer)
          else (case strtok WHITE r of None \<Rightarrow> Missing ''sub'' | Some (sub, r) \<Rightarrow>
               (case strtok [NL] r of None \<Rightarrow> Missing ''expsend'' | Some (expsend, r) \<Rightarrow>
                  Fields \<lparr>dl_dialer = Some dialer, dl_sub = sub, dl_expsend = expsend\<rparr>)))"

definition dial_open :: "'a files_scheme \<Rightarrow> (cfile \<times> 'a files_scheme) res" where
  "dial_open s =
     (case fpdial s of
        Some f \<Rightarrow> Inr (f, s)
      | None \<Rightarrow>
          (case disk s DIALERS of
             None \<Rightarrow> log_sys (''can't open '' @ DIALERS) s
           | Some c \<Rightarrow> (let f = \<lparr>content = c, pos = 0\<rparr> in Inr (f, s\<lparr>fpdial := Some f, diallineno := 0\<rparr>))))"

definition dial_next :: "Dialers \<Rightarrow> 'a files_scheme \<Rightarrow> (int \<times> Dialers \<times> 'a files_scheme) res" where
  "dial_next dial s =
     bindR (dial_open s) (\<lambda>(f, s).
       case read_record MAXLINE dial_line (\<lambda>x r. r\<lparr>dl_dialer := x\<rparr>) dial f (diallineno s) of
         (out, f, n) \<Rightarrow>
           (let s = s\<lparr>fpdial := Some f, diallineno := n\<rparr> in
            case out of
              EOF r \<Rightarrow> Inr (-1, r, s)
            | Bad m \<Rightarrow> log_quit (''missing `'' @ m @ [CHR 0x27] @ '' in Dialers file, line '' @ dec n) s
            | Rec r \<Rightarrow> Inr (0, r, s)))"

definition dial_rew :: "'a files_scheme \<Rightarrow> 'a files_scheme" where
  "dial_rew s = s\<lparr>fpdial := map_option (\<lambda>f. f\<lparr>pos := 0\<rparr>) (fpdial s), diallineno := 0\<rparr>"

definition dial_stream :: "'a files_scheme \<Rightarrow> cfile option" where
  "dial_stream s = (case fpdial s of Some f \<Rightarrow> Some f | None \<Rightarrow> map_option (\<lambda>c. \<lparr>content = c, pos = 0\<rparr>) (disk s DIALERS))"

definition dial_recs :: "'a files_scheme \<Rightarrow> Dialers list option" where
  "dial_recs s = Option.bind (dial_stream s) (stream_recs MAXLINE dial_line)"

lemma dial_next_spec:
  "case dial_next dial s of
     Inl _ \<Rightarrow> dial_recs s = None
   | Inr (n, d, s') \<Rightarrow>
      (if 0 \<le> n then n = 0 \<and> dial_recs s = map_option ((#) d) (dial_recs s')
          \<and> bytes_left (dial_stream s') < bytes_left (dial_stream s)
       else n = -1 \<and> dial_recs s = Some [] \<and> dial_recs s' = Some [])"
proof (cases "dial_open s")
  case (Inl e)
  then show ?thesis
    by (auto simp: dial_next_def dial_open_def dial_recs_def dial_stream_def Let_def split: option.splits)
next
  case (Inr fs)
  obtain f s1 where fs: "fs = (f, s1)" by (cases fs)
  have st: "dial_stream s = Some f" and "s1 = s\<lparr>fpdial := fpdial s1, diallineno := diallineno s1\<rparr>"
    using Inr by (auto simp: fs dial_open_def dial_stream_def Let_def split: option.splits)
  then obtain g l where s1: "s1 = s\<lparr>fpdial := g, diallineno := l\<rparr>" by blast
  have "1 < MAXLINE" by (simp add: MAXLINE_def)
  then show ?thesis
  proof (cases rule: read_record_cases [of MAXLINE dial_line "\<lambda>x r. r\<lparr>dl_dialer := x\<rparr>" dial f "diallineno s1"])
    case (bad m f' k)
    then show ?thesis
      using fatal_Inl(2) by (fastforce simp: dial_next_def Inr fs dial_recs_def st Let_def split: sum.split)
  qed (use st s1 in \<open>simp_all add: s1 dial_next_def Inr fs dial_recs_def dial_stream_def bytes_left_def Let_def\<close>)
qed

definition dial_match :: "Devices \<Rightarrow> Dialers \<Rightarrow> bool" where
  "dial_match dev d \<longleftrightarrow> dl_dialer d = Some (dv_dialer dev)"

function dial_search :: "Devices \<Rightarrow> Dialers \<Rightarrow> 'a files_scheme \<Rightarrow> (int \<times> Dialers \<times> 'a files_scheme) res" where
  "dial_search dev dial s =
     bindR (dial_next dial s) (\<lambda>(n, dial, s).
       if 0 \<le> n then
         (if dl_dialer dial = Some (dv_dialer dev) then Inr (0, dial, s)
          else dial_search dev dial s)
       else Inr (-1, dial, s))"
  by pat_completeness auto
termination
  by (relation "measure (\<lambda>(dev, dial, s). bytes_left (dial_stream s))")
     (use dial_next_spec in \<open>fastforce split: sum.splits if_splits\<close>)+

declare dial_search.simps [simp del]

text \<open>
  The message of dial_find prints \<open>dialptr->dialer\<close>, the last first field that dial_next
  stored, not the dialer that was asked for; it is the NULL pointer after an empty line.
\<close>

definition dial_find :: "Dialers \<Rightarrow> Devices \<Rightarrow> 'a files_scheme \<Rightarrow> (int \<times> Dialers \<times> 'a files_scheme) res" where
  "dial_find dial dev s =
     bindR (dial_search dev dial (dial_rew s)) (\<lambda>(n, dial, s).
       if n = 0 then Inr (0, dial, s)
       else (case dl_dialer dial of
               None \<Rightarrow> Inl (UB ''NULL string in sprintf'')
             | Some m \<Rightarrow> bindR (set_errmsg (''dialer `'' @ m @ [CHR 0x27] @ '' not found'' @ [NL]) s)
                              (\<lambda>s. Inr (-1, dial, s))))"

interpretation dl: record_stream dial_next dial_recs dial_search dial_match
proof
  show "dial_recs s = Some (r # rs) \<Longrightarrow> \<exists>n s'. dial_next r0 s = Inr (n, r, s') \<and> 0 \<le> n \<and> dial_recs s' = Some rs"
    for s :: "'a files_scheme" and r rs r0
    using dial_next_spec [of s r0] by (auto simp: Some_eq_map_option split: sum.splits if_splits)
  show "dial_recs s = Some [] \<Longrightarrow> \<exists>n r s'. dial_next r0 s = Inr (n, r, s') \<and> n < 0 \<and> dial_recs s' = Some []"
    for s :: "'a files_scheme" and r0
    using dial_next_spec [of s r0] by (auto simp: Some_eq_map_option split: sum.splits if_splits)
qed (unfold dial_match_def, rule dial_search.simps)

section \<open>Properties\<close>

text \<open>
  dev_find returns the first record of the Devices file, in file order, whose type and class
  are those of the Systems entry, wherever an earlier call left the stream; when there is none it
  returns -1 with a message that names the type and class. The file must have no malformed line,
  and the message must fit the buffer.
\<close>

theorem dev_find_first:
  assumes "device_table s = Some ds" and "length (sy_type sys) + length (sy_class sys) < 4000"
  shows "case List.find (dev_match sys) ds of
      Some d \<Rightarrow> \<exists>s'. dev_find d0 sys s = Inr (0, d, s') \<and> errmsg s' = errmsg s \<and> fpsys s' = fpsys s
    | None \<Rightarrow> \<exists>d s'. dev_find d0 sys s = Inr (-1, d, s') \<and>
        errmsg s' = ''device `'' @ sy_type sys @ [CHR 0x27] @ ''/`'' @ sy_class sys @ [CHR 0x27] @ '' not found'' @ [NL]"
proof (cases "List.find (dev_match sys) ds")
  case None
  with dv.search_first_match [OF assms(1) [unfolded device_table_def], of sys d0]
  obtain d s' where "dev_search sys d0 (dev_rew s) = Inr (-1, d, s')" by auto
  then show ?thesis using None assms(2) by (simp add: dev_find_def set_errmsg_def MAXLINE_def)
next
  case (Some d)
  with dv.search_first_match [OF assms(1) [unfolded device_table_def], of sys d0]
  obtain s' where f: "dev_search sys d0 (dev_rew s) = Inr (0, d, s')" by auto
  then have "dev_find d0 sys s = Inr (0, d, s')" by (simp add: dev_find_def)
  moreover from dev_search_result [OF f] have "dev_core s' = dev_core s" by simp
  ultimately show ?thesis using Some dev_core_eqD [of s' s] by simp
qed

text \<open>A printer for Systems records, and the records it can print.\<close>

definition sys_print :: "Systems \<Rightarrow> string" where
  "sys_print r = the (sy_name r) @ '' '' @ sy_time r @ '' '' @ sy_type r @ '' '' @ sy_class r @ '' ''
     @ sy_phone r @ '' '' @ sy_login r"

definition sys_wf :: "Systems \<Rightarrow> bool" where
  "sys_wf r \<longleftrightarrow> sy_name r \<noteq> None \<and> token (the (sy_name r)) \<and> hd (the (sy_name r)) \<noteq> CHR ''#''
     \<and> token (sy_time r) \<and> token (sy_type r) \<and> token (sy_class r) \<and> token (sy_phone r)
     \<and> sy_login r \<noteq> [] \<and> NL \<notin> set (sy_login r) \<and> NUL \<notin> set (sy_login r)
     \<and> length (sys_print r) + 1 < MAXLINE"

lemma token_not_NUL: "token t \<Longrightarrow> NUL \<notin> set t"
  by (auto simp: token_def)

lemma sys_line_print:
  assumes "sys_wf r"
  shows "sys_line (sys_print r @ [NL]) = Fields r"
proof -
  have "NUL \<notin> set (sys_print r @ [NL])"
    using assms by (auto simp: sys_wf_def sys_print_def dest: token_not_NUL)
  then have "cstr (sys_print r @ [NL]) = sys_print r @ [NL]" by simp
  then show ?thesis using assms
    by (simp add: sys_line_def sys_wf_def sys_print_def strtok_last [where rest = "[]"])
qed

text \<open>
  sys_next reads back what was printed. From a Systems file that lists well-formed records,
  one per line, the calls return those records in order, each with a positive position.
\<close>

theorem sys_next_roundtrip:
  assumes "\<forall>r \<in> set (r # rs). sys_wf r" and "fpsys s = None"
    and "disk s SYSTEMS = Some (concat (map (\<lambda>r. sys_print r @ [NL]) (r # rs)))"
  shows "\<exists>n s'. sys_next r0 s = Inr (n, r, s') \<and> 0 < n \<and> sys_recs s' = Some rs"
proof -
  have "file_recs MAXLINE sys_line (concat (map (\<lambda>r. sys_print r @ [NL]) (r # rs))) = Some (r # rs)"
  proof (rule file_recs_print)
    fix q
    assume "q \<in> set (r # rs)"
    with assms(1) have "sys_wf q" by blast
    then show "NL \<notin> set (sys_print q) \<and> length (sys_print q) + 1 < MAXLINE \<and> sys_line (sys_print q @ [NL]) = Fields q"
      using sys_line_print [of q] by (auto simp: sys_wf_def sys_print_def dest: token_not_NL)
  qed
  then have "sys_recs s = Some (r # rs)"
    using assms(2,3) by (simp add: sys_recs_def sys_stream_def stream_recs_def)
  from sy.nxt_total [OF this, of r0] sys_next_spec [of s r0] show ?thesis by fastforce
qed

text \<open>
  a position returned by sys_next can be used later. After sys_posn with that position, on
  the stream of the same file at whatever position it is then, reading goes on with the record
  after the one that was returned.
\<close>

theorem sys_posn_resume:
  assumes "sys_next r0 s = Inr (n, r, s1)" and "0 \<le> n"
    and "fpsys s2 = Some f" and "map_option content (sys_stream s) = Some (content f)"
  shows "\<exists>s3. sys_posn n s2 = Inr s3 \<and> sys_recs s = map_option ((#) r) (sys_recs s3)"
proof -
  from sys_next_spec [of s r0] assms(1,2) obtain g where n: "0 < n" "sys_recs s = map_option ((#) r) (sys_recs s1)"
    and g: "fpsys s1 = Some g" "int (pos g) = n" "content g = content f"
    using assms(4) by (auto simp: sys_stream_def)
  have "f\<lparr>pos := nat n\<rparr> = g" using g(2,3) by (cases f, cases g) auto
  then have "sys_posn n s2 = Inr (s2\<lparr>fpsys := Some g\<rparr>)" using n(1) assms(3) by (simp add: sys_posn_def)
  moreover have "sys_recs (s2\<lparr>fpsys := Some g\<rparr>) = sys_recs s1" using g(1) by (simp add: sys_recs_def sys_stream_def)
  ultimately show ?thesis using n by auto
qed

text \<open>
  dial_find returns the first entry of the Dialers file for the dialer of the device. When
  there is none, the message names the dialer of another line: here the only line of the file.
\<close>

theorem dial_find_first:
  assumes "dial_recs (dial_rew s) = Some ds" and "List.find (dial_match dev) ds = Some d"
  shows "\<exists>s'. dial_find d0 dev s = Inr (0, d, s')"
  using dl.search_first_match [OF assms(1), of dev d0] assms(2) by (auto simp: dial_find_def)

lemma read_record_line:
  assumes "NL \<notin> set l" and "length l + 1 < n" and "ln (l @ [NL]) = Fields r"
  shows "read_record n ln first r0 \<lparr>content = l @ [NL], pos = 0\<rparr> k = (Rec r, \<lparr>content = l @ [NL], pos = length l + 1\<rparr>, k + 1)"
    and "read_record n ln first r0 \<lparr>content = l @ [NL], pos = length l + 1\<rparr> k = (EOF r0, \<lparr>content = l @ [NL], pos = length l + 1\<rparr>, k)"
proof -
  have "take_line (n - 1) (l @ [NL]) = l @ [NL]" using assms(1,2) take_line_line [of l "n - 1" "[]"] by simp
  then show "read_record n ln first r0 \<lparr>content = l @ [NL], pos = 0\<rparr> k = (Rec r, \<lparr>content = l @ [NL], pos = length l + 1\<rparr>, k + 1)"
    using assms by (simp add: read_record.simps [of n] fgets_def Let_def)
  show "read_record n ln first r0 \<lparr>content = l @ [NL], pos = length l + 1\<rparr> k = (EOF r0, \<lparr>content = l @ [NL], pos = length l + 1\<rparr>, k)"
    using assms(2) by (simp add: read_record.simps [of n] fgets_def)
qed

text \<open>
  the message of a failed dial_find reports the wrong dialer: with a Dialers file whose one
  line describes the dialer \<open>h\<close>, a search for any other dialer says that \<open>h\<close> was not found.
\<close>

theorem dial_find_misreports:
  assumes "token h" and "hd h \<noteq> CHR ''#''" and "h \<noteq> dv_dialer dev" and "length h < 4000"
    and "fpdial s = None" and "disk s DIALERS = Some (h @ '' - chat'' @ [NL])"
  shows "\<exists>d s'. dial_find d0 dev s = Inr (-1, d, s') \<and> errmsg s' = ''dialer `'' @ h @ [CHR 0x27] @ '' not found'' @ [NL]"
proof -
  let ?l = "h @ '' - chat''"
  let ?r = "\<lparr>dl_dialer = Some h, dl_sub = ''-'', dl_expsend = ''chat''\<rparr>"
  have tok: "token ''-''" by (simp add: token_def WHITE_def)
  have "cstr (?l @ [NL]) = ?l @ [NL]" using token_not_NUL [OF assms(1)] by (intro cstr_no_NUL) auto
  then have ln: "dial_line (?l @ [NL]) = Fields ?r"
    using assms(1,2) strtok_word(1) [OF tok, of "''chat'' @ [NL]"] strtok_last [of "''chat''" "[]"]
    by (simp add: dial_line_def)
  have nl: "NL \<notin> set ?l" "length ?l + 1 < MAXLINE" using token_not_NL [OF assms(1)] assms(4) by (auto simp: MAXLINE_def)
  note rd = read_record_line [where l = ?l and n = MAXLINE and ln = dial_line and r = ?r
      and first = "\<lambda>x r. r\<lparr>dl_dialer := x\<rparr>", OF nl ln]
  from assms(3,5,6) rd show ?thesis using assms(4)
    by (simp add: dial_find_def dial_rew_def dial_search.simps dial_next_def dial_open_def set_errmsg_def MAXLINE_def Let_def)
qed

section \<open>A concrete configuration\<close>

definition host1 :: Systems where
  "host1 = \<lparr>sy_name = Some ''host1'', sy_time = ''Any'', sy_type = ''ACU'', sy_class = ''9600'',
            sy_phone = ''555'', sy_login = ''in: me''\<rparr>"

definition host2 :: Systems where
  "host2 = host1\<lparr>sy_name := Some ''host2'', sy_class := ''2400''\<rparr>"

definition files_ex :: files where
  "files_ex = clients.extend client_ex
     \<lparr>disk = [SYSTEMS \<mapsto> concat (map (\<lambda>r. sys_print r @ [NL]) [host1, host2]),
              DEVICES \<mapsto> ''ACU cua0 - 9600 hayes'' @ NL # (''ACU cua1 - 2400 hayes'' @ NL # []),
              DIALERS \<mapsto> ''hayes - chat'' @ [NL]],
      errmsg = [], fpsys = None, syslineno = 0, fpdev = None, devlineno = 0, fpdial = None, diallineno = 0\<rparr>"

definition dev0 :: Devices where
  "dev0 = \<lparr>dv_type = Some ''ACU'', dv_line = ''cua0'', dv_line2 = ''-'', dv_class = ''9600'', dv_dialer = ''hayes''\<rparr>"

definition dial0 :: Dialers where
  "dial0 = \<lparr>dl_dialer = Some ''hayes'', dl_sub = ''-'', dl_expsend = ''chat''\<rparr>"

lemma sys_wf_ex: "sys_wf host1" "sys_wf host2"
  by (simp_all add: sys_wf_def host1_def host2_def token_def WHITE_def sys_print_def MAXLINE_def)

lemma files_ex_simps [simp]:
  "disk files_ex SYSTEMS = Some (concat (map (\<lambda>r. sys_print r @ [NL]) [host1, host2]))"
  "disk files_ex DEVICES = Some (''ACU cua0 - 9600 hayes'' @ NL # (''ACU cua1 - 2400 hayes'' @ NL # []))"
  "disk files_ex DIALERS = Some (''hayes - chat'' @ [NL])"
  "fpsys files_ex = None" "fpdev files_ex = None" "fpdial files_ex = None" "errmsg files_ex = []"
  by (simp_all add: files_ex_def clients.defs SYSTEMS_def DEVICES_def DIALERS_def)

lemma dev_table_ex:
  "device_table files_ex = Some [dev0, dev0\<lparr>dv_line := ''cua1'', dv_class := ''2400''\<rparr>]"
proof -
  have "dev_line (''ACU cua0 - 9600 hayes'' @ [NL]) = Fields dev0"
    and "dev_line (''ACU cua1 - 2400 hayes'' @ [NL]) = Fields (dev0\<lparr>dv_line := ''cua1'', dv_class := ''2400''\<rparr>)"
    by (simp_all add: dev_line_def dev0_def strtok_def WHITE_def Let_def)
  then show ?thesis
    unfolding device_table_def
    by (simp add: dev_recs_def dev_stream_def dev_rew_def stream_recs_def file_recs_line MAXLINE_def del: append.simps)
qed

theorem dev_find_first_witness:
  "\<exists>s'. dev_find dev0 host2 files_ex = Inr (0, dev0\<lparr>dv_line := ''cua1'', dv_class := ''2400''\<rparr>, s') \<and> errmsg s' = []"
  using dev_find_first [OF dev_table_ex, of host2 dev0]
  by (auto simp: host1_def host2_def dev_match_def dev0_def)

theorem sys_next_roundtrip_witness:
  "\<exists>n s'. sys_next host1 files_ex = Inr (n, host1, s') \<and> 0 < n \<and> sys_recs s' = Some [host2]"
  by (rule sys_next_roundtrip) (simp_all add: sys_wf_ex)

lemma sys_recs_ex: "sys_recs files_ex = Some [host1, host2]"
proof -
  have "sys_wf q \<Longrightarrow> NL \<notin> set (sys_print q) \<and> length (sys_print q) + 1 < MAXLINE \<and> sys_line (sys_print q @ [NL]) = Fields q" for q
    using sys_line_print [of q] by (auto simp: sys_wf_def sys_print_def dest: token_not_NL)
  then have "file_recs MAXLINE sys_line (concat (map (\<lambda>r. sys_print r @ [NL]) [host1, host2])) = Some [host1, host2]"
    using sys_wf_ex by (intro file_recs_print) auto
  then show ?thesis by (simp add: sys_recs_def sys_stream_def stream_recs_def)
qed

theorem sys_posn_resume_witness:
  "\<exists>n s1 s3. sys_next host1 files_ex = Inr (n, host1, s1) \<and> sys_posn n (sys_rew s1) = Inr s3 \<and> sys_recs s3 = Some [host2]"
proof -
  from sy.nxt_total [OF sys_recs_ex, of host1] obtain n s1 where
    n: "sys_next host1 files_ex = Inr (n, host1, s1)" "0 \<le> n" by auto
  from sys_next_spec [of files_ex host1] n obtain g where g: "fpsys s1 = Some g"
    and c: "map_option content (sys_stream s1) = map_option content (sys_stream files_ex)" by auto
  have "fpsys (sys_rew s1) = Some (g\<lparr>pos := 0\<rparr>)" using g by (simp add: sys_rew_def)
  from sys_posn_resume [OF n this] g c sys_recs_ex n show ?thesis
    by (auto simp: sys_stream_def Some_eq_map_option)
qed

lemma dial_recs_ex: "dial_recs (dial_rew files_ex) = Some [dial0]"
proof -
  have "dial_line (''hayes - chat'' @ [NL]) = Fields dial0"
    by (simp add: dial_line_def dial0_def strtok_def WHITE_def Let_def)
  then show ?thesis
    by (simp add: dial_recs_def dial_stream_def dial_rew_def stream_recs_def file_recs_line MAXLINE_def del: append.simps)
qed

theorem dial_find_first_witness:
  "\<exists>s'. dial_find dial0 dev0 files_ex = Inr (0, dial0, s')"
  by (rule dial_find_first [OF dial_recs_ex]) (simp add: dial_match_def dial0_def dev0_def)

theorem dial_find_misreports_witness:
  "\<exists>d s'. dial_find dial0 (dev0\<lparr>dv_dialer := ''telebit''\<rparr>) files_ex = Inr (-1, d, s')
     \<and> errmsg s' = ''dialer `'' @ ''hayes'' @ [CHR 0x27] @ '' not found'' @ [NL]"
  by (rule dial_find_misreports) (simp_all add: token_def WHITE_def)

end
