(* ===== verification/CRequest.thy ===== *)
theory CRequest
  imports CFiles
begin

text \<open>
  Serving a request: calld/request.c with the debug output of calld/debug.c. The environment
  supplies the results of fork. The child's side (WAIT_PARENT, then child_dial, which is not in
  the repository and never returns) is the end of that process; the parent's side goes on.
  TELL_CHILD is recorded in \<open>told\<close> with the lock table at that moment.
\<close>

section \<open>State and operations\<close>

record requests = files +
  Debug :: int
  clifd :: int
  systems :: Systems
  devices :: Devices
  fork_env :: "int list"
  told :: "(int \<times> Lock list) list"

text \<open>debug.c: nothing unless the client asked for it, else a line to the client.\<close>

definition debug_out :: "string \<Rightarrow> 'a requests_scheme \<Rightarrow> 'a requests_scheme res" where
  "debug_out line s =
     (if MAXLINE \<le> length line then Inl (UB ''DEBUG: line overflow'')
      else bindR (writen (clifd s) line (length line) s) (\<lambda>(r, s).
        if r \<noteq> int (length line) then log_sys ''writen error'' s else Inr s))"

definition DEBUG :: "string \<Rightarrow> 'a requests_scheme \<Rightarrow> 'a requests_scheme res" where
  "DEBUG msg s = (if Debug s = 0 then Inr s else debug_out (msg @ [NL]) s)"

definition DEBUG_NONL :: "string \<Rightarrow> 'a requests_scheme \<Rightarrow> 'a requests_scheme res" where
  "DEBUG_NONL msg s = (if Debug s = 0 then Inr s else debug_out msg s)"

definition fork :: "'a requests_scheme \<Rightarrow> int \<times> 'a requests_scheme" where
  "fork s = (case fork_env s of [] \<Rightarrow> (-1, s) | p # ps \<Rightarrow> (p, s\<lparr>fork_env := ps\<rparr>))"

definition upd_client :: "nat \<Rightarrow> (Client \<Rightarrow> Client) \<Rightarrow> 'a clients_scheme \<Rightarrow> 'a clients_scheme" where
  "upd_client i f s = s\<lparr>client := (client s)[i := f (client s ! i)]\<rparr>"

text \<open>The part after the loop: end of the file, or no device of the wanted type and class.\<close>

definition request_end :: "nat \<Rightarrow> 'a requests_scheme \<Rightarrow> (int \<times> 'a requests_scheme) res" where
  "request_end i s =
     bindR (if cl_foundone (client s ! i) = 0 then
              set_errmsg (''system `'' @ cl_sysname (client s ! i) @ [CHR 0x27] @ '' not found'' @ [NL]) s
            else if errmsg s = [] then
              set_errmsg (''unable to connect to system `'' @ cl_sysname (client s ! i) @ [CHR 0x27, NL]) s
            else Inr s)
       (\<lambda>s. Inr (-1, s))"

text \<open>The device is free: start a child for it. Lines 35 to 46.\<close>

definition start_child :: "nat \<Rightarrow> 'a requests_scheme \<Rightarrow> (int \<times> 'a requests_scheme) res" where
  "start_child i s =
     (let (pid, s) = fork s; s = upd_client i (\<lambda>c. c\<lparr>cl_pid := pid\<rparr>) s in
      if pid < 0 then log_sys ''fork error'' s
      else if pid = 0 then Inl (Exit 0 ''child_dial'')
      else bindR (lock_set (dv_line (devices s)) pid s) (\<lambda>s.
        Inr (0, s\<lparr>told := told s @ [(pid, lock_tab s)]\<rparr>)))"

definition name_matches :: "Client \<Rightarrow> Systems \<Rightarrow> bool" where
  "name_matches c r \<longleftrightarrow> Some (cl_sysname c) = sy_name r \<and> (cl_speed c = [] \<or> cl_speed c = sy_class r)"

text \<open>
  One matching entry of the Systems file. The outcomes are: a value to return, a jump behind the
  loop (\<open>break\<close>), or the next round (\<open>continue\<close>).
\<close>

datatype 'r jump = Return 'r | Break | Continue

definition try_system :: "nat \<Rightarrow> 'a requests_scheme \<Rightarrow> (int jump \<times> 'a requests_scheme) res" where
  "try_system i s =
     bindR (DEBUG (''trying sys: '' @ the (sy_name (systems s)) @ '', '' @ sy_type (systems s) @ '', ''
              @ sy_class (systems s) @ '', '' @ sy_phone (systems s)) s) (\<lambda>s.
       let s = upd_client i (\<lambda>c. c\<lparr>cl_foundone := cl_foundone c + 1\<rparr>) s in
       bindR (dev_find (devices s) (systems s) s) (\<lambda>(r, dev, s).
         let s = s\<lparr>devices := dev\<rparr> in
         if r < 0 then Inr (Break, s)
         else bindR (DEBUG (''trying dev: '' @ the (dv_type dev) @ '', '' @ dv_line dev @ '', ''
                       @ dv_class dev @ '', '' @ dv_dialer dev) s) (\<lambda>s.
           bindR (is_locked (dv_line dev) s) (\<lambda>(pid, s).
             if pid \<noteq> 0 then
               bindR (set_errmsg (''device `'' @ dv_line dev @ [CHR 0x27] @ '' already locked by pid '' @ deci pid @ [NL]) s)
                 (\<lambda>s. Inr (Continue, s))
             else bindR (start_child i s) (\<lambda>(r, s). Inr (Return r, s))))))"

section \<open>Frames\<close>

text \<open>What the steps of a request leave alone, from the frames of the components they call.\<close>

lemma DEBUG_core: "DEBUG m s = Inr s' \<Longrightarrow> wr_core s' = wr_core s"
  by (auto simp: DEBUG_def debug_out_def bindR_Inr_iff split: if_splits dest: writen_core)

lemma wr_core_eqD:
  fixes s s' :: "'a requests_scheme"
  assumes "wr_core s' = wr_core s"
  shows "fpsys s' = fpsys s" "disk s' = disk s" "errmsg s' = errmsg s" "client s' = client s"
    "lock_tab s' = lock_tab s" "lock_size s' = lock_size s" "devices s' = devices s" "systems s' = systems s"
    "fork_env s' = fork_env s" "told s' = told s" "fpdev s' = fpdev s" "requests.more s' = requests.more s" "clifd s' = clifd s"
  using arg_cong [OF assms, of clifd] arg_cong [OF assms, of requests.more] arg_cong [OF assms, of fpsys] arg_cong [OF assms, of disk] arg_cong [OF assms, of errmsg]
    arg_cong [OF assms, of client] arg_cong [OF assms, of lock_tab] arg_cong [OF assms, of lock_size]
    arg_cong [OF assms, of devices] arg_cong [OF assms, of systems] arg_cong [OF assms, of fork_env]
    arg_cong [OF assms, of told] arg_cong [OF assms, of fpdev]
  by (simp_all add: wr_core_def)

lemma lock_core_eqD:
  fixes s s' :: "'a requests_scheme"
  assumes "lock_core s' = lock_core s"
  shows "fpsys s' = fpsys s" "disk s' = disk s" "errmsg s' = errmsg s" "client s' = client s"
    "devices s' = devices s" "systems s' = systems s" "fork_env s' = fork_env s" "told s' = told s"
    "fpdev s' = fpdev s" "requests.more s' = requests.more s" "clifd s' = clifd s"
  using arg_cong [OF assms, of clifd] arg_cong [OF assms, of requests.more] arg_cong [OF assms, of fpsys] arg_cong [OF assms, of disk] arg_cong [OF assms, of errmsg]
    arg_cong [OF assms, of client] arg_cong [OF assms, of devices] arg_cong [OF assms, of systems]
    arg_cong [OF assms, of fork_env] arg_cong [OF assms, of told] arg_cong [OF assms, of fpdev]
  by (simp_all add: lock_core_def)

lemma find_core_eqD:
  fixes s s' :: "'a requests_scheme"
  assumes "dev_find d0 sys s = Inr (n, d, s')"
  shows "fpsys s' = fpsys s" "disk s' = disk s" "client s' = client s" "lock_tab s' = lock_tab s"
    "lock_size s' = lock_size s" "systems s' = systems s" "fork_env s' = fork_env s" "told s' = told s"
    "requests.more s' = requests.more s" "clifd s' = clifd s"
proof -
  have c: "dev_core (s'\<lparr>errmsg := []\<rparr>) = dev_core (s\<lparr>errmsg := []\<rparr>)"
    using dev_find_result [OF assms, of "[]"] by simp
  show "fpsys s' = fpsys s" "disk s' = disk s" "client s' = client s" "lock_tab s' = lock_tab s"
    "lock_size s' = lock_size s" "systems s' = systems s" "fork_env s' = fork_env s" "told s' = told s"
    "requests.more s' = requests.more s" "clifd s' = clifd s"
    using arg_cong [OF c, of clifd] arg_cong [OF c, of requests.more] arg_cong [OF c, of fpsys] arg_cong [OF c, of disk] arg_cong [OF c, of client]
      arg_cong [OF c, of lock_tab] arg_cong [OF c, of lock_size] arg_cong [OF c, of systems]
      arg_cong [OF c, of fork_env] arg_cong [OF c, of told]
    by (simp_all add: dev_core_def)
qed

lemma upd_client_simps [simp]:
  "fpsys (upd_client i f s) = fpsys s" "disk (upd_client i f s) = disk s" "errmsg (upd_client i f s) = errmsg s"
  "lock_tab (upd_client i f s) = lock_tab s" "lock_size (upd_client i f s) = lock_size s"
  "devices (upd_client i f t) = devices t" "systems (upd_client i f t) = systems t"
  "fork_env (upd_client i f t) = fork_env t" "told (upd_client i f t) = told t"
  "client (upd_client i f u) = (client u)[i := f (client u ! i)]"
  "fpdev (upd_client i f s) = fpdev s" "requests.more (upd_client i f t) = requests.more t"
  "clifd (upd_client i f t) = clifd t"
  for s :: "'a files_scheme" and t :: "'b requests_scheme" and u :: "'c clients_scheme"
  by (simp_all add: upd_client_def)

lemma held_lock_inv_cong:
  "lock_tab s' = lock_tab s \<Longrightarrow> held s' = held s"
  "lock_tab s' = lock_tab s \<Longrightarrow> lock_size s' = lock_size s \<Longrightarrow> lock_inv s' = lock_inv s"
  by (simp_all add: held_def lock_inv_def)

text \<open>What one entry of the Systems file does to the state, when it does not end the process.\<close>

lemma start_child_result:
  assumes "start_child i s = Inr (r, s')" and "lock_inv s"
  shows "\<exists>p ps. r = 0 \<and> fork_env s = p # ps \<and> 0 < p \<and> fork_env s' = ps \<and> held s' = (held s)(dv_line (devices s) := p)
    \<and> lock_inv s' \<and> client s' = (client s)[i := (client s ! i)\<lparr>cl_pid := p\<rparr>]
    \<and> told s' = told s @ [(p, lock_tab s')] \<and> fpsys s' = fpsys s \<and> disk s' = disk s \<and> devices s' = devices s
    \<and> systems s' = systems s \<and> fpdev s' = fpdev s"
proof -
  from assms(1) obtain p ps where f: "fork_env s = p # ps" and p: "0 < p"
    by (auto simp: start_child_def fork_def Let_def split: list.splits if_splits)
  let ?s1 = "upd_client i (\<lambda>c. c\<lparr>cl_pid := p\<rparr>) (s\<lparr>fork_env := ps\<rparr>)"
  from assms(1) f p obtain s2 where l: "lock_set (dv_line (devices s)) p ?s1 = Inr s2"
    and s': "r = 0" "s' = s2\<lparr>told := told s2 @ [(p, lock_tab s2)]\<rparr>"
    by (auto simp: start_child_def fork_def Let_def bindR_Inr_iff)
  have i1: "lock_inv ?s1" "held ?s1 = held s" using assms(2) by (simp_all add: lock_inv_def held_def)
  from lk.acquire [OF i1(1) l] i1(2) have h: "held s2 = (held s)(dv_line (devices s) := p)" "lock_inv s2" by auto
  note c = lock_core_eqD [OF lock_set_core [OF l]]
  show ?thesis using f p h c s' by (auto simp: held_def lock_inv_def)
qed

text \<open>Nothing is locked or started.\<close>

definition idle_step :: "'a requests_scheme \<Rightarrow> 'a requests_scheme \<Rightarrow> bool" where
  "idle_step s s' \<longleftrightarrow> held s' = held s \<and> told s' = told s \<and> fork_env s' = fork_env s"

lemma idle_step_refl: "idle_step s s"
  by (simp add: idle_step_def)

lemma idle_step_trans: "idle_step s t \<Longrightarrow> idle_step t u \<Longrightarrow> idle_step s u"
  by (simp add: idle_step_def)

text \<open>A free device is locked for a new child, which is told to go on after that.\<close>

definition start_step :: "nat \<Rightarrow> string \<Rightarrow> 'a requests_scheme \<Rightarrow> 'a requests_scheme \<Rightarrow> bool" where
  "start_step i line s s' \<longleftrightarrow> (\<exists>p. 0 < p \<and> fork_env s = p # fork_env s' \<and> held s line = 0
     \<and> held s' = (held s)(line := p) \<and> told s' = told s @ [(p, lock_tab s')]
     \<and> cl_pid (client s' ! i) = p)"

lemma dev_phase:
  assumes "bindR (DEBUG m s) (\<lambda>s. bindR (is_locked line s) k) = Inr x" and "lock_inv s"
  obtains p s2 where "k (p, s2) = Inr x" and "p = held s line" and "idle_step s s2" and "lock_inv s2"
    and "fpsys s2 = fpsys s" and "disk s2 = disk s" and "client s2 = client s" and "devices s2 = devices s"
    and "systems s2 = systems s" and "errmsg s2 = errmsg s" and "fpdev s2 = fpdev s"
proof -
  from assms(1) obtain s1 p s2 where d: "DEBUG m s = Inr s1" and l: "is_locked line s1 = Inr (p, s2)"
    and k: "k (p, s2) = Inr x"
    by (auto simp: bindR_Inr_iff)
  note c1 = wr_core_eqD [OF DEBUG_core [OF d]] and c2 = lock_core_eqD [OF is_locked_core [OF l]]
  have "lock_inv s1" "held s1 = held s" using assms(2) c1 held_lock_inv_cong [of s1 s] by auto
  from lk.lookup [OF this(1) l] this(2) c1 c2 show ?thesis
    by (intro that [OF k]) (auto simp: idle_step_def)
qed

lemma dev_stream_eqI: "fpdev s' = fpdev s \<Longrightarrow> disk s' = disk s \<Longrightarrow> dev_stream s' = dev_stream s"
  by (simp add: dev_stream_def split: option.split)

lemma try_system_result:
  assumes t: "try_system i s = Inr (jmp, s')" and inv: "lock_inv s" and i: "i < length (client s)"
  shows "fpsys s' = fpsys s \<and> disk s' = disk s \<and> systems s' = systems s \<and> lock_inv s' \<and>
    map_option content (dev_stream s') = map_option content (dev_stream s) \<and>
    (\<forall>ds. device_table s = Some ds \<longrightarrow> (case List.find (dev_match (systems s)) ds of
       None \<Rightarrow> jmp = Break | Some d \<Rightarrow> jmp \<noteq> Break \<and> devices s' = d)) \<and>
    (\<exists>p. client s' = (client s)[i := (client s ! i)\<lparr>cl_foundone := cl_foundone (client s ! i) + 1, cl_pid := p\<rparr>]) \<and>
    (case jmp of
       Return r \<Rightarrow> r = 0 \<and> dev_match (systems s) (devices s') \<and> start_step i (dv_line (devices s')) s s'
     | Break \<Rightarrow> idle_step s s' \<and> errmsg s' \<noteq> []
     | Continue \<Rightarrow> idle_step s s' \<and> errmsg s' \<noteq> [] \<and> dev_match (systems s) (devices s')
                  \<and> held s (dv_line (devices s')) \<noteq> 0)"
proof -
  let ?up = "upd_client i (\<lambda>c. c\<lparr>cl_foundone := cl_foundone c + 1\<rparr>)"
  from t obtain s1 r dev s2 where d1: "DEBUG (''trying sys: '' @ the (sy_name (systems s)) @ '', '' @ sy_type (systems s) @ '', ''
              @ sy_class (systems s) @ '', '' @ sy_phone (systems s)) s = Inr s1"
    and f: "dev_find (devices (?up s1)) (systems (?up s1)) (?up s1) = Inr (r, dev, s2)"
    and rest: "(if r < 0 then Inr (Break, s2\<lparr>devices := dev\<rparr>)
      else bindR (DEBUG (''trying dev: '' @ the (dv_type dev) @ '', '' @ dv_line dev @ '', ''
                       @ dv_class dev @ '', '' @ dv_dialer dev) (s2\<lparr>devices := dev\<rparr>)) (\<lambda>s.
           bindR (is_locked (dv_line dev) s) (\<lambda>(pid, s).
             if pid \<noteq> 0 then
               bindR (set_errmsg (''device `'' @ dv_line dev @ [CHR 0x27] @ '' already locked by pid '' @ deci pid @ [NL]) s)
                 (\<lambda>s. Inr (Continue, s))
             else bindR (start_child i s) (\<lambda>(r, s). Inr (Return r, s))))) = Inr (jmp, s')"
    by (auto simp: try_system_def bindR_Inr_iff Let_def)
  let ?s2 = "s2\<lparr>devices := dev\<rparr>"
  note c1 = wr_core_eqD [OF DEBUG_core [OF d1]] and c2 = find_core_eqD [OF f]
  have cl: "\<exists>p. client s2 = (client s)[i := (client s ! i)\<lparr>cl_foundone := cl_foundone (client s ! i) + 1, cl_pid := p\<rparr>]"
    using c1 c2 by (intro exI [of _ "cl_pid (client s ! i)"]) simp
  have idle: "idle_step s ?s2" "lock_inv ?s2" "fpsys ?s2 = fpsys s" "disk ?s2 = disk s"
    "systems ?s2 = systems s"
    using c1 c2 inv held_lock_inv_cong [of ?s2 s] by (auto simp: idle_step_def)
  note fr = dev_find_result [OF f, of "[]"]
  have "dev_stream (?up s1) = dev_stream s" using c1 by (intro dev_stream_eqI) auto
  moreover have "dev_stream ?s2 = dev_stream s2" by (rule dev_stream_eqI) simp_all
  ultimately have ct: "map_option content (dev_stream ?s2) = map_option content (dev_stream s)"
    and "device_table (?up s1) = device_table s"
    using fr by (simp_all add: device_table_content)
  then have tab: "device_table s = Some ds \<Longrightarrow> (case List.find (dev_match (systems s)) ds of
       Some d' \<Rightarrow> r = 0 \<and> dev = d' | None \<Rightarrow> r = -1)" for ds
    using dev_find_table [OF _ f, of ds] c1 by simp
  show ?thesis
  proof (cases "r < 0")
    case True
    then show ?thesis using rest fr idle cl ct tab by (auto split: if_splits option.splits)
  next
    case False
    then have m: "dev_match (systems s) dev" using fr c1 by (auto split: if_splits)
    from rest False obtain pid s3 where k: "(if pid \<noteq> 0 then
               bindR (set_errmsg (''device `'' @ dv_line dev @ [CHR 0x27] @ '' already locked by pid '' @ deci pid @ [NL]) s3)
                 (\<lambda>s. Inr (Continue, s))
             else bindR (start_child i s3) (\<lambda>(r, s). Inr (Return r, s))) = Inr (jmp, s')"
      and p: "pid = held ?s2 (dv_line dev)" and i3: "idle_step ?s2 s3" "lock_inv s3" "fpsys s3 = fpsys ?s2"
        "disk s3 = disk ?s2" "client s3 = client ?s2" "devices s3 = devices ?s2"
        "systems s3 = systems ?s2" "fpdev s3 = fpdev ?s2"
      using dev_phase [OF _ idle(2), of _ _ _ "(jmp, s')"] by (auto elim!: dev_phase [OF _ idle(2)])
    have ct3: "map_option content (dev_stream s3) = map_option content (dev_stream s)"
      using ct i3 dev_stream_eqI [of s3 ?s2] by simp
    have find: "\<forall>ds. device_table s = Some ds \<longrightarrow> List.find (dev_match (systems s)) ds = Some dev"
      using tab False by (fastforce split: option.splits)
    have hl: "held s (dv_line dev) = pid" using p idle(1) by (simp add: idle_step_def)
    show ?thesis
    proof (cases "pid = 0")
      case True
      with k obtain q where sc: "start_child i s3 = Inr (q, s')" and j: "jmp = Return q" by (auto simp: bindR_Inr_iff)
      note sr = start_child_result [OF sc i3(2)]
      have "map_option content (dev_stream s') = map_option content (dev_stream s)"
        using ct3 sr dev_stream_eqI [of s' s3] by auto
      with sr idle_step_trans [OF idle(1) i3(1)] cl j hl True i3 idle m i find show ?thesis
        by (auto simp: start_step_def idle_step_def)
    next
      case False
      with k idle_step_trans [OF idle(1) i3(1)] cl hl i3 idle m ct3 find show ?thesis
        by (auto simp: set_errmsg_def bindR_Inr_iff idle_step_def held_def lock_inv_def split: if_splits)
    qed
  qed
qed

section \<open>The loop\<close>

lemma sys_stream_eqI: "fpsys s' = fpsys s \<Longrightarrow> disk s' = disk s \<Longrightarrow> sys_stream s' = sys_stream s"
  by (simp add: sys_stream_def split: option.split)

lemma step_files:
  fixes s s' :: "'a requests_scheme"
  shows "DEBUG m s = Inr s' \<Longrightarrow> fpsys s' = fpsys s \<and> disk s' = disk s \<and> requests.more s' = requests.more s \<and> clifd s' = clifd s"
    and "is_locked l s = Inr (p, s') \<Longrightarrow> fpsys s' = fpsys s \<and> disk s' = disk s \<and> requests.more s' = requests.more s \<and> clifd s' = clifd s"
    and "lock_set l p s = Inr s' \<Longrightarrow> fpsys s' = fpsys s \<and> disk s' = disk s \<and> requests.more s' = requests.more s \<and> clifd s' = clifd s"
  using wr_core_eqD(1,2,12,13) [of s' s] lock_core_eqD(1,2,10,11) [of s' s]
  by (blast dest: DEBUG_core is_locked_core lock_set_core)+

lemma start_child_files:
  "start_child i s = Inr (r, s') \<Longrightarrow> fpsys s' = fpsys s \<and> disk s' = disk s \<and> requests.more s' = requests.more s \<and> clifd s' = clifd s"
  by (auto simp: start_child_def fork_def Let_def bindR_Inr_iff split: list.splits if_splits dest!: step_files(3))

lemma try_system_stream:
  "try_system i s = Inr (jmp, s') \<Longrightarrow> sys_stream s' = sys_stream s \<and> requests.more s' = requests.more s \<and> clifd s' = clifd s"
proof -
  assume t: "try_system i s = Inr (jmp, s')"
  then obtain s1 r dev s2 where d1: "DEBUG (''trying sys: '' @ the (sy_name (systems s)) @ '', '' @ sy_type (systems s) @ '', ''
              @ sy_class (systems s) @ '', '' @ sy_phone (systems s)) s = Inr s1"
    and f: "dev_find (devices (upd_client i (\<lambda>c. c\<lparr>cl_foundone := cl_foundone c + 1\<rparr>) s1))
        (systems (upd_client i (\<lambda>c. c\<lparr>cl_foundone := cl_foundone c + 1\<rparr>) s1))
        (upd_client i (\<lambda>c. c\<lparr>cl_foundone := cl_foundone c + 1\<rparr>) s1) = Inr (r, dev, s2)"
    and rest: "(if r < 0 then Inr (Break, s2\<lparr>devices := dev\<rparr>)
      else bindR (DEBUG (''trying dev: '' @ the (dv_type dev) @ '', '' @ dv_line dev @ '', ''
                       @ dv_class dev @ '', '' @ dv_dialer dev) (s2\<lparr>devices := dev\<rparr>)) (\<lambda>s.
           bindR (is_locked (dv_line dev) s) (\<lambda>(pid, s).
             if pid \<noteq> 0 then
               bindR (set_errmsg (''device `'' @ dv_line dev @ [CHR 0x27] @ '' already locked by pid '' @ deci pid @ [NL]) s)
                 (\<lambda>s. Inr (Continue, s))
             else bindR (start_child i s) (\<lambda>(r, s). Inr (Return r, s))))) = Inr (jmp, s')"
    by (auto simp: try_system_def bindR_Inr_iff Let_def)
  have c2: "fpsys s2 = fpsys s" "disk s2 = disk s" "requests.more s2 = requests.more s" "clifd s2 = clifd s"
    using wr_core_eqD [OF DEBUG_core [OF d1]] find_core_eqD [OF f] by auto
  from rest c2 show ?thesis
    by (intro conjI sys_stream_eqI)
       (auto simp: bindR_Inr_iff set_errmsg_def split: if_splits dest!: step_files(1,2) start_child_files)
qed

function request_loop :: "nat \<Rightarrow> 'a requests_scheme \<Rightarrow> (int \<times> 'a requests_scheme) res" where
  "request_loop i s =
     bindR (sys_next (systems s) s) (\<lambda>(n, sys, s).
       let s = upd_client i (\<lambda>c. c\<lparr>cl_sysftell := n\<rparr>) (s\<lparr>systems := sys\<rparr>) in
       if n < 0 then request_end i s
       else if \<not> name_matches (client s ! i) sys then request_loop i s
       else bindR (try_system i s) (\<lambda>(j, s).
         case j of Return r \<Rightarrow> Inr (r, s) | Break \<Rightarrow> request_end i s | Continue \<Rightarrow> request_loop i s))"
  by pat_completeness auto
termination
proof (relation "measure (\<lambda>(i, s). bytes_left (sys_stream s))", simp)
  fix i n sys and s s1 s2 :: "'a requests_scheme" and x y z
  let ?s2 = "upd_client i (\<lambda>c. c\<lparr>cl_sysftell := n\<rparr>) (s1\<lparr>systems := sys\<rparr>)"
  have step: "sys_next (systems s) s = Inr (n, sys, s1) \<Longrightarrow> 0 \<le> n \<Longrightarrow>
      bytes_left (sys_stream ?s2) < bytes_left (sys_stream s)"
    using sys_next_spec [of s "systems s"] sys_stream_eqI [of ?s2 s1] by simp
  {
    assume "sys_next (systems s) s = Inr x" "(n, y) = x" "(sys, s1) = y" "s2 = ?s2" "\<not> n < 0"
    then show "((i, s2), i, s) \<in> measure (\<lambda>(i, s). bytes_left (sys_stream s))"
      using step by auto
  next
    fix w j and s3 :: "'a requests_scheme"
    assume "sys_next (systems s) s = Inr x" "(n, y) = x" "(sys, s1) = y" "s2 = ?s2" "\<not> n < 0"
      "try_system i s2 = Inr w" "(j, s3) = w"
    then show "((i, s3), i, s) \<in> measure (\<lambda>(i, s). bytes_left (sys_stream s))"
      using step try_system_stream [of i s2 j s3] by auto
  }
qed

declare request_loop.simps [simp del]

text \<open>A request does not touch what programs built on it keep in their part of the state.\<close>

lemma request_loop_more: "request_loop i s = Inr (r, s') \<Longrightarrow> requests.more s' = requests.more s \<and> clifd s' = clifd s"
proof (induction i s arbitrary: r s' rule: request_loop.induct)
  case (1 i s)
  from "1.prems" obtain n sys s1 where nx: "sys_next (systems s) s = Inr (n, sys, s1)"
    by (auto simp: request_loop.simps [of i s] bindR_Inr_iff)
  let ?s2 = "upd_client i (\<lambda>c. c\<lparr>cl_sysftell := n\<rparr>) (s1\<lparr>systems := sys\<rparr>)"
  have "sys_core s1 = sys_core s" using sys_next_spec [of s "systems s"] nx by simp
  from arg_cong [OF this, of requests.more] arg_cong [OF this, of clifd]
  have m2: "requests.more ?s2 = requests.more s \<and> clifd ?s2 = clifd s" by (simp add: sys_core_def)
  have fin: "request_end i t = Inr (r, s') \<Longrightarrow> requests.more s' = requests.more t \<and> clifd s' = clifd t" for t :: "'a requests_scheme"
    by (auto simp: request_end_def set_errmsg_def bindR_Inr_iff split: if_splits)
  have un: "(if n < 0 then request_end i ?s2
       else if \<not> name_matches (client ?s2 ! i) sys then request_loop i ?s2
       else bindR (try_system i ?s2) (\<lambda>(j, s).
         case j of Return r \<Rightarrow> Inr (r, s) | Break \<Rightarrow> request_end i s | Continue \<Rightarrow> request_loop i s)) = Inr (r, s')"
    using nx "1.prems" by (simp add: request_loop.simps [of i s] Let_def)
  consider (eof) "n < 0" | (skip) "\<not> n < 0" "\<not> name_matches (client ?s2 ! i) sys"
    | (attempt) "\<not> n < 0" "\<not> \<not> name_matches (client ?s2 ! i) sys" by blast
  then show ?case
  proof cases
    case eof
    then show ?thesis using un fin [of ?s2] m2 by simp
  next
    case skip
    with un have "request_loop i ?s2 = Inr (r, s')" by simp
    from "1.IH"(1) [OF nx refl refl refl skip this] m2 show ?thesis by simp
  next
    case attempt
    with un have "bindR (try_system i ?s2) (\<lambda>(j, s).
         case j of Return r \<Rightarrow> Inr (r, s) | Break \<Rightarrow> request_end i s | Continue \<Rightarrow> request_loop i s) = Inr (r, s')" by simp
    then obtain j s3 where t: "try_system i ?s2 = Inr (j, s3)"
      and k: "(case j of Return r \<Rightarrow> Inr (r, s3) | Break \<Rightarrow> request_end i s3 | Continue \<Rightarrow> request_loop i s3) = Inr (r, s')"
      by (auto elim!: bindR_InrE)
    show ?thesis
      using try_system_stream [OF t] m2 k fin [of s3] "1.IH"(2) [OF nx refl refl refl attempt t refl]
      by (cases j) auto
  qed
qed

definition request :: "nat \<Rightarrow> 'a requests_scheme \<Rightarrow> (int \<times> 'a requests_scheme) res" where
  "request i s =
     bindR (sys_posn (cl_sysftell (client s ! i)) (s\<lparr>errmsg := []\<rparr>)) (\<lambda>s. request_loop i s)"

section \<open>What a request does\<close>

text \<open>The fields of the client's entry that a request may change.\<close>

definition same_options :: "Client \<Rightarrow> Client \<Rightarrow> bool" where
  "same_options c c' \<longleftrightarrow> c'\<lparr>cl_sysftell := 0, cl_foundone := 0, cl_pid := 0\<rparr> = c\<lparr>cl_sysftell := 0, cl_foundone := 0, cl_pid := 0\<rparr>"

lemma same_options_eqD:
  assumes "same_options c c'"
  shows "cl_fd c' = cl_fd c" "cl_uid c' = cl_uid c" "cl_childdone c' = cl_childdone c"
    "cl_speed c' = cl_speed c" "cl_sysname c' = cl_sysname c"
  using arg_cong [OF assms [unfolded same_options_def], of cl_fd] arg_cong [OF assms [unfolded same_options_def], of cl_uid]
    arg_cong [OF assms [unfolded same_options_def], of cl_childdone]
    arg_cong [OF assms [unfolded same_options_def], of cl_speed]
    arg_cong [OF assms [unfolded same_options_def], of cl_sysname]
  by simp_all

text \<open>Only entry \<open>i\<close> changes, and in it only those fields.\<close>

definition client_step :: "nat \<Rightarrow> 'a clients_scheme \<Rightarrow> 'a clients_scheme \<Rightarrow> bool" where
  "client_step i s s' \<longleftrightarrow> (\<exists>c. same_options (client s ! i) c \<and> client s' = (client s)[i := c])"

lemma client_stepI:
  "client s' = (client s)[i := c] \<Longrightarrow> same_options (client s ! i) c \<Longrightarrow> client_step i s s'"
  by (auto simp: client_step_def)

lemma client_step_trans:
  "client_step i s t \<Longrightarrow> client_step i t u \<Longrightarrow> client_step i s u"
proof (cases "i < length (client s)")
  case False
  assume "client_step i s t" "client_step i t u"
  then have "client u = client s" using False by (auto simp: client_step_def list_update_beyond)
  then show ?thesis using False by (auto simp: client_step_def same_options_def list_update_beyond)
qed (auto simp: client_step_def same_options_def)

text \<open>The outcome of the loop: a child was started for a free device, or nothing was.\<close>

definition request_outcome :: "nat \<Rightarrow> 'a requests_scheme \<Rightarrow> int \<Rightarrow> 'a requests_scheme \<Rightarrow> bool" where
  "request_outcome i s r s' \<longleftrightarrow> lock_inv s' \<and> client_step i s s' \<and> disk s' = disk s \<and>
     (if r = 0 then dev_match (systems s') (devices s') \<and> start_step i (dv_line (devices s')) s s'
      else r = -1 \<and> idle_step s s' \<and> errmsg s' \<noteq> [])"

lemma request_outcome_idle:
  assumes "idle_step s t" and "client_step i s t" and "disk t = disk s" and "request_outcome i t r s'"
  shows "request_outcome i s r s'"
  using assms client_step_trans [of i s t s']
  by (auto simp: request_outcome_def start_step_def idle_step_def)

lemma request_end_outcome:
  assumes "request_end i s = Inr (r, s')" and "lock_inv s"
  shows "request_outcome i s r s'"
  using assms
  by (auto simp: request_end_def request_outcome_def set_errmsg_def bindR_Inr_iff idle_step_def held_def
      lock_inv_def same_options_def intro!: client_stepI [where c = "client s ! i"] split: if_splits)

lemma next_phase:
  assumes "sys_next (systems s) s = Inr (n, sys, s1)" and "lock_inv s"
    and "s2 = upd_client i (\<lambda>c. c\<lparr>cl_sysftell := n\<rparr>) (s1\<lparr>systems := sys\<rparr>)"
  shows "idle_step s s2 \<and> client_step i s s2 \<and> disk s2 = disk s \<and> lock_inv s2 \<and> length (client s2) = length (client s)
    \<and> sys_recs s2 = sys_recs s1 \<and> systems s2 = sys \<and> dev_stream s2 = dev_stream s \<and> errmsg s2 = errmsg s"
proof -
  have c: "sys_core s1 = sys_core s" using sys_next_spec [of s "systems s"] assms(1) by simp
  note d = sys_core_eqD [OF c] arg_cong [OF c, of told] arg_cong [OF c, of fork_env]
  have "told s1 = told s" "fork_env s1 = fork_env s" using d by (simp_all add: sys_core_def)
  moreover have "dev_stream s2 = dev_stream s" using d by (simp add: assms(3) dev_stream_def split: option.split)
  moreover have "sys_recs s2 = sys_recs s1" using sys_stream_eqI [of s2 s1] by (simp add: assms(3) sys_recs_def)
  ultimately show ?thesis using d assms(2,3)
    by (auto simp: idle_step_def held_def lock_inv_def same_options_def intro!: client_stepI)
qed

lemma request_loop_outcome:
  "request_loop i s = Inr (r, s') \<Longrightarrow> lock_inv s \<Longrightarrow> i < length (client s) \<Longrightarrow> request_outcome i s r s'"
proof (induction i s arbitrary: r s' rule: request_loop.induct)
  case (1 i s)
  from "1.prems"(1) obtain n sys s1 where nx: "sys_next (systems s) s = Inr (n, sys, s1)"
    by (auto simp: request_loop.simps [of i s] bindR_Inr_iff)
  let ?s2 = "upd_client i (\<lambda>c. c\<lparr>cl_sysftell := n\<rparr>) (s1\<lparr>systems := sys\<rparr>)"
  note np = next_phase [OF nx "1.prems"(2) refl, of i]
  have un: "request_loop i s = (if n < 0 then request_end i ?s2
       else if \<not> name_matches (client ?s2 ! i) sys then request_loop i ?s2
       else bindR (try_system i ?s2) (\<lambda>(j, s).
         case j of Return r \<Rightarrow> Inr (r, s) | Break \<Rightarrow> request_end i s | Continue \<Rightarrow> request_loop i s))"
    using nx by (simp add: request_loop.simps [of i s] Let_def)
  consider (eof) "n < 0" | (skip) "\<not> n < 0" "\<not> name_matches (client ?s2 ! i) sys"
    | (attempt) "\<not> n < 0" "\<not> \<not> name_matches (client ?s2 ! i) sys" by blast
  then have "request_outcome i ?s2 r s'"
  proof cases
    case eof
    then show ?thesis using un "1.prems"(1) np by (intro request_end_outcome) auto
  next
    case skip
    then have "request_loop i ?s2 = Inr (r, s')" using un "1.prems"(1) by simp
    from "1.IH"(1) [OF nx refl refl refl skip this] np "1.prems"(3) show ?thesis by simp
  next
    case attempt
    with un "1.prems"(1) have "bindR (try_system i ?s2) (\<lambda>(j, s).
         case j of Return r \<Rightarrow> Inr (r, s) | Break \<Rightarrow> request_end i s | Continue \<Rightarrow> request_loop i s) = Inr (r, s')"
      by simp
    then obtain j s3 where t: "try_system i ?s2 = Inr (j, s3)"
      and k: "(case j of Return r \<Rightarrow> Inr (r, s3) | Break \<Rightarrow> request_end i s3 | Continue \<Rightarrow> request_loop i s3) = Inr (r, s')"
      by (auto elim!: bindR_InrE)
    have i2: "i < length (client ?s2)" and inv2: "lock_inv ?s2" using np "1.prems"(3) by auto
    note tr = try_system_result [OF t inv2 i2]
    have cs: "client_step i ?s2 s3" using tr by (auto simp: same_options_def intro!: client_stepI)
    show ?thesis
    proof (cases j)
      case (Return q)
      then show ?thesis using tr cs k Return by (auto simp: request_outcome_def)
    next
      case Break
      then show ?thesis using tr cs k request_end_outcome [of i s3 r s']
        by (intro request_outcome_idle [of ?s2 s3]) auto
    next
      case Continue
      with k have rl: "request_loop i s3 = Inr (r, s')" by simp
      have "i < length (client s3)" using i2 tr by auto
      from "1.IH"(2) [OF nx refl refl refl attempt t refl Continue rl] this tr cs Continue show ?thesis
        by (intro request_outcome_idle [of ?s2 s3]) auto
    qed
  qed
  then show ?case using np by (blast intro: request_outcome_idle)
qed

section \<open>The choice of an entry\<close>

text \<open>
  The specification of the search: the first entry of the rest of the Systems file that has the
  client's system name, and its speed if it gave one, and whose device is not locked; the search
  ends without a result at an entry for which there is no device at all.
\<close>

fun pick :: "(string \<Rightarrow> int) \<Rightarrow> Client \<Rightarrow> Devices list \<Rightarrow> Systems list \<Rightarrow> (Systems \<times> Devices) option" where
  "pick h c ds [] = None"
| "pick h c ds (r # rs) =
     (if \<not> name_matches c r then pick h c ds rs
      else (case List.find (dev_match r) ds of
              None \<Rightarrow> None
            | Some d \<Rightarrow> if h (dv_line d) = 0 then Some (r, d) else pick h c ds rs))"

lemma pick_cong: "same_options c c' \<Longrightarrow> pick h c' ds rs = pick h c ds rs"
  by (induction rs) (auto simp: name_matches_def same_options_eqD split: option.split)

lemma client_step_options:
  "client_step i s s' \<Longrightarrow> i < length (client s) \<Longrightarrow> same_options (client s ! i) (client s' ! i) \<and> length (client s') = length (client s)"
  by (auto simp: client_step_def)

lemma request_loop_picks:
  "request_loop i s = Inr (r, s') \<Longrightarrow> lock_inv s \<Longrightarrow> i < length (client s) \<Longrightarrow>
     sys_recs s = Some rs \<Longrightarrow> device_table s = Some ds \<Longrightarrow>
     (case pick (held s) (client s ! i) ds rs of
        None \<Rightarrow> r = -1 | Some (q, d) \<Rightarrow> r = 0 \<and> systems s' = q \<and> devices s' = d)"
proof (induction i s arbitrary: r s' rs rule: request_loop.induct)
  case (1 i s)
  from sy.nxt_total [OF "1.prems"(4), of "systems s"] obtain n sys s1 where
    nx: "sys_next (systems s) s = Inr (n, sys, s1)" and rs1: "sys_recs s1 = Some (tl rs)"
    and hd: "if rs = [] then n < 0 else 0 \<le> n \<and> sys = hd rs" by blast
  let ?s2 = "upd_client i (\<lambda>c. c\<lparr>cl_sysftell := n\<rparr>) (s1\<lparr>systems := sys\<rparr>)"
  note np = next_phase [OF nx "1.prems"(2) refl, of i]
  have i2: "i < length (client ?s2)" "lock_inv ?s2" and rs2: "sys_recs ?s2 = Some (tl rs)"
    and ds2: "device_table ?s2 = Some ds" and h2: "held ?s2 = held s"
    using np "1.prems" rs1 by (auto simp: device_table_content idle_step_def)
  have ch: "pick (held s) (client s ! i) ds rs = pick (held ?s2) (client ?s2 ! i) ds rs"
  proof -
    have "client_step i s ?s2" using np by blast
    from client_step_options [OF this "1.prems"(3)] have "same_options (client s ! i) (client ?s2 ! i)" by blast
    then show ?thesis unfolding h2 by (rule pick_cong [symmetric])
  qed
  have un: "request_loop i s = (if n < 0 then request_end i ?s2
       else if \<not> name_matches (client ?s2 ! i) sys then request_loop i ?s2
       else bindR (try_system i ?s2) (\<lambda>(j, s).
         case j of Return r \<Rightarrow> Inr (r, s) | Break \<Rightarrow> request_end i s | Continue \<Rightarrow> request_loop i s))"
    using nx by (simp add: request_loop.simps [of i s] Let_def)
  have fin: "request_end i t = Inr (r, s') \<Longrightarrow> r = -1" for t :: "'a requests_scheme"
    by (auto simp: request_end_def bindR_Inr_iff)
  consider (eof) "n < 0" | (skip) "\<not> n < 0" "\<not> name_matches (client ?s2 ! i) sys"
    | (attempt) "\<not> n < 0" "\<not> \<not> name_matches (client ?s2 ! i) sys" by blast
  then show ?case
  proof cases
    case eof
    then show ?thesis using un "1.prems"(1) hd fin by (auto split: if_splits)
  next
    case skip
    then have rs: "rs = sys # tl rs" using hd by (auto split: if_splits)
    have "request_loop i ?s2 = Inr (r, s')" using un "1.prems"(1) skip by simp
    from "1.IH"(1) [OF nx refl refl refl skip this i2(2,1) rs2 ds2] skip(2) ch
    show ?thesis by (subst (asm) (2) rs) simp
  next
    case attempt
    then have rs: "rs = sys # tl rs" using hd by (auto split: if_splits)
    have "bindR (try_system i ?s2) (\<lambda>(j, s).
         case j of Return r \<Rightarrow> Inr (r, s) | Break \<Rightarrow> request_end i s | Continue \<Rightarrow> request_loop i s) = Inr (r, s')"
      using un "1.prems"(1) attempt by simp
    then obtain j s3 where t: "try_system i ?s2 = Inr (j, s3)"
      and k: "(case j of Return r \<Rightarrow> Inr (r, s3) | Break \<Rightarrow> request_end i s3 | Continue \<Rightarrow> request_loop i s3) = Inr (r, s')"
      by (auto elim!: bindR_InrE)
    note tr = try_system_result [OF t i2(2,1)]
    have sys2: "systems ?s2 = sys" by simp
    have ch': "pick (held s) (client s ! i) ds rs =
        (case List.find (dev_match sys) ds of None \<Rightarrow> None
           | Some d \<Rightarrow> if held ?s2 (dv_line d) = 0 then Some (sys, d) else pick (held ?s2) (client ?s2 ! i) ds (tl rs))"
      using attempt(2) unfolding ch by (subst rs) (simp split: option.split)
    have find: "case List.find (dev_match sys) ds of None \<Rightarrow> j = Break | Some d \<Rightarrow> j \<noteq> Break \<and> devices s3 = d"
      using tr ds2 sys2 by simp
    show ?thesis
    proof (cases j)
      case (Return q)
      then show ?thesis using find k tr ch' sys2 by (auto simp: start_step_def split: option.splits)
    next
      case Break
      then show ?thesis using find k fin ch' by (auto split: option.splits)
    next
      case Continue
      with k have rl: "request_loop i s3 = Inr (r, s')" by simp
      have i3: "lock_inv s3" "i < length (client s3)" "sys_recs s3 = Some (tl rs)" "device_table s3 = Some ds"
        using tr i2 rs2 ds2 sys_stream_eqI [of s3 ?s2] by (auto simp: device_table_content sys_recs_def)
      have "same_options (client ?s2 ! i) (client s3 ! i)" using tr i2 by (auto simp: same_options_def)
      then have "pick (held ?s2) (client ?s2 ! i) ds (tl rs) = pick (held s3) (client s3 ! i) ds (tl rs)"
        using pick_cong tr Continue by (simp add: idle_step_def)
      with "1.IH"(2) [OF nx refl refl refl attempt t refl Continue rl i3] find tr ch' Continue
      show ?thesis by (auto split: option.splits)
    qed
  qed
qed

text \<open>The outcome of a whole request.\<close>

lemma request_result:
  assumes "request i s = Inr (r, s')" and "lock_inv s" and "i < length (client s)"
  shows "request_outcome i s r s'"
proof -
  from assms(1) obtain s0 where p: "sys_posn (cl_sysftell (client s ! i)) (s\<lparr>errmsg := []\<rparr>) = Inr s0"
    and l: "request_loop i s0 = Inr (r, s')"
    by (auto simp: request_def bindR_Inr_iff)
  have s0: "lock_inv s0" "idle_step s s0" "client s0 = client s" "disk s0 = disk s"
    using p assms(2) by (auto simp: sys_posn_def sys_rew_def lock_inv_def held_def idle_step_def split: if_splits option.splits)
  have "client_step i s s0" using s0(3) assms(3) by (intro client_stepI [where c = "client s ! i"]) (simp_all add: same_options_def)
  moreover have "request_outcome i s0 r s'" using request_loop_outcome [OF l s0(1)] s0(3) assms(3) by simp
  ultimately show ?thesis using s0(2,4) by (blast intro: request_outcome_idle)
qed

section \<open>Properties\<close>

text \<open>
  C2: a request that succeeds has started exactly one child, for a device that no process held.
  The device of the chosen entry is locked for that child, whose process ID is stored in the
  client's entry, before the child is told to go on (the table recorded with TELL_CHILD already
  has the lock); no process holds two devices, and every other device keeps its holder.
\<close>

theorem request_locks:
  assumes "request i s = Inr (0, s')" and "lock_inv s" and "i < length (client s)"
    and "one_each (held s)" and "\<forall>l. held s l \<noteq> hd (fork_env s)"
  shows "\<exists>p line. line = dv_line (devices s') \<and> dev_match (systems s') (devices s') \<and> held s line = 0
    \<and> fork_env s = p # fork_env s' \<and> cl_pid (client s' ! i) = p
    \<and> held s' = (held s)(line := p) \<and> one_each (held s') \<and> lock_inv s'
    \<and> (\<exists>t. told s' = told s @ [(p, t)] \<and> holder t line = p)"
  using request_result [OF assms(1-3)] assms(4,5)
  by (fastforce simp: request_outcome_def start_step_def one_each_def held_def)

text \<open>
  C11: a request that fails has no effect on the devices: nothing is locked or released, no child
  is started, and there is a message for the client.
\<close>

theorem request_fails_idle:
  assumes "request i s = Inr (r, s')" and "r \<noteq> 0" and "lock_inv s" and "i < length (client s)"
  shows "r = -1 \<and> held s' = held s \<and> lock_inv s' \<and> fork_env s' = fork_env s \<and> told s' = told s \<and> errmsg s' \<noteq> []"
  using request_result [OF assms(1,3,4)] assms(2) by (auto simp: request_outcome_def idle_step_def)

text \<open>
  C3: request implements the choice that \<open>pick\<close> specifies, on well-formed Systems and Devices
  files: it returns 0 with the picked entry and device, or -1 when there is none. \<open>rs\<close> are the
  entries from the position where the client left off.
\<close>

theorem request_refines_pick:
  assumes "request i s = Inr (r, s')" and "lock_inv s" and "i < length (client s)"
    and "sys_posn (cl_sysftell (client s ! i)) (s\<lparr>errmsg := []\<rparr>) = Inr s0"
    and "sys_recs s0 = Some rs" and "device_table s = Some ds"
  shows "case pick (held s) (client s ! i) ds rs of
      None \<Rightarrow> r = -1
    | Some (q, d) \<Rightarrow> r = 0 \<and> systems s' = q \<and> devices s' = d"
proof -
  from assms(1,4) have l: "request_loop i s0 = Inr (r, s')" by (simp add: request_def)
  have s0: "lock_inv s0" "i < length (client s0)" "held s0 = held s" "client s0 = client s" "device_table s0 = device_table s"
    using assms(2,3,4)
    by (auto simp: sys_posn_def sys_rew_def lock_inv_def held_def device_table_content dev_stream_def split: if_splits option.splits)
  from request_loop_picks [OF l s0(1,2) assms(5)] s0(3-5) assms(6) show ?thesis by simp
qed

definition sys0 :: Systems where
  "sys0 = \<lparr>sy_name = None, sy_time = [], sy_type = [], sy_class = [], sy_phone = [], sy_login = []\<rparr>"

definition req_ex :: requests where
  "req_ex = files.extend (files_ex\<lparr>debug := 1, client := [blank_client\<lparr>cl_fd := 4, cl_sysname := ''host2''\<rparr>]\<rparr>)
     \<lparr>Debug = 0, clifd = 4, systems = sys0, devices = dev0, fork_env = [501], told = []\<rparr>"

lemma req_ex_run: "\<exists>s'. request 0 req_ex = Inr (0, s')"
proof -
  have "case request 0 req_ex of Inr (r, s') \<Rightarrow> r = 0 | Inl _ \<Rightarrow> False" by code_simp
  then show ?thesis by (auto split: sum.splits prod.splits)
qed

lemma req_ex_fields:
  "lock_tab req_ex = []" "fork_env req_ex = [501]" "told req_ex = []" "fpsys req_ex = None" "fpdev req_ex = None"
  "disk req_ex = disk files_ex" "client req_ex = [blank_client\<lparr>cl_fd := 4, cl_sysname := ''host2''\<rparr>]"
  "lock_size req_ex = 0"
  by (simp_all add: req_ex_def files.defs files_ex_def clients.defs client_ex_def)

lemma req_ex_facts: "lock_inv req_ex" "0 < length (client req_ex)" "held req_ex = (\<lambda>l. 0)"
  by (simp_all add: lock_inv_def NALLOC_def req_ex_fields held_def holder_def fun_eq_iff)

theorem request_locks_witness:
  "\<exists>s' line. request 0 req_ex = Inr (0, s') \<and> held s' = (\<lambda>l. 0)(line := 501) \<and> one_each (held s')"
proof -
  obtain s' where s': "request 0 req_ex = Inr (0, s')" using req_ex_run by blast
  have "one_each (held req_ex)" "\<forall>l. held req_ex l \<noteq> hd (fork_env req_ex)"
    by (simp_all add: req_ex_facts req_ex_fields one_each_def)
  from request_locks [OF s' req_ex_facts(1,2) this] obtain p line where
    "fork_env req_ex = p # fork_env s'" "held s' = (held req_ex)(line := p)" "one_each (held s')" by blast
  then show ?thesis using s' by (auto simp: req_ex_facts(3) req_ex_fields(2))
qed

theorem request_fails_idle_witness:
  "\<exists>s'. request 0 (req_ex\<lparr>client := [blank_client\<lparr>cl_sysname := ''nohost''\<rparr>]\<rparr>) = Inr (-1, s') \<and> told s' = [] \<and> errmsg s' \<noteq> []"
proof -
  let ?s = "req_ex\<lparr>client := [blank_client\<lparr>cl_sysname := ''nohost''\<rparr>]\<rparr>"
  have "case request 0 ?s of Inr (r, s') \<Rightarrow> r \<noteq> 0 | Inl _ \<Rightarrow> False" by code_simp
  then obtain r s' where s': "request 0 ?s = Inr (r, s')" "r \<noteq> 0" by (auto split: sum.splits prod.splits)
  have "lock_inv ?s" "0 < length (client ?s)" using req_ex_facts(1) by (simp_all add: lock_inv_def)
  from request_fails_idle [OF s' this] s' show ?thesis by (auto simp: req_ex_fields)
qed

theorem request_refines_pick_witness:
  "\<exists>s'. request 0 req_ex = Inr (0, s') \<and> systems s' = host2 \<and> dv_line (devices s') = ''cua1''"
proof -
  obtain s' where s': "request 0 req_ex = Inr (0, s')" using req_ex_run by blast
  let ?s0 = "sys_rew (req_ex\<lparr>errmsg := []\<rparr>)"
  have p: "sys_posn (cl_sysftell (client req_ex ! 0)) (req_ex\<lparr>errmsg := []\<rparr>) = Inr ?s0"
    by (simp add: sys_posn_def req_ex_fields blank_client_def)
  have rs: "sys_recs ?s0 = Some [host1, host2]"
    using sys_recs_ex by (simp add: sys_recs_def sys_stream_def sys_rew_def req_ex_fields)
  have ds: "device_table req_ex = Some [dev0, dev0\<lparr>dv_line := ''cua1'', dv_class := ''2400''\<rparr>]"
    using dev_table_ex by (simp add: device_table_content dev_stream_def req_ex_fields)
  have "pick (held req_ex) (client req_ex ! 0) [dev0, dev0\<lparr>dv_line := ''cua1'', dv_class := ''2400''\<rparr>] [host1, host2]
      = Some (host2, dev0\<lparr>dv_line := ''cua1'', dv_class := ''2400''\<rparr>)"
    by (simp add: name_matches_def dev_match_def host1_def host2_def dev0_def blank_client_def req_ex_fields req_ex_facts)
  with request_refines_pick [OF s' req_ex_facts(1,2) p rs ds] s' show ?thesis by auto
qed

end
