(* ===== verification/CDial.thy ===== *)
theory CDial
  imports CRequest
begin

text \<open>
  Dialing, in the child: calld/ctlstr.c, expectstr.c, sendstr.c, ttydial.c and ttyopen.c. The
  modem is the read queue of the descriptor; an \<open>RdError\<close> event there is a read interrupted by
  SIGALRM. Loops that need not end take fuel: \<open>None\<close> means that the fuel has run out.
\<close>

section \<open>Runs with fuel\<close>

type_synonym 'a run = "'a res option"

definition bindF :: "'a run \<Rightarrow> ('a \<Rightarrow> 'b run) \<Rightarrow> 'b run" where
  "bindF m f = (case m of None \<Rightarrow> None | Some (Inl e) \<Rightarrow> Some (Inl e) | Some (Inr x) \<Rightarrow> f x)"

lemma bindF_simps [simp]:
  "bindF None f = None" "bindF (Some (Inl e)) f = Some (Inl e)" "bindF (Some (Inr x)) f = f x"
  by (simp_all add: bindF_def)

lemma bindF_assoc: "bindF (bindF m f) g = bindF m (\<lambda>x. bindF (f x) g)"
  by (simp add: bindF_def split: option.split sum.split)

abbreviation ret :: "'a \<Rightarrow> 'a run" where "ret x \<equiv> Some (Inr x)"

record dialing = requests +
  caught_alrm :: bool
  slept :: nat \<comment> \<open>microseconds spent in sleep and sleep_us\<close>

section \<open>ctlstr.c\<close>

text \<open>The type char is signed: bytes from 128 on are negative, also after \<open>c &= 255\<close>.\<close>

definition schar :: "char \<Rightarrow> int" where
  "schar c = (let n = of_char c in if n < 128 then n else n - 256)"

definition uchar :: "int \<Rightarrow> char" where
  "uchar n = char_of (nat (n mod 256))"

definition octal3 :: "int \<Rightarrow> string" where
  "octal3 n = [dig (nat (n div 64)), dig (nat (n div 8 mod 8)), dig (nat (n mod 8))]"

definition ctl_str :: "char \<Rightarrow> string" where
  "ctl_str ch =
     (let c = schar ch in
      if c = 0 then [BSL, CHR ''0'']
      else if c < 32 then [CHR ''^'', uchar (c + 65 - 1)]
      else if c = 127 then ''DEL''
      else if c > 127 then BSL # octal3 c
      else [uchar c])"

section \<open>expectstr.c\<close>

text \<open>
  One byte from the modem. The result has the unsigned type size_t, so that the -1 of a timeout
  is a large positive number; the byte is only stored after a successful read.
\<close>

definition exp_read :: "int \<Rightarrow> char \<Rightarrow> 'a dialing_scheme \<Rightarrow> (32 word \<times> char \<times> 'a dialing_scheme) res" where
  "exp_read fd c s =
     (if caught_alrm s then bindR (DEBUG (NL # ''read timeout'') s) (\<lambda>s. Inr (-1, c, s))
      else (case read_call fd 1 s of
              (Some [b], s) \<Rightarrow> bindR (DEBUG_NONL (ctl_str b) s) (\<lambda>s. Inr (1, b, s))
            | (None, s) \<Rightarrow> bindR (DEBUG (NL # ''read timeout'') (s\<lparr>caught_alrm := True\<rparr>)) (\<lambda>s. Inr (-1, c, s))
            | (Some _, s) \<Rightarrow> log_sys ''read error'' s))"

text \<open>Lines 22 to 41: the expect string with its escape sequences converted, or the message.\<close>

fun exp_escapes :: "string \<Rightarrow> string \<Rightarrow> string + string" where
  "exp_escapes whole [] = Inr []"
| "exp_escapes whole (c # cs) =
     (if c = BSL then
        (case cs of
           [] \<Rightarrow> Inl (''invalid expect string: '' @ whole @ [NL])
         | e # cs' \<Rightarrow>
             if e = CHR ''r'' then map_sum id ((#) CR) (exp_escapes whole cs')
             else if e = CHR ''s'' then map_sum id ((#) (CHR '' '')) (exp_escapes whole cs')
             else Inl (''unknown expect escape char: '' @ BSL # ctl_str e @ [NL]))
      else map_sum id ((#) c) (exp_escapes whole cs))"

text \<open>Lines 49 to 52: skip until the first character of the expect string.\<close>

fun exp_skip :: "nat \<Rightarrow> int \<Rightarrow> char \<Rightarrow> char \<Rightarrow> 'a dialing_scheme \<Rightarrow> (int option \<times> char \<times> 'a dialing_scheme) run" where
  "exp_skip 0 fd c0 c s = None"
| "exp_skip (Suc k) fd c0 c s =
     bindF (Some (exp_read fd c s)) (\<lambda>(r, c, s).
       if r < 0 then ret (Some (-1), c, s)
       else if c \<noteq> c0 then exp_skip k fd c0 c s
       else ret (None, c, s))"

text \<open>
  Lines 56 to 60: the rest of the first window. The entries of \<open>inbuf\<close> that have not been
  stored yet are indeterminate; the model takes them to be NUL.
\<close>

fun exp_fill :: "nat \<Rightarrow> int \<Rightarrow> string \<Rightarrow> 'a dialing_scheme \<Rightarrow> (int option \<times> string \<times> 'a dialing_scheme) res" where
  "exp_fill 0 fd inbuf s = Inr (None, inbuf, s)"
| "exp_fill (Suc k) fd inbuf s =
     (if MAXLINE \<le> length inbuf then Inl (UB ''expect_str: inbuf overflow'')
      else bindR (exp_read fd NUL s) (\<lambda>(r, c, s).
        if r < 0 then Inr (Some (-1), inbuf, s) else exp_fill k fd (inbuf @ [c]) s))"

text \<open>Lines 62 to 69: slide the window, which starts at \<open>cmp\<close>, until it matches.\<close>

fun exp_slide :: "nat \<Rightarrow> int \<Rightarrow> string \<Rightarrow> nat \<Rightarrow> string \<Rightarrow> 'a dialing_scheme \<Rightarrow> (int option \<times> 'a dialing_scheme) run" where
  "exp_slide 0 fd expstr cmp inbuf s = None"
| "exp_slide (Suc k) fd expstr cmp inbuf s =
     (if take (length expstr) (drop cmp inbuf) = expstr then ret (None, s)
      else if MAXLINE \<le> length inbuf then Some (Inl (UB ''expect_str: inbuf overflow''))
      else bindF (Some (exp_read fd NUL s)) (\<lambda>(r, c, s).
        if r < 0 then ret (Some (-1), s) else exp_slide k fd expstr (cmp + 1) (inbuf @ [c]) s))"

definition exp_ok :: "'a dialing_scheme \<Rightarrow> (int \<times> 'a dialing_scheme) run" where
  "exp_ok s = bindF (Some (DEBUG (NL # ''expect: got it'') s)) (\<lambda>s. ret (0, s))"

definition expect_str :: "nat \<Rightarrow> int \<Rightarrow> string \<Rightarrow> 'a dialing_scheme \<Rightarrow> (int \<times> 'a dialing_scheme) run" where
  "expect_str fuel fd ptr s =
     (if ptr = [CHR 0x22, CHR 0x22] then exp_ok s
      else (case exp_escapes ptr ptr of
        Inl m \<Rightarrow> bindF (Some (set_errmsg m s)) (\<lambda>s. ret (-1, s))
      | Inr expstr \<Rightarrow>
          bindF (exp_skip fuel fd (if expstr = [] then NUL else hd expstr) NUL (s\<lparr>caught_alrm := False\<rparr>)) (\<lambda>(r, c, s).
            case r of Some v \<Rightarrow> ret (v, s)
            | None \<Rightarrow> bindF (Some (exp_fill (length expstr - 1) fd [c] s)) (\<lambda>(r, inbuf, s).
                case r of Some v \<Rightarrow> ret (v, s)
                | None \<Rightarrow> bindF (exp_slide fuel fd expstr 0 inbuf s) (\<lambda>(r, s).
                    case r of Some v \<Rightarrow> ret (v, s) | None \<Rightarrow> exp_ok s)))))"

section \<open>sendstr.c\<close>

text \<open>Lines 64 to 71: with echo check, read until the character comes back.\<close>

fun echo_wait :: "nat \<Rightarrow> int \<Rightarrow> char \<Rightarrow> 'a dialing_scheme \<Rightarrow> 'a dialing_scheme run" where
  "echo_wait 0 fd c s = None"
| "echo_wait (Suc k) fd c s =
     (case read_call fd 1 s of
        (Some [b], s) \<Rightarrow>
          bindF (Some (DEBUG_NONL (CHR ''{'' # ctl_str b @ ''}'') s)) (\<lambda>s. if b \<noteq> c then echo_wait k fd c s else ret s)
      | (_, s) \<Rightarrow> Some (log_sys ''read error'' s))"

definition put_char :: "int \<Rightarrow> char \<Rightarrow> 'a dialing_scheme \<Rightarrow> 'a dialing_scheme res" where
  "put_char fd c s =
     bindR (DEBUG_NONL (ctl_str c) s) (\<lambda>s.
       let (r, s) = write_call fd [c] None s in
       if r \<noteq> 1 then log_sys ''write error'' s else Inr s)"

definition emit :: "nat \<Rightarrow> int \<Rightarrow> bool \<Rightarrow> char \<Rightarrow> 'a dialing_scheme \<Rightarrow> 'a dialing_scheme run" where
  "emit k fd echocheck c s =
     bindF (Some (put_char fd c s)) (\<lambda>s. if echocheck then echo_wait k fd c s else ret s)"

text \<open>A return ends with a line of debug output; the result of the recursive call for the phone
  number is ignored. An unknown escape calls sprintf with the message as the buffer to write to,
  a string literal.\<close>

fun send_str :: "nat \<Rightarrow> int \<Rightarrow> string \<Rightarrow> string \<Rightarrow> bool \<Rightarrow> 'a dialing_scheme \<Rightarrow> (int \<times> 'a dialing_scheme) run" where
  "send_str 0 fd ptr phone echocheck s = None"
| "send_str (Suc k) fd ptr phone echocheck s =
     (case ptr of
        [] \<Rightarrow> bindF (Some (put_char fd CR s)) (\<lambda>s. bindF (Some (DEBUG [] s)) (\<lambda>s. ret (0, s)))
      | c # cs \<Rightarrow>
          if c = BSL then
            (case cs of
               [] \<Rightarrow> bindF (Some (set_errmsg (''backslash at end of send string'' @ [NL]) s)) (\<lambda>s. ret (-1, s))
             | e # cs \<Rightarrow>
                 if e = CHR ''c'' then
                   (if cs = [] then bindF (Some (DEBUG [] s)) (\<lambda>s. ret (0, s))
                    else send_str k fd cs phone echocheck s)
                 else if e = CHR ''d'' then
                   bindF (Some (DEBUG_NONL ''<delay>'' s)) (\<lambda>s.
                     send_str k fd cs phone echocheck (s\<lparr>slept := slept s + 2000000\<rparr>))
                 else if e = CHR ''p'' then
                   bindF (Some (DEBUG_NONL ''<pause>'' s)) (\<lambda>s.
                     send_str k fd cs phone echocheck (s\<lparr>slept := slept s + 250000\<rparr>))
                 else if e = CHR ''e'' then
                   bindF (Some (DEBUG_NONL ''<echo check off>'' s)) (send_str k fd cs phone False)
                 else if e = CHR ''E'' then
                   bindF (Some (DEBUG_NONL ''<echo check on>'' s)) (send_str k fd cs phone True)
                 else if e = CHR ''T'' then
                   bindF (send_str k fd phone phone echocheck s) (\<lambda>(r, s). send_str k fd cs phone echocheck s)
                 else if e = CHR ''r'' then
                   bindF (emit k fd echocheck CR s) (send_str k fd cs phone echocheck)
                 else if e = CHR ''s'' then
                   bindF (emit k fd echocheck (CHR '' '') s) (send_str k fd cs phone echocheck)
                 else Some (Inl (UB ''sprintf into a string literal'')))
          else bindF (emit k fd echocheck c s) (send_str k fd cs phone echocheck))"

section \<open>ttydial.c\<close>

text \<open>Alternating expect and send strings; \<open>ptr\<close> is the expect string of the next round.\<close>

fun dial_rounds :: "nat \<Rightarrow> int \<Rightarrow> string \<Rightarrow> string \<Rightarrow> string \<Rightarrow> 'a dialing_scheme \<Rightarrow> (int \<times> 'a dialing_scheme) run" where
  "dial_rounds 0 fd phone ptr rest s = None"
| "dial_rounds (Suc k) fd phone ptr rest s =
     bindF (Some (DEBUG_NONL (''expect = '' @ ptr @ NL # ''read: '') s)) (\<lambda>s.
     bindF (expect_str k fd ptr s) (\<lambda>(r, s).
       if r < 0 then ret (-1, s)
       else (case strtok WHITE rest of
               None \<Rightarrow> ret (0, s)
             | Some (ptr, rest) \<Rightarrow>
                 bindF (Some (DEBUG_NONL (''send = '' @ ptr @ NL # ''write: '') s)) (\<lambda>s.
                 bindF (send_str k fd ptr phone False s) (\<lambda>(r, s).
                   if r < 0 then ret (-1, s)
                   else (case strtok WHITE rest of
                           None \<Rightarrow> ret (0, s)
                         | Some (ptr, rest) \<Rightarrow> dial_rounds k fd phone ptr rest s))))))"

definition tty_dial :: "nat \<Rightarrow> int \<Rightarrow> string \<Rightarrow> string \<Rightarrow> 'a dialing_scheme \<Rightarrow> (int \<times> 'a dialing_scheme) run" where
  "tty_dial fuel fd phone expsend s =
     (case strtok WHITE expsend of
        None \<Rightarrow> Some (Inl (UB ''NULL expect string''))
      | Some (ptr, rest) \<Rightarrow> dial_rounds fuel fd phone ptr rest s)"

section \<open>ttyopen.c\<close>

datatype tflag = CS7 | CS8 | PARENB | PARODD | CREAD | HUPCL | CLOCAL | IXON | IXOFF | IGNBRK | ISTRIP | IGNPAR

record termios =
  c_cflag :: "tflag set"
  c_oflag :: "tflag set"
  c_iflag :: "tflag set"
  c_lflag :: "tflag set"
  c_vmin :: nat
  c_vtime :: nat
  c_ispeed :: nat
  c_ospeed :: nat

definition baud_of :: "string \<Rightarrow> nat option" where
  "baud_of cls = map_of
     [(''38400'', 38400), (''19200'', 19200), (''9600'', 9600), (''4800'', 4800), (''2400'', 2400), (''1800'', 1800),
      (''1200'', 1200), (''600'', 600), (''300'', 300), (''200'', 200), (''150'', 150), (''134'', 134), (''110'', 110),
      (''75'', 75), (''50'', 50)] cls"

text \<open>The results of open, isatty, tcgetattr and tcsetattr come with the call.\<close>

record tty_env =
  te_open :: int
  te_isatty :: bool
  te_getattr :: "termios option"
  te_setattr :: bool

definition line_flags :: "parity \<Rightarrow> bool \<Rightarrow> tflag set" where
  "line_flags par modem =
     (case par of NONE \<Rightarrow> {CS8} | EVEN \<Rightarrow> {CS7, PARENB} | ODD \<Rightarrow> {CS7, PARENB, PARODD})
     \<union> {CREAD, HUPCL} \<union> (if modem then {} else {CLOCAL})"

definition tty_open :: "tty_env \<Rightarrow> string \<Rightarrow> string \<Rightarrow> parity \<Rightarrow> bool \<Rightarrow> 'a dialing_scheme
    \<Rightarrow> (int \<times> termios option \<times> 'a dialing_scheme) res" where
  "tty_open te cls line par modem s =
     (let devname = ''/dev/'' @ line; fail = (\<lambda>m. bindR (set_errmsg m s) (\<lambda>s. Inr (-1, None, s))) in
      if 100 \<le> length devname then Inl (UB ''devname overflow'')
      else if te_open te < 0 then fail (''can't open '' @ devname @ '': '' @ errno_text s @ [NL])
      else if \<not> te_isatty te then fail (devname @ '' is not a tty'' @ [NL])
      else (case te_getattr te of
              None \<Rightarrow> log_sys ''tcgetattr error'' s
            | Some term \<Rightarrow>
                (let term = term\<lparr>c_cflag := line_flags par modem, c_oflag := {},
                              c_iflag := {IXON, IXOFF, IGNBRK, ISTRIP, IGNPAR}, c_lflag := {}, c_vmin := 1, c_vtime := 0\<rparr> in
                 case baud_of cls of
                   None \<Rightarrow> fail (''invalid baud rate: '' @ cls @ [NL])
                 | Some baud \<Rightarrow>
                     (let term = term\<lparr>c_ispeed := baud, c_ospeed := baud\<rparr> in
                      if \<not> te_setattr te then log_sys ''tcsetattr error'' s
                      else bindR (DEBUG ''tty open'' s) (\<lambda>s. Inr (te_open te, Some term, s))))))"

section \<open>Expecting\<close>

text \<open>The modem is about to deliver \<open>d\<close>, and nothing is printed for debugging.\<close>

definition ready :: "int \<Rightarrow> string \<Rightarrow> 'a dialing_scheme \<Rightarrow> bool" where
  "ready fd d s \<longleftrightarrow> delivering (rd_env s fd) \<and> data (rd_env s fd) = d \<and> Debug s = 0 \<and> \<not> caught_alrm s"

lemma read_call_ready:
  assumes "ready fd (b # r) s"
  shows "\<exists>s'. read_call fd 1 s = (Some [b], s') \<and> ready fd r s'"
proof -
  obtain bs es where e: "read_ev 1 (rd_env s fd) = (Some bs, es)" "data (rd_env s fd) = bs @ data es" "delivering es"
    "length bs \<le> 1" "bs = [] \<longleftrightarrow> rd_env s fd = []"
    by (rule read_ev_delivering [of "rd_env s fd" 1]) (use assms in \<open>auto simp: ready_def\<close>)
  have "rd_env s fd \<noteq> []" using assms by (auto simp: ready_def)
  with e have "bs = [b]" "data es = r" using assms by (cases bs; auto simp: ready_def)+
  with e(1,3) assms show ?thesis by (simp add: read_call_def ready_def)
qed

lemma exp_read_ready:
  assumes "ready fd (b # r) s"
  shows "\<exists>s'. exp_read fd c s = Inr (1, b, s') \<and> ready fd r s'"
proof -
  obtain s' where "read_call fd 1 s = (Some [b], s')" "ready fd r s'" using read_call_ready [OF assms] by blast
  then show ?thesis using assms by (auto simp: exp_read_def ready_def DEBUG_NONL_def)
qed

lemma exp_skip_ready:
  "ready fd (pre @ c0 # r) s \<Longrightarrow> c0 \<notin> set pre \<Longrightarrow> length pre < fuel \<Longrightarrow>
     \<exists>s'. exp_skip fuel fd c0 c s = ret (None, c0, s') \<and> ready fd r s'"
proof (induction fuel arbitrary: pre c s)
  case (Suc k)
  show ?case
  proof (cases pre)
    case Nil
    with Suc.prems exp_read_ready [of fd c0 r s c] show ?thesis by auto
  next
    case (Cons b pre')
    with Suc.prems obtain s1 where "exp_read fd c s = Inr (1, b, s1)" "ready fd (pre' @ c0 # r) s1"
      using exp_read_ready [of fd b "pre' @ c0 # r" s c] by auto
    with Suc.IH [of pre' s1 b] Suc.prems Cons show ?thesis by auto
  qed
qed simp

lemma exp_fill_ready:
  "ready fd d s \<Longrightarrow> k \<le> length d \<Longrightarrow> length inbuf + k \<le> MAXLINE \<Longrightarrow>
     \<exists>s'. exp_fill k fd inbuf s = Inr (None, inbuf @ take k d, s') \<and> ready fd (drop k d) s'"
proof (induction k arbitrary: inbuf d s)
  case (Suc k)
  then obtain b r where d: "d = b # r" by (cases d) auto
  with Suc.prems obtain s1 where "exp_read fd NUL s = Inr (1, b, s1)" "ready fd r s1"
    using exp_read_ready [of fd b r s NUL] by auto
  with Suc.IH [of r s1 "inbuf @ [b]"] Suc.prems d show ?case by auto
qed simp

text \<open>The window at \<open>cmp\<close> of all that is read.\<close>

definition occurs_at :: "string \<Rightarrow> string \<Rightarrow> nat \<Rightarrow> bool" where
  "occurs_at e d n \<longleftrightarrow> n + length e \<le> length d \<and> take (length e) (drop n d) = e"

lemma exp_slide_ready:
  "ready fd d s \<Longrightarrow> length inbuf = cmp + length e \<Longrightarrow> occurs_at e (inbuf @ d) n \<Longrightarrow> cmp \<le> n \<Longrightarrow>
     \<forall>k. cmp \<le> k \<and> k < n \<longrightarrow> \<not> occurs_at e (inbuf @ d) k \<Longrightarrow> n + length e \<le> MAXLINE \<Longrightarrow> n - cmp < fuel \<Longrightarrow>
     \<exists>s'. exp_slide fuel fd e cmp inbuf s = ret (None, s') \<and> ready fd (drop (n - cmp) d) s'"
proof (induction fuel arbitrary: cmp inbuf d s)
  case (Suc f)
  have win: "occurs_at e (inbuf @ d) cmp \<longleftrightarrow> take (length e) (drop cmp inbuf) = e"
    using Suc.prems(2) by (simp add: occurs_at_def)
  show ?case
  proof (cases "n = cmp")
    case True
    then show ?thesis using win Suc.prems by simp
  next
    case False
    then have lt: "cmp < n" using Suc.prems(4) by simp
    then have no: "take (length e) (drop cmp inbuf) \<noteq> e" using win Suc.prems(5) by blast
    have "n + length e \<le> length (inbuf @ d)" using Suc.prems(3) unfolding occurs_at_def by blast
    then obtain b r where d: "d = b # r" using Suc.prems(2) lt by (cases d) auto
    obtain s1 where rd: "exp_read fd NUL s = Inr (1, b, s1)" "ready fd r s1"
      using exp_read_ready [of fd b r s NUL] Suc.prems(1) d by auto
    have "\<not> MAXLINE \<le> length inbuf" using Suc.prems(2,6) lt by simp
    then have "exp_slide (Suc f) fd e cmp inbuf s = exp_slide f fd e (cmp + 1) (inbuf @ [b]) s1"
      using no rd(1) by simp
    moreover have "\<exists>s'. exp_slide f fd e (cmp + 1) (inbuf @ [b]) s1 = ret (None, s') \<and> ready fd (drop (n - (cmp + 1)) r) s'"
      using Suc.prems d lt by (intro Suc.IH [OF rd(2)]) auto
    ultimately show ?thesis using d lt by (auto simp: drop_Cons' Suc_diff_Suc)
  qed
qed simp

lemma occurs_at_drop: "p \<le> length d \<Longrightarrow> occurs_at e (drop p d) n \<longleftrightarrow> occurs_at e d (p + n)"
  by (auto simp: occurs_at_def add.commute)

lemma occurs_at_hd:
  assumes "occurs_at e d n" "e \<noteq> []"
  shows "n < length d \<and> d ! n = hd e"
proof -
  have n: "n < length d" using assms by (cases e) (auto simp: occurs_at_def)
  have "hd (take (length e) (drop n d)) = hd e" using assms by (simp add: occurs_at_def)
  with n assms(2) show ?thesis by (simp add: hd_drop_conv_nth)
qed

lemma expect_str_data:
  assumes rd: "ready fd d (s\<lparr>caught_alrm := False\<rparr>)" and ptr: "ptr \<noteq> [CHR 0x22, CHR 0x22]"
    and esc: "exp_escapes ptr ptr = Inr e" and ne: "e \<noteq> []"
    and occ: "occurs_at e d n" "\<forall>k < n. \<not> occurs_at e d k" and bound: "n + length e \<le> MAXLINE" "n + 1 < fuel"
  shows "\<exists>s'. expect_str fuel fd ptr s = ret (0, s') \<and> data (rd_env s' fd) = drop (n + length e) d"
proof -
  let ?p = "length (takeWhile (\<lambda>c. c \<noteq> hd e) d)"
  have hd_n: "n < length d" "d ! n = hd e" using occurs_at_hd [OF occ(1) ne] by auto
  have pn: "?p \<le> n" using hd_n by (metis (mono_tags, lifting) length_takeWhile_le not_le_imp_less nth_mem set_takeWhileD takeWhile_nth)
  have pd: "?p < length d" using pn hd_n(1) by simp
  have split: "d = takeWhile (\<lambda>c. c \<noteq> hd e) d @ hd e # drop (?p + 1) d"
  proof -
    have "d ! ?p = hd e" using nth_length_takeWhile [OF pd] by simp
    then have "drop ?p d = hd e # drop (?p + 1) d" using pd by (metis Cons_nth_drop_Suc Suc_eq_plus1)
    then show ?thesis by (metis append_take_drop_id takeWhile_eq_take)
  qed
  have "ready fd (takeWhile (\<lambda>c. c \<noteq> hd e) d @ hd e # drop (?p + 1) d) (s\<lparr>caught_alrm := False\<rparr>)" using rd split by simp
  moreover have "hd e \<notin> set (takeWhile (\<lambda>c. c \<noteq> hd e) d)" by (auto dest: set_takeWhileD)
  moreover have "?p < fuel" using pn bound(2) by simp
  ultimately obtain s1 where sk: "exp_skip fuel fd (hd e) NUL (s\<lparr>caught_alrm := False\<rparr>) = ret (None, hd e, s1)"
    and r1: "ready fd (drop (?p + 1) d) s1"
    using exp_skip_ready by blast
  have len: "length e - 1 \<le> length (drop (?p + 1) d)" using occ(1) pn ne by (auto simp: occurs_at_def)
  have "length [hd e] + (length e - 1) \<le> MAXLINE" using bound(1) ne by (cases e) auto
  then obtain s2 where fl: "exp_fill (length e - 1) fd [hd e] s1 = Inr (None, [hd e] @ take (length e - 1) (drop (?p + 1) d), s2)"
    and r2: "ready fd (drop (length e - 1) (drop (?p + 1) d)) s2"
    using exp_fill_ready [OF r1 len, of "[hd e]"] by blast
  let ?w = "[hd e] @ take (length e - 1) (drop (?p + 1) d)"
  have all: "?w @ drop (length e - 1) (drop (?p + 1) d) = drop ?p d"
    using split pd by (metis Cons_eq_appendI append_Nil append_eq_conv_conj append_take_drop_id)
  have lw: "length ?w = 0 + length e" using len ne by (cases e) auto
  have oc: "occurs_at e (?w @ drop (length e - 1) (drop (?p + 1) d)) (n - ?p)"
    and no: "\<forall>k. 0 \<le> k \<and> k < n - ?p \<longrightarrow> \<not> occurs_at e (?w @ drop (length e - 1) (drop (?p + 1) d)) k"
    unfolding all using occ pn pd by (auto simp: occurs_at_drop)
  have "n - ?p + length e \<le> MAXLINE" "n - ?p - 0 < fuel" using bound pn by simp_all
  then obtain s3 where sl: "exp_slide fuel fd e 0 ?w s2 = ret (None, s3)"
    and r3: "ready fd (drop (n - ?p - 0) (drop (length e - 1) (drop (?p + 1) d))) s3"
    using exp_slide_ready [OF r2 lw oc le0 no] by blast
  have "n - ?p + (length e - 1 + (?p + 1)) = n + length e" using pn ne by (cases e) auto
  then have "drop (n - ?p - 0) (drop (length e - 1) (drop (?p + 1) d)) = drop (n + length e) d" by (simp only: drop_drop diff_zero)
  then have "data (rd_env s3 fd) = drop (n + length e) d" "Debug s3 = 0" using r3 by (simp_all only: ready_def)
  then show ?thesis using ptr esc ne sk fl sl by (simp add: expect_str_def exp_ok_def DEBUG_def)
qed


text \<open>
  Expecting a string finds its first occurrence: when the modem delivers the data with the expect
  string at position \<open>n\<close> and no earlier, \<open>expect_str\<close> succeeds and has consumed the data up to the end
  of that occurrence and nothing after it, as long as the window fits into its buffer.
\<close>
theorem expect_str_first:
  assumes "ready fd d (s\<lparr>caught_alrm := False\<rparr>)" and "ptr \<noteq> [CHR 0x22, CHR 0x22]"
    and "exp_escapes ptr ptr = Inr e" and "e \<noteq> []"
    and "occurs_at e d n" "\<forall>k < n. \<not> occurs_at e d k" and "n + length e \<le> MAXLINE" "n + 1 < fuel"
  shows "\<exists>s'. expect_str fuel fd ptr s = ret (0, s') \<and> data (rd_env s' fd) = drop (n + length e) d"
  using assms by (rule expect_str_data)

section \<open>Time-outs\<close>

text \<open>The result of \<open>exp_read\<close> is never negative, so none of the loops of expect_str ever leaves by
  its test for a time-out; after one, they go on reading the byte that is in the variable.\<close>

lemma exp_read_not_negative: "exp_read fd c s = Inr (r, c', s') \<Longrightarrow> \<not> r < 0"
  by simp

lemma exp_read_after_alrm:
  "caught_alrm s \<Longrightarrow> Debug s = 0 \<Longrightarrow> exp_read fd c s = Inr (-1, c, s)"
  by (simp add: exp_read_def DEBUG_def)

lemma exp_skip_after_alrm:
  "caught_alrm s \<Longrightarrow> Debug s = 0 \<Longrightarrow> c \<noteq> c0 \<Longrightarrow> exp_skip fuel fd c0 c s = None"
  by (induction fuel) (simp_all add: exp_read_after_alrm)

definition bytes :: "string \<Rightarrow> rd_event list" where
  "bytes d = map (\<lambda>c. Data [c]) d"

lemma exp_skip_silent:
  "rd_env s fd = bytes d @ RdError # es \<Longrightarrow> Debug s = 0 \<Longrightarrow> c0 \<notin> set d \<Longrightarrow> c \<noteq> c0 \<Longrightarrow>
     exp_skip fuel fd c0 c s = None"
proof (induction fuel arbitrary: d c s)
  case (Suc k)
  show ?case
  proof (cases "caught_alrm s")
    case True
    with Suc.prems exp_skip_after_alrm show ?thesis by blast
  next
    case False
    show ?thesis
    proof (cases d)
      case Nil
      with Suc.prems False show ?thesis
        by (simp add: exp_read_def read_call_def bytes_def DEBUG_def exp_skip_after_alrm)
    next
      case (Cons b d')
      with Suc.prems False show ?thesis
        by (auto simp: exp_read_def read_call_def bytes_def DEBUG_NONL_def intro!: Suc.IH [where d = d'])
    qed
  qed
qed simp

text \<open>
  A modem that falls silent hangs the child: when the data never contains the first character
  of the expect string and the alarm interrupts the read after it, \<open>expect_str\<close> does not return
  for any fuel, although line 51 tests for the time-out. The result of \<open>exp_read\<close> is unsigned.
\<close>
theorem expect_str_timeout_hangs:
  assumes "ptr \<noteq> [CHR 0x22, CHR 0x22]" and "exp_escapes ptr ptr = Inr (c0 # e)" and "c0 \<noteq> NUL"
    and "rd_env s fd = bytes d @ RdError # es" and "c0 \<notin> set d" and "Debug s = 0"
  shows "expect_str fuel fd ptr s = None"
  using assms exp_skip_silent [of "s\<lparr>caught_alrm := False\<rparr>" fd d es c0 NUL fuel] by (simp add: expect_str_def)

section \<open>Sending\<close>

text \<open>
  What a send string stands for: the characters that are written and those of them whose echo is
  awaited. The first argument says what the phone number sends; \<open>None\<close> marks the strings that
  send_str rejects and, within a phone number, the escape for the phone number.
\<close>

definition echoed :: "bool \<Rightarrow> string \<Rightarrow> (string \<times> string) option \<Rightarrow> (string \<times> string) option" where
  "echoed echo t r = map_option (\<lambda>(ts, es). (t @ ts, (if echo then t else []) @ es)) r"

fun send_text :: "(bool \<Rightarrow> (string \<times> string) option) \<Rightarrow> bool \<Rightarrow> string \<Rightarrow> (string \<times> string) option" where
  "send_text tel echo [] = Some ([CR], [])"
| "send_text tel echo (c # cs) =
     (if c \<noteq> BSL then echoed echo [c] (send_text tel echo cs)
      else (case cs of [] \<Rightarrow> None
        | e # cs \<Rightarrow>
            if e = CHR ''c'' then (if cs = [] then Some ([], []) else send_text tel echo cs)
            else if e = CHR ''d'' \<or> e = CHR ''p'' then send_text tel echo cs
            else if e = CHR ''e'' then send_text tel False cs
            else if e = CHR ''E'' then send_text tel True cs
            else if e = CHR ''T'' then
              (case tel echo of None \<Rightarrow> None
               | Some (t, w) \<Rightarrow> map_option (\<lambda>(ts, ws). (t @ ts, w @ ws)) (send_text tel echo cs))
            else if e = CHR ''r'' then echoed echo [CR] (send_text tel echo cs)
            else if e = CHR ''s'' then echoed echo '' '' (send_text tel echo cs)
            else None))"


definition line_up :: "int \<Rightarrow> string \<Rightarrow> 'a dialing_scheme \<Rightarrow> bool" where
  "line_up fd d s \<longleftrightarrow> delivering (rd_env s fd) \<and> data (rd_env s fd) = d \<and> Debug s = 0 \<and> wr_env s = []"

definition sends :: "'a dialing_scheme \<Rightarrow> int \<Rightarrow> (int \<times> 'a dialing_scheme) run \<Rightarrow> string \<Rightarrow> string \<Rightarrow> bool" where
  "sends s fd m t r \<longleftrightarrow> (\<exists>s'. m = ret (0, s') \<and> line_up fd r s' \<and> sent s' fd = sent s fd @ t)"

lemma sendsI: "m = ret (0, s') \<Longrightarrow> line_up fd r s' \<Longrightarrow> sent s' fd = sent s fd @ t \<Longrightarrow> sends s fd m t r"
  by (auto simp: sends_def)

lemma sends_after: "sends s1 fd m t r \<Longrightarrow> sent s1 fd = sent s fd @ t1 \<Longrightarrow> sends s fd m (t1 @ t) r"
  by (auto simp: sends_def)

lemma put_char_up:
  assumes "line_up fd d s"
  obtains s' where "put_char fd c s = Inr s'" "line_up fd d s'" "sent s' fd = sent s fd @ [c]"
  using assms by (simp add: put_char_def DEBUG_NONL_def write_call_def line_up_def sent_def)

lemma emit_up:
  assumes "line_up fd ((if echo then [c] else []) @ d) s"
  obtains s' where "emit (Suc k) fd echo c s = ret s'" "line_up fd d s'" "sent s' fd = sent s fd @ [c]"
proof -
  obtain s1 where s1: "put_char fd c s = Inr s1" "line_up fd ((if echo then [c] else []) @ d) s1"
    "sent s1 fd = sent s fd @ [c]" by (rule put_char_up [OF assms])
  show ?thesis
  proof (cases echo)
    case False
    with s1 show ?thesis by (intro that [of s1]) (simp_all add: emit_def)
  next
    case True
    then have up: "line_up fd (c # d) s1" using s1(2) by simp
    obtain bs es where e: "read_ev 1 (rd_env s1 fd) = (Some bs, es)" "data (rd_env s1 fd) = bs @ data es" "delivering es"
      "length bs \<le> 1" "bs = [] \<longleftrightarrow> rd_env s1 fd = []"
      by (rule read_ev_delivering [of "rd_env s1 fd" 1]) (use up in \<open>auto simp: line_up_def\<close>)
    have "rd_env s1 fd \<noteq> []" using up by (auto simp: line_up_def)
    with e have b: "bs = [c]" "data es = d" using up by (cases bs; auto simp: line_up_def)+
    let ?s2 = "s1\<lparr>rd_env := (rd_env s1)(fd := es)\<rparr>"
    have "emit (Suc k) fd echo c s = ret ?s2"
      using s1(1) True e(1) b up by (simp add: emit_def read_call_def DEBUG_NONL_def line_up_def)
    moreover have "line_up fd d ?s2" using up e(3) b by (simp add: line_up_def)
    moreover have "sent ?s2 fd = sent s fd @ [c]" using s1(3) by (simp add: sent_def)
    ultimately show ?thesis by (rule that)
  qed
qed

lemma send_str_emit:
  assumes up: "line_up fd ((if echo then [c] else []) @ w @ r) s" and k: "0 < k"
    and rest: "\<And>s. line_up fd (w @ r) s \<Longrightarrow> sends s fd (f s) t r"
  shows "sends s fd (bindF (emit k fd echo c s) f) (c # t) r"
proof -
  obtain j where j: "k = Suc j" using k by (cases k) auto
  obtain s1 where s1: "emit k fd echo c s = ret s1" "line_up fd (w @ r) s1" "sent s1 fd = sent s fd @ [c]"
    using emit_up [OF up, of j] unfolding j by blast
  have "sends s fd (f s1) ([c] @ t) r" by (rule sends_after [OF rest [OF s1(2)] s1(3)])
  with s1(1) show ?thesis by simp
qed

lemma send_text_escape:
  "send_text tel echo (BSL # e # cs) = Some x
    \<Longrightarrow> e = CHR ''c'' \<or> e \<in> {CHR ''d'', CHR ''p'', CHR ''e'', CHR ''E''} \<or> e = CHR ''T'' \<or> e \<in> {CHR ''r'', CHR ''s''}"
  by (auto split: if_split_asm)

lemma send_esc:
  "send_text tel echo (BSL # CHR ''d'' # cs) = send_text tel echo cs"
  "send_text tel echo (BSL # CHR ''p'' # cs) = send_text tel echo cs"
  "send_text tel echo (BSL # CHR ''e'' # cs) = send_text tel False cs"
  "send_text tel echo (BSL # CHR ''E'' # cs) = send_text tel True cs"
  "send_str (Suc k) fd (BSL # CHR ''d'' # cs) phone echo s = bindF (Some (DEBUG_NONL ''<delay>'' s))
     (\<lambda>s. send_str k fd cs phone echo (s\<lparr>slept := slept s + 2000000\<rparr>))"
  "send_str (Suc k) fd (BSL # CHR ''p'' # cs) phone echo s = bindF (Some (DEBUG_NONL ''<pause>'' s))
     (\<lambda>s. send_str k fd cs phone echo (s\<lparr>slept := slept s + 250000\<rparr>))"
  "send_str (Suc k) fd (BSL # CHR ''e'' # cs) phone echo s =
     bindF (Some (DEBUG_NONL ''<echo check off>'' s)) (send_str k fd cs phone False)"
  "send_str (Suc k) fd (BSL # CHR ''E'' # cs) phone echo s =
     bindF (Some (DEBUG_NONL ''<echo check on>'' s)) (send_str k fd cs phone True)"
  by simp_all

lemma send_str_sends:
  fixes s :: "'a dialing_scheme"
  assumes tel: "\<And>k echo t w r (s :: 'a dialing_scheme). tel echo = Some (t, w) \<Longrightarrow> n < k \<Longrightarrow> line_up fd (w @ r) s
    \<Longrightarrow> sends s fd (send_str k fd phone phone echo s) t r"
  shows "send_text tel echo ptr = Some (t, w) \<Longrightarrow> length ptr + n < k \<Longrightarrow> line_up fd (w @ r) s
    \<Longrightarrow> sends s fd (send_str k fd ptr phone echo s) t r"
proof (induction k arbitrary: ptr echo t w s r)
  case (Suc k)
  note IH = Suc.IH and st = Suc.prems(1) and len = Suc.prems(2) and up = Suc.prems(3)
  show ?case
  proof (cases ptr)
    case Nil
    then have tw: "t = [CR]" "w = []" using st by auto
    obtain s1 where "put_char fd CR s = Inr s1" "line_up fd r s1" "sent s1 fd = sent s fd @ [CR]"
      by (rule put_char_up [of fd r s CR]) (use up tw in simp)
    then show ?thesis using Nil tw by (intro sendsI [of _ s1]) (simp_all add: DEBUG_def line_up_def)
  next
    case (Cons c cs)
    show ?thesis
    proof (cases "c = BSL")
      case False
      with st Cons obtain ts ws where i: "send_text tel echo cs = Some (ts, ws)" "t = c # ts" "w = (if echo then [c] else []) @ ws"
        by (auto simp: echoed_def)
      have "sends s fd (bindF (emit k fd echo c s) (send_str k fd cs phone echo)) (c # ts) r"
        using up i len Cons by (intro send_str_emit [where w = ws] IH [OF i(1)]) auto
      then show ?thesis using Cons False i(2) by simp
    next
      case True
      then obtain e cs' where cs: "cs = e # cs'" using st Cons by (cases cs) auto
      have dbg: "DEBUG_NONL m s = Inr s" for m using up by (simp add: DEBUG_NONL_def line_up_def)
      note eqs = Cons True cs
      have plain: "sends s fd (send_str k fd cs' phone echo' s') t r"
        if "send_text tel echo' cs' = Some (t, w)" "line_up fd (w @ r) s'" "sent s' fd = sent s fd" for echo' s'
      proof -
        have "sends s' fd (send_str k fd cs' phone echo' s') t r" using len eqs by (intro IH [OF that(1) _ that(2)]) simp
        with that(3) show ?thesis by (simp add: sends_def)
      qed
      have char: "sends s fd (bindF (emit k fd echo c' s) (send_str k fd cs' phone echo)) t r"
        if em: "echoed echo [c'] (send_text tel echo cs') = Some (t, w)" for c'
      proof -
        from em obtain ts ws where i: "send_text tel echo cs' = Some (ts, ws)" "t = c' # ts" "w = (if echo then [c'] else []) @ ws"
          by (auto simp: echoed_def)
        show ?thesis unfolding i(2) using up i len eqs by (intro send_str_emit [where w = ws] IH [OF i(1)]) auto
      qed
      have "send_text tel echo (BSL # e # cs') = Some (t, w)" using st eqs by simp
      then consider "e = CHR ''c''" | "e \<in> {CHR ''d'', CHR ''p'', CHR ''e'', CHR ''E''}" | "e = CHR ''T''" | "e \<in> {CHR ''r'', CHR ''s''}"
        by (metis insertCI send_text_escape)
      then show ?thesis
      proof cases
        case 1
        show ?thesis
        proof (cases "cs' = []")
          case True
          with st eqs 1 have "t = []" "w = []" by auto
          with up True show ?thesis unfolding eqs 1 by (intro sendsI [of _ s]) (simp_all add: DEBUG_def line_up_def)
        next
          case False
          with st eqs 1 have "send_text tel echo cs' = Some (t, w)" by simp
          with plain [of echo s] up False show ?thesis unfolding eqs 1 by simp
        qed
      next
        case 2
        have slp: "line_up fd d (s\<lparr>slept := x\<rparr>) = line_up fd d s" "sent (s\<lparr>slept := x\<rparr>) fd = sent s fd" for d x
          by (simp_all add: line_up_def sent_def)
        from 2 show ?thesis
          by (elim insertE emptyE; use st up in \<open>simp only: eqs send_esc dbg bindF_simps\<close>)
            (rule plain; simp only: slp)+
      next
        case 3
        then obtain t1 w1 ts ws where tl: "tel echo = Some (t1, w1)" and i: "send_text tel echo cs' = Some (ts, ws)"
          and tw: "t = t1 @ ts" "w = w1 @ ws"
          using st eqs by (auto split: option.splits)
        have "line_up fd (w1 @ ws @ r) s" using up tw by simp
        from tel [OF tl _ this] len have "sends s fd (send_str k fd phone phone echo s) t1 (ws @ r)" using eqs by simp
        then obtain s1 where s1: "send_str k fd phone phone echo s = ret (0, s1)" "line_up fd (ws @ r) s1" "sent s1 fd = sent s fd @ t1"
          by (auto simp: sends_def)
        have "sends s1 fd (send_str k fd cs' phone echo s1) ts r" using len eqs by (intro IH [OF i _ s1(2)]) simp
        from sends_after [OF this s1(3)] show ?thesis unfolding eqs using 3 tw(1) s1(1) by simp
      next
        case 4
        then show ?thesis unfolding eqs using st eqs char by auto
      qed
    qed
  qed
qed simp


text \<open>
  Sending a string with a phone number, which has no escape for itself: the text that the string
  stands for is written, the echo of exactly the characters that were sent with the check on is
  read, and 0 is returned. The fuel is the length of the two strings: the routine ends.
\<close>
theorem send_str_text:
  assumes "send_text (\<lambda>echo. send_text (\<lambda>_. None) echo phone) echo ptr = Some (t, w)"
    and "line_up fd (w @ r) s" and "length ptr + length phone < fuel"
  shows "\<exists>s'. send_str fuel fd ptr phone echo s = ret (0, s')
    \<and> sent s' fd = sent s fd @ t \<and> data (rd_env s' fd) = r"
proof -
  have tel: "sends s fd (send_str k fd phone phone echo s) t r"
    if "send_text (\<lambda>_. None) echo phone = Some (t, w)" "length phone < k" "line_up fd (w @ r) s"
    for k echo t w r and s :: "'a dialing_scheme"
    by (rule send_str_sends [where tel = "\<lambda>_. None" and n = 0, OF _ that(1) _ that(3)]) (use that(2) in simp_all)
  have "sends s fd (send_str fuel fd ptr phone echo s) t r"
    by (rule send_str_sends [where n = "length phone", OF _ assms(1,3,2)]) (rule tel)
  then show ?thesis by (auto simp: sends_def line_up_def)
qed

text \<open>
  A phone number that contains the escape for the phone number, here before anything else, is
  sent within itself without end: \<open>send_str\<close> does not return for any fuel.
\<close>
theorem send_str_phone_recursion:
  assumes "phone = BSL # CHR ''T'' # rest"
  shows "send_str fuel fd phone phone echo s = None"
  using assms by (induction fuel arbitrary: echo s) simp_all

section \<open>Witnesses\<close>

definition modem :: "rd_event list \<Rightarrow> dialing" where
  "modem es = requests.extend (req_ex\<lparr>rd_env := (\<lambda>_. es), wr_env := [], fd_out := (\<lambda>_. [])\<rparr>) \<lparr>caught_alrm = False, slept = 0\<rparr>"

lemma modem_fields:
  "rd_env (modem es) fd = es" "wr_env (modem es) = []" "Debug (modem es) = 0" "sent (modem es) fd = []"
  "\<not> caught_alrm (modem es)"
  by (simp_all add: modem_def requests.defs req_ex_def files.defs sent_def)

theorem expect_str_first_witness:
  "\<exists>s'. expect_str 20 9 ''gi'' (modem [Data ''lo'', Data ''gogin:'']) = ret (0, s') \<and> data (rd_env s' 9) = ''n:''"
  using expect_str_first [of 9 "''logogin:''" "modem [Data ''lo'', Data ''gogin:'']" "''gi''" "''gi''" 4 20]
  by (simp add: ready_def modem_fields delivering_def occurs_at_def MAXLINE_def less_Suc_eq numeral_eq_Suc del: expect_str_def)

theorem expect_str_timeout_hangs_witness:
  "expect_str 50 9 ''ogin:'' (modem [Data ''h'', Data ''i'', RdError]) = None"
  using expect_str_timeout_hangs [of "''ogin:''" "CHR ''o''" "''gin:''" "modem [Data ''h'', Data ''i'', RdError]" 9 "''hi''" "[]" 50]
  by (simp add: bytes_def modem_fields)

theorem send_str_text_witness:
  "\<exists>s'. send_str 20 9 (''AT'' @ BSL # ''E'' @ BSL # ''T!'') ''55'' False (modem [Data ''55'', Data ''!'']) = ret (0, s')
    \<and> sent s' 9 = ''AT55'' @ CR # ''!'' @ [CR]"
proof -
  let ?s = "modem [Data ''55'', Data ''!'']"
  have "send_text (\<lambda>echo. send_text (\<lambda>_. None) echo ''55'') False (''AT'' @ BSL # ''E'' @ BSL # ''T!'')
      = Some (''AT55'' @ CR # ''!'' @ [CR], ''55!'')"
    by (simp add: echoed_def)
  moreover have "line_up 9 (''55!'' @ []) ?s" by (simp add: line_up_def modem_fields delivering_def)
  ultimately have "\<exists>s'. send_str 20 9 (''AT'' @ BSL # ''E'' @ BSL # ''T!'') ''55'' False ?s = ret (0, s')
      \<and> sent s' 9 = sent ?s 9 @ ''AT55'' @ CR # ''!'' @ [CR] \<and> data (rd_env s' 9) = []"
    by (rule send_str_text) simp
  then show ?thesis by (auto simp: modem_fields)
qed

theorem send_str_phone_recursion_witness:
  "send_str 100 9 (BSL # ''T'') (BSL # ''T'') False (modem []) = None"
  by (rule send_str_phone_recursion [of _ "[]"]) simp

end
