(* ===== verification/FdPass.thy ===== *)
theory FdPass
  imports ByteIO
begin

text \<open>
  Passing a descriptor or an error to another process: lib.sun/sendfd.c, senderr.c and recvfd.c
  (sockets with access rights), and lib.svr4/recvfd.c (streams). The protocol ends the data with
  a NUL byte and a status byte; status 0 comes with a descriptor, another one is an error code.
\<close>

section \<open>The sending side\<close>

text \<open>The status byte for the argument of send_fd, a char: what does not fit is cut off.\<close>

definition status_byte :: "int \<Rightarrow> char" where
  "status_byte fd =
     (if fd < 0 then (let b = (- fd) mod 256 in char_of (nat (if b = 0 then 1 else b))) else NUL)"

definition send_fd :: "int \<Rightarrow> int \<Rightarrow> 'a byte_io_scheme \<Rightarrow> (int \<times> 'a byte_io_scheme) res" where
  "send_fd clifd fd s =
     (let (r, s) = write_call clifd [NUL, status_byte fd] (if fd < 0 then None else Some fd) s in
      if r \<noteq> 2 then Inr (-1, s) else Inr (0, s))"

definition send_err :: "int \<Rightarrow> int \<Rightarrow> string \<Rightarrow> 'a byte_io_scheme \<Rightarrow> (int \<times> 'a byte_io_scheme) res" where
  "send_err clifd errcode msg s =
     (let n = length msg; errcode' = (if 0 \<le> errcode then -1 else errcode) in
      bindR (if 0 < n then writen clifd msg n s else Inr (int n, s)) (\<lambda>(r, s).
        if 0 < n \<and> r \<noteq> int n then Inr (-1, s)
        else bindR (send_fd clifd errcode' s) (\<lambda>(r, s). if r < 0 then Inr (-1, s) else Inr (0, s))))"

section \<open>The receiving side\<close>

text \<open>
  The result of one call of recvmsg: at most MAXLINE bytes with a descriptor, if one was passed
  with them, or a failure. An exhausted queue is a closed connection.
\<close>

datatype recv_event = Msg string "int option" | RecvFail

text \<open>
  The loop over the bytes of one message. \<open>i\<close> is \<open>ptr - buf\<close>; the result is the new \<open>nread\<close>,
  \<open>status\<close> and \<open>newfd\<close>, or the text of the fatal message.
\<close>

function recv_scan :: "string \<Rightarrow> int option \<Rightarrow> nat \<Rightarrow> nat \<Rightarrow> int \<Rightarrow> int \<Rightarrow> string + (nat \<times> int \<times> int)" where
  "recv_scan buf rights i nread status newfd =
     (if i < nread then
        (if buf ! i = NUL then
           (if i + 2 \<noteq> nread then Inl ''message format error''
            else (let status = int (of_char (buf ! (i + 1)) :: nat) in
                  if status = 0 then
                    (case rights of None \<Rightarrow> Inl ''status = 0 but no fd''
                     | Some fd \<Rightarrow> recv_scan buf rights (i + 1) (nread - 2) status fd)
                  else recv_scan buf rights (i + 1) (nread - 2) status (- status)))
         else recv_scan buf rights (i + 1) nread status newfd)
      else Inr (nread, status, newfd))"
  by pat_completeness auto
termination
  by (relation "measure (\<lambda>(buf, rights, i, nread, status, newfd). nread - i)") auto

declare recv_scan.simps [simp del]

fun recv_fd :: "(string \<Rightarrow> 'u \<Rightarrow> int \<times> 'u) \<Rightarrow> recv_event list \<Rightarrow> int \<Rightarrow> 'u \<Rightarrow> 'a proc_io_scheme
    \<Rightarrow> (int \<times> 'u \<times> recv_event list \<times> 'a proc_io_scheme) res" where
  "recv_fd userfunc [] newfd u s =
     bindR (err_ret ''connection closed by server'' s) (\<lambda>s. Inr (-1, u, [], s))"
| "recv_fd userfunc (RecvFail # es) newfd u s = err_sys ''recvmsg error'' s"
| "recv_fd userfunc (Msg bs rights # es) newfd u s =
     (let buf = take MAXLINE bs; nread = length buf in
      if nread = 0 then bindR (err_ret ''connection closed by server'' s) (\<lambda>s. Inr (-1, u, es, s))
      else (case recv_scan buf rights 0 nread (-1) (case rights of None \<Rightarrow> newfd | Some fd \<Rightarrow> fd) of
              Inl m \<Rightarrow> err_dump m s
            | Inr (nread, status, newfd) \<Rightarrow>
                (let (r, u) = (if 0 < nread then userfunc (take nread buf) u else (0, u)) in
                 if 0 < nread \<and> r \<noteq> int nread then Inr (-1, u, es, s)
                 else if 0 \<le> status then Inr (newfd, u, es, s)
                 else recv_fd userfunc es newfd u s)))"

text \<open>
  The streams version gets the descriptor by a separate call (ioctl with I_RECVFD), whose
  failure is returned instead of aborting; the descriptor is the second part of the event.
\<close>

function recv_scan_svr4 :: "string \<Rightarrow> int option \<Rightarrow> nat \<Rightarrow> nat \<Rightarrow> int \<Rightarrow> int \<Rightarrow> (string + (nat \<times> int \<times> int)) option" where
  "recv_scan_svr4 buf ioctl i nread status newfd =
     (if i < nread then
        (if buf ! i = NUL then
           (if i + 2 \<noteq> nread then Some (Inl ''message format error'')
            else (let status = int (of_char (buf ! (i + 1)) :: nat) in
                  if status = 0 then
                    (case ioctl of None \<Rightarrow> None
                     | Some fd \<Rightarrow> recv_scan_svr4 buf ioctl (i + 1) (nread - 2) status fd)
                  else recv_scan_svr4 buf ioctl (i + 1) (nread - 2) status (- status)))
         else recv_scan_svr4 buf ioctl (i + 1) nread status newfd)
      else Some (Inr (nread, status, newfd)))"
  by pat_completeness auto
termination
  by (relation "measure (\<lambda>(buf, ioctl, i, nread, status, newfd). nread - i)") auto

declare recv_scan_svr4.simps [simp del]

fun recv_fd_svr4 :: "(string \<Rightarrow> 'u \<Rightarrow> int \<times> 'u) \<Rightarrow> recv_event list \<Rightarrow> int \<Rightarrow> 'u \<Rightarrow> 'a proc_io_scheme
    \<Rightarrow> (int \<times> 'u \<times> recv_event list \<times> 'a proc_io_scheme) res" where
  "recv_fd_svr4 userfunc [] newfd u s =
     bindR (err_ret ''connection closed by server'' s) (\<lambda>s. Inr (-1, u, [], s))"
| "recv_fd_svr4 userfunc (RecvFail # es) newfd u s = err_sys ''getmsg error'' s"
| "recv_fd_svr4 userfunc (Msg bs ioctl # es) newfd u s =
     (let buf = take MAXLINE bs; nread = length buf in
      if nread = 0 then bindR (err_ret ''connection closed by server'' s) (\<lambda>s. Inr (-1, u, es, s))
      else (case recv_scan_svr4 buf ioctl 0 nread (-1) newfd of
              None \<Rightarrow> Inr (-1, u, es, s)
            | Some (Inl m) \<Rightarrow> err_dump m s
            | Some (Inr (nread, status, newfd)) \<Rightarrow>
                (let (r, u) = (if 0 < nread then userfunc (take nread buf) u else (0, u)) in
                 if 0 < nread \<and> r \<noteq> int nread then Inr (-1, u, es, s)
                 else if 0 \<le> status then Inr (newfd, u, es, s)
                 else recv_fd_svr4 userfunc es newfd u s)))"

section \<open>What the routines do\<close>

lemma writen_now:
  assumes "wr_env s = []" and "buf \<noteq> []" and "length buf < 2 ^ 31"
  shows "writen fd buf (length buf) s =
    Inr (int (length buf), s\<lparr>fd_out := (fd_out s)(fd := fd_out s fd @ [(buf, None)])\<rparr>)"
proof -
  note un = of_nat_32 [OF assms(3)]
  have "\<not> (word_of_nat (length buf) :: 32 word) \<le> 0" using un(1) assms(2) by (auto simp: word_le_nat_alt)
  then show ?thesis using assms(1) un
    by (auto simp: assms(2) writen_def writen_loop.simps [of fd buf] wr_slice_def write_call_def word_less_nat_alt Let_def)
qed

lemma send_fd_now:
  "wr_env s = [] \<Longrightarrow> send_fd clifd fd s = Inr (0,
     s\<lparr>fd_out := (fd_out s)(clifd := fd_out s clifd @ [([NUL, status_byte fd], if fd < 0 then None else Some fd)])\<rparr>)"
  by (simp add: send_fd_def write_call_def)

text \<open>The sender changes only what has been sent.\<close>

lemma send_fd_core:
  assumes "send_fd fd n s = Inr (r, s')"
  shows "wr_core s' = wr_core s"
proof -
  obtain k t where "write_call fd [NUL, status_byte n] (if n < 0 then None else Some n) s = (k, t)"
    by (cases "write_call fd [NUL, status_byte n] (if n < 0 then None else Some n) s")
  then show ?thesis using assms write_call_core [of fd "[NUL, status_byte n]" "if n < 0 then None else Some n" s]
    by (auto simp: send_fd_def split: if_splits)
qed

lemma send_err_core: "send_err fd e m s = Inr (r, s') \<Longrightarrow> wr_core s' = wr_core s"
  by (auto simp: send_err_def bindR_Inr_iff Let_def split: if_splits dest!: send_fd_core writen_core)

lemma recv_scan_plain:
  "i \<le> n \<Longrightarrow> \<forall>j. i \<le> j \<and> j < k \<longrightarrow> buf ! j \<noteq> NUL \<Longrightarrow> i \<le> k \<Longrightarrow> k \<le> n \<Longrightarrow>
     recv_scan buf rights i n st nf = recv_scan buf rights k n st nf"
proof (induction "k - i" arbitrary: i)
  case (Suc d)
  then have "i < n" "buf ! i \<noteq> NUL" by auto
  then have "recv_scan buf rights i n st nf = recv_scan buf rights (i + 1) n st nf"
    by (simp add: recv_scan.simps [of buf rights i])
  also have "\<dots> = recv_scan buf rights k n st nf" using Suc by (intro Suc.hyps(1)) auto
  finally show ?case .
qed simp

lemma recv_scan_data:
  "NUL \<notin> set buf \<Longrightarrow> recv_scan buf rights 0 (length buf) st nf = Inr (length buf, st, nf)"
  using recv_scan_plain [of 0 "length buf" "length buf" buf rights st nf]
  by (auto simp: recv_scan.simps [of buf rights "length buf"] in_set_conv_nth)

lemma recv_scan_at_NUL:
  assumes "NUL \<notin> set m"
  shows "recv_scan (m @ NUL # r) rights 0 (length m + 1 + length r) st nf =
    recv_scan (m @ NUL # r) rights (length m) (length m + 1 + length r) st nf"
  using assms by (intro recv_scan_plain) (auto simp: nth_append in_set_conv_nth)

lemma recv_scan_final:
  assumes "NUL \<notin> set m"
  shows "recv_scan (m @ [NUL, c]) rights 0 (length m + 2) st nf =
    (if c = NUL then (case rights of None \<Rightarrow> Inl ''status = 0 but no fd'' | Some fd \<Rightarrow> Inr (length m, 0, fd))
     else Inr (length m, int (of_char c :: nat), - int (of_char c :: nat)))"
proof -
  have z: "(of_char c :: nat) = 0 \<longleftrightarrow> c = NUL" proof -
    have "(of_char c :: nat) = of_char NUL \<longleftrightarrow> c = NUL" by (rule of_char_eq_iff)
    then show ?thesis by simp
  qed
  show ?thesis using recv_scan_at_NUL [OF assms, of "[c]" rights st nf] z
    by (simp add: recv_scan.simps [of _ _ "length m"] recv_scan.simps [of _ _ "Suc (length m)"] nth_append
        Let_def split: option.split)
qed

text \<open>Data messages are handed on whole, and reception goes on.\<close>

definition collect :: "string \<Rightarrow> string \<Rightarrow> int \<times> string" where
  "collect bs u = (int (length bs), u @ bs)"

lemma recv_fd_data:
  assumes "\<forall>b \<in> set bss. b \<noteq> [] \<and> length b \<le> MAXLINE \<and> NUL \<notin> set b"
  shows "recv_fd collect (map (\<lambda>b. Msg b None) bss @ es) nf u s = recv_fd collect es nf (u @ concat bss) s"
  using assms
  by (induction bss arbitrary: u) (auto simp: recv_scan_data collect_def Let_def)

lemma recv_fd_final:
  assumes "NUL \<notin> set m" and "length m + 2 \<le> MAXLINE" and "c \<noteq> NUL"
  shows "recv_fd collect [Msg (m @ [NUL, c]) rights] nf u s = Inr (- int (of_char c :: nat), u @ m, [], s)"
  using assms recv_scan_final [OF assms(1), of c rights "-1"]
  by (auto simp: collect_def Let_def)

lemma status_byte_neg:
  assumes "fd < 0"
  shows "status_byte fd \<noteq> NUL"
proof
  let ?b = "if (- fd) mod 256 = 0 then 1 else (- fd) mod 256"
  have b: "0 < ?b" "?b < 256" by (auto simp: order_le_less)
  assume "status_byte fd = NUL"
  then have "char_of (nat ?b) = NUL" using assms by (simp add: status_byte_def Let_def split: if_splits)
  then have "(of_char (char_of (nat ?b)) :: nat) = 0" by simp
  then show False using b by (simp add: of_char_of take_bit_eq_mod split: if_splits)
qed

lemma status_byte_code: "-255 \<le> fd \<Longrightarrow> fd < 0 \<Longrightarrow> - int (of_char (status_byte fd) :: nat) = fd"
  by (simp add: status_byte_def Let_def of_char_of take_bit_eq_mod)

section \<open>Properties\<close>

text \<open>
  C37: an error sent by send_err arrives. Whatever pieces the receiver gets the bytes in, as long
  as the two protocol bytes come in one piece, recv_fd hands the whole message text to the user's
  function and returns the error code, with any code that is not negative changed to -1.
\<close>

theorem send_err_recv_fd:
  assumes "wr_env s = []" and "fd_out s clifd = []" and "NUL \<notin> set msg" and "length msg < 2 ^ 31" and "-255 \<le> code"
    and "send_err clifd code msg s = Inr (r, s')" and "sent s' clifd = concat bss @ l"
    and "\<forall>b \<in> set bss. b \<noteq> [] \<and> length b \<le> MAXLINE" and "2 \<le> length l" and "length l \<le> MAXLINE"
  shows "r = 0 \<and> recv_fd collect (map (\<lambda>b. Msg b None) (bss @ [l])) nf [] t
    = Inr (if 0 \<le> code then -1 else code, msg, [], t)"
proof -
  define code' where "code' = (if 0 \<le> code then -1 else code)"
  have neg: "code' < 0" "-255 \<le> code'" using assms(5) by (auto simp: code'_def)
  obtain m x c where l: "l = m @ [x, c]"
    using assms(9) by (cases l rule: rev_cases; cases "butlast l" rule: rev_cases) auto
  have "r = 0 \<and> sent s' clifd = msg @ [NUL, status_byte code']"
  proof (cases "msg = []")
    case True
    then show ?thesis using assms(1,2,6) neg
      by (auto simp: send_err_def send_fd_now sent_def Let_def simp flip: code'_def)
  next
    case False
    then show ?thesis using assms(1,2,4,6) neg
      by (auto simp: send_err_def writen_now send_fd_now sent_def Let_def simp flip: code'_def)
  qed
  then have r: "r = 0" and "msg @ [NUL, status_byte code'] = concat bss @ m @ [x, c]"
    using assms(7) l by auto
  then have c: "c = status_byte code'" and x: "x = NUL" and msg: "msg = concat bss @ m"
    using append_eq_append_conv [of "[NUL, status_byte code']" "[x, c]" msg "concat bss @ m"] by auto
  have "\<forall>b \<in> set bss. b \<noteq> [] \<and> length b \<le> MAXLINE \<and> NUL \<notin> set b" and m: "NUL \<notin> set m"
    using assms(3,8) msg by auto
  note data = recv_fd_data [OF this(1), of "[Msg l None]" nf "[]" t]
  have "recv_fd collect [Msg l None] nf (concat bss) t = Inr (code', msg, [], t)"
    using recv_fd_final [OF m _ status_byte_neg [OF neg(1)], of None nf "concat bss" t] assms(10)
      status_byte_code [OF neg(2,1)] l x c msg by (simp del: recv_fd.simps)
  then show ?thesis using data r by (simp add: code'_def del: recv_fd.simps)
qed

text \<open>
  the protocol depends on the two bytes coming together. When a piece ends with the NUL
  byte, before the status byte, recv_fd aborts the process with a message format error.
\<close>

theorem recv_fd_split_status:
  assumes "NUL \<notin> set m" and "length m + 1 \<le> MAXLINE" and "length (errno_text s) < 4000"
  shows "recv_fd f (Msg (m @ [NUL]) rights # es) nf u s = Inl (Abort ''message format error'')"
proof -
  have "recv_scan (m @ [NUL]) rights 0 (length m + 1) (-1) x = Inl ''message format error''" for x
    using recv_scan_at_NUL [OF assms(1), of "[]" rights "-1"]
    by (simp add: recv_scan.simps [of _ _ "length m"] nth_append)
  then show ?thesis using assms(2,3)
    by (simp add: Let_def err_dump_def err_doit_def MAXLINE_def)
qed

text \<open>
  a descriptor sent by send_fd arrives: the message it sends makes recv_fd return the
  receiver's own number \<open>nfd\<close> for the descriptor that came with it, and no data.
\<close>

theorem send_fd_recv_fd:
  assumes "wr_env s = []" and "0 \<le> fd" and "send_fd clifd fd s = Inr (r, s')"
    and "last (fd_out s' clifd) = (bs, Some fd')"
  shows "r = 0 \<and> fd' = fd \<and> recv_fd f [Msg bs (Some nfd)] nf u t = Inr (nfd, u, [], t)"
  using assms recv_scan_final [of "[]" NUL "Some nfd" "-1" nfd]
  by (auto simp: send_fd_now status_byte_def Let_def MAXLINE_def)

text \<open>The scans agree when there is a descriptor, or when the two last bytes do not ask for one.\<close>

definition asks_fd :: "string \<Rightarrow> bool" where
  "asks_fd bs \<longleftrightarrow> 2 \<le> length bs \<and> bs ! (length bs - 2) = NUL \<and> bs ! (length bs - 1) = NUL"

lemma recv_scan_svr4_same:
  assumes "st < 0" "rights = None \<longrightarrow> \<not> (2 \<le> n \<and> buf ! (n - 2) = NUL \<and> buf ! (n - 1) = NUL)"
  shows "case recv_scan buf rights i n st a of
      Inl m \<Rightarrow> recv_scan_svr4 buf rights i n st b = Some (Inl m)
    | Inr (n', st', f) \<Rightarrow> (\<exists>g. recv_scan_svr4 buf rights i n st b = Some (Inr (n', st', g)) \<and> (0 \<le> st' \<longrightarrow> g = f))"
  using assms
proof (induction buf rights i n st a rule: recv_scan.induct)
  case (1 buf rights i n st a)
  show ?case
  proof (cases "i < n \<and> buf ! i \<noteq> NUL")
    case True
    then have eqs: "recv_scan buf rights i n st a = recv_scan buf rights (i + 1) n st a"
      and eq_svr4: "recv_scan_svr4 buf rights i n st b = recv_scan_svr4 buf rights (i + 1) n st b"
      by (simp_all add: recv_scan.simps [of buf _ i] recv_scan_svr4.simps [of buf _ i])
    show ?thesis unfolding eqs eq_svr4 by (rule "1.IH"(3)) (use "1.prems" True in auto)
  next
    case False
    have z: "(of_char c :: nat) = 0 \<longleftrightarrow> c = NUL" for c
    proof -
      have "(of_char c :: nat) = of_char NUL \<longleftrightarrow> c = NUL" by (rule of_char_eq_iff)
      then show ?thesis by simp
    qed
    have "rights \<noteq> None" if "i + 2 = n" "i < n" "buf ! (i + 1) = NUL"
    proof -
      have "n - 2 = i" "n - 1 = i + 1" "2 \<le> n" using that(1) by simp_all
      then show ?thesis using "1.prems"(2) False that by simp
    qed
    then show ?thesis using "1.prems"(1) False
      by (auto simp: recv_scan.simps [of buf _ i] recv_scan_svr4.simps [of buf _ i]
          recv_scan.simps [of buf _ "Suc i"] recv_scan_svr4.simps [of buf _ "Suc i"] Let_def z split: option.split)
  qed
qed

text \<open>
  C36: the version for streams agrees with the one for sockets: when no call fails and a message that
  ends with NUL and status 0 brings a descriptor, both give the same result, the same data to
  the user's function and the same fatal errors, whether or not the other messages (data, errors)
  bring one.
\<close>

theorem recv_fd_svr4_same:
  assumes "RecvFail \<notin> set es" "\<forall>bs. Msg bs None \<in> set es \<longrightarrow> \<not> asks_fd (take MAXLINE bs)"
  shows "recv_fd_svr4 f es a u s = recv_fd f es b u s"
  using assms
proof (induction es arbitrary: a b u)
  case (Cons e es)
  then obtain bs rights where e: "e = Msg bs rights" by (cases e) auto
  let ?buf = "take MAXLINE bs" and ?a = "case rights of None \<Rightarrow> b | Some fd \<Rightarrow> fd"
  have IH: "recv_fd_svr4 f es x u s = recv_fd f es y u s" for x y u using Cons by auto
  have "rights = None \<longrightarrow> \<not> (2 \<le> length ?buf \<and> ?buf ! (length ?buf - 2) = NUL \<and> ?buf ! (length ?buf - 1) = NUL)"
    using Cons.prems(2) unfolding asks_fd_def by (auto simp: e)
  then show ?case
    using recv_scan_svr4_same [of "-1" rights, where buf = ?buf and i = 0 and n = "length ?buf" and a = ?a and b = a]
    by (cases "recv_scan ?buf rights 0 (length ?buf) (-1) ?a") (auto simp: e IH Let_def split: prod.splits)
qed simp

text \<open>Without the descriptor they differ: a message that asks for one is fatal with sockets, and an error result on a stream.\<close>

lemma recv_fd_without_fd:
  assumes "NUL \<notin> set m" "length m + 2 \<le> MAXLINE" "length (errno_text s) < 4000"
  shows "recv_fd_svr4 f (Msg (m @ [NUL, NUL]) None # es) a u s = Inr (-1, u, es, s)
    \<and> recv_fd f (Msg (m @ [NUL, NUL]) None # es) b u s = Inl (Abort ''status = 0 but no fd'')"
proof -
  have "recv_scan_svr4 (m @ [NUL, NUL]) None i (length m + 2) st x = None" if "i \<le> length m" for i st x
    using that
  proof (induction "length m - i" arbitrary: i)
    case 0
    then show ?case by (simp add: recv_scan_svr4.simps [of _ _ i] nth_append)
  next
    case (Suc d)
    then have "i < length m" "m ! i \<noteq> NUL" using assms(1) by (auto simp: in_set_conv_nth)
    then show ?case using Suc.hyps(1) [of "i + 1"] Suc.hyps(2) by (simp add: recv_scan_svr4.simps [of _ _ i] nth_append)
  qed
  then show ?thesis using assms(2,3) recv_scan_final [OF assms(1), of NUL None "-1" b]
    by (simp add: Let_def err_dump_def err_doit_def MAXLINE_def)
qed

section \<open>Concrete runs\<close>

definition pass_ex :: byte_io where
  "pass_ex = byte_ex\<lparr>wr_env := []\<rparr>"

theorem send_err_recv_fd_witness:
  "\<exists>s'. send_err 5 7 ''no such system'' pass_ex = Inr (0, s') \<and>
     recv_fd collect (map (\<lambda>b. Msg b None) ([''no such''] @ ['' system'' @ [NUL, status_byte (-1)]])) 0 [] pass_ex
       = Inr (-1, ''no such system'', [], pass_ex)"
proof -
  obtain s' where s': "send_err 5 7 ''no such system'' pass_ex = Inr (0, s')"
    and sent: "sent s' 5 = ''no such system'' @ [NUL, status_byte (-1)]"
    using writen_now [of pass_ex "''no such system''" 5]
    by (auto simp: send_err_def send_fd_now pass_ex_def byte_ex_def sent_def)
  have "sent s' 5 = concat [''no such''] @ '' system'' @ [NUL, status_byte (-1)]" using sent by simp
  from send_err_recv_fd [OF _ _ _ _ _ s' this, of 0 pass_ex] s' show ?thesis
    by (simp add: pass_ex_def byte_ex_def MAXLINE_def del: recv_fd.simps)
qed

theorem recv_fd_split_status_witness:
  "recv_fd collect [Msg (''ab'' @ [NUL]) None, Msg [CHR 0x01] None] 0 [] pass_ex = Inl (Abort ''message format error'')"
  by (rule recv_fd_split_status) (simp_all add: MAXLINE_def pass_ex_def byte_ex_def)

theorem send_fd_recv_fd_witness:
  "\<exists>s' bs. send_fd 5 9 pass_ex = Inr (0, s') \<and> recv_fd collect [Msg bs (Some 4)] 0 [] pass_ex = Inr (4, [], [], pass_ex)"
proof -
  obtain s' where s': "send_fd 5 9 pass_ex = Inr (0, s')" "last (fd_out s' 5) = ([NUL, NUL], Some 9)"
    by (auto simp: send_fd_now pass_ex_def byte_ex_def status_byte_def)
  have "wr_env pass_ex = []" by (simp add: pass_ex_def)
  from send_fd_recv_fd [OF this _ s', of collect 4 0 "[]" pass_ex] s' show ?thesis
    by (auto simp del: recv_fd.simps)
qed

text \<open>Data without a descriptor, then the descriptor with its status.\<close>

theorem recv_fd_svr4_same_witness:
  "recv_fd_svr4 collect [Msg ''ab'' None, Msg [NUL, NUL] (Some 6)] 1 [] pass_ex =
   recv_fd collect [Msg ''ab'' None, Msg [NUL, NUL] (Some 6)] 2 [] pass_ex"
  by (rule recv_fd_svr4_same) (auto simp: asks_fd_def MAXLINE_def)

end
