(* ===== verification/CLoop.thy ===== *)
theory CLoop
  imports CRequest FdPass BufArgs
begin

text \<open>
  The server itself: calld/loop.c, sigchld.c and main.c. One round of the endless loop is a
  function of what the environment does in it (the result of select, the signals that arrive);
  the bytes read, the results of fork and of accept come from queues in the state. The options
  parser cli_args (cliargs.c is not in the repository) is a parameter \<open>ca\<close> of the model.
\<close>

section \<open>State\<close>

text \<open>What waitpid reports of a child: its exit status, or the raw status of another end.\<close>

datatype wait_status = Exited nat | Abnormal string

record options =
  o_Debug :: int
  o_parity :: parity
  o_sysname :: string
  o_speed :: "string option"

record loops = requests +
  chld_flag :: bool
  sig_env :: "(int \<times> wait_status) list list"
  accept_env :: "(int \<times> int) list"
  g_parity :: parity
  g_sysname :: string
  g_speed :: "string option"
  allset :: "int set"
  closed_fds :: "int list"
  listenfd :: int
  maxfd :: int
  maxi :: int
  last_uid :: int

definition MAXSYSNAME :: nat where "MAXSYSNAME = 256"
definition MAXSPEEDSTR :: nat where "MAXSPEEDSTR = 256"

section \<open>sigchld.c\<close>

definition sig_chld :: "int \<times> wait_status \<Rightarrow> 'a loops_scheme \<Rightarrow> 'a loops_scheme res" where
  "sig_chld w s =
     (let s = s\<lparr>chld_flag := True\<rparr>; (pid, stat) = w in
      if pid \<le> 0 then log_sys ''waitpid error'' s
      else (case stat of
              Exited n \<Rightarrow> client_sigchld pid (int n + 1) s
            | Abnormal st \<Rightarrow> log_msg (''child '' @ deci pid @ '' terminated abnormally: '' @ st) s))"

fun sig_batch :: "(int \<times> wait_status) list \<Rightarrow> 'a loops_scheme \<Rightarrow> 'a loops_scheme res" where
  "sig_batch [] s = Inr s"
| "sig_batch (w # ws) s = bindR (sig_chld w s) (sig_batch ws)"

text \<open>
  SIGCHLD may arrive between any two entries that child_done looks at: the next batch of the
  queue is delivered there.
\<close>

definition signals :: "'a loops_scheme \<Rightarrow> 'a loops_scheme res" where
  "signals s = (case sig_env s of [] \<Rightarrow> Inr s | b # bs \<Rightarrow> sig_batch b (s\<lparr>sig_env := bs\<rparr>))"

section \<open>loop.c\<close>

definition cli_done :: "int \<Rightarrow> 'a loops_scheme \<Rightarrow> 'a loops_scheme res" where
  "cli_done fd s =
     bindR (client_del fd s) (\<lambda>s. Inr (s\<lparr>allset := allset s - {fd}, closed_fds := closed_fds s @ [fd]\<rparr>))"

text \<open>The request of entry \<open>i\<close> failed: tell the client and forget it.\<close>

definition give_up :: "nat \<Rightarrow> 'a loops_scheme \<Rightarrow> 'a loops_scheme res" where
  "give_up i s =
     bindR (send_err (cl_fd (client s ! i)) (-1) (errmsg s) s) (\<lambda>(r, s).
       if r < 0 then log_sys ''send_err error'' s else cli_done (clifd s) s)"

definition try_request :: "nat \<Rightarrow> 'a loops_scheme \<Rightarrow> 'a loops_scheme res" where
  "try_request i s = bindR (request i s) (\<lambda>(r, s). if r < 0 then give_up i s else Inr s)"

text \<open>The body of the loop in child_done, lines 133 to 162.\<close>

definition child_entry :: "nat \<Rightarrow> 'a loops_scheme \<Rightarrow> 'a loops_scheme res" where
  "child_entry i s =
     (let c = client s ! i; s = s\<lparr>clifd := cl_fd c\<rparr> in
      if clifd s < 0 then Inr s
      else if cl_childdone c \<noteq> 0 then
        bindR (log_msg (''child done: pid '' @ deci (cl_pid c) @ '', status '' @ deci (cl_childdone c - 1)) s) (\<lambda>s.
          if cl_childdone c = 1 then Inr (upd_client i (\<lambda>c. c\<lparr>cl_childdone := 0\<rparr>) s)
          else bindR (lock_rel (cl_pid c) (upd_client i (\<lambda>c. c\<lparr>cl_childdone := 0\<rparr>) s)) (try_request i))
      else Inr s)"

fun child_entries :: "nat list \<Rightarrow> 'a loops_scheme \<Rightarrow> 'a loops_scheme res" where
  "child_entries [] s = Inr s"
| "child_entries (i # is) s =
     bindR (signals s) (\<lambda>s. bindR (child_entry i s) (child_entries is))"

definition indices :: "'a loops_scheme \<Rightarrow> nat list" where
  "indices s = [0 ..< nat (maxi s + 1)]"

definition child_pass :: "'a loops_scheme \<Rightarrow> 'a loops_scheme res" where
  "child_pass s = child_entries (indices s) (s\<lparr>chld_flag := False\<rparr>)"

text \<open>A request read from entry \<open>i\<close>: lines 84 to 116.\<close>

definition store_options :: "nat \<Rightarrow> 'a loops_scheme \<Rightarrow> 'a loops_scheme res" where
  "store_options i s =
     (let sp = (case g_speed s of None \<Rightarrow> [] | Some x \<Rightarrow> x) in
      if MAXSYSNAME \<le> length (g_sysname s) then Inl (UB ''strcpy: sysname overflow'')
      else if MAXSPEEDSTR \<le> length sp then Inl (UB ''strcpy: speed overflow'')
      else Inr (upd_client i (\<lambda>c. c\<lparr>cl_Debug := Debug s, cl_parity := g_parity s, cl_sysname := g_sysname s,
                  cl_speed := sp, cl_childdone := 0, cl_sysftell := 0, cl_foundone := 0\<rparr>) s))"

definition call_cli_args :: "(nat \<Rightarrow> string list \<Rightarrow> options \<Rightarrow> int \<times> options) \<Rightarrow> nat \<Rightarrow> string list
    \<Rightarrow> 'a loops_scheme \<Rightarrow> int \<times> 'a loops_scheme" where
  "call_cli_args ca argc argv s =
     (let (r, opt) = ca argc argv \<lparr>o_Debug = Debug s, o_parity = g_parity s, o_sysname = g_sysname s, o_speed = g_speed s\<rparr> in
      (r, s\<lparr>Debug := o_Debug opt, g_parity := o_parity opt, g_sysname := o_sysname opt, g_speed := o_speed opt\<rparr>))"

definition serve :: "(nat \<Rightarrow> string list \<Rightarrow> options \<Rightarrow> int \<times> options) \<Rightarrow> nat \<Rightarrow> string \<Rightarrow> 'a loops_scheme
    \<Rightarrow> 'a loops_scheme res" where
  "serve ca i buf s =
     (if last buf \<noteq> NUL then
        log_quit (''request from uid '' @ deci (last_uid s) @ '' not null terminated: '' @ cstr buf) s
      else bindR (log_msg (''starting: '' @ cstr buf @ '', from uid '' @ deci (last_uid s)) s) (\<lambda>s.
        let (r, s) = buf_args buf (call_cli_args ca) s in
        if r < 0 then log_quit (''command line error: '' @ buf_left buf) s
        else bindR (store_options i s) (try_request i)))"

text \<open>One entry of the read loop, lines 62 to 117, and a hangup.\<close>

definition hangup :: "nat \<Rightarrow> 'a loops_scheme \<Rightarrow> 'a loops_scheme res" where
  "hangup i s =
     bindR (log_msg (''closed: uid '' @ deci (cl_uid (client s ! i)) @ '', fd '' @ deci (clifd s)) s) (\<lambda>s.
       bindR (lock_rel (cl_pid (client s ! i)) s) (\<lambda>s. cli_done (clifd s) s))"

definition read_entry :: "(nat \<Rightarrow> string list \<Rightarrow> options \<Rightarrow> int \<times> options) \<Rightarrow> int set \<Rightarrow> nat \<Rightarrow> 'a loops_scheme
    \<Rightarrow> 'a loops_scheme res" where
  "read_entry ca rset i s =
     (let s = s\<lparr>clifd := cl_fd (client s ! i)\<rparr> in
      if clifd s < 0 then Inr s
      else if clifd s \<in> rset then
        (case read_call (clifd s) MAXLINE s of
           (None, s) \<Rightarrow> log_sys (''read error on fd '' @ deci (clifd s)) s
         | (Some buf, s) \<Rightarrow> if buf = [] then hangup i s else serve ca i buf s)
      else Inr s)"

fun read_entries :: "(nat \<Rightarrow> string list \<Rightarrow> options \<Rightarrow> int \<times> options) \<Rightarrow> int set \<Rightarrow> nat list \<Rightarrow> 'a loops_scheme
    \<Rightarrow> 'a loops_scheme res" where
  "read_entries ca rset [] s = Inr s"
| "read_entries ca rset (i # is) s = bindR (read_entry ca rset i s) (read_entries ca rset is)"

section \<open>Frames of the loop's own state\<close>

lemma loops_more_eqD:
  fixes s s' :: "'a loops_scheme"
  assumes "requests.more s' = requests.more s"
  shows "chld_flag s' = chld_flag s" "sig_env s' = sig_env s" "accept_env s' = accept_env s"
    "allset s' = allset s" "closed_fds s' = closed_fds s" "listenfd s' = listenfd s"
    "maxfd s' = maxfd s" "maxi s' = maxi s" "last_uid s' = last_uid s"
  using assms by (cases s; cases s'; simp)+

lemma request_more: "request i s = Inr (r, s') \<Longrightarrow> requests.more s' = requests.more s \<and> clifd s' = clifd s"
  by (auto simp: request_def sys_posn_def sys_rew_def bindR_Inr_iff dest!: request_loop_more split: if_splits option.splits)

text \<open>The signal flag and queue: only \<open>signals\<close> and the handler change them.\<close>

definition queue :: "'a loops_scheme \<Rightarrow> bool \<times> (int \<times> wait_status) list list" where
  "queue s = (chld_flag s, sig_env s)"

lemma queue_more: "requests.more s' = requests.more s \<Longrightarrow> queue s' = queue s"
  using loops_more_eqD(1,2) [of s' s] by (simp add: queue_def)

lemma queue_simps [simp]: "queue (upd_client i f s) = queue s" "queue (s\<lparr>clifd := n\<rparr>) = queue s"
  by (simp_all add: queue_def upd_client_def)

lemma queue_log_msg: "log_msg m s = Inr s' \<Longrightarrow> queue s' = queue s"
  by (rule queue_more) (erule lock_core_eqD(10) [OF log_msg_core])

lemma queue_lock_rel: "lock_rel p s = Inr s' \<Longrightarrow> queue s' = queue s"
  by (rule queue_more) (erule lock_core_eqD(10) [OF lock_rel_core])

lemma queue_send_err: "send_err fd e m s = Inr (r, s') \<Longrightarrow> queue s' = queue s"
  by (rule queue_more) (erule wr_core_eqD(12) [OF send_err_core])

lemma queue_request: "request i s = Inr (r, s') \<Longrightarrow> queue s' = queue s"
  by (auto intro: queue_more dest: request_more)

lemma queue_cli_done: "cli_done fd s = Inr s' \<Longrightarrow> queue s' = queue s"
  by (auto simp: cli_done_def client_del_def bindR_Inr_iff queue_def split: option.splits)

lemma queue_try_request: "try_request i s = Inr s' \<Longrightarrow> queue s' = queue s"
  by (auto simp: try_request_def give_up_def bindR_Inr_iff split: if_splits
      dest!: queue_request queue_send_err queue_cli_done)

lemma queue_child_entry: "child_entry i s = Inr s' \<Longrightarrow> queue s' = queue s"
  by (auto simp: child_entry_def bindR_Inr_iff Let_def split: if_splits
      dest!: queue_log_msg queue_lock_rel queue_try_request)

lemma sig_chld_queue: "sig_chld w s = Inr s' \<Longrightarrow> sig_env s' = sig_env s"
  by (auto simp: sig_chld_def client_sigchld_def queue_def Let_def
      split: prod.splits if_splits wait_status.splits option.splits dest!: queue_log_msg)

lemma sig_batch_queue:
  "sig_batch b s = Inr s' \<Longrightarrow> sig_env s' = sig_env s \<and> (b = [] \<longrightarrow> s' = s)"
  by (induction b arbitrary: s) (auto simp: bindR_Inr_iff dest: sig_chld_queue)

text \<open>The flag can only be raised by taking a batch from the queue.\<close>

definition queue_step :: "'a loops_scheme \<Rightarrow> 'a loops_scheme \<Rightarrow> bool" where
  "queue_step s s' \<longleftrightarrow> length (sig_env s') \<le> length (sig_env s) \<and>
     (chld_flag s' \<longrightarrow> chld_flag s \<or> length (sig_env s') < length (sig_env s))"

lemma signals_queue: "signals s = Inr s' \<Longrightarrow> queue_step s s'"
  by (auto simp: signals_def queue_step_def split: list.splits dest!: sig_batch_queue)

lemma child_entries_queue: "child_entries is s = Inr s' \<Longrightarrow> queue_step s s'"
proof (induction "is" arbitrary: s)
  case (Cons i "is")
  from Cons.prems obtain s1 s2 where "signals s = Inr s1" "child_entry i s1 = Inr s2" "child_entries is s2 = Inr s'"
    by (auto simp: bindR_Inr_iff)
  from signals_queue [OF this(1)] queue_child_entry [OF this(2)] Cons.IH [OF this(3)]
  show ?case by (auto simp: queue_step_def queue_def)
qed (simp add: queue_step_def)

section \<open>child_done, and one round of the loop\<close>

text \<open>Passes are repeated while signals have been caught; each repetition has used up a batch.\<close>

function child_done :: "'a loops_scheme \<Rightarrow> 'a loops_scheme res" where
  "child_done s =
     bindR (child_pass s) (\<lambda>s. if chld_flag s then child_done s else Inr s)"
  by pat_completeness auto
termination
proof (relation "measure (\<lambda>s. length (sig_env s))", simp)
  fix s s' :: "'a loops_scheme"
  assume "child_pass s = Inr s'" "chld_flag s'"
  then show "(s', s) \<in> measure (\<lambda>s. length (sig_env s))"
    using child_entries_queue [of "indices s" "s\<lparr>chld_flag := False\<rparr>" s']
    by (auto simp: child_pass_def queue_step_def)
qed

declare child_done.simps [simp del]

text \<open>A connection request: lines 44 to 56.\<close>

text \<open>
  The result of serv_accept comes from a queue: the new descriptor, or a negative number, and the
  client's user ID. The kernel never returns a descriptor that is open: such a result counts as
  a failure.
\<close>

definition accept_call :: "'a loops_scheme \<Rightarrow> (int \<times> int) \<times> 'a loops_scheme" where
  "accept_call s =
     (case accept_env s of
        [] \<Rightarrow> ((-1, 0), s)
      | (fd, uid) # es \<Rightarrow> ((if fd \<in> allset s then -1 else fd, uid), s\<lparr>accept_env := es\<rparr>))"

definition new_client :: "'a loops_scheme \<Rightarrow> 'a loops_scheme res" where
  "new_client s =
     (let ((fd, uid), s) = accept_call s; s = s\<lparr>clifd := fd\<rparr> in
      if fd < 0 then log_sys (''serv_accept error: '' @ deci fd) s
      else bindR (client_add fd uid (s\<lparr>last_uid := uid\<rparr>)) (\<lambda>(i, s).
        log_msg (''new connection: uid '' @ deci uid @ '', fd '' @ deci fd)
          (s\<lparr>allset := insert fd (allset s),
             maxfd := (if maxfd s < fd then fd else maxfd s),
             maxi := (if maxi s < int i then int i else maxi s)\<rparr>)))"

text \<open>How select returns: interrupted by signals, failed, or with the descriptors that are ready.\<close>

datatype loop_event = Interrupt "(int \<times> wait_status) list" | SelectError | Ready "int set"

definition loop_round :: "(nat \<Rightarrow> string list \<Rightarrow> options \<Rightarrow> int \<times> options) \<Rightarrow> loop_event \<Rightarrow> 'a loops_scheme
    \<Rightarrow> 'a loops_scheme res" where
  "loop_round ca ev s =
     bindR (if chld_flag s then child_done s else Inr s) (\<lambda>s.
       case ev of
         Interrupt ws \<Rightarrow> bindR (sig_batch ws s) child_done
       | SelectError \<Rightarrow> log_sys ''select error'' s
       | Ready r \<Rightarrow>
           (let rset = r \<inter> allset s in
            if listenfd s \<in> rset then new_client s else read_entries ca rset (indices s) s))"

text \<open>The server starts with an empty client table and listens; serv_listen is a parameter.\<close>

definition loop_start :: "int \<Rightarrow> 'a loops_scheme \<Rightarrow> 'a loops_scheme res" where
  "loop_start lfd s =
     (if lfd < 0 then log_sys ''serv_listen error'' s
      else Inr (s\<lparr>listenfd := lfd, allset := {lfd}, maxfd := lfd, maxi := -1\<rparr>))"

text \<open>main.c: the options of the command line, then the loop; each event is one round.\<close>

fun calld_options :: "(char \<times> char) list \<Rightarrow> 'a loops_scheme \<Rightarrow> 'a loops_scheme res" where
  "calld_options [] s = Inr s"
| "calld_options ((c, optopt) # cs) s =
     (if c = CHR ''d'' then calld_options cs (s\<lparr>debug := 1\<rparr>)
      else if c = CHR ''?'' then log_quit (''unrecognized option: -'' @ [optopt]) s
      else calld_options cs s)"

fun loop_run :: "(nat \<Rightarrow> string list \<Rightarrow> options \<Rightarrow> int \<times> options) \<Rightarrow> loop_event list \<Rightarrow> 'a loops_scheme
    \<Rightarrow> 'a loops_scheme res" where
  "loop_run ca [] s = Inr s"
| "loop_run ca (e # es) s = bindR (loop_round ca e s) (loop_run ca es)"

definition calld_main :: "(nat \<Rightarrow> string list \<Rightarrow> options \<Rightarrow> int \<times> options) \<Rightarrow> (char \<times> char) list \<Rightarrow> int
    \<Rightarrow> loop_event list \<Rightarrow> 'a loops_scheme \<Rightarrow> 'a loops_scheme res" where
  "calld_main ca opts lfd evs s =
     bindR (calld_options opts s) (\<lambda>s. bindR (loop_start lfd s) (loop_run ca evs))"

section \<open>The invariant of the loop\<close>

text \<open>
  What the invariant reads besides the lock table: the descriptors of the client entries and the
  loop's own variables.
\<close>

definition shape :: "'a loops_scheme \<Rightarrow> int list \<times> int set \<times> int \<times> int \<times> int" where
  "shape s = (map cl_fd (client s), allset s, listenfd s, maxfd s, maxi s)"

definition loop_inv :: "'a loops_scheme \<Rightarrow> bool" where
  "loop_inv s \<longleftrightarrow> lock_inv s \<and> client_inv s \<and> 0 \<le> listenfd s \<and> slot_of s (listenfd s) = None
     \<and> allset s = insert (listenfd s) (dom (slot_of s)) \<and> (\<forall>fd \<in> allset s. 0 \<le> fd \<and> fd \<le> maxfd s)
     \<and> (\<forall>fd i. slot_of s fd = Some i \<longrightarrow> int i \<le> maxi s) \<and> -1 \<le> maxi s \<and> maxi s < int (length (client s))"

lemma slot_of_shape: "map cl_fd (client s') = map cl_fd (client s) \<Longrightarrow> slot_of s' = slot_of s"
proof -
  assume m: "map cl_fd (client s') = map cl_fd (client s)"
  have "index_of (\<lambda>c. cl_fd c = g) t = index_of (\<lambda>x. x = g) (map cl_fd t)" for g and t :: "Client list" by (simp add: index_of_map)
  with m show ?thesis by (simp add: slot_of_def fun_eq_iff)
qed

lemma client_inv_shape: "map cl_fd (client s') = map cl_fd (client s) \<Longrightarrow> client_inv s' = client_inv s"
proof -
  assume m: "map cl_fd (client s') = map cl_fd (client s)"
  then have l: "length (client s') = length (client s)" by (metis length_map)
  have "i < length (client s) \<Longrightarrow> cl_fd (client s' ! i) = cl_fd (client s ! i)" for i
    using m l by (metis nth_map)
  then show ?thesis using l by (auto simp: client_inv_def unique_fds_def)
qed

lemma loop_inv_shape:
  assumes "loop_inv s" and "shape s' = shape s" and "lock_inv s'"
  shows "loop_inv s'"
proof -
  from assms(2) have m: "map cl_fd (client s') = map cl_fd (client s)" and r: "allset s' = allset s"
    "listenfd s' = listenfd s" "maxfd s' = maxfd s" "maxi s' = maxi s" by (auto simp: shape_def)
  from m have "length (client s') = length (client s)" by (metis length_map)
  with assms(1,3) r slot_of_shape [OF m] client_inv_shape [OF m] show ?thesis by (simp add: loop_inv_def)
qed

lemma shape_frame:
  fixes s s' :: "'a loops_scheme"
  assumes "requests.more s' = requests.more s" and "client s' = client s"
  shows "shape s' = shape s"
  using loops_more_eqD [OF assms(1)] assms(2) by (simp add: shape_def)

lemma map_fd_update: "cl_fd c = cl_fd (t ! i) \<Longrightarrow> map cl_fd (t[i := c]) = map cl_fd t"
  by (cases "i < length t") (auto simp: nth_list_update intro!: nth_equalityI)

lemma shape_upd_client: "(\<And>c. cl_fd (f c) = cl_fd c) \<Longrightarrow> shape (upd_client i f s) = shape s"
  by (simp add: shape_def map_fd_update upd_client_def)

lemma shape_steps:
  "log_msg m s = Inr s' \<Longrightarrow> shape s' = shape s \<and> clifd s' = clifd s \<and> (lock_inv s \<longrightarrow> lock_inv s')"
  "lock_rel p s = Inr s' \<Longrightarrow> shape s' = shape s \<and> clifd s' = clifd s \<and> (lock_inv s \<longrightarrow> lock_inv s')"
  "send_err fd e m s = Inr (r, s') \<Longrightarrow> shape s' = shape s \<and> clifd s' = clifd s \<and> (lock_inv s \<longrightarrow> lock_inv s')"
proof -
  assume l: "log_msg m s = Inr s'"
  note c = lock_core_eqD [OF log_msg_core [OF l]]
  show "shape s' = shape s \<and> clifd s' = clifd s \<and> (lock_inv s \<longrightarrow> lock_inv s')"
    using shape_frame [OF c(10,4)] c(11) log_msg_frame [OF l] by auto
next
  assume l: "lock_rel p s = Inr s'"
  note c = lock_core_eqD [OF lock_rel_core [OF l]]
  show "shape s' = shape s \<and> clifd s' = clifd s \<and> (lock_inv s \<longrightarrow> lock_inv s')"
    using shape_frame [OF c(10,4)] c(11) lock_rel_inv [OF l] by auto
next
  assume "send_err fd e m s = Inr (r, s')"
  note c = wr_core_eqD [OF send_err_core [OF this]]
  show "shape s' = shape s \<and> clifd s' = clifd s \<and> (lock_inv s \<longrightarrow> lock_inv s')"
    using shape_frame [OF c(12,4)] c(5,6,13) by (simp add: lock_inv_def)
qed

lemma shape_request:
  assumes "request i s = Inr (r, s')" and "lock_inv s" and "i < length (client s)"
  shows "shape s' = shape s \<and> clifd s' = clifd s \<and> lock_inv s'"
proof -
  note o = request_result [OF assms]
  then obtain c where "same_options (client s ! i) c" and cl: "client s' = (client s)[i := c]"
    by (auto simp: request_outcome_def client_step_def)
  then have "map cl_fd (client s') = map cl_fd (client s)" by (simp add: map_fd_update same_options_eqD)
  with request_more [OF assms(1)] loops_more_eqD [of s' s] o show ?thesis
    by (simp add: shape_def request_outcome_def)
qed

text \<open>An operation that is given a valid entry keeps the invariant: the steps one by one.\<close>

lemma loop_inv_idx: "loop_inv s \<Longrightarrow> i \<in> set (indices s) \<Longrightarrow> i < length (client s)"
  by (auto simp: loop_inv_def indices_def)

lemma loop_inv_slot:
  assumes "loop_inv s" and "i < length (client s)" and "0 \<le> cl_fd (client s ! i)"
  shows "slot_of s (cl_fd (client s ! i)) = Some i"
  using assms slot_of_iff [of s "cl_fd (client s ! i)" i] by (auto simp: loop_inv_def)

text \<open>After cli_done on a connected descriptor.\<close>

lemma cli_done_inv:
  assumes "loop_inv s" and "slot_of s fd = Some i" and "cli_done fd s = Inr s'"
  shows "loop_inv s' \<and> slot_of s' = (slot_of s)(fd := None) \<and> maxi s' = maxi s \<and> length (client s') = length (client s)"
proof -
  from assms(3) obtain s1 where d: "client_del fd s = Inr s1"
    and s': "s' = s1\<lparr>allset := allset s1 - {fd}, closed_fds := closed_fds s1 @ [fd]\<rparr>"
    by (auto simp: cli_done_def bindR_Inr_iff)
  from assms(1,2) have ci: "client_inv s" and ne: "fd \<noteq> listenfd s" by (auto simp: loop_inv_def)
  from cl.del [OF ci assms(2)] d have s1: "client_inv s1" "slot_of s1 = (slot_of s)(fd := None)" by auto
  have fr: "lock_tab s1 = lock_tab s" "lock_size s1 = lock_size s" "allset s1 = allset s" "listenfd s1 = listenfd s"
    "maxfd s1 = maxfd s" "maxi s1 = maxi s" "length (client s1) = length (client s)"
    using d by (auto simp: client_del_def split: option.splits)
  have "map cl_fd (client s') = map cl_fd (client s1)" by (simp add: s')
  note eq = slot_of_shape [OF this] client_inv_shape [OF this]
  from eq s1 have sl: "slot_of s' = (slot_of s)(fd := None)" "client_inv s'" by simp_all
  have fr': "listenfd s' = listenfd s" "maxfd s' = maxfd s" "maxi s' = maxi s" "length (client s') = length (client s)"
    "allset s' = allset s - {fd}" "lock_inv s' = lock_inv s"
    using fr by (simp_all add: s' lock_inv_def)
  note I = assms(1) [unfolded loop_inv_def]
  have "allset s - {fd} = insert (listenfd s) (dom ((slot_of s)(fd := None)))" using I ne by auto
  then have "loop_inv s'"
    unfolding loop_inv_def fr' sl(1) by (intro conjI) (use I sl ne in \<open>auto split: if_splits\<close>)
  then show ?thesis using sl fr' by simp
qed

text \<open>
  Within the passes over the entries the length of the array and the bound \<open>maxi\<close> stay, so that
  the indices computed at the start stay valid.
\<close>

definition same_bounds :: "'a loops_scheme \<Rightarrow> 'a loops_scheme \<Rightarrow> bool" where
  "same_bounds s s' \<longleftrightarrow> length (client s') = length (client s) \<and> maxi s' = maxi s"

lemma same_bounds_shape: "shape s' = shape s \<Longrightarrow> same_bounds s s'"
  by (auto simp: shape_def same_bounds_def) (metis length_map)

lemma give_up_inv:
  assumes "loop_inv s" and "i < length (client s)" and "clifd s = cl_fd (client s ! i)" and "0 \<le> clifd s"
    and "give_up i s = Inr s'"
  shows "loop_inv s' \<and> same_bounds s s'"
proof -
  from assms(5) obtain r s1 where e: "send_err (cl_fd (client s ! i)) (-1) (errmsg s) s = Inr (r, s1)"
    and c: "cli_done (clifd s1) s1 = Inr s'"
    by (auto simp: give_up_def bindR_Inr_iff split: if_splits)
  note sh = shape_steps(3) [OF e]
  have i1: "loop_inv s1" using sh assms(1) loop_inv_shape [of s s1] by (simp add: loop_inv_def)
  have sl: "slot_of s1 = slot_of s" using sh by (intro slot_of_shape) (auto simp: shape_def)
  have "slot_of s1 (clifd s1) = Some i" using loop_inv_slot [OF assms(1,2)] assms(3,4) sh sl by simp
  from cli_done_inv [OF i1 this c] same_bounds_shape [of s1 s] sh show ?thesis by (auto simp: same_bounds_def)
qed

lemma try_request_inv:
  assumes "loop_inv s" and "i < length (client s)" and "clifd s = cl_fd (client s ! i)" and "0 \<le> clifd s"
    and "try_request i s = Inr s'"
  shows "loop_inv s' \<and> same_bounds s s'"
proof -
  from assms(5) obtain r s1 where q: "request i s = Inr (r, s1)"
    and k: "(if r < 0 then give_up i s1 else Inr s1) = Inr s'"
    by (auto simp: try_request_def bindR_Inr_iff)
  have "lock_inv s" using assms(1) by (simp add: loop_inv_def)
  note sh = shape_request [OF q this assms(2)]
  have i1: "loop_inv s1" using sh assms(1) loop_inv_shape [of s s1] by simp
  have m: "map cl_fd (client s1) = map cl_fd (client s)" using sh by (simp add: shape_def)
  then have l: "i < length (client s1)" using assms(2) by (metis length_map)
  have f: "clifd s1 = cl_fd (client s1 ! i)" using m l assms(2,3) sh by (metis nth_map)
  show ?thesis
  proof (cases "r < 0")
    case True
    with k give_up_inv [OF i1 l f, of s'] sh assms(4) same_bounds_shape [of s1 s] show ?thesis
      by (auto simp: same_bounds_def)
  next
    case False
    with k i1 sh same_bounds_shape [of s1 s] show ?thesis by simp
  qed
qed

text \<open>Steps that leave the shape alone keep the invariant and the bounds.\<close>

lemma shape_inv:
  assumes "loop_inv s" and "shape s' = shape s" and "lock_inv s'"
  shows "loop_inv s' \<and> same_bounds s s'"
  using assms loop_inv_shape same_bounds_shape by blast

lemma loop_inv_clifd [simp]: "loop_inv (s\<lparr>clifd := n\<rparr>) = loop_inv s"
proof -
  have "slot_of (s\<lparr>clifd := n\<rparr>) = slot_of s" "client_inv (s\<lparr>clifd := n\<rparr>) = client_inv s"
    by (rule slot_of_shape client_inv_shape, simp)+
  then show ?thesis by (simp add: loop_inv_def lock_inv_def)
qed

lemma same_bounds_trans: "same_bounds s t \<Longrightarrow> same_bounds t u \<Longrightarrow> same_bounds s u"
  by (simp add: same_bounds_def)

lemma same_bounds_clifd [simp]: "same_bounds (s\<lparr>clifd := n\<rparr>) t = same_bounds s t" "same_bounds s s"
  by (simp_all add: same_bounds_def)

lemma lock_inv_upd [simp]: "lock_inv (upd_client i f s) = lock_inv s"
  by (simp add: lock_inv_def upd_client_def)

text \<open>A client entry keeps its descriptor under a step that leaves the shape alone.\<close>

lemma shape_fd:
  assumes "shape s' = shape s" and "i < length (client s)"
  shows "i < length (client s')" and "cl_fd (client s' ! i) = cl_fd (client s ! i)"
  using assms by (auto simp: shape_def) (metis length_map, metis length_map nth_map)

lemma child_entry_inv:
  assumes inv: "loop_inv s" and i: "i < length (client s)" and e: "child_entry i s = Inr s'"
  shows "loop_inv s' \<and> same_bounds s s'"
proof -
  let ?t = "s\<lparr>clifd := cl_fd (client s ! i)\<rparr>"
  let ?c = "client s ! i"
  let ?up = "upd_client i (\<lambda>c. c\<lparr>cl_childdone := 0\<rparr>)"
  show ?thesis
  proof (cases "cl_fd ?c < 0 \<or> cl_childdone ?c = 0")
    case True
    then have "s' = ?t" using e by (auto simp: child_entry_def Let_def split: if_splits)
    then show ?thesis using inv by (simp add: same_bounds_def)
  next
    case False
    with e obtain s1 where l: "log_msg (''child done: pid '' @ deci (cl_pid ?c) @ '', status '' @ deci (cl_childdone ?c - 1)) ?t = Inr s1"
      and k: "(if cl_childdone ?c = 1 then Inr (?up s1) else bindR (lock_rel (cl_pid ?c) (?up s1)) (try_request i)) = Inr s'"
      by (auto simp: child_entry_def bindR_Inr_iff Let_def)
    have inv1: "lock_inv s1" and sh1: "shape s1 = shape ?t" "clifd s1 = cl_fd ?c"
      using shape_steps(1) [OF l] inv by (auto simp: loop_inv_def lock_inv_def)
    have up: "shape (?up s1) = shape ?t" "clifd (?up s1) = cl_fd ?c" "lock_inv (?up s1)"
      using sh1 inv1 by (simp_all add: shape_upd_client)
    show ?thesis
    proof (cases "cl_childdone ?c = 1")
      case True
      then show ?thesis using k shape_inv [OF _ up(1,3)] inv by simp
    next
      case False
      with k obtain s2 where r: "lock_rel (cl_pid ?c) (?up s1) = Inr s2" and t: "try_request i s2 = Inr s'"
        by (auto simp: bindR_Inr_iff)
      note sh2 = shape_steps(2) [OF r]
      have s2: "loop_inv s2" "same_bounds ?t s2" using shape_inv [of ?t s2] sh2 up inv by auto
      have sh: "shape s2 = shape ?t" using sh2 up by simp
      have "clifd s2 = cl_fd (client s2 ! i)" "i < length (client s2)" "0 \<le> clifd s2"
        using shape_fd [OF sh] i sh2 up \<open>\<not> (cl_fd ?c < 0 \<or> cl_childdone ?c = 0)\<close> by auto
      from try_request_inv [OF s2(1) this(2,1,3) t] s2(2) show ?thesis by (auto intro: same_bounds_trans)
    qed
  qed
qed

lemma sig_chld_shape:
  assumes "sig_chld w s = Inr s'"
  shows "shape s' = shape s \<and> (lock_inv s \<longrightarrow> lock_inv s')"
proof -
  obtain pid st where w: "w = (pid, st)" by (cases w)
  let ?t = "s\<lparr>chld_flag := True\<rparr>"
  have t: "shape ?t = shape s" "lock_inv ?t = lock_inv s" by (simp_all add: shape_def lock_inv_def)
  show ?thesis
  proof (cases st)
    case (Exited n)
    with assms w have "client_sigchld pid (int n + 1) ?t = Inr s'" by (auto simp: sig_chld_def Let_def split: if_splits)
    then show ?thesis
      by (auto simp: client_sigchld_def shape_def map_fd_update lock_inv_def split: option.splits)
  next
    case (Abnormal x)
    with assms w have "log_msg (''child '' @ deci pid @ '' terminated abnormally: '' @ x) ?t = Inr s'"
      by (auto simp: sig_chld_def Let_def split: if_splits)
    from shape_steps(1) [OF this] t show ?thesis by simp
  qed
qed

lemma sig_batch_shape: "sig_batch b s = Inr s' \<Longrightarrow> shape s' = shape s \<and> (lock_inv s \<longrightarrow> lock_inv s')"
  by (induction b arbitrary: s) (auto simp: bindR_Inr_iff dest!: sig_chld_shape)

lemma signals_inv:
  assumes "signals s = Inr s'" and "loop_inv s"
  shows "loop_inv s' \<and> same_bounds s s'"
proof (cases "sig_env s")
  case (Cons b bs)
  then have b: "sig_batch b (s\<lparr>sig_env := bs\<rparr>) = Inr s'" using assms(1) by (simp add: signals_def)
  have "shape (s\<lparr>sig_env := bs\<rparr>) = shape s" "lock_inv (s\<lparr>sig_env := bs\<rparr>)"
    using assms(2) by (simp_all add: shape_def lock_inv_def loop_inv_def)
  with sig_batch_shape [OF b] shape_inv [OF assms(2)] show ?thesis by auto
qed (use assms in \<open>simp add: signals_def\<close>)

lemma child_entries_inv:
  "child_entries is s = Inr s' \<Longrightarrow> loop_inv s \<Longrightarrow> \<forall>i \<in> set is. i < length (client s) \<Longrightarrow> loop_inv s' \<and> same_bounds s s'"
proof (induction "is" arbitrary: s)
  case (Cons i "is")
  from Cons.prems(1) obtain s1 s2 where s: "signals s = Inr s1" "child_entry i s1 = Inr s2" "child_entries is s2 = Inr s'"
    by (auto simp: bindR_Inr_iff)
  from signals_inv [OF s(1) Cons.prems(2)] have 1: "loop_inv s1" "same_bounds s s1" by auto
  from child_entry_inv [OF 1(1) _ s(2)] 1(2) Cons.prems(3) have 2: "loop_inv s2" "same_bounds s1 s2"
    by (auto simp: same_bounds_def)
  from Cons.IH [OF s(3) 2(1)] 1(2) 2(2) Cons.prems(3) show ?case by (auto simp: same_bounds_def)
qed simp

lemma child_done_inv: "child_done s = Inr s' \<Longrightarrow> loop_inv s \<Longrightarrow> loop_inv s' \<and> chld_flag s' = False"
proof (induction s arbitrary: s' rule: child_done.induct)
  case (1 s)
  from "1.prems"(1) obtain s1 where p: "child_pass s = Inr s1"
    and k: "(if chld_flag s1 then child_done s1 else Inr s1) = Inr s'"
    by (auto simp: child_done.simps [of s] bindR_Inr_iff)
  let ?t = "s\<lparr>chld_flag := False\<rparr>"
  have "shape ?t = shape s" "lock_inv ?t" using "1.prems"(2) by (simp_all add: shape_def lock_inv_def loop_inv_def)
  from shape_inv [OF "1.prems"(2) this] have "loop_inv ?t" by blast
  moreover have "\<forall>i \<in> set (indices s). i < length (client ?t)" using loop_inv_idx "1.prems"(2) by auto
  ultimately have "loop_inv s1" using child_entries_inv [of "indices s" ?t s1] p by (simp add: child_pass_def)
  with k "1.IH" [OF p] show ?case by (cases "chld_flag s1") auto
qed

text \<open>A request or a hangup of a client.\<close>

lemma buf_args_state:
  "buf_args buf f s = (r, s') \<Longrightarrow> s' = s \<or> (\<exists>n av. f n av s = (r, s'))"
  by (auto simp: buf_args_def Let_def split: option.splits prod.splits)

lemma call_cli_args_shape:
  "call_cli_args ca n av s = (r, s') \<Longrightarrow> shape s' = shape s \<and> clifd s' = clifd s \<and> lock_inv s' = lock_inv s"
  by (auto simp: call_cli_args_def shape_def lock_inv_def split: prod.splits)

lemma store_options_shape:
  "store_options i s = Inr s' \<Longrightarrow> shape s' = shape s \<and> clifd s' = clifd s \<and> lock_inv s' = lock_inv s"
  by (auto simp: store_options_def Let_def shape_upd_client split: if_splits)

lemma serve_inv:
  assumes inv: "loop_inv s" and i: "i < length (client s)" and f: "clifd s = cl_fd (client s ! i)" "0 \<le> clifd s"
    and e: "serve ca i buf s = Inr s'"
  shows "loop_inv s' \<and> same_bounds s s'"
proof -
  from e obtain s1 where l: "log_msg (''starting: '' @ cstr buf @ '', from uid '' @ deci (last_uid s)) s = Inr s1"
    and k: "(let (r, s) = buf_args buf (call_cli_args ca) s1 in
        if r < 0 then log_quit (''command line error: '' @ buf_left buf) s
        else bindR (store_options i s) (try_request i)) = Inr s'"
    by (auto simp: serve_def bindR_Inr_iff split: if_splits)
  obtain r s2 where a: "buf_args buf (call_cli_args ca) s1 = (r, s2)" by fastforce
  with k obtain s3 where o: "store_options i s2 = Inr s3" and t: "try_request i s3 = Inr s'"
    by (auto simp: bindR_Inr_iff split: if_splits)
  have "shape s2 = shape s1 \<and> clifd s2 = clifd s1 \<and> lock_inv s2 = lock_inv s1"
    using buf_args_state [OF a] call_cli_args_shape by blast
  with shape_steps(1) [OF l] store_options_shape [OF o] inv
  have sh: "shape s3 = shape s" "clifd s3 = clifd s" "lock_inv s3" by (auto simp: loop_inv_def)
  from shape_inv [OF inv sh(1,3)] have s3: "loop_inv s3" "same_bounds s s3" by auto
  have "i < length (client s3)" "clifd s3 = cl_fd (client s3 ! i)" "0 \<le> clifd s3"
    using shape_fd [OF sh(1) i] sh(2) f by auto
  from try_request_inv [OF s3(1) this t] s3(2) show ?thesis by (auto intro: same_bounds_trans)
qed

lemma hangup_inv:
  assumes inv: "loop_inv s" and i: "i < length (client s)" and f: "clifd s = cl_fd (client s ! i)" "0 \<le> clifd s"
    and e: "hangup i s = Inr s'"
  shows "loop_inv s' \<and> same_bounds s s'"
proof -
  from e obtain s1 s2 where l: "log_msg (''closed: uid '' @ deci (cl_uid (client s ! i)) @ '', fd '' @ deci (clifd s)) s = Inr s1"
    and r: "lock_rel (cl_pid (client s1 ! i)) s1 = Inr s2" and c: "cli_done (clifd s2) s2 = Inr s'"
    by (auto simp: hangup_def bindR_Inr_iff)
  from shape_steps(1) [OF l] shape_steps(2) [OF r] inv
  have sh: "shape s2 = shape s" "clifd s2 = clifd s" "lock_inv s2" by (auto simp: loop_inv_def)
  from shape_inv [OF inv sh(1,3)] have s2: "loop_inv s2" "same_bounds s s2" by auto
  have "slot_of s2 (clifd s2) = Some i"
    using loop_inv_slot [OF s2(1) shape_fd(1) [OF sh(1) i]] shape_fd(2) [OF sh(1) i] sh(2) f by simp
  from cli_done_inv [OF s2(1) this c] s2(2) show ?thesis by (auto simp: same_bounds_def)
qed

lemma read_entry_inv:
  assumes inv: "loop_inv s" and i: "i < length (client s)" and e: "read_entry ca rset i s = Inr s'"
  shows "loop_inv s' \<and> same_bounds s s'"
proof -
  let ?t = "s\<lparr>clifd := cl_fd (client s ! i)\<rparr>"
  show ?thesis
  proof (cases "clifd ?t < 0 \<or> clifd ?t \<notin> rset")
    case True
    then have "s' = ?t" using e by (auto simp: read_entry_def Let_def split: if_splits)
    then show ?thesis using inv by (simp add: same_bounds_def)
  next
    case False
    obtain b t where rc: "read_call (clifd ?t) MAXLINE ?t = (b, t)" by (cases "read_call (clifd ?t) MAXLINE ?t")
    have t: "shape t = shape ?t" "lock_inv t" "clifd t = clifd ?t"
      using rc inv by (auto simp: read_call_def shape_def lock_inv_def loop_inv_def split: prod.splits)
    have "loop_inv ?t" using inv by simp
    from shape_inv [OF this t(1,2)] have t1: "loop_inv t" "same_bounds s t" by auto
    have t2: "i < length (client t)" "clifd t = cl_fd (client t ! i)" "0 \<le> clifd t"
      using shape_fd [OF t(1)] i t(3) False by auto
    from e False rc obtain buf where "b = Some buf" and k: "(if buf = [] then hangup i t else serve ca i buf t) = Inr s'"
      by (cases b) (auto simp: read_entry_def Let_def)
    with hangup_inv [OF t1(1) t2] serve_inv [OF t1(1) t2] t1(2) show ?thesis
      by (cases "buf = []") (auto intro: same_bounds_trans)
  qed
qed

lemma read_entries_inv:
  "read_entries ca rset is s = Inr s' \<Longrightarrow> loop_inv s \<Longrightarrow> \<forall>i \<in> set is. i < length (client s) \<Longrightarrow> loop_inv s' \<and> same_bounds s s'"
proof (induction "is" arbitrary: s)
  case (Cons i "is")
  from Cons.prems(1) obtain s1 where s: "read_entry ca rset i s = Inr s1" "read_entries ca rset is s1 = Inr s'"
    by (auto simp: bindR_Inr_iff)
  from read_entry_inv [OF Cons.prems(2) _ s(1)] Cons.prems(3) have 1: "loop_inv s1" "same_bounds s s1" by auto
  from Cons.IH [OF s(2) 1(1)] 1(2) Cons.prems(3) show ?case by (auto simp: same_bounds_def)
qed simp

lemma loop_inv_maxi: "loop_inv s \<Longrightarrow> slot_of s g = Some j \<Longrightarrow> int j \<le> maxi s"
  by (simp add: loop_inv_def)

lemma new_client_inv:
  assumes inv: "loop_inv s" and e: "new_client s = Inr s'"
  shows "loop_inv s'"
proof -
  obtain fd uid t where a: "accept_call s = ((fd, uid), t)" by (metis prod.exhaust)
  have t: "fd \<notin> allset s \<or> fd = -1" "shape t = shape s" "lock_inv t"
    using a inv by (auto simp: accept_call_def shape_def lock_inv_def loop_inv_def split: list.splits prod.splits if_splits)
  let ?t = "t\<lparr>clifd := fd, last_uid := uid\<rparr>"
  from e a obtain i s1 where fd: "\<not> fd < 0" and ca: "client_add fd uid ?t = Inr (i, s1)"
    and l: "log_msg (''new connection: uid '' @ deci uid @ '', fd '' @ deci fd)
        (s1\<lparr>allset := insert fd (allset s1), maxfd := (if maxfd s1 < fd then fd else maxfd s1),
             maxi := (if maxi s1 < int i then int i else maxi s1)\<rparr>) = Inr s'"
    by (auto simp: new_client_def Let_def bindR_Inr_iff split: if_splits)
  have sht: "shape ?t = shape s" "lock_inv ?t" using t by (simp_all add: shape_def lock_inv_def)
  have it: "loop_inv ?t" using loop_inv_shape [OF inv sht] .
  then have ci: "client_inv ?t" and "fd \<notin> allset ?t" using t(1) fd sht(1) by (auto simp: loop_inv_def shape_def)
  then have new: "slot_of ?t fd = None" "fd \<noteq> listenfd ?t" using it by (auto simp: loop_inv_def)
  from cl.add [OF ci _ new(1) ca] fd have s1: "client_inv s1" "slot_of s1 = (slot_of ?t)(fd \<mapsto> i)" by auto
  from client_add_spec [OF ca] obtain f h where ix: "index_of (\<lambda>c. cl_fd c = -1) (client ?t @ f) = Some i"
    and s1eq: "s1 = ?t\<lparr>heap := h, client := (client ?t @ f)[i := ((client ?t @ f) ! i)\<lparr>cl_fd := fd, cl_uid := uid\<rparr>]\<rparr>"
    by auto
  have len: "length (client s1) = length (client ?t @ f)" "i < length (client ?t @ f)"
    using index_of_SomeD [OF ix] by (simp_all add: s1eq)
  have fr: "lock_inv s1 = lock_inv ?t" "allset s1 = allset ?t" "listenfd s1 = listenfd ?t" "maxfd s1 = maxfd ?t" "maxi s1 = maxi ?t"
    by (simp_all add: s1eq lock_inv_def)
  let ?s2 = "s1\<lparr>allset := insert fd (allset s1), maxfd := (if maxfd s1 < fd then fd else maxfd s1),
             maxi := (if maxi s1 < int i then int i else maxi s1)\<rparr>"
  have "map cl_fd (client ?s2) = map cl_fd (client s1)" by simp
  note s2 = slot_of_shape [OF this] client_inv_shape [OF this]
  note I = it [unfolded loop_inv_def]
  have "lock_inv ?s2" using fr(1) sht(2) by (simp add: lock_inv_def)
  moreover have "insert fd (allset s1) = insert (listenfd s1) (dom (slot_of s1))" using I s1(2) fr by auto
  moreover have "slot_of s1 (listenfd s1) = None" using I s1(2) fr new(2) by simp
  moreover have "\<forall>g \<in> allset s1. 0 \<le> g \<and> g \<le> maxfd s1" using I fr by simp
  then have "\<forall>g \<in> insert fd (allset s1). 0 \<le> g \<and> g \<le> (if maxfd s1 < fd then fd else maxfd s1)"
    using fd by auto
  moreover have "int j \<le> (if maxi s1 < int i then int i else maxi s1)" if "slot_of s1 g = Some j" for g j
  proof (cases "g = fd")
    case False
    then have "slot_of ?t g = Some j" using that s1(2) by simp
    with loop_inv_maxi [OF it] have "int j \<le> maxi s1" using fr(5) by simp
    then show ?thesis by simp
  qed (use that s1(2) in simp)
  moreover have "-1 \<le> maxi ?s2 \<and> maxi ?s2 < int (length (client s1))"
    using I fr len by auto
  ultimately have "loop_inv ?s2"
    using I fr s1(1) unfolding loop_inv_def s2 by simp
  then show ?thesis using shape_steps(1) [OF l] loop_inv_shape [of ?s2 s'] by (auto simp: loop_inv_def)
qed

lemma loop_round_inv:
  assumes inv: "loop_inv s" and e: "loop_round ca ev s = Inr s'"
  shows "loop_inv s'"
proof -
  from e obtain s1 where c: "(if chld_flag s then child_done s else Inr s) = Inr s1"
    and k: "(case ev of
         Interrupt ws \<Rightarrow> bindR (sig_batch ws s1) child_done
       | SelectError \<Rightarrow> log_sys ''select error'' s1
       | Ready r \<Rightarrow> (let rset = r \<inter> allset s1 in
            if listenfd s1 \<in> rset then new_client s1 else read_entries ca rset (indices s1) s1)) = Inr s'"
    by (auto simp: loop_round_def bindR_Inr_iff)
  have i1: "loop_inv s1" using c child_done_inv [of s s1] inv by (auto split: if_splits)
  show ?thesis
  proof (cases ev)
    case (Interrupt ws)
    with k obtain s2 where b: "sig_batch ws s1 = Inr s2" "child_done s2 = Inr s'" by (auto simp: bindR_Inr_iff)
    have "lock_inv s1" using i1 by (simp add: loop_inv_def)
    then have "loop_inv s2" using sig_batch_shape [OF b(1)] loop_inv_shape [OF i1] by blast
    then show ?thesis using child_done_inv [OF b(2)] by blast
  next
    case (Ready r)
    have "\<forall>i \<in> set (indices s1). i < length (client s1)" using loop_inv_idx [OF i1] by blast
    with k Ready read_entries_inv [of ca "r \<inter> allset s1" "indices s1" s1 s'] new_client_inv [OF i1, of s'] i1
    show ?thesis by (auto simp: Let_def split: if_splits)
  qed (use k in auto)
qed

text \<open>The states the server can reach: it starts without clients and locks, and goes round.\<close>

inductive serving :: "(nat \<Rightarrow> string list \<Rightarrow> options \<Rightarrow> int \<times> options) \<Rightarrow> 'a loops_scheme \<Rightarrow> bool"
  for ca where
  start: "client s0 = [] \<Longrightarrow> lock_tab s0 = [] \<Longrightarrow> lock_size s0 = 0 \<Longrightarrow> loop_start lfd s0 = Inr s \<Longrightarrow> serving ca s"
| round: "serving ca s \<Longrightarrow> loop_round ca ev s = Inr s' \<Longrightarrow> serving ca s'"

inductive_cases serving_cases: "serving ca s"

lemma loop_start_inv:
  assumes "client s0 = []" and "lock_tab s0 = []" and "lock_size s0 = 0" and "loop_start lfd s0 = Inr s"
  shows "loop_inv s"
proof -
  from assms(4) have s: "s = s0\<lparr>listenfd := lfd, allset := {lfd}, maxfd := lfd, maxi := -1\<rparr>" and "0 \<le> lfd"
    by (auto simp: loop_start_def split: if_splits)
  moreover have "slot_of s = (\<lambda>_. None)" by (simp add: slot_of_def fun_eq_iff s assms(1))
  ultimately show ?thesis using assms(1-3)
    by (simp add: loop_inv_def lock_inv_def client_inv_def unique_fds_def)
qed

lemma serving_inv: "serving ca s \<Longrightarrow> loop_inv s"
  by (induction rule: serving.induct) (auto intro: loop_start_inv loop_round_inv)

section \<open>Locks over the life of a client\<close>

lemma held_frame:
  "lock_tab s' = lock_tab s \<Longrightarrow> held s' = held s"
  by (simp add: held_def)

lemma held_log_msg: "log_msg m s = Inr s' \<Longrightarrow> held s' = held s \<and> client s' = client s"
  by (auto simp: held_def dest!: log_msg_frame)

lemma held_cli_done: "cli_done fd s = Inr s' \<Longrightarrow> held s' = held s"
  by (auto simp: cli_done_def client_del_def bindR_Inr_iff held_def split: option.splits)

lemma held_give_up: "give_up i s = Inr s' \<Longrightarrow> held s' = held s"
proof -
  assume "give_up i s = Inr s'"
  then obtain r s1 where "send_err (cl_fd (client s ! i)) (-1) (errmsg s) s = Inr (r, s1)"
    and "cli_done (clifd s1) s1 = Inr s'"
    by (auto simp: give_up_def bindR_Inr_iff split: if_splits)
  with wr_core_eqD(5) [OF send_err_core] held_cli_done show ?thesis by (metis held_frame)
qed

text \<open>Retrying: either a child was started for a free device, or the client is forgotten.\<close>

lemma try_request_locks:
  assumes "try_request i s = Inr s'" and "loop_inv s" and "i < length (client s)"
    and "clifd s = cl_fd (client s ! i)" and "0 \<le> clifd s"
  shows "(\<exists>q line. 0 < q \<and> held s line = 0 \<and> held s' = (held s)(line := q) \<and> cl_pid (client s' ! i) = q \<and> slot_of s' = slot_of s)
    \<or> held s' = held s \<and> slot_of s' = (slot_of s)(clifd s := None)"
proof -
  from assms(1) obtain r s1 where q: "request i s = Inr (r, s1)"
    and k: "(if r < 0 then give_up i s1 else Inr s1) = Inr s'"
    by (auto simp: try_request_def bindR_Inr_iff)
  have li: "lock_inv s" using assms(2) by (simp add: loop_inv_def)
  note o = request_result [OF q li assms(3)] and sh = shape_request [OF q li assms(3)]
  have sl: "slot_of s1 = slot_of s" using sh by (intro slot_of_shape) (simp add: shape_def)
  show ?thesis
  proof (cases "r < 0")
    case True
    with k have g: "give_up i s1 = Inr s'" by simp
    then obtain r2 s2 where e: "send_err (cl_fd (client s1 ! i)) (-1) (errmsg s1) s1 = Inr (r2, s2)"
      and c: "cli_done (clifd s2) s2 = Inr s'"
      by (auto simp: give_up_def bindR_Inr_iff split: if_splits)
    note sh2 = shape_steps(3) [OF e]
    have i1: "loop_inv s1" using loop_inv_shape [OF assms(2), of s1] sh by simp
    then have i2: "loop_inv s2" using sh2 loop_inv_shape [of s1 s2] by (simp add: loop_inv_def)
    have "slot_of s2 = slot_of s1" using sh2 by (intro slot_of_shape) (simp add: shape_def)
    then have "slot_of s2 (clifd s2) = Some i" "slot_of s2 = slot_of s" "clifd s2 = clifd s"
      using sl sh sh2 loop_inv_slot [OF assms(2,3)] assms(4,5) by simp_all
    with cli_done_inv [OF i2 _ c] have "slot_of s' = (slot_of s)(clifd s := None)" by simp
    moreover have "held s1 = held s" using o True by (auto simp: request_outcome_def idle_step_def split: if_splits)
    ultimately show ?thesis using held_give_up [OF g] by simp
  next
    case False
    with k o sl show ?thesis by (auto simp: request_outcome_def start_step_def split: if_splits)
  qed
qed

section \<open>Properties\<close>

text \<open>
  C1: in every state the server reaches, select watches exactly the listening descriptor and the
  descriptors of the connected clients, all of them within the bound passed to select; every
  connected client has an entry of its own, within the part of the array that the loops over the
  entries visit; and every device has one entry in the lock table.
\<close>

theorem server_invariant:
  assumes "serving ca s"
  shows "allset s = insert (listenfd s) (dom (slot_of s)) \<and> listenfd s \<notin> dom (slot_of s)
    \<and> (\<forall>fd \<in> allset s. 0 \<le> fd \<and> fd < maxfd s + 1)
    \<and> (\<forall>fd i. slot_of s fd = Some i \<longrightarrow> i \<in> set (indices s) \<and> i < length (client s))
    \<and> inj_on (slot_of s) (dom (slot_of s)) \<and> distinct (map lk_line (lock_tab s))"
proof -
  have inv: "loop_inv s" using assms by (rule serving_inv)
  then have ci: "client_inv s" by (simp add: loop_inv_def)
  have "inj_on (slot_of s) (dom (slot_of s))"
    by (rule inj_onI) (auto simp: slot_of_iff [OF ci])
  moreover have "slot_of s fd = Some i \<Longrightarrow> i \<in> set (indices s) \<and> i < length (client s)" for fd i
    using inv slot_of_iff [OF ci] loop_inv_maxi [OF inv, of fd i] by (auto simp: indices_def)
  ultimately show ?thesis using inv by (auto simp: loop_inv_def lock_inv_def)
qed

text \<open>
  C22: when a client hangs up, the device that its child holds is released, every other device
  keeps its holder, and the client's descriptor is no longer served or watched.
\<close>

theorem hangup_releases:
  assumes "loop_inv s" and "i < length (client s)" and "clifd s = cl_fd (client s ! i)" and "0 \<le> clifd s"
    and "one_each (held s)" and "cl_pid (client s ! i) \<noteq> 0" and "hangup i s = Inr s'"
  shows "held s' = released (held s) (cl_pid (client s ! i)) \<and> slot_of s' = (slot_of s)(clifd s := None)
    \<and> clifd s \<notin> allset s'"
proof -
  from assms(7) obtain s1 s2 where l: "log_msg (''closed: uid '' @ deci (cl_uid (client s ! i)) @ '', fd '' @ deci (clifd s)) s = Inr s1"
    and r: "lock_rel (cl_pid (client s1 ! i)) s1 = Inr s2" and c: "cli_done (clifd s2) s2 = Inr s'"
    by (auto simp: hangup_def bindR_Inr_iff)
  note l1 = shape_steps(1) [OF l] and h1 = held_log_msg [OF l] and l2 = shape_steps(2) [OF r]
  have "lock_inv s1" "one_each (held s1)" using l1 h1 assms(1,5) by (auto simp: loop_inv_def)
  from lk.release [OF this _ r] h1 assms(6) have h2: "held s2 = released (held s) (cl_pid (client s ! i))" "lock_inv s2"
    by simp_all
  have sh: "shape s2 = shape s" "clifd s2 = clifd s" using l1 l2 by simp_all
  have i2: "loop_inv s2" using loop_inv_shape [OF assms(1) sh(1) h2(2)] .
  have sl: "slot_of s2 = slot_of s" using sh(1) by (intro slot_of_shape) (simp add: shape_def)
  then have "slot_of s2 (clifd s2) = Some i" using loop_inv_slot [OF assms(1,2)] assms(3,4) sh(2) by simp
  moreover have "clifd s2 \<notin> allset s'" using c by (auto simp: cli_done_def bindR_Inr_iff)
  ultimately show ?thesis using cli_done_inv [OF i2 _ c] held_cli_done [OF c] h2(1) sl sh(2) by simp
qed

text \<open>
  when the dialing child of a client has failed, its device is released first; then either
  another child has been started for a device that was free, which is now locked for it and for
  which the client stays connected, or nothing is locked and the client has been forgotten.
\<close>

theorem child_failure_retries:
  assumes "loop_inv s" and "i < length (client s)" and "0 \<le> cl_fd (client s ! i)"
    and "one_each (held s)" and "cl_pid (client s ! i) \<noteq> 0" and "1 < cl_childdone (client s ! i)"
    and "child_entry i s = Inr s'" and "h = released (held s) (cl_pid (client s ! i))"
  shows "(\<exists>q line. 0 < q \<and> h line = 0 \<and> held s' = h(line := q) \<and> cl_pid (client s' ! i) = q \<and> slot_of s' = slot_of s)
    \<or> held s' = h \<and> slot_of s' = (slot_of s)(cl_fd (client s ! i) := None)"
proof -
  let ?t = "s\<lparr>clifd := cl_fd (client s ! i)\<rparr>"
  let ?c = "client s ! i"
  let ?up = "upd_client i (\<lambda>c. c\<lparr>cl_childdone := 0\<rparr>)"
  from assms(3,6,7) obtain s1 s2 where l: "log_msg (''child done: pid '' @ deci (cl_pid ?c) @ '', status '' @ deci (cl_childdone ?c - 1)) ?t = Inr s1"
    and r: "lock_rel (cl_pid ?c) (?up s1) = Inr s2" and t: "try_request i s2 = Inr s'"
    by (auto simp: child_entry_def bindR_Inr_iff Let_def split: if_splits)
  note l1 = shape_steps(1) [OF l] and h1 = held_log_msg [OF l] and l2 = shape_steps(2) [OF r]
  have up: "held (?up s1) = held s" "lock_inv (?up s1)" "shape (?up s1) = shape s" "clifd (?up s1) = cl_fd ?c"
    using h1 l1 assms(1) shape_upd_client [of "\<lambda>c. c\<lparr>cl_childdone := 0\<rparr>" i s1]
    by (auto simp: loop_inv_def lock_inv_def held_def shape_def upd_client_def)
  from lk.release [OF up(2) _ assms(5) r] up(1) assms(4,8) have h2: "held s2 = h" "lock_inv s2"
    by simp_all
  have sh: "shape s2 = shape s" "clifd s2 = cl_fd ?c" using l2 up by simp_all
  have i2: "loop_inv s2" using loop_inv_shape [OF assms(1) sh(1) h2(2)] .
  have sl: "slot_of s2 = slot_of s" using sh(1) by (intro slot_of_shape) (simp add: shape_def)
  have "clifd s2 = cl_fd (client s2 ! i)" "i < length (client s2)" "0 \<le> clifd s2"
    using shape_fd [OF sh(1) assms(2)] sh(2) assms(3) by auto
  from try_request_locks [OF t i2 this(2,1,3)] h2(1) sl sh(2) show ?thesis by simp
qed

text \<open>
  a client that sends a second request while its child is still dialing orphans that child.
  Its device stays locked for it, no entry knows its process ID any more, and when it terminates
  the signal handler ends the whole server.
\<close>

theorem second_request_orphans:
  assumes "request i s = Inr (0, s')" and "lock_inv s" and "i < length (client s)"
    and "cl_pid (client s ! i) = p" and "0 < p" and "held s line = p"
    and "\<forall>j < length (client s). j \<noteq> i \<longrightarrow> cl_pid (client s ! j) \<noteq> p" and "hd (fork_env s) \<noteq> p"
  shows "held s' line = p \<and> cl_pid (client s' ! i) \<noteq> p \<and> (\<exists>e. sig_chld (p, Exited n) s' = Inl e)"
proof -
  from request_result [OF assms(1-3)] obtain c q l where cl: "client s' = (client s)[i := c]" and q: "fork_env s = q # fork_env s'"
    and h: "held s l = 0" "held s' = (held s)(l := q)" and cq: "cl_pid (client s' ! i) = q"
    by (auto simp: request_outcome_def client_step_def start_step_def)
  have "q \<noteq> p" using q assms(8) by auto
  then have "cl_pid x \<noteq> p" if "x \<in> set (client s')" for x
    using that cl cq assms(3,7) by (auto simp: in_set_conv_nth nth_list_update split: if_splits)
  then have "index_of (\<lambda>c. cl_pid c = p) (client s') = None" by (simp add: index_of_None)
  then have "\<exists>e. sig_chld (p, Exited n) s' = Inl e"
    using assms(5) fatal_Inl(2) by (simp add: sig_chld_def client_sigchld_def Let_def)
  moreover have "l \<noteq> line" using h(1) assms(5,6) by auto
  ultimately show ?thesis using h(2) cq \<open>q \<noteq> p\<close> assms(6) by simp
qed

text \<open>
  one client can end the server. A request whose last byte is not NUL, or one whose log line
  does not fit the message buffer, stops the process: no state of the loop follows.
\<close>

theorem serve_can_end_server:
  assumes "last buf \<noteq> NUL \<or> MAXLINE < length (cstr buf) + 24"
  shows "\<exists>e. serve ca i buf s = Inl e"
proof (cases "last buf = NUL")
  case False
  then show ?thesis using fatal_Inl(2) by (simp add: serve_def)
next
  case True
  have "deci n \<noteq> []" for n by (simp add: deci_def)
  then have "MAXLINE < length (''starting: '' @ cstr buf @ '', from uid '' @ deci (last_uid s)) + 2"
    using assms True by (cases "deci (last_uid s)") auto
  then have "\<exists>e. log_msg (''starting: '' @ cstr buf @ '', from uid '' @ deci (last_uid s)) s = Inl e"
    by (simp add: log_msg_def log_doit_def Let_def)
  then show ?thesis using True by (auto simp: serve_def)
qed

section \<open>Concrete runs\<close>

text \<open>Two clients; the child 501 of the first holds cua0.\<close>

definition loop_ex :: loops where
  "loop_ex = requests.extend (req_ex\<lparr>lock_tab := [\<lparr>lk_line = ''cua0'', lk_pid = 501\<rparr>], lock_size := 10,
       client := [blank_client\<lparr>cl_fd := 5, cl_pid := 501, cl_childdone := 2, cl_sysname := ''host2''\<rparr>,
                  blank_client\<lparr>cl_fd := 6\<rparr>] @ replicate 8 blank_client,
       fork_env := [502], clifd := 5\<rparr>)
     \<lparr>chld_flag = False, sig_env = [], accept_env = [(7, 100)], g_parity = NONE, g_sysname = [], g_speed = None,
      allset = {3, 5, 6}, closed_fds = [], listenfd = 3, maxfd = 6, maxi = 1, last_uid = 100\<rparr>"

lemma loop_ex_fields:
  "lock_tab loop_ex = [\<lparr>lk_line = ''cua0'', lk_pid = 501\<rparr>]" "lock_size loop_ex = 10" "fork_env loop_ex = [502]"
  "client loop_ex = [blank_client\<lparr>cl_fd := 5, cl_pid := 501, cl_childdone := 2, cl_sysname := ''host2''\<rparr>,
                  blank_client\<lparr>cl_fd := 6\<rparr>] @ replicate 8 blank_client"
  "allset loop_ex = {3, 5, 6}" "listenfd loop_ex = 3" "maxfd loop_ex = 6" "maxi loop_ex = 1" "clifd loop_ex = 5"
  by (simp_all add: loop_ex_def requests.defs req_ex_def files.defs)

lemma loop_ex_slot: "slot_of loop_ex = [5 \<mapsto> 0, 6 \<mapsto> 1]"
  by (simp add: slot_of_def fun_eq_iff loop_ex_fields blank_client_def numeral_nat)

lemma loop_ex_inv: "loop_inv loop_ex"
proof -
  have "client_inv loop_ex"
    by (simp add: client_inv_def unique_fds_def loop_ex_fields blank_client_def NALLOC_def numeral_nat nth_Cons split: nat.split)
  then show ?thesis
    by (auto simp: loop_inv_def loop_ex_slot loop_ex_fields lock_inv_def NALLOC_def split: if_splits)
qed

lemma loop_ex_held: "held loop_ex = (\<lambda>l. if l = ''cua0'' then 501 else 0)"
  by (simp add: held_def holder_def loop_ex_fields fun_eq_iff)

lemma loop_ex_one: "one_each (held loop_ex)"
  by (simp add: loop_ex_held one_each_def)

lemma Inr_case: "(case m of Inr _ \<Rightarrow> True | Inl _ \<Rightarrow> False) \<Longrightarrow> \<exists>x. m = Inr x"
  by (simp split: sum.splits)

theorem server_invariant_witness:
  "\<exists>s :: loops. serving (\<lambda>n av o'. (0, o')) s \<and> allset s = {3} \<and> (\<forall>fd \<in> allset s. 0 \<le> fd \<and> fd < maxfd s + 1)"
proof -
  let ?s0 = "loop_ex\<lparr>client := [], lock_tab := [], lock_size := 0\<rparr>"
  obtain s where s: "loop_start 3 ?s0 = Inr s" "allset s = {3}" by (simp add: loop_start_def)
  have "serving (\<lambda>n av o'. (0, o')) s" by (rule serving.start [OF _ _ _ s(1)]) simp_all
  with server_invariant [OF this] s(2) show ?thesis by blast
qed

lemma loop_ex_client0:
  "0 < length (client loop_ex)" "cl_fd (client loop_ex ! 0) = 5" "cl_pid (client loop_ex ! 0) = 501"
  "cl_childdone (client loop_ex ! 0) = 2"
  by (simp_all add: loop_ex_fields blank_client_def)

theorem hangup_releases_witness:
  "\<exists>s'. hangup 0 loop_ex = Inr s' \<and> held s' = released (held loop_ex) 501 \<and> 5 \<notin> allset s'"
proof -
  have "case hangup 0 loop_ex of Inr _ \<Rightarrow> True | Inl _ \<Rightarrow> False" by code_simp
  then obtain s' where s': "hangup 0 loop_ex = Inr s'" using Inr_case by blast
  from hangup_releases [OF loop_ex_inv loop_ex_client0(1) _ _ loop_ex_one _ s'] s' show ?thesis
    by (simp add: loop_ex_client0 loop_ex_fields(9))
qed

theorem child_failure_retries_witness:
  "\<exists>s'. child_entry 0 loop_ex = Inr s' \<and>
    ((\<exists>q line. 0 < q \<and> released (held loop_ex) 501 line = 0 \<and> held s' = (released (held loop_ex) 501)(line := q))
     \<or> held s' = released (held loop_ex) 501)"
proof -
  have "case child_entry 0 loop_ex of Inr _ \<Rightarrow> True | Inl _ \<Rightarrow> False" by code_simp
  then obtain s' where s': "child_entry 0 loop_ex = Inr s'" using Inr_case by blast
  have c: "0 \<le> cl_fd (client loop_ex ! 0)" "cl_pid (client loop_ex ! 0) \<noteq> 0" "1 < cl_childdone (client loop_ex ! 0)"
    by (simp_all add: loop_ex_client0)
  from child_failure_retries [OF loop_ex_inv loop_ex_client0(1) c(1) loop_ex_one c(2,3) s' refl] s' show ?thesis
    unfolding loop_ex_client0(3) by blast
qed

theorem second_request_orphans_witness:
  "\<exists>s'. request 0 loop_ex = Inr (0, s') \<and> held s' ''cua0'' = 501 \<and> (\<exists>e. sig_chld (501, Exited 0) s' = Inl e)"
proof -
  have "case request 0 loop_ex of Inr (r, _) \<Rightarrow> r = 0 | Inl _ \<Rightarrow> False" by code_simp
  then obtain s' where s': "request 0 loop_ex = Inr (0, s')" by (auto split: sum.splits prod.splits)
  have li: "lock_inv loop_ex" using loop_ex_inv by (simp add: loop_inv_def)
  have others: "\<forall>j < length (client loop_ex). j \<noteq> 0 \<longrightarrow> cl_pid (client loop_ex ! j) \<noteq> 501"
    by (simp add: loop_ex_fields blank_client_def numeral_nat nth_Cons split: nat.split)
  from second_request_orphans [OF s' li loop_ex_client0(1,3) _ _ others, of "''cua0''" 0] s' show ?thesis
    by (auto simp: loop_ex_held loop_ex_fields(3))
qed

theorem serve_can_end_server_witness:
  "\<exists>e. serve (\<lambda>n av o'. (0, o')) 0 ''call host2'' loop_ex = Inl e"
  by (rule serve_can_end_server) simp

end
