(* ===== verification/Mmio.thy ===== *)
theory Mmio
  imports CPrelude
begin

unbundle bit_operations_syntax

text \<open>
  Memory-mapped registers, as the device drivers use them: readl, readw, writel and their
  variants. A register holds what was last written to it, unless it is one of those that react to
  being written (a pending register, and the palette of LcdRegs); the writes are also listed in order,
  because their order is part of what a driver has to get right.
\<close>

record mmio =
  mem :: "32 word \<Rightarrow> 32 word"
  io_log :: "(32 word \<times> 32 word) list" \<comment> \<open>address and value of every write\<close>

definition readl :: "32 word \<Rightarrow> 'a mmio_scheme \<Rightarrow> 32 word" where
  "readl a s = mem s a"

definition readw :: "32 word \<Rightarrow> 'a mmio_scheme \<Rightarrow> 16 word" where
  "readw a s = ucast (mem s a)"

definition writel :: "32 word \<Rightarrow> 32 word \<Rightarrow> 'a mmio_scheme \<Rightarrow> 'a mmio_scheme" where
  "writel v a s = s\<lparr>mem := (mem s)(a := v), io_log := io_log s @ [(a, v)]\<rparr>"

text \<open>A pending register: the bits that are written as ones are cleared.\<close>

definition writel_ack :: "32 word \<Rightarrow> 32 word \<Rightarrow> 'a mmio_scheme \<Rightarrow> 'a mmio_scheme" where
  "writel_ack v a s = s\<lparr>mem := (mem s)(a := mem s a AND NOT v), io_log := io_log s @ [(a, v)]\<rparr>"

section \<open>The interface of a register file\<close>

text \<open>
  What a driver relies on: a write is read back at its address and seen at no other. The
  operations that read a register, change some of its bits and write it back, and sequences of
  writes, are verified against these laws only.
\<close>

locale register_file =
  fixes rd :: "'a \<Rightarrow> 's \<Rightarrow> ('v :: len) word" and wr :: "'v word \<Rightarrow> 'a \<Rightarrow> 's \<Rightarrow> 's"
  assumes rd_wr_same: "rd a (wr v a s) = v"
    and rd_wr_other: "a \<noteq> b \<Longrightarrow> rd b (wr v a s) = rd b s"
begin

lemma rd_wr: "rd b (wr v a s) = (if a = b then v else rd b s)"
  by (simp add: rd_wr_same rd_wr_other)

definition modify :: "'a \<Rightarrow> 'v word \<Rightarrow> 'v word \<Rightarrow> 's \<Rightarrow> 's" where
  "modify a on off s = wr ((rd a s AND NOT off) OR on) a s"

lemma rd_modify: "rd b (modify a on off s) = (if a = b then (rd a s AND NOT off) OR on else rd b s)"
  by (simp add: modify_def rd_wr)

lemma rd_modify_twice: "rd b (modify a on off (modify a on off s)) = rd b (modify a on off s)"
  by (simp add: rd_modify bit_eq_iff bit_simps) auto

lemma bit_rd_modify:
  "bit (rd a (modify a on off s)) n \<longleftrightarrow> n < LENGTH('v) \<and> (bit on n \<or> bit (rd a s) n \<and> \<not> bit off n)"
  by (auto simp: rd_modify bit_simps dest: bit_imp_le_length)

definition write_all :: "('a \<times> 'v word) list \<Rightarrow> 's \<Rightarrow> 's" where
  "write_all ws s = foldl (\<lambda>s (a, v). wr v a s) s ws"

lemma rd_write_all: "rd b (write_all ws s) = (case map_of (rev ws) b of None \<Rightarrow> rd b s | Some v \<Rightarrow> v)"
  by (induction ws rule: rev_induct) (auto simp: write_all_def rd_wr map_add_def split: option.split prod.split)

end

interpretation io: register_file "readl" "writel"
  by unfold_locales (simp_all add: readl_def writel_def)

lemma writel_more [simp]: "mmio.more (writel v a s) = mmio.more s"
  by (simp add: writel_def)

lemma readw_readl: "readw a s = ucast (readl a s)"
  by (simp add: readw_def readl_def)

lemma take_bit_16_iff: "take_bit 16 w = w \<longleftrightarrow> w < 2 ^ 16" for w :: "32 word"
proof -
  have "take_bit 16 w = w \<longleftrightarrow> take_bit 16 (unat w) = unat w"
    by (simp add: unsigned_take_bit_eq word_unat_eq_iff)
  also have "\<dots> \<longleftrightarrow> unat w < 2 ^ 16" by (rule take_bit_nat_eq_self_iff)
  also have "\<dots> \<longleftrightarrow> w < 2 ^ 16" by (simp add: word_less_nat_alt)
  finally show ?thesis .
qed

text \<open>A 16 bit read shows the value that was written when that has no higher bits.\<close>

lemma ucast_readw_iff: "ucast (readw a s) = readl a s \<longleftrightarrow> readl a s < 2 ^ 16"
proof -
  have "ucast (readw a s) = take_bit 16 (readl a s)"
    by (rule bit_word_eqI) (simp add: readw_readl bit_simps)
  then show ?thesis using take_bit_16_iff [of "readl a s"] by simp
qed

end
