(* ===== verification/LcdRegs.thy ===== *)
theory LcdRegs
  imports Mmio
begin

text \<open>
  The S3C2440 LCD frame buffer driver, excerpts/s3c2440_LCD_driver.c, first part: its data, the
  GPIO set-up, the frame interrupt and the palette. The register offsets, bits and field macros
  come from the kernel header mach/regs-lcd.h, which is not in the repository: they are the
  record \<open>lcd_h\<close>, a parameter of every operation that uses them. A long is 32 bits wide.
\<close>

section \<open>Data\<close>

record lcd_h =
  LCDCON1 :: "32 word"
  LCDCON2 :: "32 word"
  LCDCON3 :: "32 word"
  LCDCON4 :: "32 word"
  LCDCON5 :: "32 word"
  LCDSADDR1 :: "32 word"
  LCDSADDR2 :: "32 word"
  LCDSADDR3 :: "32 word"
  TPAL :: "32 word"
  TPAL_EN :: "32 word"
  LPCSEL :: "32 word"
  TFTPAL :: "32 word \<Rightarrow> 32 word"
  LCDINTBASE :: "32 word"
  LCDINTPND :: "32 word"
  LCDSRCPND :: "32 word"
  LCDINTMSK :: "32 word"
  LCDINT_FRSYNC :: "32 word"
  GPCUP :: "32 word"
  GPCCON :: "32 word"
  GPDUP :: "32 word"
  GPDCON :: "32 word"
  CON1_TFT :: "32 word"
  CON1_STN4 :: "32 word"
  CON1_ENVID :: "32 word"
  CON1_CLKVAL :: "32 word \<Rightarrow> 32 word"
  CON1_TFT_BPP :: "32 word \<Rightarrow> 32 word" \<comment> \<open>the macros TFT1BPP to TFT24BPP by bits per pixel\<close>
  CON1_STN_BPP :: "32 word \<Rightarrow> 32 word" \<comment> \<open>the macros STN1BPP to STN12BPP by bits per pixel\<close>
  CON2_LINEVAL :: "32 word \<Rightarrow> 32 word"
  CON2_VBPD :: "32 word \<Rightarrow> 32 word"
  CON2_VFPD :: "32 word \<Rightarrow> 32 word"
  CON2_VSPW :: "32 word \<Rightarrow> 32 word"
  CON3_HBPD :: "32 word \<Rightarrow> 32 word"
  CON3_HFPD :: "32 word \<Rightarrow> 32 word"
  CON3_HOZVAL :: "32 word \<Rightarrow> 32 word"
  CON3_WDLY :: "32 word \<Rightarrow> 32 word"
  CON3_LINEBLANK :: "32 word \<Rightarrow> 32 word"
  CON4_HSPW :: "32 word \<Rightarrow> 32 word"
  CON4_WLH :: "32 word \<Rightarrow> 32 word"
  CON5_FRM565 :: "32 word"
  CON5_BSWP :: "32 word"
  CON5_HWSWP :: "32 word"
  CON5_BPP24BL :: "32 word"
  OFFSIZE :: "32 word \<Rightarrow> 32 word"
  PAGEWIDTH :: "32 word \<Rightarrow> 32 word"

record hw_regs =
  lcdcon1 :: "32 word"
  lcdcon2 :: "32 word"
  lcdcon3 :: "32 word"
  lcdcon4 :: "32 word"
  lcdcon5 :: "32 word"

record bitfield =
  bf_offset :: "32 word"
  bf_length :: "32 word"

datatype fb_visual = VISUAL_MONO01 | VISUAL_TRUECOLOR | VISUAL_PSEUDOCOLOR

record var_info =
  v_xres :: "32 word"
  v_yres :: "32 word"
  v_xres_virtual :: "32 word"
  v_yres_virtual :: "32 word"
  v_bpp :: "32 word"
  v_red :: bitfield
  v_green :: bitfield
  v_blue :: bitfield
  v_transp :: bitfield
  v_height :: "32 word"
  v_width :: "32 word"
  v_pixclock :: "32 word"
  v_left_margin :: "32 word"
  v_right_margin :: "32 word"
  v_upper_margin :: "32 word"
  v_lower_margin :: "32 word"
  v_hsync_len :: "32 word"
  v_vsync_len :: "32 word"

record fix_info =
  fx_id :: string
  fx_smem_start :: "32 word"
  fx_smem_len :: "32 word"
  fx_visual :: fb_visual
  fx_line_length :: "32 word"

text \<open>The platform data, struct s3c2410fb_mach_info and the displays in it.\<close>

record display =
  d_type :: "32 word"
  d_width :: "32 word"
  d_height :: "32 word"
  d_xres :: "32 word"
  d_yres :: "32 word"
  d_bpp :: "32 word"
  d_pixclock :: "32 word"
  d_left_margin :: "32 word"
  d_right_margin :: "32 word"
  d_upper_margin :: "32 word"
  d_lower_margin :: "32 word"
  d_hsync_len :: "32 word"
  d_vsync_len :: "32 word"
  d_lcdcon5 :: "32 word"

record mach_info =
  displays :: "display list"
  default_display :: nat
  gpcup :: "32 word"
  gpcup_mask :: "32 word"
  gpccon :: "32 word"
  gpccon_mask :: "32 word"
  gpdup :: "32 word"
  gpdup_mask :: "32 word"
  gpdcon :: "32 word"
  gpdcon_mask :: "32 word"
  lpcsel :: "32 word"

text \<open>
  The state: struct my2440fb_var together with the struct fb_info that it is allocated in.
  \<open>pseudo_palette\<close> is what the pointer of that name in fb_info points to; \<open>None\<close> is NULL.
  \<open>pal_takes\<close> is the hardware's: the palette entries whose registers take a write now. While the
  controller reads its palette it may not take one, and the register keeps its value; that is why
  the driver reads back what it has written.
\<close>

record lcd = mmio +
  lcd_base :: "32 word"
  regs :: hw_regs
  palette_buffer :: "32 word list"
  palette_ready :: "32 word"
  pal_takes :: "nat set"
  pseudo_palette :: "32 word list option"
  fix_par :: fix_info
  var_par :: var_info
  klog :: "string list" \<comment> \<open>messages of dev_err\<close>

definition PALETTE_BUFF_CLEAR :: "32 word" where "PALETTE_BUFF_CLEAR = 0x80000000"

section \<open>GPIO and initial register values\<close>

definition modify_gpio :: "32 word \<Rightarrow> 32 word \<Rightarrow> 32 word \<Rightarrow> 'a mmio_scheme \<Rightarrow> 'a mmio_scheme" where
  "modify_gpio reg v clr s = (let tmp = readl reg s AND NOT clr in writel (tmp OR v) reg s)"

text \<open>Lines 341 to 372; the interrupts are off while the GPIO ports are changed.\<close>

definition init_registers :: "lcd_h \<Rightarrow> mach_info \<Rightarrow> 'a lcd_scheme \<Rightarrow> 'a lcd_scheme" where
  "init_registers h mi s =
     (let s = modify_gpio (GPCUP h) (gpcup mi) (gpcup_mask mi) s;
          s = modify_gpio (GPCCON h) (gpccon mi) (gpccon_mask mi) s;
          s = modify_gpio (GPDUP h) (gpdup mi) (gpdup_mask mi) s;
          s = modify_gpio (GPDCON h) (gpdcon mi) (gpdcon_mask mi) s;
          s = writel 0 (lcd_base s + TPAL h) s in
      writel (lpcsel mi) (lcd_base s + LPCSEL h) s)"

section \<open>The palette\<close>

abbreviation pal_reg :: "lcd_h \<Rightarrow> 'a lcd_scheme \<Rightarrow> nat \<Rightarrow> 32 word" where
  "pal_reg h s i \<equiv> lcd_base s + TFTPAL h (of_nat i)"

text \<open>A write to the register of entry \<open>i\<close>, which may be lost.\<close>

definition writel_pal :: "lcd_h \<Rightarrow> nat \<Rightarrow> 32 word \<Rightarrow> 'a lcd_scheme \<Rightarrow> 'a lcd_scheme" where
  "writel_pal h i v s =
     (if i \<in> pal_takes s then writel v (pal_reg h s i) s else s\<lparr>io_log := io_log s @ [(pal_reg h s i, v)]\<rparr>)"

text \<open>Lines 318 to 337: one entry, and the loop over all of them.\<close>

definition write_entry :: "lcd_h \<Rightarrow> nat \<Rightarrow> 'a lcd_scheme \<Rightarrow> 'a lcd_scheme" where
  "write_entry h i s =
     (let ent = palette_buffer s ! i in
      if ent = PALETTE_BUFF_CLEAR then s
      else (let s = writel_pal h i ent s in
            if ucast (readw (pal_reg h s i) s) = ent then s\<lparr>palette_buffer := (palette_buffer s)[i := PALETTE_BUFF_CLEAR]\<rparr>
            else s\<lparr>palette_ready := 1\<rparr>))"

definition write_palette :: "lcd_h \<Rightarrow> 'a lcd_scheme \<Rightarrow> 'a lcd_scheme" where
  "write_palette h s = fold (write_entry h) [0..<256] (s\<lparr>palette_ready := 0\<rparr>)"

definition lcd_fb_irq :: "lcd_h \<Rightarrow> 'a lcd_scheme \<Rightarrow> 'a lcd_scheme" where
  "lcd_fb_irq h s =
     (let irq_base = lcd_base s + LCDINTBASE h; lcdirq = readl (irq_base + LCDINTPND h) s in
      if lcdirq AND LCDINT_FRSYNC h \<noteq> 0 then
        (let s = (if palette_ready s \<noteq> 0 then write_palette h s else s);
             s = writel_ack (LCDINT_FRSYNC h) (irq_base + LCDINTPND h) s in
         writel_ack (LCDINT_FRSYNC h) (irq_base + LCDSRCPND h) s)
      else s)"

definition schedule_palette_update :: "lcd_h \<Rightarrow> nat \<Rightarrow> 32 word \<Rightarrow> 'a lcd_scheme \<Rightarrow> 'a lcd_scheme" where
  "schedule_palette_update h regno v s =
     (let irq_base = lcd_base s + LCDINTBASE h; s = s\<lparr>palette_buffer := (palette_buffer s)[regno := v]\<rparr> in
      if palette_ready s = 0 then
        (let s = s\<lparr>palette_ready := 1\<rparr>;
             irqen = readl (irq_base + LCDINTMSK h) s AND NOT (LCDINT_FRSYNC h) in
         writel irqen (irq_base + LCDINTMSK h) s)
      else s)"

text \<open>A shift by 32 or more, which C leaves undefined, gives 0 here; check_var sets no such length.\<close>

definition chan_to_field :: "32 word \<Rightarrow> bitfield \<Rightarrow> 32 word" where
  "chan_to_field chan bf =
     (let chan = chan AND 0xffff; chan = drop_bit (unat (16 - bf_length bf)) chan in push_bit (unat (bf_offset bf)) chan)"

text \<open>The 16 bit colour of a palette entry, lines 971 to 973.\<close>

definition pal_565 :: "32 word \<Rightarrow> 32 word \<Rightarrow> 32 word \<Rightarrow> 32 word" where
  "pal_565 red green blue =
     (drop_bit 0 red AND 0xf800) OR (drop_bit 5 green AND 0x07e0) OR (drop_bit 11 blue AND 0x001f)"

definition setcolreg :: "lcd_h \<Rightarrow> 32 word \<Rightarrow> 32 word \<Rightarrow> 32 word \<Rightarrow> 32 word \<Rightarrow> 'a lcd_scheme \<Rightarrow> (int \<times> 'a lcd_scheme) res" where
  "setcolreg h regno red green blue s =
     (case fx_visual (fix_par s) of
        VISUAL_TRUECOLOR \<Rightarrow>
          if regno < 16 then
            (case pseudo_palette s of
               None \<Rightarrow> Inl (UB ''setcolreg: pseudo_palette is NULL'')
             | Some pal \<Rightarrow>
                 (let val = chan_to_field red (v_red (var_par s)) OR chan_to_field green (v_green (var_par s))
                              OR chan_to_field blue (v_blue (var_par s)) in
                  Inr (0, s\<lparr>pseudo_palette := Some (pal[unat regno := val])\<rparr>)))
          else Inr (0, s)
      | VISUAL_PSEUDOCOLOR \<Rightarrow>
          if regno < 256 then
            (let val = pal_565 red green blue;
                 s = writel_pal h (unat regno) val s in
             Inr (0, schedule_palette_update h (unat regno) val s))
          else Inr (0, s)
      | _ \<Rightarrow> Inr (1, s))"


section \<open>What the palette shows\<close>

text \<open>What the code relies on: the palette registers are different from each other and from the
  interrupt registers, which are three, and the frame interrupt has a bit in them.\<close>

definition palette_ram :: "lcd_h \<Rightarrow> bool" where
  "palette_ram h \<longleftrightarrow> inj_on (TFTPAL h) {i. i < 256}
     \<and> (\<forall>i < 256. TFTPAL h i \<notin> {LCDINTBASE h + LCDINTPND h, LCDINTBASE h + LCDSRCPND h, LCDINTBASE h + LCDINTMSK h})
     \<and> distinct [LCDINTPND h, LCDSRCPND h, LCDINTMSK h] \<and> LCDINT_FRSYNC h \<noteq> 0"

text \<open>The registers of the palette are 16 bits wide. The colour of entry \<open>i\<close>: the one that is waiting for the
  frame interrupt, else the register's.\<close>

definition pal_colour :: "lcd_h \<Rightarrow> 'a lcd_scheme \<Rightarrow> nat \<Rightarrow> 32 word" where
  "pal_colour h s i = ucast (readw (pal_reg h s i) s)"

definition shown :: "lcd_h \<Rightarrow> 'a lcd_scheme \<Rightarrow> nat \<Rightarrow> 32 word" where
  "shown h s i = (if palette_buffer s ! i = PALETTE_BUFF_CLEAR then pal_colour h s i else palette_buffer s ! i)"

definition buffer_ok :: "'a lcd_scheme \<Rightarrow> bool" where
  "buffer_ok s \<longleftrightarrow> length (palette_buffer s) = 256
     \<and> (\<forall>i < 256. palette_buffer s ! i = PALETTE_BUFF_CLEAR \<or> palette_buffer s ! i < 2 ^ 16)"

definition palette_inv :: "'a lcd_scheme \<Rightarrow> bool" where
  "palette_inv s \<longleftrightarrow> length (palette_buffer s) = 256
     \<and> (\<forall>i < 256. palette_buffer s ! i = PALETTE_BUFF_CLEAR \<or> palette_buffer s ! i < 2 ^ 16)
     \<and> (palette_ready s = 0 \<longrightarrow> (\<forall>i < 256. palette_buffer s ! i = PALETTE_BUFF_CLEAR))"

lemma palette_inv_alt:
  "palette_inv s \<longleftrightarrow> buffer_ok s \<and> (palette_ready s = 0 \<longrightarrow> (\<forall>i < 256. palette_buffer s ! i = PALETTE_BUFF_CLEAR))"
  by (auto simp: palette_inv_def buffer_ok_def)

text \<open>When something waits, the frame interrupt is not masked.\<close>

definition frame_mask :: "lcd_h \<Rightarrow> 'a lcd_scheme \<Rightarrow> 32 word" where
  "frame_mask h s = readl (lcd_base s + LCDINTBASE h + LCDINTMSK h) s AND LCDINT_FRSYNC h"

definition unmasked :: "lcd_h \<Rightarrow> 'a lcd_scheme \<Rightarrow> bool" where
  "unmasked h s \<longleftrightarrow> (palette_ready s \<noteq> 0 \<longrightarrow> frame_mask h s = 0)"

lemma of_nat_less_256: "i < 256 \<Longrightarrow> (of_nat i :: 32 word) < 256"
  by (simp add: word_less_nat_alt unat_of_nat)

lemma pal_reg_inj:
  assumes "palette_ram h" "i < 256" "j < 256"
  shows "TFTPAL h (of_nat i) = TFTPAL h (of_nat j) \<longleftrightarrow> i = j"
proof
  assume "TFTPAL h (of_nat i) = TFTPAL h (of_nat j)"
  then have "(of_nat i :: 32 word) = of_nat j"
    using assms by (auto simp: palette_ram_def of_nat_less_256 dest: inj_onD)
  then have "unat (of_nat i :: 32 word) = unat (of_nat j :: 32 word)" by simp
  then show "i = j" using assms(2,3) by (simp add: unat_of_nat)
qed simp

lemma pal_reg_irq:
  assumes "palette_ram h" "i < 256"
  shows "TFTPAL h (of_nat i) \<noteq> LCDINTBASE h + LCDINTPND h" "TFTPAL h (of_nat i) \<noteq> LCDINTBASE h + LCDSRCPND h"
    "TFTPAL h (of_nat i) \<noteq> LCDINTBASE h + LCDINTMSK h"
  using assms of_nat_less_256 [OF assms(2)] by (auto simp: palette_ram_def)

lemma buff_clear_large: "\<not> PALETTE_BUFF_CLEAR < 2 ^ 16"
  by (simp add: PALETTE_BUFF_CLEAR_def)

text \<open>What is left alone by the operations on the palette.\<close>

definition lcd_rest :: "'a lcd_scheme \<Rightarrow> 'a lcd_scheme" where
  "lcd_rest s = s\<lparr>mem := (\<lambda>_. 0), io_log := [], palette_buffer := [], palette_ready := 0, pal_takes := {}\<rparr>"

lemma lcd_restD:
  assumes "lcd_rest s' = lcd_rest s"
  shows "lcd_base s' = lcd_base s" "fix_par s' = fix_par s" "var_par s' = var_par s" "regs s' = regs s"
    "pseudo_palette s' = pseudo_palette s" "klog s' = klog s"
  using arg_cong [OF assms, of lcd_base] arg_cong [OF assms, of fix_par] arg_cong [OF assms, of var_par]
    arg_cong [OF assms, of regs] arg_cong [OF assms, of pseudo_palette] arg_cong [OF assms, of klog]
  by (simp_all add: lcd_rest_def)

lemma lcd_rest_simps [simp]:
  "lcd_rest (writel v a s) = lcd_rest s" "lcd_rest (s\<lparr>palette_buffer := b\<rparr>) = lcd_rest s"
  "lcd_rest (s\<lparr>palette_ready := r\<rparr>) = lcd_rest s" "lcd_rest (s\<lparr>mem := m\<rparr>) = lcd_rest s"
  "lcd_rest (s\<lparr>pal_takes := T\<rparr>) = lcd_rest s" "lcd_rest (writel_ack v a s) = lcd_rest s"
  "lcd_rest (writel_pal h i v s) = lcd_rest s"
  by (simp_all add: lcd_rest_def writel_def writel_ack_def writel_pal_def)

lemma writel_fields [simp]:
  "lcd_base (writel v a s) = lcd_base s" "palette_buffer (writel v a s) = palette_buffer s"
  "palette_ready (writel v a s) = palette_ready s" "fix_par (writel v a s) = fix_par s"
  "var_par (writel v a s) = var_par s" "regs (writel v a s) = regs s"
  "pseudo_palette (writel v a s) = pseudo_palette s" "klog (writel v a s) = klog s"
  "pal_takes (writel v a s) = pal_takes s"
  by (simp_all add: writel_def)

lemma writel_pal_fields [simp]:
  "lcd_base (writel_pal h i v s) = lcd_base s" "palette_buffer (writel_pal h i v s) = palette_buffer s"
  "palette_ready (writel_pal h i v s) = palette_ready s" "pal_takes (writel_pal h i v s) = pal_takes s"
  by (simp_all add: writel_pal_def)

lemma writel_ack_fields [simp]:
  "lcd_base (writel_ack v a s) = lcd_base s" "palette_buffer (writel_ack v a s) = palette_buffer s"
  "palette_ready (writel_ack v a s) = palette_ready s" "pal_takes (writel_ack v a s) = pal_takes s"
  by (simp_all add: writel_ack_def)

lemma readl_update [simp]:
  "readl a (s\<lparr>palette_buffer := b\<rparr>) = readl a s" "readl a (s\<lparr>palette_ready := r\<rparr>) = readl a s"
  "readl a (s\<lparr>pal_takes := T\<rparr>) = readl a s"
  by (simp_all add: readl_def)

lemma readl_writel_pal:
  "readl a (writel_pal h i v s) = (if i \<in> pal_takes s \<and> a = pal_reg h s i then v else readl a s)"
  by (simp add: writel_pal_def readl_def writel_def)

lemma readl_writel_ack: "readl b (writel_ack v a s) = (if a = b then readl a s AND NOT v else readl b s)"
  by (simp add: writel_ack_def readl_def)

lemma pal_colour_readl: "pal_colour h s i = ucast (ucast (readl (pal_reg h s i) s) :: 16 word)"
  by (simp add: pal_colour_def readw_readl)

lemma ucast_16: "v < 2 ^ 16 \<Longrightarrow> ucast (ucast v :: 16 word) = v" for v :: "32 word"
  using ucast_readw_iff [of 0 "\<lparr>mem = \<lambda>_. v, io_log = []\<rparr>"] by (simp add: readw_def readl_def)

lemma pal_colour_writel_pal:
  assumes "palette_ram h" "i < 256" "j < 256" "v < 2 ^ 16"
  shows "pal_colour h (writel_pal h i v s) j = (if i \<in> pal_takes s \<and> i = j then v else pal_colour h s j)"
proof -
  have "readl (pal_reg h s j) (writel_pal h i v s) = (if i \<in> pal_takes s \<and> i = j then v else readl (pal_reg h s j) s)"
    using pal_reg_inj [OF assms(1-3)] by (simp add: readl_writel_pal eq_commute)
  then show ?thesis by (auto simp: pal_colour_readl ucast_16 [OF assms(4)])
qed

section \<open>The loop over the entries\<close>

text \<open>What the work of the interrupt handler on the entries of \<open>D\<close> keeps and gives: every entry shows the
  same colour as before; one whose register takes the write is no longer waiting, and when one of them is
  left the flag says so.\<close>

definition pal_step :: "lcd_h \<Rightarrow> nat set \<Rightarrow> 'a lcd_scheme \<Rightarrow> 'a lcd_scheme \<Rightarrow> bool" where
  "pal_step h D s s' \<longleftrightarrow> lcd_rest s' = lcd_rest s \<and> pal_takes s' = pal_takes s \<and> frame_mask h s' = frame_mask h s
     \<and> buffer_ok s' \<and> (palette_ready s \<noteq> 0 \<longrightarrow> palette_ready s' \<noteq> 0)
     \<and> (\<forall>j < 256. shown h s' j = shown h s j \<and> (palette_buffer s ! j = PALETTE_BUFF_CLEAR \<longrightarrow> palette_buffer s' ! j = PALETTE_BUFF_CLEAR)
         \<and> (j \<in> D \<longrightarrow> (palette_buffer s' ! j = PALETTE_BUFF_CLEAR \<or> palette_ready s' \<noteq> 0)
             \<and> (j \<in> pal_takes s \<longrightarrow> palette_buffer s' ! j = PALETTE_BUFF_CLEAR)))"

lemma pal_step_refl: "buffer_ok s \<Longrightarrow> pal_step h {} s s"
  by (simp add: pal_step_def)

lemma pal_step_trans: "pal_step h D s t \<Longrightarrow> pal_step h E t u \<Longrightarrow> pal_step h (D \<union> E) s u"
  unfolding pal_step_def by (simp, blast)

lemma write_entry_step:
  assumes "palette_ram h" "i < 256" "buffer_ok s"
  shows "pal_step h {i} s (write_entry h i s)"
proof (cases "palette_buffer s ! i = PALETTE_BUFF_CLEAR")
  case True
  then show ?thesis using assms(3) by (simp add: write_entry_def pal_step_def)
next
  case False
  define e where "e = palette_buffer s ! i"
  have e: "e < 2 ^ 16" "e \<noteq> PALETTE_BUFF_CLEAR" using False assms(2,3) by (auto simp: buffer_ok_def e_def)
  let ?w = "writel_pal h i e s"
  have len: "length (palette_buffer s) = 256" using assms(3) by (simp add: buffer_ok_def)
  have col: "pal_colour h ?w j = (if i \<in> pal_takes s \<and> i = j then e else pal_colour h s j)" if "j < 256" for j
    using pal_colour_writel_pal [OF assms(1,2) that e(1)] .
  have msk: "frame_mask h ?w = frame_mask h s"
    using pal_reg_irq(3) [OF assms(1,2)] by (auto simp: frame_mask_def readl_writel_pal add.assoc)
  show ?thesis
  proof (cases "pal_colour h ?w i = e")
    case True
    let ?u = "?w\<lparr>palette_buffer := (palette_buffer s)[i := PALETTE_BUFF_CLEAR]\<rparr>"
    have w: "write_entry h i s = ?u"
      using e True by (simp add: write_entry_def Let_def pal_colour_def flip: e_def)
    have "shown h ?u j = shown h s j" if "j < 256" for j
      using col [OF that] True len assms(2) that e by (cases "j = i") (auto simp: shown_def pal_colour_readl e_def)
    moreover have "frame_mask h ?u = frame_mask h ?w" by (simp add: frame_mask_def)
    moreover have "buffer_ok ?u" using assms(2,3) by (auto simp: buffer_ok_def nth_list_update)
    ultimately show ?thesis unfolding w using msk len assms(2) by (auto simp: pal_step_def nth_list_update)
  next
    case False
    let ?u = "?w\<lparr>palette_ready := 1\<rparr>"
    have "i \<notin> pal_takes s" using False col [OF assms(2)] by auto
    moreover have w: "write_entry h i s = ?u"
      using e False by (simp add: write_entry_def Let_def pal_colour_def flip: e_def)
    moreover have "frame_mask h ?u = frame_mask h ?w" by (simp add: frame_mask_def)
    moreover have "buffer_ok ?u" using assms(3) by (simp add: buffer_ok_def)
    moreover have "shown h ?u j = shown h s j" if "j < 256" for j
      using col [OF that] calculation(1) by (simp add: shown_def pal_colour_readl)
    ultimately show ?thesis unfolding w using msk by (simp add: pal_step_def)
  qed
qed

lemma write_entries_step:
  assumes "palette_ram h"
  shows "set is \<subseteq> {..<256} \<Longrightarrow> buffer_ok s \<Longrightarrow> pal_step h (set is) s (fold (write_entry h) is s)"
proof (induction "is" arbitrary: s)
  case (Cons i "is")
  have i: "pal_step h {i} s (write_entry h i s)" by (rule write_entry_step [OF assms]) (use Cons.prems in simp_all)
  then have "buffer_ok (write_entry h i s)" by (simp add: pal_step_def)
  with Cons have "pal_step h (set is) (write_entry h i s) (fold (write_entry h) is (write_entry h i s))" by simp
  from pal_step_trans [OF i this] show ?case by simp
qed (simp add: pal_step_refl)

lemma shown_ready [simp]: "shown h (s\<lparr>palette_ready := r\<rparr>) j = shown h s j"
  by (simp add: shown_def pal_colour_readl)

text \<open>The whole palette: the entries that take their writes no longer wait.\<close>

definition pal_done :: "lcd_h \<Rightarrow> nat set \<Rightarrow> 'a lcd_scheme \<Rightarrow> 'a lcd_scheme \<Rightarrow> bool" where
  "pal_done h T s s' \<longleftrightarrow> lcd_rest s' = lcd_rest s \<and> palette_inv s' \<and> frame_mask h s' = frame_mask h s
     \<and> (\<forall>j < 256. shown h s' j = shown h s j
         \<and> (palette_buffer s ! j = PALETTE_BUFF_CLEAR \<or> j \<in> T \<longrightarrow> palette_buffer s' ! j = PALETTE_BUFF_CLEAR))"

lemma write_palette_done:
  assumes "palette_ram h" "palette_inv s"
  shows "pal_done h (pal_takes s) s (write_palette h s)"
proof -
  let ?s = "s\<lparr>palette_ready := 0\<rparr>"
  have "set [0..<256] \<subseteq> {..<256::nat}" by auto
  moreover have "buffer_ok ?s" using assms(2) by (simp add: palette_inv_alt buffer_ok_def)
  ultimately have "pal_step h (set [0..<256]) ?s (write_palette h s)"
    unfolding write_palette_def by (rule write_entries_step [OF assms(1)])
  moreover have "frame_mask h ?s = frame_mask h s" by (simp add: frame_mask_def)
  ultimately show ?thesis
    unfolding pal_step_def pal_done_def palette_inv_alt by (simp, meson)
qed

lemma pal_colour_ack:
  "a \<noteq> pal_reg h s j \<Longrightarrow> pal_colour h (writel_ack v a s) j = pal_colour h s j"
  by (simp add: pal_colour_readl readl_writel_ack)

lemma irq_palette:
  assumes "palette_ram h" "palette_inv s" "readl (lcd_base s + LCDINTBASE h + LCDINTPND h) s AND LCDINT_FRSYNC h \<noteq> 0"
  shows "pal_done h (if palette_ready s \<noteq> 0 then pal_takes s else {}) s (lcd_fb_irq h s)"
proof -
  define t where "t = (if palette_ready s \<noteq> 0 then write_palette h s else s)"
  have t: "pal_done h (if palette_ready s \<noteq> 0 then pal_takes s else {}) s t"
    using write_palette_done [OF assms(1,2)] assms(2) by (auto simp: t_def pal_done_def)
  then have b: "lcd_base t = lcd_base s" using lcd_restD(1) by (auto simp: pal_done_def)
  let ?p = "lcd_base s + LCDINTBASE h + LCDINTPND h" and ?q = "lcd_base s + LCDINTBASE h + LCDSRCPND h"
    and ?m = "lcd_base s + LCDINTBASE h + LCDINTMSK h"
  have ne: "?p \<noteq> pal_reg h t j" "?q \<noteq> pal_reg h t j" if "j < 256" for j
    using pal_reg_irq [OF assms(1) that] b by (auto simp: add.assoc)
  have m: "?p \<noteq> ?m" "?q \<noteq> ?m" using assms(1) by (auto simp: palette_ram_def)
  let ?u = "writel_ack (LCDINT_FRSYNC h) ?q (writel_ack (LCDINT_FRSYNC h) ?p t)"
  have u: "lcd_fb_irq h s = ?u" using assms(3) by (simp add: lcd_fb_irq_def t_def Let_def)
  have "frame_mask h ?u = frame_mask h t" using m b by (simp add: frame_mask_def readl_writel_ack)
  moreover have "\<forall>j < 256. shown h ?u j = shown h t j" using ne by (simp add: shown_def pal_colour_ack)
  moreover have "palette_inv ?u = palette_inv t" by (simp add: palette_inv_def)
  ultimately show ?thesis unfolding u using t by (simp add: pal_done_def)
qed

lemma and_small: "m AND 0xffff = m \<Longrightarrow> take_bit 16 (x AND m) = x AND m" for x m :: "32 word"
  by (simp add: take_bit_eq_mask mask_numeral and.assoc)

lemma pal_565_small: "pal_565 r g b < 2 ^ 16"
proof -
  have "take_bit 16 (pal_565 r g b) = pal_565 r g b" by (simp add: pal_565_def and_small del: take_bit_and)
  then show ?thesis by (simp only: take_bit_16_iff)
qed

section \<open>Setting a colour\<close>

text \<open>After the update is scheduled the colour waits and the frame interrupt is not masked.\<close>

lemma schedule_update:
  assumes "palette_ram h" "palette_inv s" "unmasked h s" "i < 256" "v < 2 ^ 16"
  shows "lcd_rest (schedule_palette_update h i v s) = lcd_rest s \<and> palette_inv (schedule_palette_update h i v s)
    \<and> unmasked h (schedule_palette_update h i v s)
    \<and> palette_buffer (schedule_palette_update h i v s) = (palette_buffer s)[i := v]
    \<and> (\<forall>j < 256. pal_colour h (schedule_palette_update h i v s) j = pal_colour h s j)"
proof (cases "palette_ready s = 0")
  case True
  let ?m = "lcd_base s + LCDINTBASE h + LCDINTMSK h"
  let ?t = "s\<lparr>palette_buffer := (palette_buffer s)[i := v], palette_ready := 1\<rparr>"
  let ?u = "writel (readl ?m ?t AND NOT (LCDINT_FRSYNC h)) ?m ?t"
  have u: "schedule_palette_update h i v s = ?u" using True by (simp add: schedule_palette_update_def Let_def)
  have "frame_mask h ?u = 0"
    by (simp add: frame_mask_def io.rd_wr and.assoc bit.conj_cancel_left bit.conj_cancel_right)
  moreover have "?m \<noteq> pal_reg h s j" if "j < 256" for j
    using pal_reg_irq(3) [OF assms(1) that, THEN not_sym] by (simp add: add.assoc)
  then have "\<forall>j < 256. pal_colour h ?u j = pal_colour h s j" by (simp add: pal_colour_readl io.rd_wr)
  moreover have "palette_inv ?u" using assms(2,4,5) by (auto simp: palette_inv_def nth_list_update)
  ultimately show ?thesis unfolding u by (simp add: unmasked_def)
next
  case False
  let ?t = "s\<lparr>palette_buffer := (palette_buffer s)[i := v]\<rparr>"
  have u: "schedule_palette_update h i v s = ?t" using False by (simp add: schedule_palette_update_def Let_def)
  have "frame_mask h ?t = frame_mask h s" by (simp add: frame_mask_def)
  moreover have "palette_inv ?t" using False assms(2,4,5) by (auto simp: palette_inv_def nth_list_update)
  ultimately show ?thesis unfolding u using assms(3) by (simp add: unmasked_def pal_colour_readl)
qed

lemma setcolreg_palette:
  assumes ram: "palette_ram h" and inv: "palette_inv s" "unmasked h s" and vis: "fx_visual (fix_par s) = VISUAL_PSEUDOCOLOR"
  shows "\<exists>s'. setcolreg h n r g b s = Inr (0, s') \<and> lcd_rest s' = lcd_rest s \<and> palette_inv s' \<and> unmasked h s'
    \<and> (\<forall>j < 256. shown h s' j = (if j = unat n then pal_565 r g b else shown h s j)
        \<and> (palette_buffer s ! j = PALETTE_BUFF_CLEAR \<and> j \<noteq> unat n \<longrightarrow> palette_buffer s' ! j = PALETTE_BUFF_CLEAR))"
proof (cases "n < 256")
  case False
  then have "\<forall>j < 256. j \<noteq> unat n" by (auto simp: word_less_nat_alt)
  with False assms show ?thesis by (simp add: setcolreg_def)
next
  case True
  define i where "i = unat n"
  have i: "i < 256" using True by (simp add: i_def word_less_nat_alt)
  let ?v = "pal_565 r g b"
  let ?t = "writel_pal h i ?v s"
  let ?u = "schedule_palette_update h i ?v ?t"
  have len: "length (palette_buffer s) = 256" using inv by (simp add: palette_inv_def)
  have nc: "?v \<noteq> PALETTE_BUFF_CLEAR" using pal_565_small [of r g b] buff_clear_large by auto
  have "frame_mask h ?t = frame_mask h s"
    using pal_reg_irq(3) [OF ram i] by (auto simp: frame_mask_def readl_writel_pal add.assoc)
  then have t: "palette_inv ?t" "unmasked h ?t" using inv by (simp_all add: palette_inv_def unmasked_def)
  note u = schedule_update [OF ram t i pal_565_small, of r g b]
  have "shown h ?u j = (if j = i then ?v else shown h s j)" if "j < 256" for j
    using u that len i nc pal_colour_writel_pal [OF ram i that pal_565_small, of r g b]
    by (auto simp: shown_def nth_list_update)
  moreover have "setcolreg h n r g b s = Inr (0, ?u)" using True vis by (simp add: setcolreg_def Let_def i_def)
  ultimately show ?thesis using u len i by (intro exI [of _ ?u]) (auto simp: nth_list_update i_def)
qed


section \<open>Colours and frames\<close>

text \<open>
  The palette over time: colours are set and frames end, and each time the controller takes the writes
  to some of its palette registers (\<open>T\<close>) and not to the others. At the end of a frame the
  source pending bit of the frame interrupt is set, and its pending bit when it is not masked; the
  handler runs when a bit is pending. \<open>colours\<close> is the specification: the last colour set for
  each entry; \<open>settled\<close> tells whether a frame since then has taken a write to its register.
\<close>

definition frame_sync :: "lcd_h \<Rightarrow> 'a lcd_scheme \<Rightarrow> 'a lcd_scheme" where
  "frame_sync h s =
     (let irq = lcd_base s + LCDINTBASE h; f = LCDINT_FRSYNC h;
          s = s\<lparr>mem := (mem s)(irq + LCDSRCPND h := readl (irq + LCDSRCPND h) s OR f)\<rparr> in
      if readl (irq + LCDINTMSK h) s AND f = 0 then s\<lparr>mem := (mem s)(irq + LCDINTPND h := readl (irq + LCDINTPND h) s OR f)\<rparr>
      else s)"

datatype pal_event = SetColor "nat set" "32 word" "32 word" "32 word" "32 word" | Frame "nat set"

fun pal_run :: "lcd_h \<Rightarrow> pal_event list \<Rightarrow> 'a lcd_scheme \<Rightarrow> 'a lcd_scheme res" where
  "pal_run h [] s = Inr s"
| "pal_run h (SetColor T n r g b # es) s = bindR (setcolreg h n r g b (s\<lparr>pal_takes := T\<rparr>)) (\<lambda>(_, s). pal_run h es s)"
| "pal_run h (Frame T # es) s =
     (let s = frame_sync h (s\<lparr>pal_takes := T\<rparr>) in
      pal_run h es (if readl (lcd_base s + LCDINTBASE h + LCDINTPND h) s \<noteq> 0 then lcd_fb_irq h s else s))"

fun colours :: "pal_event list \<Rightarrow> (nat \<Rightarrow> 32 word) \<Rightarrow> nat \<Rightarrow> 32 word" where
  "colours [] f = f"
| "colours (SetColor T n r g b # es) f = colours es (f(unat n := pal_565 r g b))"
| "colours (Frame T # es) f = colours es f"

fun settled :: "pal_event list \<Rightarrow> (nat \<Rightarrow> bool) \<Rightarrow> nat \<Rightarrow> bool" where
  "settled [] f = f"
| "settled (SetColor T n r g b # es) f = settled es (f(unat n := False))"
| "settled (Frame T # es) f = settled es (\<lambda>i. f i \<or> i \<in> T)"

lemma colours_cong: "\<forall>j < 256. f j = g j \<Longrightarrow> \<forall>j < 256. colours es f j = colours es g j"
  by (induction es f arbitrary: g rule: colours.induct) auto

lemma settled_mono: "\<forall>j < 256. f j \<longrightarrow> g j \<Longrightarrow> \<forall>j < 256. settled es f j \<longrightarrow> settled es g j"
proof (induction es f arbitrary: g rule: settled.induct)
  case (2 T n r v b es f)
  then have "\<forall>j < 256. (f(unat n := False)) j \<longrightarrow> (g(unat n := False)) j" by auto
  from "2.IH" [OF this] show ?case by (simp only: settled.simps)
next
  case (3 T es f)
  then have "\<forall>j < 256. f j \<or> j \<in> T \<longrightarrow> g j \<or> j \<in> T" by auto
  from "3.IH" [OF this] show ?case by (simp only: settled.simps)
qed simp

lemma frame_sync_fields [simp]:
  "lcd_rest (frame_sync h s) = lcd_rest s" "lcd_base (frame_sync h s) = lcd_base s" "pal_takes (frame_sync h s) = pal_takes s"
  "palette_buffer (frame_sync h s) = palette_buffer s" "palette_ready (frame_sync h s) = palette_ready s"
  by (simp_all add: frame_sync_def Let_def)

text \<open>The end of a frame changes nothing of the palette and the mask; when the interrupt is not masked it is pending.\<close>

lemma frame_sync_palette:
  assumes "palette_ram h"
  shows "palette_inv (frame_sync h s) = palette_inv s" "frame_mask h (frame_sync h s) = frame_mask h s"
    "j < 256 \<Longrightarrow> shown h (frame_sync h s) j = shown h s j"
    "frame_mask h s = 0 \<Longrightarrow> readl (lcd_base s + LCDINTBASE h + LCDINTPND h) (frame_sync h s) AND LCDINT_FRSYNC h \<noteq> 0"
proof -
  show "palette_inv (frame_sync h s) = palette_inv s" by (simp add: palette_inv_def)
  have d: "LCDINTMSK h \<noteq> LCDINTPND h" "LCDINTMSK h \<noteq> LCDSRCPND h" "LCDINTPND h \<noteq> LCDSRCPND h" "LCDINT_FRSYNC h \<noteq> 0"
    using assms by (auto simp: palette_ram_def)
  show "frame_mask h (frame_sync h s) = frame_mask h s"
    using d by (simp add: frame_mask_def frame_sync_def Let_def readl_def)
  show "shown h (frame_sync h s) j = shown h s j" if "j < 256"
    using pal_reg_irq [OF assms that] by (simp add: shown_def pal_colour_readl frame_sync_def Let_def readl_def add.assoc)
  have "(x OR f) AND f = f" for x f :: "32 word" by (auto simp: bit_eq_iff bit_simps)
  then show "readl (lcd_base s + LCDINTBASE h + LCDINTPND h) (frame_sync h s) AND LCDINT_FRSYNC h \<noteq> 0" if "frame_mask h s = 0"
    using that d by (simp add: frame_mask_def frame_sync_def Let_def readl_def)
qed

text \<open>One frame: what waits and can be written is written.\<close>

definition frame_step :: "lcd_h \<Rightarrow> nat set \<Rightarrow> 'a lcd_scheme \<Rightarrow> 'a lcd_scheme" where
  "frame_step h T s =
     (let s = frame_sync h (s\<lparr>pal_takes := T\<rparr>) in
      if readl (lcd_base s + LCDINTBASE h + LCDINTPND h) s \<noteq> 0 then lcd_fb_irq h s else s)"

lemma pal_run_Frame: "pal_run h (Frame T # es) s = pal_run h es (frame_step h T s)"
  by (simp add: frame_step_def Let_def)

lemma pal_takes_palette [simp]:
  "palette_inv (s\<lparr>pal_takes := T\<rparr>) = palette_inv s" "frame_mask h (s\<lparr>pal_takes := T\<rparr>) = frame_mask h s"
  "shown h (s\<lparr>pal_takes := T\<rparr>) j = shown h s j" "unmasked h (s\<lparr>pal_takes := T\<rparr>) = unmasked h s"
  by (simp_all add: palette_inv_def frame_mask_def shown_def pal_colour_readl unmasked_def)

lemma frame_step_done:
  assumes "palette_ram h" "palette_inv s" "unmasked h s"
  shows "pal_done h T s (frame_step h T s) \<and> unmasked h (frame_step h T s)"
proof -
  let ?f = "frame_sync h (s\<lparr>pal_takes := T\<rparr>)"
  let ?p = "readl (lcd_base s + LCDINTBASE h + LCDINTPND h) ?f"
  note f = frame_sync_palette [OF assms(1), where s = "s\<lparr>pal_takes := T\<rparr>", simplified]
  have inv: "palette_inv ?f" using f(1) assms(2) by simp
  show ?thesis
  proof (cases "?p AND LCDINT_FRSYNC h = 0")
    case True
    then have "frame_step h T s = ?f" by (simp add: frame_step_def Let_def lcd_fb_irq_def)
    moreover have "palette_ready s = 0" using f(4) True assms(3) by (auto simp: unmasked_def)
    then have "\<forall>j < 256. palette_buffer s ! j = PALETTE_BUFF_CLEAR" using assms(2) by (simp add: palette_inv_def)
    ultimately show ?thesis using f inv \<open>palette_ready s = 0\<close> by (simp add: pal_done_def unmasked_def)
  next
    case False
    then have p: "readl (lcd_base ?f + LCDINTBASE h + LCDINTPND h) ?f AND LCDINT_FRSYNC h \<noteq> 0" by simp
    from False have "?p \<noteq> 0" by auto
    then have s: "frame_step h T s = lcd_fb_irq h ?f" by (simp add: frame_step_def Let_def)
    have "pal_done h (if palette_ready s \<noteq> 0 then T else {}) ?f (lcd_fb_irq h ?f)"
      using irq_palette [OF assms(1) inv p] by (simp split: if_splits)
    moreover have "palette_ready s = 0 \<Longrightarrow> \<forall>j < 256. palette_buffer s ! j = PALETTE_BUFF_CLEAR"
      using assms(2) by (simp add: palette_inv_def)
    ultimately have d: "pal_done h T s (lcd_fb_irq h ?f)" using f by (auto simp: pal_done_def split: if_splits)
    moreover have "unmasked h (lcd_fb_irq h ?f)"
    proof (cases "palette_ready s = 0")
      case True
      then have "lcd_fb_irq h ?f = writel_ack (LCDINT_FRSYNC h) (lcd_base s + LCDINTBASE h + LCDSRCPND h)
          (writel_ack (LCDINT_FRSYNC h) (lcd_base s + LCDINTBASE h + LCDINTPND h) ?f)"
        using p by (simp add: lcd_fb_irq_def Let_def)
      then show ?thesis using True by (simp add: unmasked_def)
    next
      case False
      then show ?thesis using d assms(3) by (simp add: pal_done_def unmasked_def)
    qed
    ultimately show ?thesis unfolding s by blast
  qed
qed

lemma pal_run_shows:
  assumes ram: "palette_ram h"
  shows "palette_inv s \<Longrightarrow> unmasked h s \<Longrightarrow> fx_visual (fix_par s) = VISUAL_PSEUDOCOLOR \<Longrightarrow>
    \<exists>s'. pal_run h es s = Inr s' \<and> lcd_rest s' = lcd_rest s \<and> palette_inv s'
      \<and> (\<forall>j < 256. shown h s' j = colours es (shown h s) j
          \<and> (settled es (\<lambda>i. palette_buffer s ! i = PALETTE_BUFF_CLEAR) j \<longrightarrow> palette_buffer s' ! j = PALETTE_BUFF_CLEAR))"
proof (induction es arbitrary: s)
  case (Cons e es)
  let ?w = "\<lambda>s i. palette_buffer s ! i = PALETTE_BUFF_CLEAR"
  show ?case
  proof (cases e)
    case (SetColor T n r g b)
    obtain s1 where s1: "setcolreg h n r g b (s\<lparr>pal_takes := T\<rparr>) = Inr (0, s1)" "lcd_rest s1 = lcd_rest s" "palette_inv s1" "unmasked h s1"
      "\<forall>j < 256. shown h s1 j = (if j = unat n then pal_565 r g b else shown h s j) \<and> (?w s j \<and> j \<noteq> unat n \<longrightarrow> ?w s1 j)"
      using setcolreg_palette [OF ram, of "s\<lparr>pal_takes := T\<rparr>" n r g b] Cons.prems by auto
    have "fx_visual (fix_par s1) = VISUAL_PSEUDOCOLOR" using lcd_restD(2) [OF s1(2)] Cons.prems(3) by simp
    from Cons.IH [OF s1(3,4) this] obtain s' where s': "pal_run h es s1 = Inr s'" "lcd_rest s' = lcd_rest s1" "palette_inv s'"
      "\<forall>j < 256. shown h s' j = colours es (shown h s1) j \<and> (settled es (?w s1) j \<longrightarrow> ?w s' j)" by blast
    have "\<forall>j < 256. colours es (shown h s1) j = colours es ((shown h s)(unat n := pal_565 r g b)) j"
      using s1(5) by (intro colours_cong) simp
    moreover have "\<forall>j < 256. settled es ((?w s)(unat n := False)) j \<longrightarrow> settled es (?w s1) j"
      using s1(5) by (intro settled_mono) simp
    ultimately show ?thesis using SetColor s1 s' by simp
  next
    case (Frame T)
    let ?i = "frame_step h T s"
    have d: "pal_done h T s ?i" "unmasked h ?i" using frame_step_done [OF ram Cons.prems(1,2), of T] by simp_all
    then have i: "lcd_rest ?i = lcd_rest s" "palette_inv ?i" "\<forall>j < 256. shown h ?i j = shown h s j"
      "\<forall>j < 256. ?w s j \<or> j \<in> T \<longrightarrow> ?w ?i j" by (simp_all add: pal_done_def)
    have "fx_visual (fix_par ?i) = VISUAL_PSEUDOCOLOR" using lcd_restD(2) [OF i(1)] Cons.prems(3) by simp
    from Cons.IH [OF i(2) d(2) this] obtain s' where s': "pal_run h es ?i = Inr s'" "lcd_rest s' = lcd_rest ?i" "palette_inv s'"
      "\<forall>j < 256. shown h s' j = colours es (shown h ?i) j \<and> (settled es (?w ?i) j \<longrightarrow> ?w s' j)" by blast
    have "\<forall>j < 256. settled es (\<lambda>j. ?w s j \<or> j \<in> T) j \<longrightarrow> settled es (?w ?i) j" by (rule settled_mono [OF i(4)])
    then show ?thesis unfolding Frame pal_run_Frame using i(1) s' colours_cong [OF i(3), of es] by simp
  qed
qed simp

text \<open>
  C9: The palette of a pseudo-colour mode, with a controller that takes a write to a palette register or
  not: after any sequence of colour changes and frames every entry whose register has taken a write
  of the frame interrupt since its last change holds that colour in hardware, whatever was refused before;
  so the driver retries until it is written, and the interrupt it needs for that is not masked. When
  nothing waits (palette_ready is 0) all the registers hold their last colours.
\<close>
theorem palette_refines:
  assumes "palette_ram h" and "palette_inv s" and "unmasked h s" and "fx_visual (fix_par s) = VISUAL_PSEUDOCOLOR"
  shows "\<exists>s'. pal_run h es s = Inr s'
    \<and> (\<forall>i < 256. settled es (\<lambda>i. palette_buffer s ! i = PALETTE_BUFF_CLEAR) i
         \<longrightarrow> ucast (readw (lcd_base s + TFTPAL h (of_nat i)) s') = colours es (shown h s) i)
    \<and> (palette_ready s' = 0 \<longrightarrow> (\<forall>i < 256. ucast (readw (lcd_base s + TFTPAL h (of_nat i)) s') = colours es (shown h s) i))"
proof -
  obtain s' where s': "pal_run h es s = Inr s'" "lcd_rest s' = lcd_rest s" "palette_inv s'"
    "\<forall>j < 256. shown h s' j = colours es (shown h s) j
          \<and> (settled es (\<lambda>i. palette_buffer s ! i = PALETTE_BUFF_CLEAR) j \<longrightarrow> palette_buffer s' ! j = PALETTE_BUFF_CLEAR)"
    using pal_run_shows [OF assms, of es] by blast
  have b: "lcd_base s' = lcd_base s" by (rule lcd_restD(1) [OF s'(2)])
  have "ucast (readw (lcd_base s + TFTPAL h (of_nat i)) s') = colours es (shown h s) i"
    if "i < 256" "palette_buffer s' ! i = PALETTE_BUFF_CLEAR" for i
    using s'(4) that by (auto simp: shown_def pal_colour_def b)
  moreover have "palette_ready s' = 0 \<Longrightarrow> \<forall>i < 256. palette_buffer s' ! i = PALETTE_BUFF_CLEAR"
    using s'(3) by (simp add: palette_inv_def)
  ultimately show ?thesis using s'(1,4) by blast
qed


section \<open>A concrete instance\<close>

text \<open>The macros with the values of the S3C2440 manual, for evaluation on concrete inputs.\<close>

definition s3c2440_h :: lcd_h where
  "s3c2440_h = \<lparr>LCDCON1 = 0x00, LCDCON2 = 0x04, LCDCON3 = 0x08, LCDCON4 = 0x0C, LCDCON5 = 0x10, LCDSADDR1 = 0x14,
     LCDSADDR2 = 0x18, LCDSADDR3 = 0x1C, TPAL = 0x50, TPAL_EN = 0x1000000, LPCSEL = 0x60, TFTPAL = (\<lambda>i. 0x400 + i * 4),
     LCDINTBASE = 0x54, LCDINTPND = 0, LCDSRCPND = 4, LCDINTMSK = 8, LCDINT_FRSYNC = 2, GPCUP = 0x56000028,
     GPCCON = 0x56000020, GPDUP = 0x56000038, GPDCON = 0x56000030, CON1_TFT = 0x60, CON1_STN4 = 0x20, CON1_ENVID = 1,
     CON1_CLKVAL = push_bit 8,
     CON1_TFT_BPP = (\<lambda>b. if b = 1 then 0x10 else if b = 2 then 0x12 else if b = 4 then 0x14 else if b = 8 then 0x16
       else if b = 16 then 0x18 else 0x1A),
     CON1_STN_BPP = (\<lambda>b. if b = 1 then 0 else if b = 2 then 2 else if b = 4 then 4 else if b = 8 then 6 else 8),
     CON2_LINEVAL = push_bit 14, CON2_VBPD = push_bit 24, CON2_VFPD = push_bit 6, CON2_VSPW = id, CON3_HBPD = push_bit 19,
     CON3_HFPD = id, CON3_HOZVAL = push_bit 8, CON3_WDLY = push_bit 19, CON3_LINEBLANK = id, CON4_HSPW = id,
     CON4_WLH = id, CON5_FRM565 = 0x800, CON5_BSWP = 2, CON5_HWSWP = 1, CON5_BPP24BL = 0x1000, OFFSIZE = push_bit 11,
     PAGEWIDTH = id\<rparr>"

definition no_field :: bitfield where "no_field = \<lparr>bf_offset = 0, bf_length = 0\<rparr>"

definition lcd_ex :: lcd where
  "lcd_ex = \<lparr>mem = (\<lambda>_. 0), io_log = [], lcd_base = 0x4D000000, regs = \<lparr>lcdcon1 = 0, lcdcon2 = 0, lcdcon3 = 0, lcdcon4 = 0, lcdcon5 = 0\<rparr>,
     palette_buffer = replicate 256 PALETTE_BUFF_CLEAR, palette_ready = 0, pal_takes = {}, pseudo_palette = None,
     fix_par = \<lparr>fx_id = [], fx_smem_start = 0, fx_smem_len = 0, fx_visual = VISUAL_PSEUDOCOLOR, fx_line_length = 0\<rparr>,
     var_par = \<lparr>v_xres = 0, v_yres = 0, v_xres_virtual = 0, v_yres_virtual = 0, v_bpp = 8, v_red = no_field, v_green = no_field,
       v_blue = no_field, v_transp = no_field, v_height = 0, v_width = 0, v_pixclock = 0, v_left_margin = 0, v_right_margin = 0,
       v_upper_margin = 0, v_lower_margin = 0, v_hsync_len = 0, v_vsync_len = 0\<rparr>, klog = []\<rparr>"

lemma unat_palette: "(i :: 32 word) < 256 \<Longrightarrow> unat (0x400 + i * 4) = 0x400 + 4 * unat i"
  by (simp add: word_less_nat_alt unat_word_ariths)

lemma palette_ram_s3c2440: "palette_ram s3c2440_h"
proof -
  have "inj_on (\<lambda>i :: 32 word. 0x400 + i * 4) {i. i < 256}"
    using unat_palette by (intro inj_onI) (metis (mono_tags, lifting) add_left_cancel mem_Collect_eq mult_left_cancel word_unat_eq_iff zero_neq_numeral)
  moreover have "0x400 + i * 4 \<noteq> c" if "i < 256" "c < 0x400" for i c :: "32 word"
    using unat_palette [OF that(1)] that(2) by (auto simp: word_less_nat_alt)
  ultimately show ?thesis by (simp add: palette_ram_def s3c2440_h_def)
qed

text \<open>At the start the frame interrupt is masked; the first write of the handler to entry 7 is refused.\<close>

theorem palette_refines_witness:
  "\<exists>s'. pal_run s3c2440_h [SetColor {} 7 0xFFFF 0 0, SetColor {3} 3 0 0xFFFF 0, Frame {3}, SetColor {} 7 0 0 0xFFFF, Frame {3}, Frame {7}]
      (lcd_ex\<lparr>mem := (\<lambda>_. 0)(0x4D00005C := 3)\<rparr>) = Inr s'
    \<and> readw (0x4D000000 + 0x41C) s' = 0x1F"
proof -
  let ?es = "[SetColor {} 7 0xFFFF 0 0, SetColor {3} 3 0 0xFFFF 0, Frame {3}, SetColor {} 7 0 0 0xFFFF, Frame {3}, Frame {7}]"
  let ?s = "lcd_ex\<lparr>mem := (\<lambda>_. 0)(0x4D00005C := 3)\<rparr>"
  have "palette_inv ?s" "unmasked s3c2440_h ?s" "fx_visual (fix_par ?s) = VISUAL_PSEUDOCOLOR"
    by (simp_all add: palette_inv_def unmasked_def lcd_ex_def)
  from palette_refines [OF palette_ram_s3c2440 this, of ?es]
  obtain s' where s': "pal_run s3c2440_h ?es ?s = Inr s'"
    "\<forall>i < 256. settled ?es (\<lambda>i. palette_buffer ?s ! i = PALETTE_BUFF_CLEAR) i
         \<longrightarrow> ucast (readw (lcd_base ?s + TFTPAL s3c2440_h (of_nat i)) s') = colours ?es (shown s3c2440_h ?s) i"
    by blast
  have "ucast (readw (lcd_base ?s + TFTPAL s3c2440_h (of_nat 7)) s') = colours ?es (shown s3c2440_h ?s) 7"
    by (rule s'(2) [rule_format]) simp_all
  moreover have "lcd_base ?s + TFTPAL s3c2440_h (of_nat 7) = 0x4D000000 + 0x41C" by (simp add: lcd_ex_def s3c2440_h_def)
  moreover have "colours ?es (shown s3c2440_h ?s) 7 = 0x1F" by (simp add: pal_565_def drop_bit_eq_div)
  ultimately have "ucast (readw (0x4D000000 + 0x41C) s') = (0x1F :: 32 word)" by simp
  then have "ucast (ucast (readw (0x4D000000 + 0x41C) s') :: 32 word) = (ucast (0x1F :: 32 word) :: 16 word)" by simp
  moreover have "ucast (ucast (readw (0x4D000000 + 0x41C) s') :: 32 word) = readw (0x4D000000 + 0x41C) s'"
    by (rule ucast_up_ucast_id) (simp add: is_up.rep_eq)
  ultimately have "readw (0x4D000000 + 0x41C) s' = 0x1F" by simp
  then show ?thesis using s'(1) by auto
qed

end
