(* ===== verification/LcdMode.thy ===== *)
theory LcdMode
  imports LcdRegs
begin

text \<open>
  The S3C2440 LCD frame buffer driver, second part: checking and setting a video mode
  (my2440fb_check_var, set_par, activate_var and what they call), blanking, and the power
  management hooks. The rate of the LCD clock, which the kernel's clk_get_rate returns, is a
  parameter; so is the record of register macros, as in the first part.
\<close>

section \<open>Checking a mode\<close>

abbreviation EINVAL :: int where "EINVAL \<equiv> 22"
abbreviation ENOENT :: int where "ENOENT \<equiv> 2"
abbreviation ENOMEM :: int where "ENOMEM \<equiv> 12"
abbreviation EBUSY :: int where "EBUSY \<equiv> 16"

definition same_mode :: "var_info \<Rightarrow> display \<Rightarrow> bool" where
  "same_mode v d \<longleftrightarrow> v_yres v = d_yres d \<and> v_xres v = d_xres d \<and> v_bpp v = d_bpp d"

text \<open>Lines 398 to 417: the default display, or the first one of its type with that mode.\<close>

definition find_display :: "mach_info \<Rightarrow> var_info \<Rightarrow> display option" where
  "find_display mi v =
     (let def = displays mi ! default_display mi in
      if same_mode v def then Some def
      else map_option (\<lambda>i. displays mi ! i) (index_of (\<lambda>d. d_type def = d_type d \<and> same_mode v d) (displays mi)))"

text \<open>Lines 429 to 445: what the mode takes over from the display.\<close>

definition take_timing :: "display \<Rightarrow> var_info \<Rightarrow> var_info" where
  "take_timing d v = v\<lparr>v_xres_virtual := d_xres d, v_yres_virtual := d_yres d, v_height := d_height d, v_width := d_width d,
     v_pixclock := d_pixclock d, v_left_margin := d_left_margin d, v_right_margin := d_right_margin d,
     v_upper_margin := d_upper_margin d, v_lower_margin := d_lower_margin d, v_vsync_len := d_vsync_len d,
     v_hsync_len := d_hsync_len d, v_transp := \<lparr>bf_offset = 0, bf_length = 0\<rparr>\<rparr>"

definition rgb :: "32 word \<times> 32 word \<Rightarrow> 32 word \<times> 32 word \<Rightarrow> 32 word \<times> 32 word \<Rightarrow> var_info \<Rightarrow> var_info" where
  "rgb r g b v = v\<lparr>v_red := \<lparr>bf_offset = fst r, bf_length = snd r\<rparr>, v_green := \<lparr>bf_offset = fst g, bf_length = snd g\<rparr>,
     v_blue := \<lparr>bf_offset = fst b, bf_length = snd b\<rparr>\<rparr>"

text \<open>Lines 449 to 511: the bit fields (offset and length) of the colours.\<close>

definition bpp_fields :: "lcd_h \<Rightarrow> display \<Rightarrow> var_info \<Rightarrow> var_info" where
  "bpp_fields h d v =
     (let bpp = v_bpp v in
      if bpp = 1 \<or> bpp = 2 \<or> bpp = 4 then rgb (0, bpp) (0, bpp) (0, bpp) v
      else if bpp = 8 then
        (if d_type d \<noteq> CON1_TFT h then rgb (5, 3) (2, 3) (0, 2) v else rgb (0, 8) (0, 8) (0, 8) v)
      else if bpp = 12 then rgb (8, 4) (4, 4) (0, 4) v
      else if bpp = 16 then
        (if d_lcdcon5 d AND CON5_FRM565 h \<noteq> 0 then rgb (11, 5) (5, 6) (0, 5) v else rgb (11, 5) (6, 5) (1, 5) v)
      else if bpp = 32 then rgb (16, 8) (8, 8) (0, 8) v
      else v)"

definition check_var :: "lcd_h \<Rightarrow> mach_info \<Rightarrow> 'a lcd_scheme \<Rightarrow> (int \<times> 'a lcd_scheme) res" where
  "check_var h mi s =
     (if length (displays mi) \<le> default_display mi then Inl (UB ''check_var: no such display'')
      else (case find_display mi (var_par s) of
              None \<Rightarrow> Inr (- EINVAL, s)
            | Some d \<Rightarrow> Inr (0, s\<lparr>regs := (regs s)\<lparr>lcdcon1 := d_type d, lcdcon5 := d_lcdcon5 d\<rparr>,
                                 var_par := bpp_fields h d (take_timing d (var_par s))\<rparr>)))"

section \<open>The clock divider\<close>

text \<open>Lines 779 to 793: the product and the quotients are computed with 64 bits.\<close>

definition calc_pixclk :: "32 word \<Rightarrow> 32 word \<Rightarrow> 32 word" where
  "calc_pixclk clk pixclk =
     (let div1 = ucast clk * ucast pixclk :: 64 word; div2 = drop_bit 12 div1 in ucast (div2 div (625 * 625 * 625)))"

section \<open>Configuring the controller\<close>

definition config_tft :: "lcd_h \<Rightarrow> 'a lcd_scheme \<Rightarrow> 'a lcd_scheme" where
  "config_tft h s =
     (let v = var_par s; bpp = v_bpp v; r = regs s;
          s = (if bpp \<in> {1, 2, 4, 8, 16, 32} then s else s\<lparr>klog := klog s @ [''invalid bpp '' @ deci (sint bpp) @ ''/n'']\<rparr>);
          r = (if bpp \<in> {1, 2, 4, 8, 16, 32} then r\<lparr>lcdcon1 := lcdcon1 r OR CON1_TFT_BPP h bpp\<rparr> else r);
          r = (if bpp = 8 then r\<lparr>lcdcon5 := (lcdcon5 r OR (CON5_BSWP h OR CON5_FRM565 h)) AND NOT (CON5_HWSWP h)\<rparr>
               else if bpp = 16 then r\<lparr>lcdcon5 := (lcdcon5 r AND NOT (CON5_BSWP h)) OR CON5_HWSWP h\<rparr>
               else if bpp = 32 then r\<lparr>lcdcon5 := lcdcon5 r AND NOT (CON5_BSWP h OR CON5_HWSWP h OR CON5_BPP24BL h)\<rparr>
               else r) in
      s\<lparr>regs := r\<lparr>
          lcdcon2 := CON2_LINEVAL h (v_yres v - 1) OR CON2_VBPD h (v_upper_margin v - 1)
                       OR CON2_VFPD h (v_lower_margin v - 1) OR CON2_VSPW h (v_vsync_len v - 1),
          lcdcon3 := CON3_HBPD h (v_right_margin v - 1) OR CON3_HFPD h (v_left_margin v - 1) OR CON3_HOZVAL h (v_xres v - 1),
          lcdcon4 := CON4_HSPW h (v_hsync_len v - 1)\<rparr>\<rparr>)"

definition config_stn :: "lcd_h \<Rightarrow> 'a lcd_scheme \<Rightarrow> 'a lcd_scheme" where
  "config_stn h s =
     (let v = var_par s; bpp = v_bpp v; r = regs s;
          type = lcdcon1 r AND NOT (CON1_TFT h);
          hs = drop_bit 2 (v_xres v);
          wdly = drop_bit 4 (v_left_margin v) - 1;
          wlh = drop_bit 4 (v_hsync_len v) - 1;
          hs = (if type \<noteq> CON1_STN4 h then drop_bit 1 hs else hs);
          s = (if bpp \<in> {1, 2, 4, 8, 12} then s else s\<lparr>klog := klog s @ [''invalid bpp '' @ deci (sint bpp) @ ''/n'']\<rparr>);
          r = (if bpp \<in> {1, 2, 4, 8, 12} then r\<lparr>lcdcon1 := lcdcon1 r OR CON1_STN_BPP h bpp\<rparr> else r);
          hs = (if bpp = 8 \<or> bpp = 12 then hs * 3 else hs);
          wdly = (if 3 < wdly then 3 else wdly);
          wlh = (if 3 < wlh then 3 else wlh) in
      s\<lparr>regs := r\<lparr>
          lcdcon2 := CON2_LINEVAL h (v_yres v - 1),
          lcdcon3 := CON3_WDLY h wdly OR CON3_LINEBLANK h (v_right_margin v div 8) OR CON3_HOZVAL h (hs - 1),
          lcdcon4 := CON4_WLH h wlh\<rparr>\<rparr>)"

text \<open>Lines 896 to 912.\<close>

definition set_lcdaddr :: "lcd_h \<Rightarrow> 'a lcd_scheme \<Rightarrow> 'a lcd_scheme" where
  "set_lcdaddr h s =
     (let f = fix_par s;
          saddr1 = drop_bit 1 (fx_smem_start f);
          saddr2 = drop_bit 1 (fx_smem_start f + fx_line_length f * v_yres (var_par s));
          saddr3 = OFFSIZE h 0 OR PAGEWIDTH h (fx_line_length f div 2 AND 0x3ff);
          s = writel saddr1 (lcd_base s + LCDSADDR1 h) s;
          s = writel saddr2 (lcd_base s + LCDSADDR2 h) s in
      writel saddr3 (lcd_base s + LCDSADDR3 h) s)"

text \<open>Lines 738 to 762: the registers in memory, with the clock divider.\<close>

definition config_regs :: "lcd_h \<Rightarrow> 32 word \<Rightarrow> 'a lcd_scheme \<Rightarrow> 'a lcd_scheme" where
  "config_regs h clk s =
     (let clkdiv = uint (calc_pixclk clk (v_pixclock (var_par s)) div 2);
          tft = (lcdcon1 (regs s) AND CON1_TFT h = CON1_TFT h);
          s = (if tft then config_tft h s else config_stn h s);
          clkdiv = (if tft then (let c = clkdiv - 1 in if c < 0 then 0 else c) else if clkdiv < 2 then 2 else clkdiv) in
      s\<lparr>regs := (regs s)\<lparr>lcdcon1 := lcdcon1 (regs s) OR CON1_CLKVAL h (word_of_int clkdiv)\<rparr>\<rparr>)"

text \<open>Lines 764 to 775: the registers are written with the output off, then it is switched on.\<close>

definition write_regs :: "lcd_h \<Rightarrow> 'a lcd_scheme \<Rightarrow> 'a lcd_scheme" where
  "write_regs h s =
     (let base = lcd_base s;
          s = writel (lcdcon1 (regs s) AND NOT (CON1_ENVID h)) (base + LCDCON1 h) s;
          s = writel (lcdcon2 (regs s)) (base + LCDCON2 h) s;
          s = writel (lcdcon3 (regs s)) (base + LCDCON3 h) s;
          s = writel (lcdcon4 (regs s)) (base + LCDCON4 h) s;
          s = writel (lcdcon5 (regs s)) (base + LCDCON5 h) s;
          s = set_lcdaddr h s;
          s = s\<lparr>regs := (regs s)\<lparr>lcdcon1 := lcdcon1 (regs s) OR CON1_ENVID h\<rparr>\<rparr> in
      writel (lcdcon1 (regs s)) (base + LCDCON1 h) s)"

definition activate_var :: "lcd_h \<Rightarrow> 32 word \<Rightarrow> 'a lcd_scheme \<Rightarrow> 'a lcd_scheme" where
  "activate_var h clk s = write_regs h (config_regs h clk s)"

definition set_par :: "lcd_h \<Rightarrow> 32 word \<Rightarrow> 'a lcd_scheme \<Rightarrow> int \<times> 'a lcd_scheme" where
  "set_par h clk s =
     (let v = var_par s; bpp = v_bpp v;
          visual = (if bpp = 32 \<or> bpp = 16 \<or> bpp = 12 then VISUAL_TRUECOLOR
                    else if bpp = 1 then VISUAL_MONO01 else VISUAL_PSEUDOCOLOR);
          s = s\<lparr>fix_par := (fix_par s)\<lparr>fx_visual := visual, fx_line_length := v_xres_virtual v * bpp div 8\<rparr>\<rparr> in
      (0, activate_var h clk s))"

section \<open>Enabling and blanking\<close>

definition lcd_enable :: "lcd_h \<Rightarrow> bool \<Rightarrow> 'a lcd_scheme \<Rightarrow> 'a lcd_scheme" where
  "lcd_enable h enable s =
     (let c = lcdcon1 (regs s);
          s = s\<lparr>regs := (regs s)\<lparr>lcdcon1 := (if enable then c OR CON1_ENVID h else c AND NOT (CON1_ENVID h))\<rparr>\<rparr> in
      writel (lcdcon1 (regs s)) (lcd_base s + LCDCON1 h) s)"

datatype blank_mode = BLANK_UNBLANK | BLANK_NORMAL | BLANK_VSYNC_SUSPEND | BLANK_HSYNC_SUSPEND | BLANK_POWERDOWN

definition fb_blank :: "lcd_h \<Rightarrow> blank_mode \<Rightarrow> 'a lcd_scheme \<Rightarrow> int \<times> 'a lcd_scheme" where
  "fb_blank h mode s =
     (let s = (if mode = BLANK_POWERDOWN then lcd_enable h False s else lcd_enable h True s) in
      (0, if mode = BLANK_UNBLANK then writel 0 (lcd_base s + TPAL h) s
          else writel (TPAL_EN h) (lcd_base s + TPAL h) s))"


section \<open>The divider is exact\<close>

lemma calc_pixclk_unat: "unat (calc_pixclk clk pix) = unat clk * unat pix div 10 ^ 12"
proof -
  have "unat w < 2 ^ LENGTH(32)" for w :: "32 word" by (rule unsigned_less)
  then have "unat w \<le> 2 ^ 32 - 1" for w :: "32 word" by (simp add: less_Suc_eq_le [symmetric])
  note clk = this [of clk] and pix = this [of pix]
  have le: "unat clk * unat pix \<le> (2 ^ 32 - 1) * (2 ^ 32 - 1)" by (rule mult_le_mono [OF clk pix])
  also have "\<dots> < (2 :: nat) ^ 64" by simp
  finally have "unat clk * unat pix < 2 ^ 64" .
  moreover have "unat (ucast w :: 64 word) = unat w" if "unat w \<le> 2 ^ 32 - 1" for w :: "32 word"
    using that by (simp add: unsigned_ucast_eq take_bit_nat_eq_self)
  ultimately have prod: "unat (ucast clk * ucast pix :: 64 word) = unat clk * unat pix"
    using clk pix by (simp add: unat_word_ariths)
  let ?q = "drop_bit 12 (ucast clk * ucast pix) div (625 * 625 * 625) :: 64 word"
  have "unat ?q = unat clk * unat pix div 2 ^ 12 div 244140625"
    by (simp add: unat_div unat_drop_bit_eq drop_bit_eq_div prod del: div_mult2_eq)
  also have "\<dots> = unat clk * unat pix div 10 ^ 12" by (simp add: div_mult2_eq [symmetric])
  finally have q: "unat ?q = unat clk * unat pix div 10 ^ 12" .
  have "unat clk * unat pix div 10 ^ 12 \<le> (2 ^ 32 - 1) * (2 ^ 32 - 1) div 10 ^ 12" by (rule div_le_mono [OF le])
  then have "unat ?q < 2 ^ 32" unfolding q by simp
  then have "unat (ucast ?q :: 32 word) = unat ?q" by (simp add: unsigned_ucast_eq take_bit_nat_eq_self)
  then show ?thesis unfolding calc_pixclk_def Let_def q .
qed


section \<open>What the registers hold\<close>

lemma lcd_update_simps [simp]:
  "readl a (s\<lparr>regs := r\<rparr>) = readl a s" "readl a (s\<lparr>fix_par := f\<rparr>) = readl a s" "readl a (s\<lparr>var_par := v\<rparr>) = readl a s"
  "readl a (s\<lparr>klog := k\<rparr>) = readl a s"
  by (simp_all add: readl_def)

lemma io_log_writel [simp]: "io_log (writel v a s) = io_log s @ [(a, v)]"
  by (simp add: writel_def)

text \<open>Everything that the configuration of the registers in memory leaves alone.\<close>

lemma config_regs_same:
  "lcd_base (config_regs h clk s) = lcd_base s" "fix_par (config_regs h clk s) = fix_par s"
  "var_par (config_regs h clk s) = var_par s" "io_log (config_regs h clk s) = io_log s"
  "readl a (config_regs h clk s) = readl a s" "pseudo_palette (config_regs h clk s) = pseudo_palette s"
  by (simp_all add: config_regs_def config_tft_def config_stn_def Let_def)

definition con_offsets :: "lcd_h \<Rightarrow> 32 word list" where
  "con_offsets h = [LCDCON1 h, LCDCON2 h, LCDCON3 h, LCDCON4 h, LCDCON5 h, LCDSADDR1 h, LCDSADDR2 h, LCDSADDR3 h]"

text \<open>The writes of an activation as a list.\<close>

definition con_writes :: "lcd_h \<Rightarrow> 'a lcd_scheme \<Rightarrow> (32 word \<times> 32 word) list" where
  "con_writes h s = (let b = lcd_base s; r = regs s; f = fix_par s in
     [(b + LCDCON1 h, lcdcon1 r AND NOT (CON1_ENVID h)), (b + LCDCON2 h, lcdcon2 r), (b + LCDCON3 h, lcdcon3 r),
      (b + LCDCON4 h, lcdcon4 r), (b + LCDCON5 h, lcdcon5 r), (b + LCDSADDR1 h, drop_bit 1 (fx_smem_start f)),
      (b + LCDSADDR2 h, drop_bit 1 (fx_smem_start f + fx_line_length f * v_yres (var_par s))),
      (b + LCDSADDR3 h, OFFSIZE h 0 OR PAGEWIDTH h (fx_line_length f div 2 AND 0x3ff)),
      (b + LCDCON1 h, lcdcon1 r OR CON1_ENVID h)])"

lemma write_all_regs: "io.write_all ws (s\<lparr>regs := r\<rparr>) = (io.write_all ws s)\<lparr>regs := r\<rparr>"
proof (induction ws arbitrary: s)
  case (Cons w ws)
  have "writel v a (s\<lparr>regs := r\<rparr>) = (writel v a s)\<lparr>regs := r\<rparr>" for v a by (simp add: writel_def)
  with Cons show ?case by (cases w) (simp add: io.write_all_def)
qed (simp add: io.write_all_def)

lemma write_regs_writes:
  "write_regs h s = (io.write_all (con_writes h s) s)\<lparr>regs := (regs s)\<lparr>lcdcon1 := lcdcon1 (regs s) OR CON1_ENVID h\<rparr>\<rparr>"
  by (simp add: write_regs_def set_lcdaddr_def con_writes_def Let_def io.write_all_def writel_def)

lemma write_all_log: "io_log (io.write_all ws s) = io_log s @ ws"
  by (induction ws arbitrary: s) (auto simp: io.write_all_def)

lemma lcd_rest_write_all: "lcd_rest (io.write_all ws s) = lcd_rest s"
  by (induction ws arbitrary: s) (auto simp: io.write_all_def)

lemma activate_same:
  "lcd_base (activate_var h clk s) = lcd_base s" "fix_par (activate_var h clk s) = fix_par s"
  "var_par (activate_var h clk s) = var_par s" "pseudo_palette (activate_var h clk s) = pseudo_palette s"
  "regs (activate_var h clk s) = (let r = regs (config_regs h clk s) in r\<lparr>lcdcon1 := lcdcon1 r OR CON1_ENVID h\<rparr>)"
  using lcd_restD [OF lcd_rest_write_all [of "con_writes h (config_regs h clk s)" "config_regs h clk s"]]
  by (simp_all add: activate_var_def write_regs_writes config_regs_same Let_def)

lemma activate_registers:
  fixes s :: "'a lcd_scheme" and clk :: "32 word" and h :: lcd_h
  assumes "distinct (con_offsets h)"
  defines "r \<equiv> regs (config_regs h clk s)" and "f \<equiv> fix_par s"
  shows "readl (lcd_base s + LCDCON1 h) (activate_var h clk s) = lcdcon1 r OR CON1_ENVID h"
    "readl (lcd_base s + LCDCON2 h) (activate_var h clk s) = lcdcon2 r"
    "readl (lcd_base s + LCDCON3 h) (activate_var h clk s) = lcdcon3 r"
    "readl (lcd_base s + LCDCON4 h) (activate_var h clk s) = lcdcon4 r"
    "readl (lcd_base s + LCDCON5 h) (activate_var h clk s) = lcdcon5 r"
    "readl (lcd_base s + LCDSADDR1 h) (activate_var h clk s) = drop_bit 1 (fx_smem_start f)"
    "readl (lcd_base s + LCDSADDR2 h) (activate_var h clk s) =
       drop_bit 1 (fx_smem_start f + fx_line_length f * v_yres (var_par s))"
  using assms(1)
  by (auto simp: activate_var_def write_regs_writes io.rd_write_all con_writes_def Let_def con_offsets_def config_regs_same r_def f_def)

lemma activate_log:
  "io_log (activate_var h clk s) = io_log s @ con_writes h (config_regs h clk s)"
  by (simp add: activate_var_def write_regs_writes write_all_log config_regs_same)

text \<open>
  Activating a mode switches the video output off first and on last: between its two writes to
  the first control register, which differ in the enable bit only, every other control register
  and the three frame addresses are written, each once and in order.
\<close>
theorem video_off_while_configuring:
  "\<exists>c ws. io_log (activate_var h clk s) =
      io_log s @ (lcd_base s + LCDCON1 h, c AND NOT (CON1_ENVID h)) # ws @ [(lcd_base s + LCDCON1 h, c OR CON1_ENVID h)]
    \<and> map fst ws = map (\<lambda>a. lcd_base s + a) (tl (con_offsets h))"
  by (auto simp: activate_log con_writes_def con_offsets_def Let_def config_regs_same)

section \<open>The mode of a display\<close>

lemma find_display_SomeD:
  assumes "find_display mi v = Some d" "default_display mi < length (displays mi)"
  shows "d \<in> set (displays mi) \<and> same_mode v d"
  using assms by (auto simp: find_display_def Let_def split: if_splits dest: index_of_SomeD)

lemma check_var_InrD:
  assumes "check_var h mi s = Inr (0, s')"
  obtains d where "d \<in> set (displays mi)" "same_mode (var_par s) d" "find_display mi (var_par s) = Some d"
    "s' = s\<lparr>regs := (regs s)\<lparr>lcdcon1 := d_type d, lcdcon5 := d_lcdcon5 d\<rparr>, var_par := bpp_fields h d (take_timing d (var_par s))\<rparr>"
  using assms find_display_SomeD by (auto simp: check_var_def split: if_splits option.splits)

lemma bpp_fields_timing:
  "v_xres (bpp_fields h d v) = v_xres v" "v_yres (bpp_fields h d v) = v_yres v" "v_bpp (bpp_fields h d v) = v_bpp v"
  "v_pixclock (bpp_fields h d v) = v_pixclock v" "v_left_margin (bpp_fields h d v) = v_left_margin v"
  "v_right_margin (bpp_fields h d v) = v_right_margin v" "v_upper_margin (bpp_fields h d v) = v_upper_margin v"
  "v_lower_margin (bpp_fields h d v) = v_lower_margin v" "v_hsync_len (bpp_fields h d v) = v_hsync_len v"
  "v_vsync_len (bpp_fields h d v) = v_vsync_len v" "v_xres_virtual (bpp_fields h d v) = v_xres_virtual v"
  by (simp_all add: bpp_fields_def rgb_def Let_def)

text \<open>The clock divider of a TFT display.\<close>

definition tft_clkval :: "32 word \<Rightarrow> 32 word \<Rightarrow> nat" where
  "tft_clkval clk pix = unat clk * unat pix div 10 ^ 12 div 2 - 1"

lemma config_regs_tft:
  assumes "lcdcon1 (regs s) AND CON1_TFT h = CON1_TFT h" "v_bpp (var_par s) \<in> {1, 2, 4, 8, 16, 32}"
  shows "lcdcon1 (regs (config_regs h clk s)) =
      lcdcon1 (regs s) OR CON1_TFT_BPP h (v_bpp (var_par s)) OR CON1_CLKVAL h (of_nat (tft_clkval clk (v_pixclock (var_par s))))"
proof -
  let ?p = "v_pixclock (var_par s)"
  have "uint (calc_pixclk clk ?p div 2) = int (unat clk * unat ?p div 10 ^ 12 div 2)"
    by (simp add: uint_nat unat_div calc_pixclk_unat del: of_nat_div)
  then have "(if uint (calc_pixclk clk ?p div 2) - 1 < 0 then 0 else uint (calc_pixclk clk ?p div 2) - 1) = int (tft_clkval clk ?p)"
    by (simp add: tft_clkval_def of_nat_diff)
  then show ?thesis using assms
    by (auto simp: config_regs_def config_tft_def Let_def or.assoc)
qed

text \<open>
  C14: Setting a mode that my2440fb_check_var accepts, for a TFT display: the hardware then holds the
  timing of a display of the platform data that has the requested resolution and depth, the
  frame addresses span exactly its lines, and the video output is enabled.
\<close>
theorem mode_programs_display:
  assumes "check_var h mi s = Inr (0, s1)" and "set_par h clk s1 = (r, s2)" and "distinct (con_offsets h)"
    and "lcdcon1 (regs s1) AND CON1_TFT h = CON1_TFT h" and "v_bpp (var_par s) \<in> {1, 2, 4, 8, 16, 32}"
  shows "\<exists>d \<in> set (displays mi). same_mode (var_par s) d
    \<and> readl (lcd_base s + LCDCON1 h) s2 = d_type d OR CON1_TFT_BPP h (d_bpp d)
        OR CON1_CLKVAL h (of_nat (tft_clkval clk (d_pixclock d))) OR CON1_ENVID h
    \<and> readl (lcd_base s + LCDCON2 h) s2 = CON2_LINEVAL h (d_yres d - 1) OR CON2_VBPD h (d_upper_margin d - 1)
        OR CON2_VFPD h (d_lower_margin d - 1) OR CON2_VSPW h (d_vsync_len d - 1)
    \<and> readl (lcd_base s + LCDCON3 h) s2 = CON3_HBPD h (d_right_margin d - 1) OR CON3_HFPD h (d_left_margin d - 1)
        OR CON3_HOZVAL h (d_xres d - 1)
    \<and> readl (lcd_base s + LCDCON4 h) s2 = CON4_HSPW h (d_hsync_len d - 1)
    \<and> readl (lcd_base s + LCDSADDR1 h) s2 = drop_bit 1 (fx_smem_start (fix_par s))
    \<and> readl (lcd_base s + LCDSADDR2 h) s2 = drop_bit 1 (fx_smem_start (fix_par s) + d_xres d * d_bpp d div 8 * d_yres d)"
proof -
  obtain d where d: "d \<in> set (displays mi)" "same_mode (var_par s) d"
    and s1: "s1 = s\<lparr>regs := (regs s)\<lparr>lcdcon1 := d_type d, lcdcon5 := d_lcdcon5 d\<rparr>, var_par := bpp_fields h d (take_timing d (var_par s))\<rparr>"
    by (rule check_var_InrD [OF assms(1)])
  have m: "v_yres (var_par s) = d_yres d" "v_xres (var_par s) = d_xres d" "v_bpp (var_par s) = d_bpp d"
    using d(2) by (simp_all add: same_mode_def)
  obtain vis where s2: "s2 = activate_var h clk (s1\<lparr>fix_par := (fix_par s1)\<lparr>fx_visual := vis,
      fx_line_length := v_xres_virtual (var_par s1) * v_bpp (var_par s1) div 8\<rparr>\<rparr>)"
    using assms(2) by (auto simp: set_par_def Let_def)
  define f where "f = (fix_par s1)\<lparr>fx_visual := vis, fx_line_length := v_xres_virtual (var_par s1) * v_bpp (var_par s1) div 8\<rparr>"
  have f: "fx_line_length f = d_xres d * d_bpp d div 8" "fx_smem_start f = fx_smem_start (fix_par s)"
    using m by (simp_all add: f_def s1 bpp_fields_timing take_timing_def)
  let ?u = "s1\<lparr>fix_par := f\<rparr>"
  have v: "v_xres (var_par ?u) = d_xres d" "v_yres (var_par ?u) = d_yres d" "v_bpp (var_par ?u) = d_bpp d"
    "v_pixclock (var_par ?u) = d_pixclock d" "lcd_base ?u = lcd_base s" "lcdcon1 (regs ?u) = d_type d"
    "v_left_margin (var_par ?u) = d_left_margin d" "v_right_margin (var_par ?u) = d_right_margin d"
    "v_upper_margin (var_par ?u) = d_upper_margin d" "v_lower_margin (var_par ?u) = d_lower_margin d"
    "v_hsync_len (var_par ?u) = d_hsync_len d" "v_vsync_len (var_par ?u) = d_vsync_len d"
    using m by (simp_all add: s1 bpp_fields_timing take_timing_def)
  have tft: "lcdcon1 (regs ?u) AND CON1_TFT h = CON1_TFT h" using assms(4) by simp
  have "lcdcon1 (regs (config_regs h clk ?u)) =
      d_type d OR CON1_TFT_BPP h (d_bpp d) OR CON1_CLKVAL h (of_nat (tft_clkval clk (d_pixclock d)))"
    using config_regs_tft [OF tft] assms(5) m v by simp
  moreover have "lcdcon2 (regs (config_regs h clk ?u)) = CON2_LINEVAL h (d_yres d - 1) OR CON2_VBPD h (d_upper_margin d - 1)
        OR CON2_VFPD h (d_lower_margin d - 1) OR CON2_VSPW h (d_vsync_len d - 1)"
    "lcdcon3 (regs (config_regs h clk ?u)) = CON3_HBPD h (d_right_margin d - 1) OR CON3_HFPD h (d_left_margin d - 1)
        OR CON3_HOZVAL h (d_xres d - 1)"
    "lcdcon4 (regs (config_regs h clk ?u)) = CON4_HSPW h (d_hsync_len d - 1)"
    using tft v by (simp_all add: config_regs_def config_tft_def Let_def)
  ultimately show ?thesis
    using activate_registers [OF assms(3), of ?u clk] d v f unfolding s2 f_def [symmetric] by (intro bexI [OF _ d(1)]) (simp add: or.assoc)
qed

text \<open>
  The divider as the controller reads it: the field CLKVAL, bits 8 to 17 of LCDCON1. The driver does not
  limit its value to the field, and its higher bits end up in bits 18 and above.
\<close>

definition clkval_field :: "32 word \<Rightarrow> nat" where
  "clkval_field r = unat (take_bit 10 (drop_bit 8 r))"

lemma clkval_field_or:
  assumes "clkval_field a = 0" "clkval_field b = 0" "k < 2 ^ 24"
  shows "clkval_field (a OR b OR push_bit 8 (word_of_nat k)) = k mod 1024"
proof -
  have z: "take_bit 10 (drop_bit 8 a) = 0" "take_bit 10 (drop_bit 8 b) = 0"
    using assms(1,2) by (simp_all add: clkval_field_def unsigned_eq_0_iff)
  have "take_bit 10 (drop_bit 8 (push_bit 8 (word_of_nat k))) = (take_bit 10 (word_of_nat k) :: 32 word)"
    by (rule bit_word_eqI) (auto simp: bit_simps)
  then have "take_bit 10 (drop_bit 8 (a OR b OR push_bit 8 (word_of_nat k))) = (take_bit 10 (word_of_nat k) :: 32 word)"
    using z by (simp add: drop_bit_or)
  moreover have "unat (take_bit 10 (word_of_nat k :: 32 word)) = k mod 1024"
  proof -
    have "take_bit 32 k = k" using assms(3) by (intro take_bit_nat_eq_self) simp
    then have "unat (take_bit 10 (word_of_nat k :: 32 word)) = take_bit 10 k"
      by (simp add: unsigned_take_bit_eq unsigned_of_nat)
    then show ?thesis by (simp add: take_bit_eq_mod)
  qed
  ultimately show ?thesis by (simp add: clkval_field_def)
qed

lemma tft_clkval_small: "tft_clkval clk pix < 2 ^ 24"
proof -
  have "unat clk < 2 ^ LENGTH(32)" "unat pix < 2 ^ LENGTH(32)" by (rule unsigned_less)+
  then have "unat clk * unat pix \<le> 2 ^ 32 * 2 ^ 32" by (intro mult_le_mono) simp_all
  then have "unat clk * unat pix div 10 ^ 12 \<le> 2 ^ 32 * 2 ^ 32 div 10 ^ 12" by (rule div_le_mono)
  then have "unat clk * unat pix div 10 ^ 12 < 2 ^ 25" by simp
  then show ?thesis by (simp add: tft_clkval_def)
qed

lemma tft_clkval_div:
  assumes "w = unat clk * unat pix"
  shows "w < 2 * 10 ^ 12 \<Longrightarrow> tft_clkval clk pix = 0"
    "2 * 10 ^ 12 \<le> w \<Longrightarrow> (tft_clkval clk pix + 1) * (2 * 10 ^ 12) \<le> w \<and> w < (tft_clkval clk pix + 2) * (2 * 10 ^ 12)"
proof -
  have q: "tft_clkval clk pix = w div (2 * 10 ^ 12) - 1"
    by (simp add: tft_clkval_def div_mult2_eq [symmetric] assms)
  show "tft_clkval clk pix = 0" if "w < 2 * 10 ^ 12" using that unfolding q by simp
  show "(tft_clkval clk pix + 1) * (2 * 10 ^ 12) \<le> w \<and> w < (tft_clkval clk pix + 2) * (2 * 10 ^ 12)" if "2 * 10 ^ 12 \<le> w"
  proof -
    have "1 \<le> w div (2 * 10 ^ 12)" using that by (simp add: div_greater_zero_iff Suc_le_eq)
    then have c: "tft_clkval clk pix + 1 = w div (2 * 10 ^ 12)" "tft_clkval clk pix + 2 = w div (2 * 10 ^ 12) + 1" unfolding q by simp_all
    show ?thesis unfolding c
      using div_times_less_eq_dividend [of w "2 * 10 ^ 12"] dividend_less_div_times [of "2 * 10 ^ 12" w] by (simp add: algebra_simps)
  qed
qed

text \<open>Cut to ten bits, a divider \<open>k\<close> stays the same below 1025 steps of \<open>m\<close>, and loses at least 1024 above.\<close>

lemma cut_divider:
  fixes k m w :: nat
  assumes "(k + 1) * m \<le> w" "w < (k + 2) * m"
  shows "w < 1025 * m \<Longrightarrow> k mod 1024 = k" "1025 * m \<le> w \<Longrightarrow> (k mod 1024 + 1025) * m \<le> w"
proof -
  show "k mod 1024 = k" if "w < 1025 * m"
  proof -
    have "(k + 1) * m < 1025 * m" using assms(1) that by (rule le_less_trans)
    then have "k + 1 < 1025" unfolding mult_less_cancel2 by (rule conjunct2)
    then show ?thesis by simp
  qed
  show "(k mod 1024 + 1025) * m \<le> w" if "1025 * m \<le> w"
  proof -
    have "1025 * m < (k + 2) * m" using that assms(2) by (rule le_less_trans)
    then have "1025 < k + 2" unfolding mult_less_cancel2 by (rule conjunct2)
    then have "1 \<le> k div 1024" by (simp add: div_greater_zero_iff Suc_le_eq)
    moreover have "k mod 1024 + 1024 * (k div 1024) = k" by simp
    ultimately have "k mod 1024 + 1025 \<le> k + 1" by linarith
    then have "(k mod 1024 + 1025) * m \<le> (k + 1) * m" by (rule mult_le_mono1)
    with assms(1) show ?thesis by (rule order_trans [rotated])
  qed
qed

text \<open>
  C24: The pixel clock of a TFT display is the LCD clock divided by twice the value of the field CLKVAL plus
  one. With \<open>w\<close> the product of the clock rate (in Hertz) and the requested pixel period (in picoseconds): when
  it is at least 2*10^12 and less than 2050*10^12, the field that my2440fb_activate_var computes makes the
  clock at least as fast as requested, and the next larger one would not. Below, the field is 0, the fastest
  clock there is, which is slower than requested. Above, the divider does not fit into the field, and
  the clock is too fast by dividers of at least 1024.
\<close>
theorem tft_clock_bounds:
  fixes s :: "'a lcd_scheme" and clk :: "32 word" and h :: lcd_h
  defines "w \<equiv> unat clk * unat (v_pixclock (var_par s))" and "c \<equiv> clkval_field (lcdcon1 (regs (config_regs h clk s)))"
  assumes "lcdcon1 (regs s) AND CON1_TFT h = CON1_TFT h" and "v_bpp (var_par s) \<in> {1, 2, 4, 8, 16, 32}"
    and "CON1_CLKVAL h = push_bit 8" and "clkval_field (lcdcon1 (regs s)) = 0" and "clkval_field (CON1_TFT_BPP h (v_bpp (var_par s))) = 0"
  shows "(w < 2 * 10 ^ 12 \<longrightarrow> c = 0)
    \<and> (2 * 10 ^ 12 \<le> w \<and> w < 2050 * 10 ^ 12 \<longrightarrow> (c + 1) * (2 * 10 ^ 12) \<le> w \<and> w < (c + 2) * (2 * 10 ^ 12))
    \<and> (2050 * 10 ^ 12 \<le> w \<longrightarrow> (c + 1 + 1024) * (2 * 10 ^ 12) \<le> w)"
proof -
  let ?k = "tft_clkval clk (v_pixclock (var_par s))"
  have c: "c = ?k mod 1024"
    unfolding c_def config_regs_tft [OF assms(3,4)] assms(5) by (rule clkval_field_or [OF assms(6,7) tft_clkval_small])
  have k: "w < 2 * 10 ^ 12 \<Longrightarrow> ?k = 0" "2 * 10 ^ 12 \<le> w \<Longrightarrow> (?k + 1) * (2 * 10 ^ 12) \<le> w \<and> w < (?k + 2) * (2 * 10 ^ 12)"
    using tft_clkval_div [OF refl, of clk "v_pixclock (var_par s)"] unfolding w_def by blast+
  have m: "2050 * 10 ^ 12 = 1025 * (2 * 10 ^ 12 :: nat)" "2 * 10 ^ 12 \<le> 1025 * (2 * 10 ^ 12 :: nat)" by simp_all
  show ?thesis unfolding m(1)
  proof (intro conjI impI)
    assume "w < 2 * 10 ^ 12"
    from k(1) [OF this] show "c = 0" unfolding c by simp
  next
    assume w: "2 * 10 ^ 12 \<le> w \<and> w < 1025 * (2 * 10 ^ 12)"
    note b = k(2) [OF conjunct1 [OF w]]
    have "c = ?k" unfolding c by (rule cut_divider(1) [OF conjunct1 [OF b] conjunct2 [OF b] conjunct2 [OF w]])
    with b show "(c + 1) * (2 * 10 ^ 12) \<le> w" "w < (c + 2) * (2 * 10 ^ 12)" by simp_all
  next
    assume w: "1025 * (2 * 10 ^ 12) \<le> w"
    note b = k(2) [OF order_trans [OF m(2) w]]
    have "(c + 1025) * (2 * 10 ^ 12) \<le> w" unfolding c by (rule cut_divider(2) [OF conjunct1 [OF b] conjunct2 [OF b] w])
    moreover have "c + 1 + 1024 = c + 1025" by simp
    ultimately show "(c + 1 + 1024) * (2 * 10 ^ 12) \<le> w" by (simp only:)
  qed
qed


section \<open>True colour\<close>

text \<open>What a pixel shows of a channel, and the part of a 16 bit colour component that fits.\<close>

definition channel :: "bitfield \<Rightarrow> 32 word \<Rightarrow> 32 word" where
  "channel bf pixel = take_bit (unat (bf_length bf)) (drop_bit (unat (bf_offset bf)) pixel)"

definition top_bits :: "bitfield \<Rightarrow> 32 word \<Rightarrow> 32 word" where
  "top_bits bf chan = drop_bit (16 - unat (bf_length bf)) (take_bit 16 chan)"

definition before :: "bitfield \<Rightarrow> bitfield \<Rightarrow> bool" where
  "before a b \<longleftrightarrow> unat (bf_offset a) + unat (bf_length a) \<le> unat (bf_offset b)"

definition fits :: "bitfield \<Rightarrow> bool" where
  "fits a \<longleftrightarrow> unat (bf_length a) \<le> 16 \<and> unat (bf_offset a) + unat (bf_length a) \<le> 32"

lemma bit_chan_to_field:
  assumes "fits bf"
  shows "bit (chan_to_field c bf) n \<longleftrightarrow>
    unat (bf_offset bf) \<le> n \<and> n < unat (bf_offset bf) + unat (bf_length bf) \<and> bit c (n - unat (bf_offset bf) + (16 - unat (bf_length bf)))"
proof -
  have "bf_length bf \<le> 16" using assms by (simp add: fits_def word_le_nat_alt)
  then have l: "unat (16 - bf_length bf) = 16 - unat (bf_length bf)" by (simp add: unat_sub)
  have m: "c AND 0xffff = take_bit 16 c" by (simp add: take_bit_eq_mask mask_numeral)
  show ?thesis using assms unfolding chan_to_field_def Let_def m l by (auto simp: bit_simps fits_def add.commute)
qed

lemma channel_eqI:
  assumes "fits bf"
    and "\<And>n. unat (bf_offset bf) \<le> n \<Longrightarrow> n < unat (bf_offset bf) + unat (bf_length bf) \<Longrightarrow> bit p n = bit (chan_to_field c bf) n"
  shows "channel bf p = top_bits bf c"
proof (rule bit_word_eqI)
  fix n
  show "bit (channel bf p) n = bit (top_bits bf c) n"
    using assms(1) assms(2) [of "unat (bf_offset bf) + n"]
    by (auto simp: channel_def top_bits_def bit_simps bit_chan_to_field fits_def add.commute)
qed

lemma pack_channels:
  fixes cr cg cb :: "32 word"
  assumes f: "fits r" "fits g" "fits b" and o: "before b g" "before g r"
  defines "p \<equiv> chan_to_field cr r OR chan_to_field cg g OR chan_to_field cb b"
  shows "channel r p = top_bits r cr" "channel g p = top_bits g cg" "channel b p = top_bits b cb"
  using o by (auto intro!: channel_eqI f simp: p_def bit_simps bit_chan_to_field f before_def)

lemma true_colour_fields:
  fixes h :: lcd_h and d :: display
  assumes "v_bpp v \<in> {12, 16, 32}"
  defines "w \<equiv> bpp_fields h d v"
  shows "fits (v_red w)" "fits (v_green w)" "fits (v_blue w)" "before (v_blue w) (v_green w)" "before (v_green w) (v_red w)"
  using assms by (auto simp: w_def bpp_fields_def rgb_def fits_def before_def Let_def)

text \<open>
  True colour: after a mode of 12, 16 or 32 bits per pixel has been checked and set, setting a
  colour register stores a pixel from which the leading bits of each of the three components can
  be read back; the bit fields do not disturb each other.
\<close>
theorem true_colour_roundtrip:
  assumes "check_var h mi s = Inr (0, s1)" and "set_par h clk s1 = (r, s2)" and "v_bpp (var_par s) \<in> {12, 16, 32}"
    and "pseudo_palette s = Some pal" and "length pal = 16" and "regno < 16"
  shows "\<exists>s3 pal3. setcolreg h regno red green blue s2 = Inr (0, s3) \<and> pseudo_palette s3 = Some pal3
    \<and> channel (v_red (var_par s3)) (pal3 ! unat regno) = top_bits (v_red (var_par s3)) red
    \<and> channel (v_green (var_par s3)) (pal3 ! unat regno) = top_bits (v_green (var_par s3)) green
    \<and> channel (v_blue (var_par s3)) (pal3 ! unat regno) = top_bits (v_blue (var_par s3)) blue"
proof -
  obtain d where d: "same_mode (var_par s) d"
    and s1: "s1 = s\<lparr>regs := (regs s)\<lparr>lcdcon1 := d_type d, lcdcon5 := d_lcdcon5 d\<rparr>, var_par := bpp_fields h d (take_timing d (var_par s))\<rparr>"
    by (rule check_var_InrD [OF assms(1)])
  let ?v = "take_timing d (var_par s)"
  have bpp: "v_bpp ?v \<in> {12, 16, 32}" using assms(3) by (simp add: take_timing_def)
  have vis: "fx_visual (fix_par s2) = VISUAL_TRUECOLOR" and v: "var_par s2 = bpp_fields h d ?v" and pal: "pseudo_palette s2 = Some pal"
    using assms(2,4) bpp unfolding set_par_def Let_def s1
    by (auto simp: activate_same bpp_fields_timing take_timing_def)
  have "unat regno < length pal" using assms(5,6) by (simp add: word_less_nat_alt)
  with vis pal assms(6) show ?thesis
    using pack_channels [OF true_colour_fields [OF bpp, of h d], where cr = red and cg = green and cb = blue] by (simp add: setcolreg_def Let_def v)
qed


section \<open>Witnesses\<close>

text \<open>A 240 x 320 TFT display with 16 bits per pixel, and a driver state that asks for its mode.\<close>

definition disp_ex :: display where
  "disp_ex = \<lparr>d_type = 0x60, d_width = 240, d_height = 320, d_xres = 240, d_yres = 320, d_bpp = 16, d_pixclock = 100000,
     d_left_margin = 20, d_right_margin = 10, d_upper_margin = 2, d_lower_margin = 12, d_hsync_len = 4, d_vsync_len = 3,
     d_lcdcon5 = 0xB01\<rparr>"

definition mach_ex :: mach_info where
  "mach_ex = \<lparr>displays = [disp_ex], default_display = 0, gpcup = 0, gpcup_mask = 0, gpccon = 0xAAAAAAAA, gpccon_mask = 0xFFFFFFFF,
     gpdup = 0, gpdup_mask = 0, gpdcon = 0xAAAAAAAA, gpdcon_mask = 0xFFFFFFFF, lpcsel = 0xF82\<rparr>"

definition lcd_on :: lcd where
  "lcd_on = lcd_ex\<lparr>var_par := (var_par lcd_ex)\<lparr>v_xres := 240, v_yres := 320, v_bpp := 16\<rparr>, pseudo_palette := Some (replicate 16 0)\<rparr>"

lemma lcd_on_fields:
  "v_bpp (var_par lcd_on) = 16" "v_xres (var_par lcd_on) = 240" "v_yres (var_par lcd_on) = 320"
  "pseudo_palette lcd_on = Some (replicate 16 0)" "lcd_base lcd_on = 0x4D000000" "fx_smem_start (fix_par lcd_on) = 0"
  by (simp_all add: lcd_on_def lcd_ex_def)

lemma lcd_on_check: "\<exists>s1. check_var s3c2440_h mach_ex lcd_on = Inr (0, s1) \<and> lcdcon1 (regs s1) = 0x60"
  by (simp add: check_var_def find_display_def same_mode_def mach_ex_def disp_ex_def lcd_on_fields)

lemma con_offsets_s3c2440: "distinct (con_offsets s3c2440_h)"
  by (simp add: con_offsets_def s3c2440_h_def)

theorem mode_programs_display_witness:
  "\<exists>s1 s2. check_var s3c2440_h mach_ex lcd_on = Inr (0, s1) \<and> set_par s3c2440_h 100000000 s1 = (0, s2)
    \<and> readl 0x4D000000 s2 = 0x479 \<and> readl 0x4D000018 s2 = 76800"
proof -
  obtain s1 where s1: "check_var s3c2440_h mach_ex lcd_on = Inr (0, s1)" "lcdcon1 (regs s1) = 0x60"
    using lcd_on_check by blast
  obtain r s2 where s2: "set_par s3c2440_h 100000000 s1 = (r, s2)" by fastforce
  have r: "r = 0" using s2 by (simp add: set_par_def Let_def)
  have tft: "lcdcon1 (regs s1) AND CON1_TFT s3c2440_h = CON1_TFT s3c2440_h" using s1(2) by (simp add: s3c2440_h_def)
  from mode_programs_display [OF s1(1) s2 con_offsets_s3c2440 tft] s1(1) s2 r
  show ?thesis
    by (simp add: lcd_on_fields mach_ex_def disp_ex_def s3c2440_h_def tft_clkval_def drop_bit_eq_div)
qed

text \<open>A display of 10 MHz at an LCD clock of 100 MHz: the divider is 4, and the clock 100 MHz / 10.\<close>

theorem tft_clock_bounds_witness:
  "clkval_field (lcdcon1 (regs (config_regs s3c2440_h 100000000
     (lcd_on\<lparr>regs := (regs lcd_on)\<lparr>lcdcon1 := 0x60\<rparr>, var_par := (var_par lcd_on)\<lparr>v_pixclock := 100000\<rparr>\<rparr>)))) = 4"
proof -
  let ?s = "lcd_on\<lparr>regs := (regs lcd_on)\<lparr>lcdcon1 := 0x60\<rparr>, var_par := (var_par lcd_on)\<lparr>v_pixclock := 100000\<rparr>\<rparr>"
  let ?c = "clkval_field (lcdcon1 (regs (config_regs s3c2440_h 100000000 ?s)))"
  have h: "CON1_CLKVAL s3c2440_h = push_bit 8" "lcdcon1 (regs ?s) AND CON1_TFT s3c2440_h = CON1_TFT s3c2440_h" "v_bpp (var_par ?s) \<in> {1, 2, 4, 8, 16, 32}"
    "clkval_field (lcdcon1 (regs ?s)) = 0" "clkval_field (CON1_TFT_BPP s3c2440_h (v_bpp (var_par ?s))) = 0"
    by (simp_all add: s3c2440_h_def lcd_on_fields clkval_field_def)
  have "unat (100000000 :: 32 word) * unat (v_pixclock (var_par ?s)) = 10 ^ 13" by simp
  with tft_clock_bounds [OF h(2,3,1,4,5), of 100000000] have "(?c + 1) * (2 * 10 ^ 12) \<le> 5 * (2 * 10 ^ 12) \<and> 5 * (2 * 10 ^ 12) < (?c + 2) * (2 * 10 ^ 12)"
    by simp
  then have "?c + 1 \<le> 5" "5 < ?c + 2" unfolding mult_le_cancel2 mult_less_cancel2 by simp_all
  then show ?thesis by linarith
qed

theorem true_colour_roundtrip_witness:
  "\<exists>s1 s2 s3. check_var s3c2440_h mach_ex lcd_on = Inr (0, s1) \<and> set_par s3c2440_h 100000000 s1 = (0, s2)
    \<and> setcolreg s3c2440_h 3 0xFFFF 0x1234 0 s2 = Inr (0, s3)"
proof -
  obtain s1 where s1: "check_var s3c2440_h mach_ex lcd_on = Inr (0, s1)" using lcd_on_check by blast
  obtain r s2 where s2: "set_par s3c2440_h 100000000 s1 = (r, s2)" by fastforce
  have r: "r = 0" using s2 by (simp add: set_par_def Let_def)
  from true_colour_roundtrip [OF s1 s2, where regno = 3 and red = "0xFFFF" and green = "0x1234" and blue = 0] s1 s2 r
  show ?thesis by (auto simp: lcd_on_fields)
qed

end
