(* ===== verification/LcdProbe.thy ===== *)
theory LcdProbe
  imports LcdMode
begin

text \<open>
  The S3C2440 LCD frame buffer driver, third part: the life cycle of the device
  (lcd_fb_probe, lcd_fb_remove, lcd_fb_suspend, lcd_fb_resume). The kernel's answers come with
  the call (\<open>probe_env\<close>). What the driver holds is part of the state; giving back something that
  is not held, and using the frame buffer structure after it has been released, are faults.
\<close>

section \<open>State and resources\<close>

datatype resource =
    FbInfo | Region | RegionMem | Mapping | Clock | ClockOn | Irq | VideoMem "32 word" | Registered | DebugFile

record lcd_dev = lcd +
  platform_data :: "mach_info option"
  drvdata :: bool
  lcd_irq_no :: int
  held :: "resource list"

record probe_env =
  pe_fb :: bool
  pe_irq :: int
  pe_res :: bool
  pe_region :: bool
  pe_ioremap :: "32 word option"
  pe_clk :: bool
  pe_request_irq :: int
  pe_page_align :: "32 word \<Rightarrow> 32 word"
  pe_dma :: "32 word option"
  pe_register :: int
  pe_attr :: int

definition acquire :: "resource \<Rightarrow> 'a lcd_dev_scheme \<Rightarrow> 'a lcd_dev_scheme" where
  "acquire r s = s\<lparr>held := held s @ [r]\<rparr>"

definition release :: "resource \<Rightarrow> 'a lcd_dev_scheme \<Rightarrow> 'a lcd_dev_scheme res" where
  "release r s = (if r \<in> set (held s) then Inr (s\<lparr>held := remove1 r (held s)\<rparr>) else Inl (UB ''released a resource that is not held''))"

text \<open>An access through fbinfo or fbvar, which is part of the same allocation.\<close>

definition use_fb :: "'a lcd_dev_scheme \<Rightarrow> 'a lcd_dev_scheme res" where
  "use_fb s = (if FbInfo \<in> set (held s) then Inr s else Inl (UB ''fb_info is not allocated''))"

definition dev_err :: "string \<Rightarrow> 'a lcd_scheme \<Rightarrow> 'a lcd_scheme" where
  "dev_err m s = s\<lparr>klog := klog s @ [m @ ''/n'']\<rparr>"

section \<open>The video memory\<close>

definition map_video_memory :: "probe_env \<Rightarrow> 'a lcd_dev_scheme \<Rightarrow> int \<times> 'a lcd_dev_scheme" where
  "map_video_memory e s =
     (let map_size = pe_page_align e (fx_smem_len (fix_par s)) in
      case pe_dma e of
        None \<Rightarrow> (- ENOMEM, s)
      | Some map_dma \<Rightarrow> (0, acquire (VideoMem map_size) (s\<lparr>fix_par := (fix_par s)\<lparr>fx_smem_start := map_dma\<rparr>\<rparr>)))"

definition unmap_video_memory :: "probe_env \<Rightarrow> 'a lcd_dev_scheme \<Rightarrow> 'a lcd_dev_scheme res" where
  "unmap_video_memory e s =
     bindR (use_fb s) (\<lambda>s. release (VideoMem (pe_page_align e (fx_smem_len (fix_par s)))) s)"

section \<open>Probing\<close>

text \<open>Lines 255 to 277: each label falls through to the next one.\<close>

definition err_video_nomem :: "probe_env \<Rightarrow> 'a lcd_dev_scheme \<Rightarrow> 'a lcd_dev_scheme res" where
  "err_video_nomem e s = unmap_video_memory e s"

definition err_nofb :: "probe_env \<Rightarrow> 'a lcd_dev_scheme \<Rightarrow> 'a lcd_dev_scheme res" where
  "err_nofb e s = bindR (release FbInfo (s\<lparr>drvdata := False\<rparr>)) (err_video_nomem e)"

definition err_noirq :: "probe_env \<Rightarrow> 'a lcd_dev_scheme \<Rightarrow> 'a lcd_dev_scheme res" where
  "err_noirq e s = bindR (use_fb s) (\<lambda>s. bindR (release Irq s) (err_nofb e))"

definition err_noclk :: "probe_env \<Rightarrow> 'a lcd_dev_scheme \<Rightarrow> 'a lcd_dev_scheme res" where
  "err_noclk e s = bindR (release ClockOn s) (\<lambda>s. bindR (release Clock s) (err_noirq e))"

definition err_nomap :: "probe_env \<Rightarrow> 'a lcd_dev_scheme \<Rightarrow> 'a lcd_dev_scheme res" where
  "err_nomap e s = bindR (release Mapping s) (err_noclk e)"

definition err_nomem :: "probe_env \<Rightarrow> 'a lcd_dev_scheme \<Rightarrow> 'a lcd_dev_scheme res" where
  "err_nomem e s = bindR (release Region s) (\<lambda>s. bindR (release RegionMem s) (err_nomap e))"

definition fail_with :: "int \<Rightarrow> 'a lcd_dev_scheme res \<Rightarrow> (int \<times> 'a lcd_dev_scheme) res" where
  "fail_with r m = bindR m (\<lambda>s. Inr (r, s))"

text \<open>The structure that framebuffer_alloc returns is cleared.\<close>

definition cleared :: "'a lcd_dev_scheme \<Rightarrow> 'a lcd_dev_scheme" where
  "cleared s = s\<lparr>lcd_base := 0, regs := \<lparr>lcdcon1 = 0, lcdcon2 = 0, lcdcon3 = 0, lcdcon4 = 0, lcdcon5 = 0\<rparr>,
     palette_buffer := replicate 256 0, palette_ready := 0, pseudo_palette := None,
     fix_par := \<lparr>fx_id = [], fx_smem_start = 0, fx_smem_len = 0, fx_visual = VISUAL_MONO01, fx_line_length = 0\<rparr>,
     var_par := \<lparr>v_xres = 0, v_yres = 0, v_xres_virtual = 0, v_yres_virtual = 0, v_bpp = 0,
       v_red = no_field, v_green = no_field, v_blue = no_field, v_transp = no_field, v_height = 0, v_width = 0, v_pixclock = 0,
       v_left_margin = 0, v_right_margin = 0, v_upper_margin = 0, v_lower_margin = 0, v_hsync_len = 0, v_vsync_len = 0\<rparr>\<rparr>"

text \<open>Lines 208 to 217.\<close>

definition display_size :: "display \<Rightarrow> 32 word" where
  "display_size d = drop_bit 3 (d_xres d * d_yres d * d_bpp d)"

definition video_length :: "display list \<Rightarrow> 32 word \<Rightarrow> 32 word" where
  "video_length ds len = fold (\<lambda>d l. if l < display_size d then display_size d else l) ds len"

text \<open>Lines 181 to 235: fill in fb_info, set up the controller and the video memory.\<close>

definition fill_info :: "mach_info \<Rightarrow> display \<Rightarrow> 'a lcd_dev_scheme \<Rightarrow> 'a lcd_dev_scheme" where
  "fill_info mi d s = s\<lparr>
     fix_par := (fix_par s)\<lparr>fx_id := ''my2440_lcd'', fx_smem_len := video_length (displays mi) (fx_smem_len (fix_par s))\<rparr>,
     var_par := (var_par s)\<lparr>v_xres := d_xres d, v_yres := d_yres d, v_bpp := d_bpp d\<rparr>,
     palette_buffer := replicate 256 PALETTE_BUFF_CLEAR\<rparr>"

definition probe_display :: "lcd_h \<Rightarrow> probe_env \<Rightarrow> mach_info \<Rightarrow> 'a lcd_dev_scheme \<Rightarrow> (int \<times> 'a lcd_dev_scheme) res" where
  "probe_display h e mi s =
     (if length (displays mi) \<le> default_display mi then Inl (UB ''no such display'')
      else bindR (check_var h mi (init_registers h mi (fill_info mi (displays mi ! default_display mi) s))) (\<lambda>(_, s).
        let (ret, s) = map_video_memory e s in
        if ret \<noteq> 0 then fail_with (- ENOMEM) (err_nofb e (dev_err (''failed to allocate video RAM: '' @ deci ret) s))
        else if pe_register e < 0 then
          fail_with (pe_register e) (err_video_nomem e (dev_err (''failed to register framebuffer device: '' @ deci (pe_register e)) s))
        else (let s = acquire Registered s in
              Inr (0, if pe_attr e \<noteq> 0 then dev_err ''failed to add debug attribute'' s else acquire DebugFile s))))"

text \<open>Lines 118 to 178: the interrupt number, the registers, the clock and the interrupt.\<close>

definition probe_resources :: "lcd_h \<Rightarrow> probe_env \<Rightarrow> mach_info \<Rightarrow> 'a lcd_dev_scheme \<Rightarrow> (int \<times> 'a lcd_dev_scheme) res" where
  "probe_resources h e mi s =
     (let s = s\<lparr>lcd_irq_no := pe_irq e\<rparr> in
      if pe_irq e < 0 then Inr (- ENOENT, dev_err ''no lcd irq for platform'' s)
      else if \<not> pe_res e then Inr (- ENOENT, dev_err ''failed to get memory region resource'' s)
      else if \<not> pe_region e then Inr (- ENOENT, dev_err ''failed to reserve memory region'' s)
      else (let s = acquire RegionMem (acquire Region s) in
        case pe_ioremap e of
          None \<Rightarrow> fail_with (- EINVAL) (err_nomem e (dev_err ''ioremap() of registers failed'' s))
        | Some base \<Rightarrow>
            (let s = acquire Mapping (s\<lparr>lcd_base := base\<rparr>) in
             if \<not> pe_clk e then fail_with (- ENOENT) (err_nomap e (dev_err ''failed to find lcd clock source'' s))
             else (let s = acquire ClockOn (acquire Clock s) in
               if pe_request_irq e \<noteq> 0 then
                 fail_with (- EBUSY) (err_noclk e (dev_err (''IRQ'' @ deci (lcd_irq_no s) @ '' error '' @ deci (pe_request_irq e)) s))
               else probe_display h e mi (acquire Irq s)))))"

definition lcd_fb_probe :: "lcd_h \<Rightarrow> probe_env \<Rightarrow> 'a lcd_dev_scheme \<Rightarrow> (int \<times> 'a lcd_dev_scheme) res" where
  "lcd_fb_probe h e s =
     (case platform_data s of
        None \<Rightarrow> Inr (- EINVAL, dev_err ''no platform data for lcd'' s)
      | Some mi \<Rightarrow>
          if \<not> pe_fb e then fail_with (- ENOMEM) (err_noirq e (dev_err ''framebuffer alloc of registers failed'' s))
          else probe_resources h e mi ((acquire FbInfo (cleared s))\<lparr>drvdata := True\<rparr>))"

text \<open>Lines 671 and 672, which stand outside every function of the file.\<close>

definition set_pseudo_palette :: "32 word list \<Rightarrow> 'a lcd_scheme \<Rightarrow> 'a lcd_scheme" where
  "set_pseudo_palette pal s = s\<lparr>pseudo_palette := Some pal\<rparr>"

section \<open>Removing, suspending, resuming\<close>

definition lcd_fb_remove :: "lcd_h \<Rightarrow> probe_env \<Rightarrow> 'a lcd_dev_scheme \<Rightarrow> (int \<times> 'a lcd_dev_scheme) res" where
  "lcd_fb_remove h e s =
     bindR (use_fb s) (\<lambda>s.
     bindR (release Registered s) (\<lambda>s.
     bindR (unmap_video_memory e (lcd_enable h False s)) (\<lambda>s.
     bindR (release FbInfo (s\<lparr>drvdata := False\<rparr>)) (\<lambda>s.
     bindR (use_fb s) (\<lambda>s.
     bindR (release Irq s) (\<lambda>s.
     bindR (if Clock \<in> set (held s) then bindR (release ClockOn s) (release Clock) else Inr s) (\<lambda>s.
     bindR (release Mapping s) (\<lambda>s.
     bindR (release Region s) (\<lambda>s.
     bindR (release RegionMem s) (\<lambda>s. Inr (0, s)))))))))))"

definition lcd_fb_suspend :: "lcd_h \<Rightarrow> 'a lcd_dev_scheme \<Rightarrow> (int \<times> 'a lcd_dev_scheme) res" where
  "lcd_fb_suspend h s =
     bindR (use_fb s) (\<lambda>s. bindR (release ClockOn (lcd_enable h False s)) (\<lambda>s. Inr (0, s)))"

definition lcd_fb_resume :: "lcd_h \<Rightarrow> 32 word \<Rightarrow> 'a lcd_dev_scheme \<Rightarrow> (int \<times> 'a lcd_dev_scheme) res" where
  "lcd_fb_resume h clk s =
     bindR (use_fb s) (\<lambda>s.
       case platform_data s of
         None \<Rightarrow> Inl (UB ''no platform data'')
       | Some mi \<Rightarrow>
           (let s = acquire ClockOn s;
                s = activate_var h clk (init_registers h mi s) in
            Inr (0, snd (fb_blank h BLANK_UNBLANK s))))"


section \<open>The life cycle\<close>

lemma display_size_le_fold: "len \<le> video_length ds len"
proof (induction ds arbitrary: len)
  case (Cons d ds)
  have "len \<le> (if len < display_size d then display_size d else len)" by (simp add: less_imp_le)
  also have "\<dots> \<le> video_length ds \<dots>" by (rule Cons.IH)
  finally show ?case by (simp add: video_length_def)
qed (simp add: video_length_def)

lemma video_length_bound: "d \<in> set ds \<Longrightarrow> display_size d \<le> video_length ds len"
proof (induction ds arbitrary: len)
  case (Cons a ds)
  let ?l = "if len < display_size a then display_size a else len"
  have e: "video_length (a # ds) len = video_length ds ?l" by (simp add: video_length_def)
  show ?case
  proof (cases "d = a")
    case True
    have "display_size a \<le> ?l" by (simp add: not_less)
    also have "\<dots> \<le> video_length ds ?l" by (rule display_size_le_fold)
    finally show ?thesis using True e by simp
  next
    case False
    with Cons show ?thesis by (simp add: e)
  qed
qed simp

text \<open>What the set-up of the controller does not touch.\<close>

definition life :: "'a lcd_dev_scheme \<Rightarrow> mach_info option \<times> bool \<times> int \<times> resource list" where
  "life s = (platform_data s, drvdata s, lcd_irq_no s, held s)"

lemma life_simps [simp]:
  "life (writel v a s) = life s" "life (s\<lparr>regs := r\<rparr>) = life s" "life (s\<lparr>fix_par := f\<rparr>) = life s"
  "life (s\<lparr>var_par := w\<rparr>) = life s" "life (s\<lparr>klog := k\<rparr>) = life s" "life (s\<lparr>palette_buffer := b\<rparr>) = life s"
  by (simp_all add: life_def writel_def)

lemma lifeD: "life s' = life s \<Longrightarrow> held s' = held s \<and> platform_data s' = platform_data s \<and> drvdata s' = drvdata s"
  by (simp add: life_def)

lemma init_registers_same:
  "life (init_registers h mi s) = life s" "palette_buffer (init_registers h mi s) = palette_buffer s"
  "palette_ready (init_registers h mi s) = palette_ready s" "fix_par (init_registers h mi s) = fix_par s"
  "var_par (init_registers h mi s) = var_par s" "regs (init_registers h mi s) = regs s" "lcd_base (init_registers h mi s) = lcd_base s"
  by (simp_all add: init_registers_def modify_gpio_def Let_def)

lemma check_var_same:
  assumes "check_var h mi s = Inr (r, s')"
  shows "life s' = life s \<and> palette_buffer s' = palette_buffer s \<and> palette_ready s' = palette_ready s \<and> fix_par s' = fix_par s"
  using assms by (auto simp: check_var_def split: if_splits option.splits)

lemma dev_err_held [simp]: "held (dev_err m s) = held s" "fix_par (dev_err m s) = fix_par s"
    "palette_buffer (dev_err m s) = palette_buffer s" "palette_ready (dev_err m s) = palette_ready s"
  by (simp_all add: dev_err_def)

lemma release_simps:
  "release r s = Inr s' \<longleftrightarrow> r \<in> set (held s) \<and> s' = s\<lparr>held := remove1 r (held s)\<rparr>"
  "use_fb s = Inr s' \<longleftrightarrow> FbInfo \<in> set (held s) \<and> s' = s"
  by (auto simp: release_def use_fb_def)

definition controller_held :: "resource list" where
  "controller_held = [FbInfo, Region, RegionMem, Mapping, Clock, ClockOn, Irq]"

lemma probe_display_outcome:
  assumes "probe_display h e mi s = Inr (r, s')" and "held s = controller_held" and "palette_ready s = 0"
  shows "(r = 0 \<and> held s' = controller_held @ VideoMem (pe_page_align e (fx_smem_len (fix_par s'))) # Registered
          # (if pe_attr e = 0 then [DebugFile] else [])
      \<and> palette_inv s' \<and> (\<forall>d \<in> set (displays mi). display_size d \<le> fx_smem_len (fix_par s')))
    \<or> (r < 0 \<and> held s' = controller_held)"
proof -
  let ?d = "displays mi ! default_display mi"
  let ?t = "init_registers h mi (fill_info mi ?d s)"
  obtain c s1 where cv: "check_var h mi ?t = Inr (c, s1)" and len: "\<not> length (displays mi) \<le> default_display mi"
    using assms(1) by (auto simp: probe_display_def bindR_Inr_iff split: if_splits)
  have s1: "held s1 = controller_held" "palette_buffer s1 = replicate 256 PALETTE_BUFF_CLEAR" "palette_ready s1 = 0"
    "fix_par s1 = fix_par (fill_info mi ?d s)"
  proof -
    note same = check_var_same [OF cv, unfolded init_registers_same]
    have "life s1 = life s" using same by (simp add: fill_info_def)
    then show "held s1 = controller_held" using lifeD assms(2) by metis
    show "palette_buffer s1 = replicate 256 PALETTE_BUFF_CLEAR" "palette_ready s1 = 0" "fix_par s1 = fix_par (fill_info mi ?d s)"
      using same assms(3) by (simp_all add: fill_info_def)
  qed
  have size: "\<forall>d \<in> set (displays mi). display_size d \<le> fx_smem_len (fix_par s1)"
    using video_length_bound by (simp add: s1(4) fill_info_def)
  have p: "probe_display h e mi s = (let (ret, s) = map_video_memory e s1 in
        if ret \<noteq> 0 then fail_with (- ENOMEM) (err_nofb e (dev_err (''failed to allocate video RAM: '' @ deci ret) s))
        else if pe_register e < 0 then
          fail_with (pe_register e) (err_video_nomem e (dev_err (''failed to register framebuffer device: '' @ deci (pe_register e)) s))
        else (let s = acquire Registered s in
              Inr (0, if pe_attr e \<noteq> 0 then dev_err ''failed to add debug attribute'' s else acquire DebugFile s)))"
    using cv len by (simp add: probe_display_def)
  show ?thesis
  proof (cases "pe_dma e")
    case None
    with assms(1) s1(1) show ?thesis
      by (auto simp: p map_video_memory_def fail_with_def err_nofb_def err_video_nomem_def
          unmap_video_memory_def bindR_Inr_iff release_simps controller_held_def)
  next
    case (Some a)
    then show ?thesis using assms(1) s1 size
      by (auto simp: p map_video_memory_def Let_def fail_with_def err_video_nomem_def
          unmap_video_memory_def bindR_Inr_iff release_simps controller_held_def acquire_def palette_inv_def split: if_splits)
  qed
qed


lemma probe_resources_outcome:
  assumes "probe_resources h e mi s = Inr (r, s')" and "held s = [FbInfo]" and "palette_ready s = 0"
  shows "(r = 0 \<and> held s' = controller_held @ VideoMem (pe_page_align e (fx_smem_len (fix_par s'))) # Registered
          # (if pe_attr e = 0 then [DebugFile] else [])
      \<and> palette_inv s' \<and> (\<forall>d \<in> set (displays mi). display_size d \<le> fx_smem_len (fix_par s')))
    \<or> (r < 0 \<and> FbInfo \<in> set (held s'))"
proof (cases "pe_irq e < 0 \<or> \<not> pe_res e \<or> \<not> pe_region e \<or> pe_ioremap e = None \<or> \<not> pe_clk e \<or> pe_request_irq e \<noteq> 0")
  case True
  with assms show ?thesis
    by (auto simp: probe_resources_def Let_def acquire_def fail_with_def err_nomem_def err_nomap_def err_noclk_def err_noirq_def
        bindR_Inr_iff release_simps split: if_splits option.splits)
next
  case False
  then obtain base where base: "pe_ioremap e = Some base" by auto
  let ?t = "acquire Irq (acquire ClockOn (acquire Clock (acquire Mapping ((acquire RegionMem (acquire Region
    (s\<lparr>lcd_irq_no := pe_irq e\<rparr>)))\<lparr>lcd_base := base\<rparr>))))"
  have "probe_display h e mi ?t = Inr (r, s')" using assms(1) False base by (simp add: probe_resources_def Let_def)
  moreover have "held ?t = controller_held" "palette_ready ?t = 0"
    using assms(2,3) by (simp_all add: acquire_def controller_held_def)
  ultimately have "(r = 0 \<and> held s' = controller_held @ VideoMem (pe_page_align e (fx_smem_len (fix_par s'))) # Registered
        # (if pe_attr e = 0 then [DebugFile] else [])
      \<and> palette_inv s' \<and> (\<forall>d \<in> set (displays mi). display_size d \<le> fx_smem_len (fix_par s')))
    \<or> (r < 0 \<and> held s' = controller_held)" by (rule probe_display_outcome)
  then show ?thesis by (auto simp: controller_held_def)
qed

lemma lcd_probe_ok:
  assumes "lcd_fb_probe h e s = Inr (0, s')" and "held s = []"
  shows "\<exists>mi. platform_data s = Some mi \<and> distinct (held s') \<and> {FbInfo, Region, RegionMem, Mapping, Clock, ClockOn, Irq,
        VideoMem (pe_page_align e (fx_smem_len (fix_par s'))), Registered} \<subseteq> set (held s')
    \<and> palette_inv s' \<and> (\<forall>d \<in> set (displays mi). display_size d \<le> fx_smem_len (fix_par s'))"
proof -
  obtain mi where mi: "platform_data s = Some mi" and fb: "pe_fb e"
    using assms(1) by (auto simp: lcd_fb_probe_def fail_with_def bindR_Inr_iff split: option.splits if_splits)
  let ?t = "(acquire FbInfo (cleared s))\<lparr>drvdata := True\<rparr>"
  have "probe_resources h e mi ?t = Inr (0, s')" using assms(1) mi fb by (simp add: lcd_fb_probe_def)
  moreover have "held ?t = [FbInfo]" "palette_ready ?t = 0" using assms(2) by (simp_all add: acquire_def cleared_def)
  ultimately show ?thesis using probe_resources_outcome [of h e mi ?t 0 s'] mi by (auto simp: controller_held_def)
qed

text \<open>
  C34: A probe that returns 0 holds every resource of the device, each once; the palette is empty and
  consistent, and the video memory has room for a frame of every display of the platform data.
\<close>
theorem lcd_probe_success:
  assumes "lcd_fb_probe h e s = Inr (0, s')" and "held s = []"
  shows "\<exists>mi. platform_data s = Some mi \<and> distinct (held s') \<and> {FbInfo, Region, RegionMem, Mapping, Clock, ClockOn, Irq,
        VideoMem (pe_page_align e (fx_smem_len (fix_par s'))), Registered} \<subseteq> set (held s')
    \<and> palette_inv s' \<and> (\<forall>d \<in> set (displays mi). display_size d \<le> fx_smem_len (fix_par s'))"
  using assms by (rule lcd_probe_ok)

text \<open>
  No failing probe of a device with platform data cleans up: when it returns at all it returns a
  negative number and the frame buffer structure is still allocated. (All other failures run
  into a label that gives back something the probe does not hold, or has given back already.)
\<close>
theorem lcd_probe_failure_leaks:
  assumes "lcd_fb_probe h e s = Inr (r, s')" and "r \<noteq> 0" and "held s = []" and "platform_data s \<noteq> None"
  shows "r < 0 \<and> FbInfo \<in> set (held s')"
proof -
  obtain mi where mi: "platform_data s = Some mi" using assms(4) by auto
  have fb: "pe_fb e"
    using assms(1,3) mi by (auto simp: lcd_fb_probe_def fail_with_def err_noirq_def dev_err_def release_simps bindR_Inr_iff split: if_splits)
  let ?t = "(acquire FbInfo (cleared s))\<lparr>drvdata := True\<rparr>"
  have "probe_resources h e mi ?t = Inr (r, s')" using assms(1) mi fb by (simp add: lcd_fb_probe_def)
  moreover have "held ?t = [FbInfo]" "palette_ready ?t = 0" using assms(3) by (simp_all add: acquire_def cleared_def)
  ultimately show ?thesis using probe_resources_outcome [of h e mi ?t r s'] assms(2) by auto
qed

text \<open>
  Removing a device that was probed successfully uses the frame buffer structure after it has
  been released: \<open>free_irq\<close> and everything after it read \<open>fbvar\<close>, which is part of \<open>fbinfo\<close>.
\<close>
theorem lcd_remove_use_after_free:
  assumes "lcd_fb_probe h e s = Inr (0, s')" and "held s = []"
  shows "lcd_fb_remove h e s' = Inl (UB ''fb_info is not allocated'')"
proof -
  let ?v = "VideoMem (pe_page_align e (fx_smem_len (fix_par s')))"
  from lcd_probe_ok [OF assms] have d: "distinct (held s')" "{FbInfo, Registered, ?v} \<subseteq> set (held s')" by auto
  define t where "t = lcd_enable h False (s'\<lparr>held := remove1 Registered (held s')\<rparr>)"
  have t: "held t = remove1 Registered (held s')" "fix_par t = fix_par s'"
    by (simp_all add: t_def lcd_enable_def Let_def writel_def)
  have "FbInfo \<in> set (held t)" "?v \<in> set (held t)" "distinct (held t)" using d by (simp_all add: t)
  then show ?thesis using d
    by (simp add: lcd_fb_remove_def release_def use_fb_def unmap_video_memory_def t_def [symmetric] t(2))
qed


section \<open>Suspending and resuming\<close>

text \<open>Configuring for a TFT display as a function of the mode and the registers in memory.\<close>

definition con5_of :: "lcd_h \<Rightarrow> 32 word \<Rightarrow> 32 word \<Rightarrow> 32 word" where
  "con5_of h bpp c = (if bpp = 8 then (c OR (CON5_BSWP h OR CON5_FRM565 h)) AND NOT (CON5_HWSWP h)
     else if bpp = 16 then (c AND NOT (CON5_BSWP h)) OR CON5_HWSWP h
     else if bpp = 32 then c AND NOT (CON5_BSWP h OR CON5_HWSWP h OR CON5_BPP24BL h) else c)"

lemma con5_of_idem: "con5_of h bpp (con5_of h bpp c) = con5_of h bpp c"
  by (rule bit_word_eqI) (auto simp: con5_of_def bit_simps)

lemma config_regs_con5:
  assumes "lcdcon1 (regs s) AND CON1_TFT h = CON1_TFT h"
  shows "lcdcon5 (regs (config_regs h clk s)) = con5_of h (v_bpp (var_par s)) (lcdcon5 (regs s))"
  using assms by (simp add: config_regs_def config_tft_def con5_of_def Let_def)

lemma config_regs_con234:
  assumes "lcdcon1 (regs s) AND CON1_TFT h = CON1_TFT h" "lcdcon1 (regs t) AND CON1_TFT h = CON1_TFT h" "var_par s = var_par t"
  shows "lcdcon2 (regs (config_regs h clk s)) = lcdcon2 (regs (config_regs h clk t))"
    "lcdcon3 (regs (config_regs h clk s)) = lcdcon3 (regs (config_regs h clk t))"
    "lcdcon4 (regs (config_regs h clk s)) = lcdcon4 (regs (config_regs h clk t))"
  using assms by (simp_all add: config_regs_def config_tft_def Let_def)

lemma lcd_enable_same:
  "lcd_base (lcd_enable h b s) = lcd_base s" "var_par (lcd_enable h b s) = var_par s" "fix_par (lcd_enable h b s) = fix_par s"
  "regs (lcd_enable h b s) = (regs s)\<lparr>lcdcon1 := (if b then lcdcon1 (regs s) OR CON1_ENVID h else lcdcon1 (regs s) AND NOT (CON1_ENVID h))\<rparr>"
  "readl a (lcd_enable h b s) = (if a = lcd_base s + LCDCON1 h then lcdcon1 (regs (lcd_enable h b s)) else readl a s)"
  by (simp_all add: lcd_enable_def Let_def io.rd_wr)

lemma reactivate:
  fixes s0 t :: "'a lcd_dev_scheme"
  assumes tft: "lcdcon1 (regs s0) AND CON1_TFT h = CON1_TFT h" and bpp: "v_bpp (var_par s0) \<in> {1, 2, 4, 8, 16, 32}"
    and dis: "CON1_ENVID h AND CON1_TFT h = 0" and offs: "distinct (con_offsets h)"
    and t: "lcd_base t = lcd_base s0" "fix_par t = fix_par s0" "var_par t = var_par s0"
      "regs t = (let r = regs (activate_var h clk s0) in r\<lparr>lcdcon1 := lcdcon1 r AND NOT (CON1_ENVID h)\<rparr>)"
    and a: "a \<in> set (butlast (con_offsets h))"
  shows "readl (lcd_base s0 + a) (activate_var h clk t) = readl (lcd_base s0 + a) (activate_var h clk s0)"
    "regs (activate_var h clk t) = regs (activate_var h clk s0)"
proof -
  let ?c = "config_regs h clk s0" and ?d = "config_regs h clk t"
  let ?k = "CON1_TFT_BPP h (v_bpp (var_par s0)) OR CON1_CLKVAL h (of_nat (tft_clkval clk (v_pixclock (var_par s0))))"
  have c1: "lcdcon1 (regs ?c) = lcdcon1 (regs s0) OR ?k" using config_regs_tft [OF tft bpp] by simp
  have t1: "lcdcon1 (regs t) = ((lcdcon1 (regs s0) OR ?k) OR CON1_ENVID h) AND NOT (CON1_ENVID h)"
    using t(4) c1 by (simp add: activate_same(5) Let_def)
  have "bit (CON1_TFT h) n \<longrightarrow> bit (lcdcon1 (regs s0)) n \<and> \<not> bit (CON1_ENVID h) n" for n
    using arg_cong [OF tft, of "\<lambda>w. bit w n"] arg_cong [OF dis, of "\<lambda>w. bit w n"] by (auto simp: bit_and_iff)
  then have tft': "lcdcon1 (regs t) AND CON1_TFT h = CON1_TFT h"
    unfolding t1 by (intro bit_word_eqI) (auto simp: bit_simps)
  have d1: "lcdcon1 (regs ?d) OR CON1_ENVID h = lcdcon1 (regs ?c) OR CON1_ENVID h"
    using config_regs_tft [OF tft', of clk] bpp t(3) unfolding c1 t1 by (intro bit_word_eqI) (auto simp: bit_simps)
  have "lcdcon5 (regs t) = lcdcon5 (regs ?c)" using t(4) by (simp add: activate_same(5) Let_def)
  then have d5: "lcdcon5 (regs ?d) = lcdcon5 (regs ?c)"
    using t(3) by (simp add: config_regs_con5 [OF tft] config_regs_con5 [OF tft'] con5_of_idem)
  note d234 = config_regs_con234 [OF tft' tft t(3), of clk]
  show "readl (lcd_base s0 + a) (activate_var h clk t) = readl (lcd_base s0 + a) (activate_var h clk s0)"
    using a activate_registers [OF offs, of t clk] activate_registers [OF offs, of s0 clk] d1 d234 d5 t(1-3)
    by (auto simp: con_offsets_def)
  show "regs (activate_var h clk t) = regs (activate_var h clk s0)"
    using d1 d234 d5 by (simp add: activate_same(5) Let_def)
qed


lemma life_write_all: "life (io.write_all ws s) = life s"
  by (induction ws arbitrary: s) (auto simp: io.write_all_def)

lemma life_config: "life (config_regs h clk s) = life s"
  by (simp add: config_regs_def config_tft_def config_stn_def Let_def)

lemma blank_keeps_registers:
  assumes "a \<in> set (con_offsets h)" "TPAL h \<notin> set (con_offsets h)"
    "readl (lcd_base u + LCDCON1 h) u = lcdcon1 (regs u)" "lcdcon1 (regs u) OR CON1_ENVID h = lcdcon1 (regs u)"
  shows "readl (lcd_base u + a) (snd (fb_blank h BLANK_UNBLANK u)) = readl (lcd_base u + a) u"
    "readl (lcd_base u + TPAL h) (snd (fb_blank h BLANK_UNBLANK u)) = 0"
  using assms by (auto simp: fb_blank_def Let_def io.rd_wr lcd_enable_same)

text \<open>
  Suspending and resuming a device whose TFT mode is active: the control registers and frame
  addresses are those from before, the temporary palette is off, and the clock is running again.
  The bits that \<open>my2440fb_activate_var\<close> ORs into the registers in memory do not accumulate. What
  the code relies on is that the registers have different offsets and that the enable bit is not
  part of the display type.
\<close>
theorem lcd_resume_restores:
  assumes "s = activate_var h clk s0" and "lcdcon1 (regs s0) AND CON1_TFT h = CON1_TFT h"
    and "v_bpp (var_par s0) \<in> {1, 2, 4, 8, 16, 32}" and "CON1_ENVID h AND CON1_TFT h = 0"
    and "distinct (con_offsets h)" and "TPAL h \<notin> set (con_offsets h)"
    and "lcd_fb_suspend h s = Inr (0, s1)" and "lcd_fb_resume h clk s1 = Inr (0, s2)"
  shows "(\<forall>a \<in> set (butlast (con_offsets h)). readl (lcd_base s + a) s2 = readl (lcd_base s + a) s)
    \<and> readl (lcd_base s + TPAL h) s2 = 0 \<and> set (held s2) = set (held s)"
proof -
  have su: "FbInfo \<in> set (held s)" "ClockOn \<in> set (held s)"
    and s1: "s1 = (lcd_enable h False s)\<lparr>held := remove1 ClockOn (held s)\<rparr>"
    using assms(7) by (auto simp: lcd_fb_suspend_def bindR_Inr_iff release_simps lcd_enable_def Let_def writel_def)
  obtain mi where s2: "s2 = snd (fb_blank h BLANK_UNBLANK (activate_var h clk (init_registers h mi (acquire ClockOn s1))))"
    using assms(8) by (auto simp: lcd_fb_resume_def bindR_Inr_iff release_simps Let_def split: option.splits)
  define t where "t = init_registers h mi (acquire ClockOn s1)"
  define u where "u = activate_var h clk t"
  have t: "lcd_base t = lcd_base s0" "fix_par t = fix_par s0" "var_par t = var_par s0"
    "regs t = (let r = regs (activate_var h clk s0) in r\<lparr>lcdcon1 := lcdcon1 r AND NOT (CON1_ENVID h)\<rparr>)"
    by (simp_all add: t_def init_registers_same s1 acquire_def lcd_enable_same assms(1) activate_same(1-3) Let_def)
  note re = reactivate [OF assms(2-5) t]
  have b: "lcd_base u = lcd_base s0" "lcd_base s = lcd_base s0" by (simp_all add: u_def assms(1) activate_same t(1))
  have r1: "lcdcon1 (regs u) = lcdcon1 (regs (config_regs h clk s0)) OR CON1_ENVID h"
    using re(2) [of "LCDCON1 h"] by (simp add: u_def con_offsets_def activate_same Let_def)
  have "readl (lcd_base u + LCDCON1 h) u = lcdcon1 (regs u)"
    using re(1) [of "LCDCON1 h"] activate_registers(1) [OF assms(5), of s0 clk] r1 b by (simp add: u_def con_offsets_def)
  moreover have "lcdcon1 (regs u) OR CON1_ENVID h = lcdcon1 (regs u)" unfolding r1 by (simp add: or.assoc)
  ultimately have "readl (lcd_base s + a) s2 = readl (lcd_base s + a) s" if "a \<in> set (butlast (con_offsets h))" for a
    using blank_keeps_registers(1) [OF in_set_butlastD [OF that] assms(6), of u] re(1) [OF that] b
    by (simp add: s2 u_def t_def assms(1))
  moreover have "readl (lcd_base s + TPAL h) s2 = 0"
    using b by (simp add: s2 u_def t_def fb_blank_def Let_def io.rd_wr lcd_enable_same)
  moreover have "life u = life t" unfolding u_def activate_var_def write_regs_writes
    by (simp add: life_write_all life_config)
  then have "life s2 = life t" by (simp add: s2 u_def [symmetric] t_def [symmetric] fb_blank_def lcd_enable_def Let_def)
  then have "held s2 = remove1 ClockOn (held s) @ [ClockOn]"
    using lifeD [of s2 t] lifeD [OF init_registers_same(1), of h mi "acquire ClockOn s1"] by (simp add: t_def acquire_def s1)
  then have "set (held s2) = set (held s)" using su(2) set_remove1_subset [of ClockOn "held s"] by auto (metis in_set_remove1)
  ultimately show ?thesis by blast
qed


section \<open>Witnesses\<close>

definition env_ex :: probe_env where
  "env_ex = \<lparr>pe_fb = True, pe_irq = 32, pe_res = True, pe_region = True, pe_ioremap = Some 0x4D000000, pe_clk = True,
     pe_request_irq = 0, pe_page_align = (\<lambda>n. (n + 4095) AND NOT 4095), pe_dma = Some 0x33C00000, pe_register = 0, pe_attr = 0\<rparr>"

definition dev_ex :: lcd_dev where
  "dev_ex = lcd.extend lcd_on \<lparr>platform_data = Some mach_ex, drvdata = False, lcd_irq_no = 0, held = []\<rparr>"

lemma dev_ex_fields: "platform_data dev_ex = Some mach_ex" "held dev_ex = []"
  by (simp_all add: dev_ex_def lcd.defs)

lemma probe_ex: "\<exists>s'. lcd_fb_probe s3c2440_h env_ex dev_ex = Inr (0, s')"
proof -
  have "case lcd_fb_probe s3c2440_h env_ex dev_ex of Inr (r, s') \<Rightarrow> r = 0 | Inl _ \<Rightarrow> False" by code_simp
  then show ?thesis by (auto split: sum.splits prod.splits)
qed

theorem lcd_probe_success_witness:
  "\<exists>s'. lcd_fb_probe s3c2440_h env_ex dev_ex = Inr (0, s') \<and> palette_inv s' \<and> 153600 \<le> fx_smem_len (fix_par s')"
proof -
  obtain s' where s': "lcd_fb_probe s3c2440_h env_ex dev_ex = Inr (0, s')" using probe_ex by blast
  from lcd_probe_success [OF s' dev_ex_fields(2)] s' show ?thesis
    by (auto simp: dev_ex_fields mach_ex_def disp_ex_def display_size_def drop_bit_eq_div)
qed

theorem lcd_probe_failure_leaks_witness:
  "\<exists>s'. lcd_fb_probe s3c2440_h (env_ex\<lparr>pe_register := -5\<rparr>) dev_ex = Inr (-5, s') \<and> FbInfo \<in> set (held s')"
proof -
  have "case lcd_fb_probe s3c2440_h (env_ex\<lparr>pe_register := -5\<rparr>) dev_ex of Inr (r, s') \<Rightarrow> r = -5 | Inl _ \<Rightarrow> False" by code_simp
  then obtain s' where s': "lcd_fb_probe s3c2440_h (env_ex\<lparr>pe_register := -5\<rparr>) dev_ex = Inr (-5, s')"
    by (auto split: sum.splits prod.splits)
  from lcd_probe_failure_leaks [OF s' _ dev_ex_fields(2)] s' show ?thesis by (simp add: dev_ex_fields)
qed

theorem lcd_remove_use_after_free_witness:
  "\<exists>s'. lcd_fb_probe s3c2440_h env_ex dev_ex = Inr (0, s')
    \<and> lcd_fb_remove s3c2440_h env_ex s' = Inl (UB ''fb_info is not allocated'')"
  using probe_ex lcd_remove_use_after_free [OF _ dev_ex_fields(2)] by blast

theorem lcd_resume_restores_witness:
  "\<exists>(s :: lcd_dev) s1 s2. lcd_fb_suspend s3c2440_h s = Inr (0, s1) \<and> lcd_fb_resume s3c2440_h 100000000 s1 = Inr (0, s2)
    \<and> readl 0x4D000000 s2 = readl 0x4D000000 s \<and> readl 0x4D000050 s2 = 0"
proof -
  let ?s0 = "dev_ex\<lparr>regs := \<lparr>lcdcon1 = 0x60, lcdcon2 = 0, lcdcon3 = 0, lcdcon4 = 0, lcdcon5 = 0xB01\<rparr>, held := [FbInfo, Clock, ClockOn]\<rparr>"
  define s where "s = activate_var s3c2440_h 100000000 ?s0"
  have f: "var_par ?s0 = var_par lcd_on" "lcd_base ?s0 = 0x4D000000" by (simp_all add: dev_ex_def lcd.defs lcd_on_fields)
  have l: "life s = life ?s0" by (simp add: s_def activate_var_def write_regs_writes life_write_all life_config)
  then have hs: "held s = [FbInfo, Clock, ClockOn]" "platform_data s = Some mach_ex" using lifeD [OF l] by (simp_all add: dev_ex_fields)
  obtain s1 where s1: "lcd_fb_suspend s3c2440_h s = Inr (0, s1)" "held s1 = [FbInfo, Clock]" "platform_data s1 = Some mach_ex"
    using hs by (auto simp: lcd_fb_suspend_def use_fb_def release_def lcd_enable_def Let_def writel_def)
  obtain s2 where s2: "lcd_fb_resume s3c2440_h 100000000 s1 = Inr (0, s2)"
    using s1(2,3) by (auto simp: lcd_fb_resume_def use_fb_def Let_def)
  have h: "lcdcon1 (regs ?s0) AND CON1_TFT s3c2440_h = CON1_TFT s3c2440_h" "v_bpp (var_par ?s0) \<in> {1, 2, 4, 8, 16, 32}"
    "CON1_ENVID s3c2440_h AND CON1_TFT s3c2440_h = 0" "TPAL s3c2440_h \<notin> set (con_offsets s3c2440_h)"
    unfolding f by (simp_all add: lcd_on_fields s3c2440_h_def con_offsets_def)
  have b: "lcd_base s = 0x4D000000" using f(2) by (simp add: s_def activate_same)
  from lcd_resume_restores [OF s_def h(1-3) con_offsets_s3c2440 h(4) s1(1) s2]
  have "readl (lcd_base s + LCDCON1 s3c2440_h) s2 = readl (lcd_base s + LCDCON1 s3c2440_h) s"
    "readl (lcd_base s + TPAL s3c2440_h) s2 = 0"
    by (simp_all add: con_offsets_def)
  moreover have "lcd_base s + LCDCON1 s3c2440_h = 0x4D000000" "lcd_base s + TPAL s3c2440_h = 0x4D000050"
    using b by (simp_all add: s3c2440_h_def)
  ultimately have "readl 0x4D000000 s2 = readl 0x4D000000 s \<and> readl 0x4D000050 s2 = 0" by simp
  then show ?thesis using s1(1) s2 by blast
qed

end
