(* ===== verification/Beep.thy ===== *)
theory Beep
  imports Mmio
begin

text \<open>
  The two drivers of the buzzer (a PWM timer of the FS4412 board): the character device module
  driver_test/beep_driver.c and the platform driver driver_platform_test/driver.c with its device
  driver_platform_test/device.c. The register addresses that ioremap returns and the results of
  the other kernel calls come with the call; the macro \<open>_IO\<close> of the kernel is a parameter.
\<close>

section \<open>State\<close>

datatype beep_res = MapGpd | MapTimer | Chrdev | Class | Device

record beep = mmio +
  gpd0con :: "32 word"
  timer_base :: "32 word"
  beep_held :: "beep_res list"

record beep_env =
  be_gpd :: "32 word" \<comment> \<open>what ioremap returns, 0 is NULL\<close>
  be_timer :: "32 word"
  be_class :: bool
  be_device :: bool

abbreviation TCFG0 :: "32 word" where "TCFG0 \<equiv> 0x00"
abbreviation TCFG1 :: "32 word" where "TCFG1 \<equiv> 0x04"
abbreviation TCON :: "32 word" where "TCON \<equiv> 0x08"
abbreviation TCNTB0 :: "32 word" where "TCNTB0 \<equiv> 0x0C"
abbreviation TCMPB0 :: "32 word" where "TCMPB0 \<equiv> 0x10"

text \<open>The pattern \<open>writel((readl(a) & ~off) | on, a)\<close>.\<close>

definition set_bits :: "32 word \<Rightarrow> 32 word \<Rightarrow> 32 word \<Rightarrow> 'a mmio_scheme \<Rightarrow> 'a mmio_scheme" where
  "set_bits a off on s = writel ((readl a s AND NOT off) OR on) a s"

definition beep_acquire :: "beep_res \<Rightarrow> 'a beep_scheme \<Rightarrow> 'a beep_scheme" where
  "beep_acquire r s = s\<lparr>beep_held := beep_held s @ [r]\<rparr>"

definition beep_release :: "beep_res \<Rightarrow> 'a beep_scheme \<Rightarrow> 'a beep_scheme" where
  "beep_release r s = s\<lparr>beep_held := remove1 r (beep_held s)\<rparr>"

section \<open>The hardware\<close>

definition timer_init :: "'a beep_scheme \<Rightarrow> 'a beep_scheme res" where
  "timer_init s =
     (if gpd0con s = 0 \<or> timer_base s = 0 then Inl (UB ''access through NULL'')
      else (let s = set_bits (gpd0con s) 0xf 0x2 s;
                s = set_bits (timer_base s + TCFG0) 0xff 0xff s;
                s = set_bits (timer_base s + TCFG1) 0xf 0x2 s;
                s = writel 500 (timer_base s + TCNTB0) s;
                s = writel 250 (timer_base s + TCMPB0) s in
            Inr (set_bits (timer_base s + TCON) 0xf 0x2 s)))"

definition fs4412_beep_on :: "'a beep_scheme \<Rightarrow> 'a beep_scheme" where
  "fs4412_beep_on s = set_bits (timer_base s + TCON) 0xf 0x9 s"

definition fs4412_beep_off :: "'a beep_scheme \<Rightarrow> 'a beep_scheme" where
  "fs4412_beep_off s = set_bits (timer_base s + TCON) 0xf 0x0 s"

abbreviation BEPP_IN_FREQ :: "32 word" where "BEPP_IN_FREQ \<equiv> 100000"

definition beep_freq :: "32 word \<Rightarrow> 'a beep_scheme \<Rightarrow> 'a beep_scheme res" where
  "beep_freq arg s =
     (if arg = 0 then Inl (UB ''division by zero'')
      else (let s = writel (BEPP_IN_FREQ div arg) (timer_base s + TCNTB0) s in
            if 2 * arg = 0 then Inl (UB ''division by zero'')
            else Inr (writel (BEPP_IN_FREQ div (2 * arg)) (timer_base s + TCMPB0) s)))"

section \<open>The commands\<close>

text \<open>The three command numbers; \<open>io\<close> is the macro \<open>_IO\<close>.\<close>

definition BEEP_ON :: "(char \<Rightarrow> nat \<Rightarrow> 32 word) \<Rightarrow> 32 word" where "BEEP_ON io = io (CHR ''k'') 0"
definition BEEP_OFF :: "(char \<Rightarrow> nat \<Rightarrow> 32 word) \<Rightarrow> 32 word" where "BEEP_OFF io = io (CHR ''k'') 1"
definition BEEP_FREQ :: "(char \<Rightarrow> nat \<Rightarrow> 32 word) \<Rightarrow> 32 word" where "BEEP_FREQ io = io (CHR ''k'') 2"

text \<open>
  The module's beep_ioctl has no return statement after the switch: the result of a command is
  indeterminate (\<open>None\<close>).
\<close>

definition beep_ioctl :: "(char \<Rightarrow> nat \<Rightarrow> 32 word) \<Rightarrow> 32 word \<Rightarrow> 32 word \<Rightarrow> 'a beep_scheme \<Rightarrow> (int option \<times> 'a beep_scheme) res" where
  "beep_ioctl io cmd arg s =
     (if cmd = BEEP_ON io then Inr (None, fs4412_beep_on s)
      else if cmd = BEEP_OFF io then Inr (None, fs4412_beep_off s)
      else if cmd = BEEP_FREQ io then bindR (beep_freq arg s) (\<lambda>s. Inr (None, s))
      else Inr (Some (-22), s))"

definition beep_ioctl_plat :: "(char \<Rightarrow> nat \<Rightarrow> 32 word) \<Rightarrow> 32 word \<Rightarrow> 32 word \<Rightarrow> 'a beep_scheme \<Rightarrow> (int \<times> 'a beep_scheme) res" where
  "beep_ioctl_plat io cmd arg s =
     (if cmd = BEEP_ON io then Inr (0, fs4412_beep_on s)
      else if cmd = BEEP_OFF io then Inr (0, fs4412_beep_off s)
      else if cmd = BEEP_FREQ io then bindR (beep_freq arg s) (\<lambda>s. Inr (0, s))
      else Inr (-22, s))"

definition beep_open :: "'a beep_scheme \<Rightarrow> int \<times> 'a beep_scheme" where
  "beep_open s = (0, s)"

definition beep_open_plat :: "'a beep_scheme \<Rightarrow> int \<times> 'a beep_scheme" where
  "beep_open_plat s = (0, fs4412_beep_on s)"

definition beep_close :: "'a beep_scheme \<Rightarrow> int \<times> 'a beep_scheme" where
  "beep_close s = (0, fs4412_beep_off s)"

section \<open>Loading and unloading\<close>

definition beep_hw_init :: "beep_env \<Rightarrow> 'a beep_scheme \<Rightarrow> 'a beep_scheme res" where
  "beep_hw_init e s = timer_init (beep_acquire MapTimer ((beep_acquire MapGpd (s\<lparr>gpd0con := be_gpd e\<rparr>))\<lparr>timer_base := be_timer e\<rparr>))"

definition beep_init :: "beep_env \<Rightarrow> 'a beep_scheme \<Rightarrow> (int \<times> 'a beep_scheme) res" where
  "beep_init e s =
     (let s = beep_acquire Chrdev s in
      if \<not> be_class e then Inr (-16, beep_release Chrdev s)
      else (let s = beep_acquire Class s in
        if \<not> be_device e then Inr (-16, beep_release Chrdev (beep_release Class s))
        else bindR (beep_hw_init e (beep_acquire Device s)) (\<lambda>s. Inr (0, s))))"

definition beep_unmap :: "'a beep_scheme \<Rightarrow> 'a beep_scheme" where
  "beep_unmap s = beep_release MapTimer (beep_release MapGpd s)"

definition beep_exit :: "'a beep_scheme \<Rightarrow> 'a beep_scheme" where
  "beep_exit s = beep_release Chrdev (beep_release Class (beep_release Device (beep_unmap s)))"

definition beep_probe :: "beep_env \<Rightarrow> 'a beep_scheme \<Rightarrow> (int \<times> 'a beep_scheme) res" where
  "beep_probe e s =
     (let s = beep_acquire MapTimer ((beep_acquire MapGpd (s\<lparr>gpd0con := be_gpd e\<rparr>))\<lparr>timer_base := be_timer e\<rparr>);
          s = beep_acquire Chrdev s in
      if \<not> be_class e then Inr (-16, beep_release Chrdev s)
      else (let s = beep_acquire Class s in
        if \<not> be_device e then Inr (-16, beep_release Chrdev (beep_release Class s))
        else bindR (timer_init (beep_acquire Device s)) (\<lambda>s. Inr (0, s))))"

definition beep_remove :: "'a beep_scheme \<Rightarrow> int \<times> 'a beep_scheme" where
  "beep_remove s = (0, beep_release Chrdev (beep_release Class (beep_release Device (beep_unmap s))))"

text \<open>device.c: the two memory resources; the platform maps them for the driver.\<close>

definition beep_resource :: "(32 word \<times> 32 word) list" where
  "beep_resource = [(0x114000a0, 0x114000a0 + 0x4), (0x139D0000, 0x139D0000 + 0x14)]"

section \<open>What the drivers do\<close>

lemma beep_writel [simp]:
  "timer_base (writel v a s) = timer_base s" "gpd0con (writel v a s) = gpd0con s" "beep_held (writel v a s) = beep_held s"
  by (simp_all add: writel_def)

lemma set_bits_simps [simp]:
  "timer_base (set_bits a x y s) = timer_base s" "gpd0con (set_bits a x y s) = gpd0con s" "beep_held (set_bits a x y s) = beep_held s"
  "readl b (set_bits a x y s) = (if a = b then (readl a s AND NOT x) OR y else readl b s)"
  by (simp_all add: set_bits_def io.rd_wr)

lemma set_bits_modify: "set_bits a off on s = io.modify a on off s"
  by (simp add: set_bits_def io.modify_def)

lemma half_div:
  fixes a :: "32 word"
  assumes "2 * a \<noteq> 0" "a \<noteq> 0" "unat a < 2 ^ 31"
  shows "2 * unat (b div (2 * a)) \<le> unat (b div a) \<and> unat (b div a) \<le> 2 * unat (b div (2 * a)) + 1"
proof -
  have "unat (2 * a) = 2 * unat a" using assms(3) by (simp add: unat_word_ariths)
  then have "unat (b div (2 * a)) = unat (b div a) div 2"
    by (simp add: unat_div mult.commute [of 2] div_mult2_eq)
  then show ?thesis by simp
qed

text \<open>
  Setting a frequency: for every argument below 2 to the 31 but 0 the command succeeds, the
  period register holds the timer frequency divided by the argument, and the compare value is
  half of the period, rounded down: the duty cycle is a half. The argument 0, which the driver
  does not check, divides by zero.
\<close>
theorem beep_freq_duty:
  assumes "beep_freq arg s = Inr s'" and "unat arg < 2 ^ 31"
  shows "arg \<noteq> 0 \<and> unat (readl (timer_base s + TCNTB0) s') = 100000 div unat arg
    \<and> 2 * unat (readl (timer_base s + TCMPB0) s') \<le> unat (readl (timer_base s + TCNTB0) s')
    \<and> unat (readl (timer_base s + TCNTB0) s') \<le> 2 * unat (readl (timer_base s + TCMPB0) s') + 1
    \<and> readl (timer_base s + TCON) s' = readl (timer_base s + TCON) s"
proof -
  have z: "arg \<noteq> 0" "2 * arg \<noteq> 0"
    and s': "s' = writel (BEPP_IN_FREQ div (2 * arg)) (timer_base s + TCMPB0) (writel (BEPP_IN_FREQ div arg) (timer_base s + TCNTB0) s)"
    using assms(1) by (auto simp: beep_freq_def Let_def split: if_splits)
  show ?thesis unfolding s' using half_div [OF z(2,1) assms(2), of BEPP_IN_FREQ] z
    by (simp add: io.rd_wr unat_div)
qed

text \<open>
  The module and the platform driver carry out every command in the same way: they end in the
  same state or with the same fault, and differ only in the result of the commands they know.
\<close>
theorem beep_ioctl_equiv:
  "map_sum id snd (beep_ioctl io cmd arg s) = map_sum id snd (beep_ioctl_plat io cmd arg s)"
  by (simp add: beep_ioctl_def beep_ioctl_plat_def bindR_def split: sum.split)

text \<open>
  Loading and unloading: after a failed or successful load of the module followed, when it
  succeeded, by its unloading, the driver holds what it held before.
\<close>
theorem beep_init_exit:
  assumes "beep_init e s = Inr (r, s')" and "beep_held s = []"
  shows "beep_held (if r = 0 then beep_exit s' else s') = []"
  using assms
  by (auto simp: beep_init_def beep_hw_init_def timer_init_def beep_acquire_def beep_release_def beep_exit_def beep_unmap_def
      bindR_Inr_iff Let_def split: if_splits)

text \<open>A failed probe of the platform driver keeps both register mappings.\<close>

lemma beep_probe_leaks:
  assumes "beep_probe e s = Inr (r, s')" and "r \<noteq> 0" and "beep_held s = []"
  shows "beep_held s' = [MapGpd, MapTimer]"
  using assms
  by (auto simp: beep_probe_def beep_acquire_def beep_release_def bindR_Inr_iff Let_def split: if_splits)

lemma beep_on_off:
  "readl (timer_base s + TCON) (fs4412_beep_off (fs4412_beep_on s)) = readl (timer_base s + TCON) s AND NOT 0xf"
  by (simp add: fs4412_beep_on_def fs4412_beep_off_def bit.conj_disj_distrib2 and.assoc)

definition beep_ex :: beep where
  "beep_ex = \<lparr>mem = (\<lambda>_. 0), io_log = [], gpd0con = 0x2000, timer_base = 0x1000, beep_held = []\<rparr>"

theorem beep_freq_duty_witness:
  "\<exists>s'. beep_freq 440 beep_ex = Inr s' \<and> unat (readl 0x100C s') = 227 \<and> unat (readl 0x1010 s') = 113"
proof -
  obtain s' where s': "beep_freq 440 beep_ex = Inr s'" by (simp add: beep_freq_def Let_def)
  from beep_freq_duty [OF s'] s' show ?thesis by (auto simp: beep_ex_def)
qed

theorem beep_init_exit_witness:
  "\<exists>s'. beep_init \<lparr>be_gpd = 0x2000, be_timer = 0x1000, be_class = True, be_device = True\<rparr> beep_ex = Inr (0, s')
    \<and> beep_held (beep_exit s') = []"
proof -
  let ?e = "\<lparr>be_gpd = 0x2000, be_timer = 0x1000, be_class = True, be_device = True\<rparr>"
  obtain s' where s': "beep_init ?e beep_ex = Inr (0, s')"
    by (simp add: beep_init_def beep_hw_init_def timer_init_def beep_acquire_def Let_def)
  from beep_init_exit [OF s'] s' show ?thesis by (simp add: beep_ex_def)
qed

end
