(* ===== verification/Semaph.thy ===== *)
theory Semaph
  imports CPrelude
begin

text \<open>
  The semaphore interface of lib.sun/semaph.c over System V semaphores. Several processes call
  its routines at the same time; every system call is one atomic step, so that a routine is a
  sequence of program points (\<open>pc\<close>) and the state of the system is the kernel's semaphore sets
  together with the program point of each process. A process may be terminated at any point; the
  kernel then adds its adjust values (SEM_UNDO) to the semaphores.
\<close>

section \<open>The kernel\<close>

record semset =
  sval :: "nat \<Rightarrow> int" \<comment> \<open>the values of the members 0, 1 and 2\<close>
  sadj :: "nat \<Rightarrow> nat \<Rightarrow> int" \<comment> \<open>adjust value of a process for a member\<close>

datatype pc =
    Out
  | CreateGet int int
  | CreateLock int int nat
  | CreateSleep int int nat \<comment> \<open>asleep in semop: the set was there when it was called\<close>
  | CreateValue int nat
  | CreateSet0 int nat
  | CreateSet1 nat
  | CreateEnd nat
  | OpenGet int
  | OpenDec nat
  | Using nat
  | Op nat int
  | CloseLock nat
  | CloseValue nat
  | CloseRemove nat
  | CloseUnlock nat
  | Gone

record sems =
  sets :: "nat \<Rightarrow> semset option"
  keyid :: "int \<Rightarrow> nat option"
  next_id :: nat
  room :: nat \<comment> \<open>how many more sets the tables have room for\<close>
  pcs :: "nat \<Rightarrow> pc"

text \<open>One operation array: member, amount, undo. All of it is done or nothing.\<close>

fun sem_ops :: "nat \<Rightarrow> (nat \<times> int \<times> bool) list \<Rightarrow> semset \<Rightarrow> semset option" where
  "sem_ops p [] ss = Some ss"
| "sem_ops p ((i, v, undo) # os) ss =
     (if (v = 0 \<and> sval ss i \<noteq> 0) \<or> sval ss i + v < 0 then None
      else sem_ops p os (ss\<lparr>sval := (sval ss)(i := sval ss i + v),
        sadj := (if undo then (sadj ss)(p := (sadj ss p)(i := sadj ss p i - v)) else sadj ss)\<rparr>))"

datatype sem_result = Done sems | Block | NoSet

definition semop :: "nat \<Rightarrow> nat \<Rightarrow> (nat \<times> int \<times> bool) list \<Rightarrow> sems \<Rightarrow> sem_result" where
  "semop p sid os s =
     (case sets s sid of
        None \<Rightarrow> NoSet
      | Some ss \<Rightarrow> (case sem_ops p os ss of None \<Rightarrow> Block | Some ss \<Rightarrow> Done (s\<lparr>sets := (sets s)(sid := Some ss)\<rparr>)))"

definition goto :: "nat \<Rightarrow> pc \<Rightarrow> sems \<Rightarrow> sems" where
  "goto p c s = s\<lparr>pcs := (pcs s)(p := c)\<rparr>"

text \<open>The end of a process: the kernel applies its adjust values.\<close>

definition undo_set :: "nat \<Rightarrow> semset \<Rightarrow> semset" where
  "undo_set p ss = ss\<lparr>sval := (\<lambda>i. if sadj ss p i = 0 then sval ss i else max 0 (sval ss i + sadj ss p i)), sadj := (sadj ss)(p := (\<lambda>_. 0))\<rparr>"

definition proc_exit :: "nat \<Rightarrow> sems \<Rightarrow> sems" where
  "proc_exit p s = goto p Gone (s\<lparr>sets := (\<lambda>sid. map_option (undo_set p) (sets s sid))\<rparr>)"

definition new_set :: semset where
  "new_set = \<lparr>sval = (\<lambda>_. 0), sadj = (\<lambda>_ _. 0)\<rparr>"

definition semget :: "int \<Rightarrow> bool \<Rightarrow> sems \<Rightarrow> nat option \<times> sems" where
  "semget key creat s =
     (case keyid s key of
        Some sid \<Rightarrow> (Some sid, s)
      | None \<Rightarrow>
          if creat \<and> 0 < room s then
            (Some (next_id s), s\<lparr>sets := (sets s)(next_id s := Some new_set), keyid := (keyid s)(key := Some (next_id s)),
               next_id := Suc (next_id s), room := room s - 1\<rparr>)
          else (None, s))"

text \<open>SETVAL clears the adjust values of that member in all processes.\<close>

definition setval :: "nat \<Rightarrow> nat \<Rightarrow> int \<Rightarrow> sems \<Rightarrow> sems option" where
  "setval sid i v s =
     (case sets s sid of
        None \<Rightarrow> None
      | Some ss \<Rightarrow> Some (s\<lparr>sets := (sets s)(sid := Some (ss\<lparr>sval := (sval ss)(i := v), sadj := (\<lambda>q. (sadj ss q)(i := 0))\<rparr>))\<rparr>))"

definition getval :: "nat \<Rightarrow> nat \<Rightarrow> sems \<Rightarrow> int option" where
  "getval sid i s = map_option (\<lambda>ss. sval ss i) (sets s sid)"

definition sem_rm :: "nat \<Rightarrow> sems \<Rightarrow> sems option" where
  "sem_rm sid s =
     (case sets s sid of
        None \<Rightarrow> None
      | Some _ \<Rightarrow> Some (s\<lparr>sets := (sets s)(sid := None), keyid := (\<lambda>k. if keyid s k = Some sid then None else keyid s k), room := Suc (room s)\<rparr>))"

section \<open>The routines\<close>

definition BIGCOUNT :: int where "BIGCOUNT = 10000"
definition IPC_PRIVATE :: int where "IPC_PRIVATE = 0"

definition op_lock :: "(nat \<times> int \<times> bool) list" where "op_lock = [(2, 0, False), (2, 1, True)]"
definition op_endcreate :: "(nat \<times> int \<times> bool) list" where "op_endcreate = [(1, -1, True), (2, -1, True)]"
definition op_open :: "(nat \<times> int \<times> bool) list" where "op_open = [(1, -1, True)]"
definition op_close :: "(nat \<times> int \<times> bool) list" where "op_close = [(2, 0, False), (2, 1, True), (1, 1, True)]"
definition op_unlock :: "(nat \<times> int \<times> bool) list" where "op_unlock = [(2, -1, True)]"
definition op_op :: "int \<Rightarrow> (nat \<times> int \<times> bool) list" where "op_op v = [(0, v, True)]"

text \<open>A failing call of err_sys or err_dump ends the process; \<open>None\<close> is a process that waits.\<close>

definition or_die :: "nat \<Rightarrow> sems \<Rightarrow> sems option \<Rightarrow> sems option" where
  "or_die p s r = (case r of None \<Rightarrow> Some (proc_exit p s) | Some s \<Rightarrow> Some s)"

definition sem_call :: "nat \<Rightarrow> nat \<Rightarrow> (nat \<times> int \<times> bool) list \<Rightarrow> pc \<Rightarrow> sems \<Rightarrow> sems option" where
  "sem_call p sid os next s =
     (case semop p sid os s of Done s \<Rightarrow> Some (goto p next s) | Block \<Rightarrow> None | NoSet \<Rightarrow> Some (proc_exit p s))"

text \<open>sem_create, lines 90 to 164; -1 and the identifier are returned by going to Out and Using.\<close>

fun sem_create :: "nat \<Rightarrow> pc \<Rightarrow> sems \<Rightarrow> sems option" where
  "sem_create p (CreateGet key initval) s =
     (if key = IPC_PRIVATE \<or> key = -1 then Some (goto p Out s)
      else (case semget key True s of
              (None, s) \<Rightarrow> Some (goto p Out s)
            | (Some sid, s) \<Rightarrow> Some (goto p (CreateLock key initval sid) s)))"
| "sem_create p (CreateLock key initval sid) s =
     (case semop p sid op_lock s of
        Done s \<Rightarrow> Some (goto p (CreateValue initval sid) s)
      | Block \<Rightarrow> Some (goto p (CreateSleep key initval sid) s)
      | NoSet \<Rightarrow> Some (goto p (CreateGet key initval) s))"
| "sem_create p (CreateSleep key initval sid) s =
     (case semop p sid op_lock s of
        Done s \<Rightarrow> Some (goto p (CreateValue initval sid) s)
      | Block \<Rightarrow> None
      | NoSet \<Rightarrow> Some (proc_exit p s))"
| "sem_create p (CreateValue initval sid) s =
     or_die p s (map_option (\<lambda>semval. goto p (if semval = 0 then CreateSet0 initval sid else CreateEnd sid) s) (getval sid 1 s))"
| "sem_create p (CreateSet0 initval sid) s = or_die p s (map_option (goto p (CreateSet1 sid)) (setval sid 0 initval s))"
| "sem_create p (CreateSet1 sid) s = or_die p s (map_option (goto p (CreateEnd sid)) (setval sid 1 BIGCOUNT s))"
| "sem_create p (CreateEnd sid) s = sem_call p sid op_endcreate (Using sid) s"
| "sem_create p _ s = None"

fun sem_open :: "nat \<Rightarrow> pc \<Rightarrow> sems \<Rightarrow> sems option" where
  "sem_open p (OpenGet key) s =
     (if key = IPC_PRIVATE \<or> key = -1 then Some (goto p Out s)
      else (case semget key False s of
              (None, s) \<Rightarrow> Some (goto p Out s)
            | (Some sid, s) \<Rightarrow> Some (goto p (OpenDec sid) s)))"
| "sem_open p (OpenDec sid) s = sem_call p sid op_open (Using sid) s"
| "sem_open p _ s = None"

fun sem_close :: "nat \<Rightarrow> pc \<Rightarrow> sems \<Rightarrow> sems option" where
  "sem_close p (CloseLock sid) s = sem_call p sid op_close (CloseValue sid) s"
| "sem_close p (CloseValue sid) s =
     (case getval sid 1 s of
        None \<Rightarrow> Some (proc_exit p s)
      | Some semval \<Rightarrow>
          if BIGCOUNT < semval then Some (proc_exit p s)
          else if semval = BIGCOUNT then Some (goto p (CloseRemove sid) s)
          else Some (goto p (CloseUnlock sid) s))"
| "sem_close p (CloseRemove sid) s = or_die p s (map_option (goto p Out) (sem_rm sid s))"
| "sem_close p (CloseUnlock sid) s = sem_call p sid op_unlock Out s"
| "sem_close p _ s = None"

fun sem_op :: "nat \<Rightarrow> pc \<Rightarrow> sems \<Rightarrow> sems option" where
  "sem_op p (Op sid value) s = (if value = 0 then Some (proc_exit p s) else sem_call p sid (op_op value) (Using sid) s)"
| "sem_op p _ s = None"

definition sem_wait :: "nat \<Rightarrow> pc" where "sem_wait sid = Op sid (-1)"
definition sem_signal :: "nat \<Rightarrow> pc" where "sem_signal sid = Op sid 1"

section \<open>The system\<close>

text \<open>The next system call of a process, whichever routine it is in.\<close>

definition sem_run :: "nat \<Rightarrow> sems \<Rightarrow> sems option" where
  "sem_run p s =
     (let c = pcs s p in
      case c of
        OpenGet _ \<Rightarrow> sem_open p c s | OpenDec _ \<Rightarrow> sem_open p c s
      | CloseLock _ \<Rightarrow> sem_close p c s | CloseValue _ \<Rightarrow> sem_close p c s
      | CloseRemove _ \<Rightarrow> sem_close p c s | CloseUnlock _ \<Rightarrow> sem_close p c s
      | Op _ _ \<Rightarrow> sem_op p c s
      | _ \<Rightarrow> sem_create p c s)"

text \<open>
  The steps of \<open>n\<close> processes. With \<open>any\<close> the processes may also call sem_open and sem_rm, the
  two routines that do not take the lock.
\<close>

inductive sem_step :: "nat \<Rightarrow> bool \<Rightarrow> sems \<Rightarrow> sems \<Rightarrow> bool" for n :: nat and any :: bool where
  run: "p < n \<Longrightarrow> sem_run p s = Some s' \<Longrightarrow> sem_step n any s s'"
| call_create: "p < n \<Longrightarrow> pcs s p = Out \<Longrightarrow> sem_step n any s (goto p (CreateGet key initval) s)"
| call_open: "p < n \<Longrightarrow> pcs s p = Out \<Longrightarrow> any \<Longrightarrow> sem_step n any s (goto p (OpenGet key) s)"
| call_op: "p < n \<Longrightarrow> pcs s p = Using sid \<Longrightarrow> sem_step n any s (goto p (Op sid value) s)"
| call_close: "p < n \<Longrightarrow> pcs s p = Using sid \<Longrightarrow> sem_step n any s (goto p (CloseLock sid) s)"
| call_rm: "p < n \<Longrightarrow> pcs s p = Using sid \<Longrightarrow> any \<Longrightarrow> sem_rm sid s = Some s' \<Longrightarrow> sem_step n any s s'"
| killed: "p < n \<Longrightarrow> sem_step n any s (proc_exit p s)"

definition sem_init :: "nat \<Rightarrow> sems" where
  "sem_init k = \<lparr>sets = (\<lambda>_. None), keyid = (\<lambda>_. None), next_id = 0, room = k, pcs = (\<lambda>_. Out)\<rparr>"

inductive sem_reach :: "nat \<Rightarrow> bool \<Rightarrow> sems \<Rightarrow> bool" for n :: nat and any :: bool where
  start: "sem_reach n any (sem_init k)"
| steps: "sem_reach n any s \<Longrightarrow> sem_step n any s s' \<Longrightarrow> sem_reach n any s'"


section \<open>The invariant\<close>

text \<open>Which processes count as users of a set, and which hold its lock.\<close>

fun uses :: "pc \<Rightarrow> nat \<Rightarrow> bool" where
  "uses (Using i) sid = (i = sid)"
| "uses (Op i v) sid = (i = sid)"
| "uses (CloseLock i) sid = (i = sid)"
| "uses _ sid = False"

fun locked :: "pc \<Rightarrow> nat \<Rightarrow> bool" where
  "locked (CreateValue v i) sid = (i = sid)"
| "locked (CreateSet0 v i) sid = (i = sid)"
| "locked (CreateSet1 i) sid = (i = sid)"
| "locked (CreateEnd i) sid = (i = sid)"
| "locked (CloseValue i) sid = (i = sid)"
| "locked (CloseRemove i) sid = (i = sid)"
| "locked (CloseUnlock i) sid = (i = sid)"
| "locked _ sid = False"

definition count :: "nat \<Rightarrow> (nat \<Rightarrow> bool) \<Rightarrow> int" where
  "count n P = (\<Sum>p<n. of_bool (P p))"

text \<open>What a process knows of the process counter while it holds the lock.\<close>

fun knows :: "pc \<Rightarrow> nat \<Rightarrow> int \<Rightarrow> int \<Rightarrow> bool" where
  "knows (CreateSet0 v i) sid users c = (i = sid \<longrightarrow> c = 0)"
| "knows (CreateSet1 i) sid users c = (i = sid \<longrightarrow> c = 0)"
| "knows (CreateEnd i) sid users c = (i = sid \<longrightarrow> c = BIGCOUNT - users)"
| "knows (CloseValue i) sid users c = (i = sid \<longrightarrow> c = BIGCOUNT - users)"
| "knows (CloseUnlock i) sid users c = (i = sid \<longrightarrow> c = BIGCOUNT - users)"
| "knows (CloseRemove i) sid users c = (i = sid \<longrightarrow> c = BIGCOUNT \<and> users = 0)"
| "knows _ sid users c = True"

definition set_inv :: "nat \<Rightarrow> (nat \<Rightarrow> pc) \<Rightarrow> nat \<Rightarrow> semset \<Rightarrow> bool" where
  "set_inv n f sid ss \<longleftrightarrow>
     (let users = count n (\<lambda>p. uses (f p) sid) in
      sval ss 2 = count n (\<lambda>p. locked (f p) sid) \<and> sval ss 2 \<le> 1
      \<and> (sval ss 1 = BIGCOUNT - users \<or> sval ss 1 = 0 \<and> users = 0)
      \<and> (\<forall>p. sadj ss p 2 = - of_bool (locked (f p) sid) \<and> sadj ss p 1 = of_bool (uses (f p) sid))
      \<and> (\<forall>p. uses (f p) sid \<or> locked (f p) sid \<longrightarrow> p < n)
      \<and> (\<forall>p < n. knows (f p) sid users (sval ss 1)))"

lemma count_upd:
  assumes "p < n"
  shows "count n (\<lambda>q. P ((f(p := c)) q)) = count n (\<lambda>q. P (f q)) - of_bool (P (f p)) + of_bool (P c)"
proof -
  have a: "count n (\<lambda>q. P (g q)) = of_bool (P (g p)) + (\<Sum>q \<in> {..<n} - {p}. of_bool (P (g q)))" for g
    unfolding count_def by (rule sum.remove) (use assms in auto)
  have b: "(\<Sum>q \<in> {..<n} - {p}. of_bool (P ((f(p := c)) q))) = (\<Sum>q \<in> {..<n} - {p}. of_bool (P (f q)) :: int)"
    by (rule sum.cong) auto
  show ?thesis unfolding a [of "f(p := c)"] a [of f] b by simp
qed

lemma count_nonneg: "0 \<le> count n P" and count_le: "count n P \<le> int n"
  using sum_mono [of "{..<n}" "\<lambda>p. of_bool (P p) :: int" "\<lambda>_. 1"] by (auto simp: count_def intro: sum_nonneg)

lemma count_pos: "p < n \<Longrightarrow> P p \<Longrightarrow> 1 \<le> count n P"
  unfolding count_def using member_le_sum [of p "{..<n}" "\<lambda>p. of_bool (P p) :: int"] by simp

lemma count_two: "p < n \<Longrightarrow> q < n \<Longrightarrow> p \<noteq> q \<Longrightarrow> P p \<Longrightarrow> P q \<Longrightarrow> 2 \<le> count n P"
proof -
  assume a: "p < n" "q < n" "p \<noteq> q" "P p" "P q"
  have "(\<Sum>r \<in> {p, q}. of_bool (P r) :: int) \<le> count n P"
    unfolding count_def using a by (intro sum_mono2) auto
  then show ?thesis using a by simp
qed

lemma set_inv_exclusive:
  assumes "set_inv n f sid ss" "p < n" "q < n" "locked (f p) sid" "locked (f q) sid"
  shows "p = q"
  using assms count_two [of p n q "\<lambda>p. locked (f p) sid"] by (fastforce simp: set_inv_def Let_def)

lemma knows_locked: "\<not> locked c sid \<Longrightarrow> knows c sid u v"
  by (cases c) auto

lemma set_inv_step:
  assumes inv: "set_inv n f sid ss" and p: "p < n" and n: "int n < BIGCOUNT"
    and l: "sval ss' 2 = sval ss 2 - of_bool (locked (f p) sid) + of_bool (locked c sid)" "sval ss' 2 \<le> 1"
    and u: "sval ss' 1 = sval ss 1 + of_bool (uses (f p) sid) - of_bool (uses c sid)"
    and adj: "sadj ss' p 2 = - of_bool (locked c sid)" "sadj ss' p 1 = of_bool (uses c sid)"
      "\<And>q. q \<noteq> p \<Longrightarrow> sadj ss' q 2 = sadj ss q 2 \<and> sadj ss' q 1 = sadj ss q 1"
    and k: "knows c sid (count n (\<lambda>q. uses ((f(p := c)) q) sid)) (sval ss' 1)"
    and ch: "uses c sid \<Longrightarrow> \<not> uses (f p) sid \<Longrightarrow> locked (f p) sid \<and> sval ss 1 = BIGCOUNT - count n (\<lambda>q. uses (f q) sid)"
  shows "set_inv n (f(p := c)) sid ss'"
proof -
  let ?U = "count n (\<lambda>q. uses (f q) sid)" and ?U' = "count n (\<lambda>q. uses ((f(p := c)) q) sid)"
  have U: "?U' = ?U - of_bool (uses (f p) sid) + of_bool (uses c sid)" by (rule count_upd [OF p])
  have L: "count n (\<lambda>q. locked ((f(p := c)) q) sid) = count n (\<lambda>q. locked (f q) sid) - of_bool (locked (f p) sid) + of_bool (locked c sid)"
    by (rule count_upd [OF p])
  have d: "sval ss 1 = BIGCOUNT - ?U \<or> sval ss 1 = 0 \<and> ?U = 0" and kn: "\<forall>q < n. knows (f q) sid ?U (sval ss 1)"
    using inv by (simp_all add: set_inv_def Let_def)
  have pos: "uses (f p) sid \<Longrightarrow> 1 \<le> ?U" using count_pos [OF p, of "\<lambda>q. uses (f q) sid"] by simp
  have le: "?U < BIGCOUNT" using count_le [of n "\<lambda>q. uses (f q) sid"] n by simp
  have d': "sval ss' 1 = BIGCOUNT - ?U' \<or> sval ss' 1 = 0 \<and> ?U' = 0"
    using d u U ch pos by (cases "uses c sid"; cases "uses (f p) sid") auto
  have "knows ((f(p := c)) q) sid ?U' (sval ss' 1)" if q: "q < n" for q
  proof (cases "q = p")
    case True
    with k show ?thesis by simp
  next
    case False
    show ?thesis
    proof (cases "uses c sid = uses (f p) sid")
      case True
      then show ?thesis using kn q False u U by simp
    next
      case ne: False
      have "\<not> locked (f q) sid" if "uses c sid"
        using set_inv_exclusive [OF inv p q] ch that ne False by auto
      moreover have "knows (f q) sid ?U' (sval ss' 1)" if "uses (f p) sid" "\<not> uses c sid"
        using kn [rule_format, OF q] d pos [OF that(1)] le u U that by (cases "f q") auto
      ultimately show ?thesis using False ne knows_locked by fastforce
    qed
  qed
  moreover have "sadj ss' q 2 = - of_bool (locked ((f(p := c)) q) sid) \<and> sadj ss' q 1 = of_bool (uses ((f(p := c)) q) sid)" for q
    using adj inv by (cases "q = p") (auto simp: set_inv_def Let_def)
  moreover have "sval ss' 2 = count n (\<lambda>q. locked ((f(p := c)) q) sid)" using l(1) L inv by (simp add: set_inv_def Let_def)
  moreover have "\<forall>q. uses ((f(p := c)) q) sid \<or> locked ((f(p := c)) q) sid \<longrightarrow> q < n" using inv p by (simp add: set_inv_def Let_def)
  ultimately show ?thesis using d' l(2) unfolding set_inv_def Let_def by blast
qed


fun is_opening :: "pc \<Rightarrow> bool" where
  "is_opening (OpenGet k) = True"
| "is_opening (OpenDec i) = True"
| "is_opening _ = False"

definition sem_inv :: "nat \<Rightarrow> sems \<Rightarrow> bool" where
  "sem_inv n s \<longleftrightarrow> (\<forall>sid ss. sets s sid = Some ss \<longrightarrow> set_inv n (pcs s) sid ss)
     \<and> (\<forall>p sid. uses (pcs s p) sid \<or> locked (pcs s p) sid \<longrightarrow> sets s sid \<noteq> None)
     \<and> (\<forall>sid. next_id s \<le> sid \<longrightarrow> sets s sid = None) \<and> (\<forall>p. \<not> is_opening (pcs s p))"

definition about :: "pc \<Rightarrow> nat \<Rightarrow> bool" where
  "about c sid \<longleftrightarrow> (\<forall>i. i \<noteq> sid \<longrightarrow> \<not> uses c i \<and> \<not> locked c i)"

lemma about_simps [simp]:
  "about Out i" "about (CreateValue v i) i" "about (CreateSet0 v i) i" "about (CreateSet1 i) i" "about (CreateEnd i) i" "about (Using i) i"
  "about (Op i v) i" "about (CloseLock i) i" "about (CloseValue i) i" "about (CloseRemove i) i" "about (CloseUnlock i) i"
  "about (CreateLock k v j) i" "about (CreateSleep k v j) i" "about (CreateGet k v) i" "about Gone i"
  by (simp_all add: about_def)

lemma set_inv_same:
  assumes "set_inv n f sid ss" "p < n" "int n < BIGCOUNT" "uses c sid = uses (f p) sid" "locked c sid = locked (f p) sid"
    "knows c sid (count n (\<lambda>q. uses (f q) sid)) (sval ss 1)"
  shows "set_inv n (f(p := c)) sid ss"
  using assms count_upd [OF assms(2), of "\<lambda>c. uses c sid" f c]
  by (intro set_inv_step [OF assms(1-3)]) (auto simp: set_inv_def Let_def)

lemma sem_inv_goto:
  assumes inv: "sem_inv n s" and p: "p < n" "int n < BIGCOUNT"
    and c: "\<And>i. uses c i = uses (pcs s p) i" "\<And>i. locked c i = locked (pcs s p) i" "\<not> is_opening c"
    and k: "\<And>i ss. sets s i = Some ss \<Longrightarrow> knows c i (count n (\<lambda>q. uses (pcs s q) i)) (sval ss 1)"
  shows "sem_inv n (goto p c s)"
  using inv c set_inv_same [OF _ p c(1,2) k] by (auto simp: sem_inv_def goto_def)

lemma sem_inv_set:
  assumes inv: "sem_inv n s" and p: "p < n" "int n < BIGCOUNT" and ss: "sets s sid = Some ss"
    and c: "about c sid" "about (pcs s p) sid" "\<not> is_opening c"
    and new: "set_inv n ((pcs s)(p := c)) sid ss'"
  shows "sem_inv n (goto p c (s\<lparr>sets := (sets s)(sid := Some ss')\<rparr>))"
proof -
  have "set_inv n ((pcs s)(p := c)) i t" if "i \<noteq> sid" "sets s i = Some t" for i t
    using inv that c(1,2) by (intro set_inv_same [OF _ p]) (auto simp: sem_inv_def about_def knows_locked)
  then show ?thesis using inv new ss c by (auto simp: sem_inv_def goto_def about_def)
qed

text \<open>The operation arrays.\<close>

lemma sem_ops_lock:
  "sem_ops p op_lock ss = Some t \<longleftrightarrow> sval ss 2 = 0 \<and>
     t = ss\<lparr>sval := (sval ss)(2 := 1), sadj := (sadj ss)(p := (sadj ss p)(2 := sadj ss p 2 - 1))\<rparr>"
  by (auto simp: op_lock_def)

lemma sem_ops_endcreate:
  "sem_ops p op_endcreate ss = Some t \<longleftrightarrow> 1 \<le> sval ss 1 \<and> 1 \<le> sval ss 2 \<and>
     t = ss\<lparr>sval := (sval ss)(1 := sval ss 1 - 1, 2 := sval ss 2 - 1),
       sadj := (sadj ss)(p := (sadj ss p)(1 := sadj ss p 1 + 1, 2 := sadj ss p 2 + 1))\<rparr>"
  by (auto simp: op_endcreate_def)

lemma sem_ops_close:
  "sem_ops p op_close ss = Some t \<longleftrightarrow> sval ss 2 = 0 \<and> 0 \<le> sval ss 1 + 1 \<and>
     t = ss\<lparr>sval := (sval ss)(2 := 1, 1 := sval ss 1 + 1),
       sadj := (sadj ss)(p := (sadj ss p)(2 := sadj ss p 2 - 1, 1 := sadj ss p 1 - 1))\<rparr>"
  by (auto simp: op_close_def)

lemma sem_ops_unlock:
  "sem_ops p op_unlock ss = Some t \<longleftrightarrow> 1 \<le> sval ss 2 \<and>
     t = ss\<lparr>sval := (sval ss)(2 := sval ss 2 - 1), sadj := (sadj ss)(p := (sadj ss p)(2 := sadj ss p 2 + 1))\<rparr>"
  by (auto simp: op_unlock_def)

lemma sem_ops_op:
  "sem_ops p (op_op v) ss = Some t \<Longrightarrow> \<exists>x a. t = ss\<lparr>sval := (sval ss)(0 := x), sadj := (sadj ss)(p := (sadj ss p)(0 := a))\<rparr>"
  by (auto simp: op_op_def split: if_splits)

lemmas sem_ops_simps = sem_ops_lock sem_ops_endcreate sem_ops_close sem_ops_unlock

lemma set_inv_count: "set_inv n f sid ss \<Longrightarrow> sval ss 2 = count n (\<lambda>p. locked (f p) sid)"
  by (simp add: set_inv_def Let_def)

lemma set_invD:
  assumes "set_inv n f sid ss"
  shows "sadj ss p 2 = - of_bool (locked (f p) sid)" "sadj ss p 1 = of_bool (uses (f p) sid)"
    "p < n \<Longrightarrow> knows (f p) sid (count n (\<lambda>p. uses (f p) sid)) (sval ss 1)"
  using assms by (simp_all add: set_inv_def Let_def)

lemma set_inv_le1: "set_inv n f sid ss \<Longrightarrow> sval ss 2 \<le> 1"
  by (simp add: set_inv_def Let_def)

lemma locked_value: "set_inv n f sid ss \<Longrightarrow> p < n \<Longrightarrow> locked (f p) sid \<Longrightarrow> sval ss 2 = 1"
  using count_pos [of p n "\<lambda>p. locked (f p) sid"] by (fastforce simp: set_inv_def Let_def)

lemma unlocked_value: "set_inv n f sid ss \<Longrightarrow> p < n \<Longrightarrow> sval ss 2 = 0 \<Longrightarrow> \<not> locked (f p) sid"
  using locked_value by fastforce

text \<open>The steps that change a set.\<close>

lemma step_lock:
  assumes inv: "set_inv n f sid ss" and p: "p < n" "int n < BIGCOUNT" and f: "f p = CreateLock k v sid \<or> f p = CreateSleep k v sid"
    and t: "sem_ops p op_lock ss = Some t"
  shows "set_inv n (f(p := CreateValue v sid)) sid t"
  using f t set_invD [OF inv, of p] set_inv_le1 [OF inv] by (intro set_inv_step [OF inv p]) (auto simp: sem_ops_lock)

lemma step_endcreate:
  assumes inv: "set_inv n f sid ss" and p: "p < n" "int n < BIGCOUNT" and f: "f p = CreateEnd sid"
    and t: "sem_ops p op_endcreate ss = Some t"
  shows "set_inv n (f(p := Using sid)) sid t"
  using f t set_invD [OF inv, of p] set_inv_le1 [OF inv] p(1) by (intro set_inv_step [OF inv p]) (auto simp: sem_ops_endcreate)

lemma step_close:
  assumes inv: "set_inv n f sid ss" and p: "p < n" "int n < BIGCOUNT" and f: "f p = CloseLock sid"
    and t: "sem_ops p op_close ss = Some t"
  shows "set_inv n (f(p := CloseValue sid)) sid t"
proof -
  have "sval ss 1 = BIGCOUNT - count n (\<lambda>p. uses (f p) sid)"
    using inv count_pos [OF p(1), of "\<lambda>p. uses (f p) sid"] f by (auto simp: set_inv_def Let_def)
  with f t set_invD [OF inv, of p] set_inv_le1 [OF inv] count_upd [OF p(1), of "\<lambda>c. uses c sid" f "CloseValue sid"] show ?thesis
    by (intro set_inv_step [OF inv p]) (auto simp: sem_ops_close)
qed

lemma step_unlock:
  assumes inv: "set_inv n f sid ss" and p: "p < n" "int n < BIGCOUNT" and f: "f p = CloseUnlock sid"
    and t: "sem_ops p op_unlock ss = Some t"
  shows "set_inv n (f(p := Out)) sid t"
  using f t set_invD [OF inv, of p] set_inv_le1 [OF inv] by (intro set_inv_step [OF inv p]) (auto simp: sem_ops_unlock)

lemma step_op:
  assumes inv: "set_inv n f sid ss" and p: "p < n" "int n < BIGCOUNT" and f: "f p = Op sid v"
    and t: "sem_ops p (op_op v) ss = Some t"
  shows "set_inv n (f(p := Using sid)) sid t"
proof -
  obtain x a where "t = ss\<lparr>sval := (sval ss)(0 := x), sadj := (sadj ss)(p := (sadj ss p)(0 := a))\<rparr>"
    using sem_ops_op [OF t] by blast
  with f set_invD [OF inv, of p] set_inv_le1 [OF inv] show ?thesis by (intro set_inv_step [OF inv p]) auto
qed

lemma step_setval0:
  assumes inv: "set_inv n f sid ss" and p: "p < n" "int n < BIGCOUNT" and f: "f p = CreateSet0 v sid"
  shows "set_inv n (f(p := CreateSet1 sid)) sid (ss\<lparr>sval := (sval ss)(0 := v), sadj := (\<lambda>q. (sadj ss q)(0 := 0))\<rparr>)"
  using f set_invD [OF inv, of p] set_inv_le1 [OF inv] p(1) by (intro set_inv_step [OF inv p]) auto

lemma step_setval1:
  assumes inv: "set_inv n f sid ss" and p: "p < n" "int n < BIGCOUNT" and f: "f p = CreateSet1 sid"
  shows "set_inv n (f(p := CreateEnd sid)) sid (ss\<lparr>sval := (sval ss)(1 := BIGCOUNT), sadj := (\<lambda>q. (sadj ss q)(1 := 0))\<rparr>)"
proof -
  have z: "sval ss 1 = 0" "locked (f p) sid" using set_invD(3) [OF inv p(1)] f by auto
  have U: "count n (\<lambda>q. uses (f q) sid) = 0"
    using inv z(1) count_le [of n "\<lambda>q. uses (f q) sid"] p(2) by (auto simp: set_inv_def Let_def)
  have nou: "\<not> uses (f q) sid" for q
    using count_pos [of q n "\<lambda>q. uses (f q) sid"] U inv by (fastforce simp: set_inv_def Let_def)
  have U': "count n (\<lambda>q. uses ((f(p := CreateEnd sid)) q) sid) = 0"
    using count_upd [OF p(1), of "\<lambda>c. uses c sid" f "CreateEnd sid"] U f by simp
  have L': "count n (\<lambda>q. locked ((f(p := CreateEnd sid)) q) sid) = count n (\<lambda>q. locked (f q) sid)"
    using count_upd [OF p(1), of "\<lambda>c. locked c sid" f "CreateEnd sid"] f by simp
  have "knows ((f(p := CreateEnd sid)) q) sid 0 BIGCOUNT" if "q < n" for q
    using set_inv_exclusive [OF inv p(1) that z(2)] knows_locked by (cases "q = p") auto
  then have "\<forall>q < n. knows ((f(p := CreateEnd sid)) q) sid (count n (\<lambda>q. uses ((f(p := CreateEnd sid)) q) sid)) BIGCOUNT"
    unfolding U' by blast
  moreover have "\<forall>q. locked ((f(p := CreateEnd sid)) q) sid = locked (f q) sid" using f by simp
  moreover have "\<forall>q. \<not> uses ((f(p := CreateEnd sid)) q) sid" using nou by simp
  ultimately show ?thesis using inv L' U' by (simp add: set_inv_def Let_def)
qed


lemma sem_invD:
  assumes "sem_inv n s"
  shows "sets s sid = Some ss \<Longrightarrow> set_inv n (pcs s) sid ss" "uses (pcs s p) sid \<or> locked (pcs s p) sid \<Longrightarrow> sets s sid \<noteq> None"
    "next_id s \<le> sid \<Longrightarrow> sets s sid = None" "\<not> is_opening (pcs s p)"
  using assms by (auto simp: sem_inv_def)

lemma undo_set_inv:
  assumes inv: "set_inv n f sid ss" and p: "p < n" "int n < BIGCOUNT"
  shows "set_inv n (f(p := Gone)) sid (undo_set p ss)"
proof (rule set_inv_step [OF inv p])
  let ?U = "count n (\<lambda>q. uses (f q) sid)"
  have le: "?U < BIGCOUNT" using count_le [of n "\<lambda>q. uses (f q) sid"] p(2) by simp
  have u: "uses (f p) sid \<Longrightarrow> sval ss 1 = BIGCOUNT - ?U"
    using inv count_pos [OF p(1), of "\<lambda>q. uses (f q) sid"] by (auto simp: set_inv_def Let_def)
  show "sval (undo_set p ss) 2 = sval ss 2 - of_bool (locked (f p) sid) + of_bool (locked Gone sid)"
    using set_invD [OF inv, of p] locked_value [OF inv p(1)] by (simp add: undo_set_def)
  show "sval (undo_set p ss) 2 \<le> 1"
    using set_invD [OF inv, of p] set_inv_le1 [OF inv] by (simp add: undo_set_def)
  show "sval (undo_set p ss) 1 = sval ss 1 + of_bool (uses (f p) sid) - of_bool (uses Gone sid)"
    using set_invD [OF inv, of p] u le by (auto simp: undo_set_def)
qed (simp_all add: undo_set_def)

lemma proc_exit_inv:
  assumes inv: "sem_inv n s" and p: "p < n" "int n < BIGCOUNT"
  shows "sem_inv n (proc_exit p s)"
  using inv undo_set_inv [OF _ p] by (auto simp: sem_inv_def proc_exit_def goto_def)

lemma sem_rm_inv:
  assumes inv: "sem_inv n s" and p: "p < n" "int n < BIGCOUNT" and pc: "pcs s p = CloseRemove sid" and r: "sem_rm sid s = Some t"
  shows "sem_inv n (goto p Out t)"
proof -
  obtain ss where ss: "sets s sid = Some ss" and t: "t = s\<lparr>sets := (sets s)(sid := None),
      keyid := (\<lambda>k. if keyid s k = Some sid then None else keyid s k), room := Suc (room s)\<rparr>"
    using r by (auto simp: sem_rm_def split: option.splits)
  have si: "set_inv n (pcs s) sid ss" using sem_invD(1) [OF inv ss] .
  have z: "count n (\<lambda>q. uses (pcs s q) sid) = 0" using set_invD(3) [OF si p(1)] pc by simp
  have nou: "\<not> uses (pcs s q) sid" for q
    using count_pos [of q n "\<lambda>q. uses (pcs s q) sid"] z si by (fastforce simp: set_inv_def Let_def)
  have nol: "\<not> locked (pcs s q) sid" if "q \<noteq> p" for q
    using set_inv_exclusive [OF si p(1), of q] pc si that by (fastforce simp: set_inv_def Let_def)
  have "set_inv n ((pcs s)(p := Out)) i u" if "i \<noteq> sid" "sets s i = Some u" for i u
    using that pc by (intro set_inv_same [OF sem_invD(1) [OF inv that(2)] p]) auto
  then show ?thesis using inv nou nol by (auto simp: sem_inv_def goto_def t)
qed


lemma semget_inv:
  assumes inv: "sem_inv n s"
  shows "sem_inv n (snd (semget key creat s))" "pcs (snd (semget key creat s)) = pcs s"
proof -
  have "\<not> uses (pcs s q) (next_id s) \<and> \<not> locked (pcs s q) (next_id s)" for q
    using sem_invD(2,3) [OF inv] by blast
  then have "set_inv n (pcs s) (next_id s) new_set"
    using knows_locked by (simp add: set_inv_def new_set_def count_def Let_def)
  then show "sem_inv n (snd (semget key creat s))"
    using inv by (auto simp: semget_def sem_inv_def split: option.split)
qed (simp add: semget_def split: option.split)

lemma sem_call_inv:
  assumes r: "sem_call p sid os c s = Some s'" and inv: "sem_inv n s" and p: "p < n" "int n < BIGCOUNT"
    and c: "about c sid" "about (pcs s p) sid" "\<not> is_opening c"
    and st: "\<And>ss t. set_inv n (pcs s) sid ss \<Longrightarrow> sem_ops p os ss = Some t \<Longrightarrow> set_inv n ((pcs s)(p := c)) sid t"
  shows "sem_inv n s'"
proof (cases "sets s sid")
  case None
  with r proc_exit_inv [OF inv p] show ?thesis by (simp add: sem_call_def semop_def)
next
  case (Some ss)
  with r obtain t where t: "sem_ops p os ss = Some t" and s': "s' = goto p c (s\<lparr>sets := (sets s)(sid := Some t)\<rparr>)"
    by (auto simp: sem_call_def semop_def split: option.splits)
  show ?thesis unfolding s' using st [OF sem_invD(1) [OF inv Some] t] by (rule sem_inv_set [OF inv p Some c])
qed

lemma create_lock_inv:
  assumes inv: "sem_inv n s" and p: "p < n" "int n < BIGCOUNT" and f: "pcs s p = CreateLock k v sid \<or> pcs s p = CreateSleep k v sid"
    and r: "semop p sid op_lock s = Done t"
  shows "sem_inv n (goto p (CreateValue v sid) t)"
proof -
  obtain ss u where ss: "sets s sid = Some ss" and u: "sem_ops p op_lock ss = Some u" and t: "t = s\<lparr>sets := (sets s)(sid := Some u)\<rparr>"
    using r by (auto simp: semop_def split: option.splits)
  show ?thesis unfolding t using f step_lock [OF sem_invD(1) [OF inv ss] p f u]
    by (intro sem_inv_set [OF inv p ss]) auto
qed


lemma goto_get_inv:
  assumes inv: "sem_inv n s" and p: "p < n" "int n < BIGCOUNT" and f: "\<And>i. \<not> uses (pcs s p) i \<and> \<not> locked (pcs s p) i"
    and c: "\<And>i. \<not> uses c i \<and> \<not> locked c i" "\<not> is_opening c"
  shows "sem_inv n (goto p c s)"
  using f c by (intro sem_inv_goto [OF inv p]) (auto simp: knows_locked)

lemma setval_inv:
  assumes inv: "sem_inv n s" and p: "p < n" "int n < BIGCOUNT" and r: "setval sid i v s = Some t"
    and c: "about c sid" "about (pcs s p) sid" "\<not> is_opening c"
    and st: "\<And>ss. set_inv n (pcs s) sid ss \<Longrightarrow>
      set_inv n ((pcs s)(p := c)) sid (ss\<lparr>sval := (sval ss)(i := v), sadj := (\<lambda>q. (sadj ss q)(i := 0))\<rparr>)"
  shows "sem_inv n (goto p c t)"
proof -
  obtain ss where ss: "sets s sid = Some ss" and t: "t = s\<lparr>sets := (sets s)(sid := Some (ss\<lparr>sval := (sval ss)(i := v), sadj := (\<lambda>q. (sadj ss q)(i := 0))\<rparr>))\<rparr>"
    using r by (auto simp: setval_def split: option.splits)
  show ?thesis unfolding t by (rule sem_inv_set [OF inv p ss c st [OF sem_invD(1) [OF inv ss]]])
qed

lemma create_value_inv:
  assumes inv: "sem_inv n s" and p: "p < n" "int n < BIGCOUNT" and f: "pcs s p = CreateValue v sid" and g: "getval sid 1 s = Some x"
  shows "sem_inv n (goto p (if x = 0 then CreateSet0 v sid else CreateEnd sid) s)"
proof (rule sem_inv_goto [OF inv p])
  fix i ss assume ss: "sets s i = Some ss"
  have "sval ss 1 = BIGCOUNT - count n (\<lambda>q. uses (pcs s q) i) \<or> sval ss 1 = 0"
    using sem_invD(1) [OF inv ss] by (auto simp: set_inv_def Let_def)
  then show "knows (if x = 0 then CreateSet0 v sid else CreateEnd sid) i (count n (\<lambda>q. uses (pcs s q) i)) (sval ss 1)"
    using g ss by (auto simp: getval_def)
qed (use f in auto)

lemma close_value_inv:
  assumes inv: "sem_inv n s" and p: "p < n" "int n < BIGCOUNT" and f: "pcs s p = CloseValue sid" and g: "getval sid 1 s = Some x"
  shows "sem_inv n (goto p (if x = BIGCOUNT then CloseRemove sid else CloseUnlock sid) s)"
proof (rule sem_inv_goto [OF inv p])
  fix i ss assume ss: "sets s i = Some ss"
  have "i = sid \<Longrightarrow> sval ss 1 = BIGCOUNT - count n (\<lambda>q. uses (pcs s q) i)"
    using set_invD(3) [OF sem_invD(1) [OF inv ss] p(1)] f by simp
  then show "knows (if x = BIGCOUNT then CloseRemove sid else CloseUnlock sid) i (count n (\<lambda>q. uses (pcs s q) i)) (sval ss 1)"
    using g ss by (auto simp: getval_def)
qed (use f in auto)

lemma sem_run_inv:
  assumes inv: "sem_inv n s" and p: "p < n" "int n < BIGCOUNT" and r: "sem_run p s = Some s'"
  shows "sem_inv n s'"
proof -
  note die = proc_exit_inv [OF inv p] and op = sem_invD(4) [OF inv, of p]
  show ?thesis
  proof (cases "pcs s p")
    case (CreateGet k v)
    then have "sem_inv n (goto p Out s)" by (intro goto_get_inv [OF inv p]) auto
    moreover obtain i t where g: "semget k True s = (i, t)" by (cases "semget k True s")
    have "sem_inv n (goto p c t)" if "c = Out \<or> (\<exists>i. c = CreateLock k v i)" for c
      using CreateGet that g semget_inv [OF inv, of k True] by (intro goto_get_inv [OF _ p]) auto
    ultimately show ?thesis using r CreateGet g
      by (auto simp: sem_run_def split: if_splits option.splits)
  next
    case (CreateLock k v sid)
    then have "sem_inv n (goto p (CreateGet k v) s)" "sem_inv n (goto p (CreateSleep k v sid) s)"
      by (auto intro!: goto_get_inv [OF inv p])
    then show ?thesis using r CreateLock create_lock_inv [OF inv p, of k v sid]
      by (auto simp: sem_run_def split: sem_result.splits)
  next
    case (CreateSleep k v sid)
    then show ?thesis using r die create_lock_inv [OF inv p, of k v sid]
      by (auto simp: sem_run_def split: sem_result.splits)
  next
    case (CreateValue v sid)
    then show ?thesis using r die create_value_inv [OF inv p CreateValue]
      by (cases "getval sid 1 s") (auto simp: sem_run_def or_die_def)
  next
    case (CreateSet0 v sid)
    have "sem_inv n (goto p (CreateSet1 sid) t)" if "setval sid 0 v s = Some t" for t
      by (rule setval_inv [OF inv p that]) (use CreateSet0 step_setval0 [where f = "pcs s", OF _ p CreateSet0] in auto)
    then show ?thesis using r CreateSet0 die by (cases "setval sid 0 v s") (auto simp: sem_run_def or_die_def)
  next
    case (CreateSet1 sid)
    have "sem_inv n (goto p (CreateEnd sid) t)" if "setval sid 1 BIGCOUNT s = Some t" for t
      by (rule setval_inv [OF inv p that]) (use CreateSet1 step_setval1 [where f = "pcs s", OF _ p CreateSet1] in auto)
    then show ?thesis using r CreateSet1 die by (cases "setval sid 1 BIGCOUNT s") (auto simp: sem_run_def or_die_def)
  next
    case (CreateEnd sid)
    then have c: "sem_call p sid op_endcreate (Using sid) s = Some s'" using r by (simp add: sem_run_def)
    show ?thesis by (rule sem_call_inv [OF c inv p _ _ _ step_endcreate [where f = "pcs s", OF _ p CreateEnd]]) (use CreateEnd in auto)
  next
    case (CloseLock sid)
    then have c: "sem_call p sid op_close (CloseValue sid) s = Some s'" using r by (simp add: sem_run_def)
    show ?thesis by (rule sem_call_inv [OF c inv p _ _ _ step_close [where f = "pcs s", OF _ p CloseLock]]) (use CloseLock in auto)
  next
    case (CloseValue sid)
    then show ?thesis using r die close_value_inv [OF inv p CloseValue]
      by (auto simp: sem_run_def split: option.splits if_splits)
  next
    case (CloseRemove sid)
    then show ?thesis using r die sem_rm_inv [OF inv p CloseRemove]
      by (cases "sem_rm sid s") (auto simp: sem_run_def or_die_def)
  next
    case (CloseUnlock sid)
    then have c: "sem_call p sid op_unlock Out s = Some s'" using r by (simp add: sem_run_def)
    show ?thesis by (rule sem_call_inv [OF c inv p _ _ _ step_unlock [where f = "pcs s", OF _ p CloseUnlock]]) (use CloseUnlock in auto)
  next
    case (Op sid v)
    show ?thesis
    proof (cases "v = 0")
      case True
      then show ?thesis using r Op die by (simp add: sem_run_def)
    next
      case False
      then have c: "sem_call p sid (op_op v) (Using sid) s = Some s'" using r Op by (simp add: sem_run_def)
      show ?thesis by (rule sem_call_inv [OF c inv p _ _ _ step_op [where f = "pcs s", OF _ p Op]]) (use Op in auto)
    qed
  qed (use r op in \<open>auto simp: sem_run_def\<close>)
qed

lemma sem_step_inv:
  assumes "sem_step n False s s'" and inv: "sem_inv n s" and n: "int n < BIGCOUNT"
  shows "sem_inv n s'"
  using assms(1)
proof (cases rule: sem_step.cases)
  case (run p)
  then show ?thesis using sem_run_inv [OF inv _ n] by blast
next
  case (call_create p k v)
  then show ?thesis by (auto intro!: goto_get_inv [OF inv _ n])
next
  case (call_op p sid v)
  then show ?thesis by (auto intro!: sem_inv_goto [OF inv _ n])
next
  case (call_close p sid)
  then show ?thesis by (auto intro!: sem_inv_goto [OF inv _ n])
next
  case (killed p)
  then show ?thesis using proc_exit_inv [OF inv _ n] by blast
qed simp_all

lemma sem_reach_inv: "sem_reach n False s \<Longrightarrow> int n < BIGCOUNT \<Longrightarrow> sem_inv n s"
proof (induction rule: sem_reach.induct)
  case (start k)
  show ?case by (simp add: sem_inv_def sem_init_def)
next
  case (steps s s')
  then show ?case using sem_step_inv by blast
qed


text \<open>
  C4: The counter and the lock, for fewer than BIGCOUNT processes that use sem_create, sem_op and
  sem_close and may be terminated at any point: in every reachable state at most one process is
  between locking and unlocking a set, and the process counter is BIGCOUNT minus the number of
  users, or 0 as long as the set is not initialised and has no users.
\<close>
theorem sem_counter_invariant:
  assumes "sem_reach n False s" and "int n < BIGCOUNT" and "sets s sid = Some ss"
  shows "(\<forall>p q. locked (pcs s p) sid \<and> locked (pcs s q) sid \<longrightarrow> p = q)
    \<and> (sval ss 1 = BIGCOUNT - int (card {p. p < n \<and> uses (pcs s p) sid}) \<or> sval ss 1 = 0 \<and> (\<forall>p. \<not> uses (pcs s p) sid))"
proof -
  have si: "set_inv n (pcs s) sid ss" using sem_invD(1) [OF sem_reach_inv [OF assms(1,2)] assms(3)] .
  then have lt: "uses (pcs s p) sid \<or> locked (pcs s p) sid \<longrightarrow> p < n" for p by (simp add: set_inv_def Let_def)
  have c: "count n (\<lambda>p. uses (pcs s p) sid) = int (card {p. p < n \<and> uses (pcs s p) sid})"
    by (simp add: count_def Int_def lessThan_def)
  have "\<not> uses (pcs s p) sid" if "count n (\<lambda>p. uses (pcs s p) sid) = 0" for p
    using count_pos [of p n "\<lambda>p. uses (pcs s p) sid"] lt [of p] that by force
  then have "sval ss 1 = BIGCOUNT - count n (\<lambda>p. uses (pcs s p) sid) \<or> sval ss 1 = 0 \<and> (\<forall>p. \<not> uses (pcs s p) sid)"
    using si by (auto simp: set_inv_def Let_def)
  moreover have "\<forall>p q. locked (pcs s p) sid \<and> locked (pcs s q) sid \<longrightarrow> p = q"
    using set_inv_exclusive [OF si] lt by blast
  ultimately show ?thesis using c by simp
qed

text \<open>
  C5: No user loses its semaphore: as long as all processes create and close, a set that some process
  uses has not been removed, whatever the interleaving and whoever is terminated.
\<close>
theorem sem_users_keep_set:
  assumes "sem_reach n False s" and "int n < BIGCOUNT" and "uses (pcs s p) sid"
  shows "\<exists>ss. sets s sid = Some ss"
  using sem_invD(2) [OF sem_reach_inv [OF assms(1,2)]] assms(3) by blast

section \<open>Schedules\<close>

datatype event = Run nat | Call nat pc | Kill nat

fun may_call :: "bool \<Rightarrow> pc \<Rightarrow> pc \<Rightarrow> bool" where
  "may_call any Out (CreateGet k v) = True"
| "may_call any Out (OpenGet k) = any"
| "may_call any (Using i) (Op j v) = (i = j)"
| "may_call any (Using i) (CloseLock j) = (i = j)"
| "may_call any _ _ = False"

fun sem_exec :: "nat \<Rightarrow> bool \<Rightarrow> event list \<Rightarrow> sems \<Rightarrow> sems option" where
  "sem_exec n any [] s = Some s"
| "sem_exec n any (Run p # es) s = (if p < n then (case sem_run p s of None \<Rightarrow> None | Some s \<Rightarrow> sem_exec n any es s) else None)"
| "sem_exec n any (Call p c # es) s = (if p < n \<and> may_call any (pcs s p) c then sem_exec n any es (goto p c s) else None)"
| "sem_exec n any (Kill p # es) s = (if p < n then sem_exec n any es (proc_exit p s) else None)"

lemma may_call_step: "may_call any (pcs s p) c \<Longrightarrow> p < n \<Longrightarrow> sem_step n any s (goto p c s)"
  by (cases "pcs s p"; cases c) (auto intro: sem_step.intros)

lemma sem_exec_reach: "sem_exec n any es s = Some s' \<Longrightarrow> sem_reach n any s \<Longrightarrow> sem_reach n any s'"
proof (induction n any es s rule: sem_exec.induct)
  case (2 n any p es s)
  then show ?case by (auto split: if_splits option.splits intro: sem_reach.steps sem_step.run)
next
  case (3 n any p c es s)
  then show ?case by (auto split: if_splits intro: sem_reach.steps may_call_step)
next
  case (4 n any p es s)
  then show ?case by (auto split: if_splits intro: sem_reach.steps sem_step.killed)
qed simp

lemma sem_exec_holds:
  assumes "case sem_exec n any es (sem_init k) of None \<Rightarrow> False | Some s \<Rightarrow> P s"
  shows "\<exists>s. sem_reach n any s \<and> P s"
proof (cases "sem_exec n any es (sem_init k)")
  case (Some t)
  with assms sem_exec_reach [OF Some sem_reach.start] show ?thesis by auto
qed (use assms in simp)

definition create0 :: "event list" where
  "create0 = Call 0 (CreateGet 5 1) # replicate 6 (Run 0)"

text \<open>
  sem_open is not safe: it changes the counter without the lock, so that it can come between the
  test of the counter in sem_close and the removal. A process then holds a semaphore that does
  not exist.
\<close>
theorem sem_open_race:
  "\<exists>s. sem_reach 2 True s \<and> pcs s 1 = Using 0 \<and> sets s 0 = None"
proof -
  let ?es = "create0 @ [Call 0 (CloseLock 0), Run 0, Run 0, Call 1 (OpenGet 5), Run 1, Run 1, Run 0]"
  have "case sem_exec 2 True ?es (sem_init 3) of None \<Rightarrow> False | Some s \<Rightarrow> pcs s 1 = Using 0 \<and> sets s 0 = None" by code_simp
  from sem_exec_holds [OF this] show ?thesis by (fastforce split: option.splits)
qed

text \<open>
  The race that sem_create handles is handled for EINVAL only: a process that already sleeps in
  semop when the last user removes the set gets EIDRM and is ended by err_sys.
\<close>
theorem sem_create_removed_asleep:
  "\<exists>s s'. sem_reach 2 False s \<and> pcs s 1 = CreateSleep 5 1 0 \<and> sem_run 1 s = Some s' \<and> pcs s' 1 = Gone"
proof -
  let ?es = "create0 @ [Call 0 (CloseLock 0), Run 0, Call 1 (CreateGet 5 1), Run 1, Run 1, Run 0, Run 0]"
  have "case sem_exec 2 False ?es (sem_init 3) of None \<Rightarrow> False
      | Some s \<Rightarrow> pcs s 1 = CreateSleep 5 1 0 \<and> (case sem_run 1 s of None \<Rightarrow> False | Some s' \<Rightarrow> pcs s' 1 = Gone)" by code_simp
  from sem_exec_holds [OF this] show ?thesis by (fastforce split: option.splits)
qed

lemma sem_ex:
  "\<exists>s ss. sem_reach 2 False s \<and> pcs s 0 = Using 0 \<and> pcs s 1 = CreateValue 9 0 \<and> sets s 0 = Some ss \<and> sval ss 1 = 9999"
proof -
  let ?es = "create0 @ [Call 1 (CreateGet 5 9), Run 1, Run 1]"
  have "case sem_exec 2 False ?es (sem_init 3) of None \<Rightarrow> False
      | Some s \<Rightarrow> pcs s 0 = Using 0 \<and> pcs s 1 = CreateValue 9 0 \<and> (case sets s 0 of None \<Rightarrow> False | Some ss \<Rightarrow> sval ss 1 = 9999)" by code_simp
  from sem_exec_holds [OF this] show ?thesis by (fastforce split: option.splits)
qed

theorem sem_counter_invariant_witness:
  "\<exists>s. sem_reach 2 False s \<and> locked (pcs s 1) 0 \<and> (\<forall>p. locked (pcs s p) 0 \<longrightarrow> p = 1)"
proof -
  obtain s ss where s: "sem_reach 2 False s" "pcs s 1 = CreateValue 9 0" "sets s 0 = Some ss" using sem_ex by blast
  from sem_counter_invariant [OF s(1) _ s(3)] s show ?thesis by (force simp: BIGCOUNT_def)
qed

theorem sem_users_keep_set_witness:
  "\<exists>s ss. sem_reach 2 False s \<and> pcs s 0 = Using 0 \<and> sets s 0 = Some ss"
proof -
  obtain s where s: "sem_reach 2 False s" "pcs s 0 = Using 0" using sem_ex by blast
  from sem_users_keep_set [OF s(1), of 0 0] s show ?thesis by (auto simp: BIGCOUNT_def)
qed

end
