(* ===== verification/Stm8Pwm.thy ===== *)
theory Stm8Pwm
  imports CPrelude
begin

unbundle bit_operations_syntax

text \<open>
  The firmware of the PWM light, stm8_pwm/main.c: three compare registers of timer 2 drive a red,
  a green and a blue light; one key changes the brightness, the other one the colour. The
  registers are fields of the state with the width of the hardware; the values that the port
  PC_IDR shows are the inputs of the main loop. An unsigned int has 16 bits.
\<close>

record pwm =
  ccr1 :: "8 word \<times> 8 word" \<comment> \<open>TIM2_CCR1H and TIM2_CCR1L\<close>
  ccr2 :: "8 word \<times> 8 word"
  ccr3 :: "8 word \<times> 8 word"
  arr :: "8 word \<times> 8 word"
  pc_ddr :: "8 word"
  config :: "(string \<times> 8 word) list" \<comment> \<open>the other registers that are only set at the start\<close>
  brightness1 :: "8 word"
  color1 :: nat
  ticks :: nat \<comment> \<open>rounds of the delay loop\<close>

abbreviation (input) RED :: nat where "RED \<equiv> 1"
abbreviation (input) BLUE :: nat where "BLUE \<equiv> 2"
abbreviation (input) GREEN :: nat where "GREEN \<equiv> 3"
abbreviation (input) UNKONW1 :: nat where "UNKONW1 \<equiv> 4"
abbreviation (input) UNKONW2 :: nat where "UNKONW2 \<equiv> 5"
abbreviation (input) UNKONW3 :: nat where "UNKONW3 \<equiv> 6"
abbreviation (input) UNKONW4 :: nat where "UNKONW4 \<equiv> 7"

definition duty_table_r :: "8 word list" where "duty_table_r = [0, 8, 14, 21, 29, 33, 50]"
definition duty_table_g :: "8 word list" where "duty_table_g = [0, 8, 14, 21, 29, 33, 50]"
definition duty_table_b :: "8 word list" where "duty_table_b = [0, 8, 14, 21, 29, 33, 50]"

text \<open>Reading an array outside its bounds is undefined.\<close>

definition at :: "8 word list \<Rightarrow> 8 word \<Rightarrow> 16 word res" where
  "at t i = (if unat i < length t then Inr (ucast (t ! unat i)) else Inl (UB ''duty table index''))"

definition hi_lo :: "16 word \<Rightarrow> 8 word \<times> 8 word" where
  "hi_lo duty = (ucast (drop_bit 8 duty), ucast (duty AND 0x00ff))"

fun delay :: "nat \<Rightarrow> 'a pwm_scheme \<Rightarrow> 'a pwm_scheme" where
  "delay 0 s = s"
| "delay (Suc time) s = delay time (s\<lparr>ticks := ticks s + 200\<rparr>)"

definition three_color :: "8 word \<Rightarrow> 8 word \<Rightarrow> 8 word \<Rightarrow> 'a pwm_scheme \<Rightarrow> 'a pwm_scheme res" where
  "three_color red blue green s =
     (if 7 < red \<or> 7 < blue \<or> 7 < green then Inr s
      else bindR (at duty_table_g green) (\<lambda>duty.
           let s = s\<lparr>ccr1 := hi_lo duty\<rparr> in bindR (at duty_table_b blue) (\<lambda>duty.
           let s = s\<lparr>ccr2 := hi_lo duty\<rparr> in bindR (at duty_table_r red) (\<lambda>duty.
           Inr (s\<lparr>ccr3 := hi_lo duty\<rparr>)))))"

definition set_color :: "nat \<Rightarrow> 'a pwm_scheme \<Rightarrow> 'a pwm_scheme res" where
  "set_color color s =
     (let b = brightness1 s in
      if color = RED then three_color b 0 0 s
      else if color = BLUE then three_color 0 b 0 s
      else if color = GREEN then three_color 0 0 b s
      else if color = UNKONW1 then three_color 0 b b s
      else if color = UNKONW2 then three_color b b 0 s
      else if color = UNKONW3 then three_color b b b s
      else if color = UNKONW4 then three_color b 0 b s
      else Inr s)"

text \<open>Lines 95 to 135.\<close>

definition pwm_start :: "'a pwm_scheme \<Rightarrow> 'a pwm_scheme res" where
  "pwm_start s =
     (let s = s\<lparr>config := [(''CLK_PCKENR1'', 0xff), (''PD_DDR'', 0xff), (''PD_CR1'', 0xff), (''PD_CR2'', 0xff),
             (''PC_CR1'', 0xff), (''PC_CR2'', 0xff), (''PA_DDR'', 0xff), (''PA_CR1'', 0xff), (''PA_CR2'', 0xff),
             (''TIM2_CCMR1'', 0x68), (''TIM2_CCMR2'', 0x68), (''TIM2_CCMR3'', 0x68),
             (''TIM2_CCER1'', 0x11), (''TIM2_CCER2'', 0x01), (''TIM2_CR1'', 0x81)],
           pc_ddr := (0xff AND NOT (push_bit 3 1)) AND NOT (push_bit 4 1), arr := (0x00, 0x32),
           ccr1 := (0x00, 0x04), ccr2 := (0x00, 0x04), ccr3 := (0x00, 0x04)\<rparr> in
      set_color (color1 s) s)"

text \<open>
  Lines 139 to 152 and 154 to 167: the keys pull their pin low. The second test, after the
  delays, looks at the same variable again.
\<close>

definition key_brightness :: "8 word \<Rightarrow> 'a pwm_scheme \<Rightarrow> 'a pwm_scheme res" where
  "key_brightness idr s =
     (let tmp = idr AND push_bit 4 1 in
      if tmp AND push_bit 4 1 = 0 then
        (let s = delay 200 (delay 200 (delay 200 s)) in
         if tmp AND push_bit 4 1 = 0 then
           (let s = s\<lparr>brightness1 := brightness1 s + 1\<rparr>;
                s = (if 7 < brightness1 s then s\<lparr>brightness1 := 0\<rparr> else s) in
            set_color (color1 s) s)
         else Inr s)
      else Inr s)"

definition key_color :: "8 word \<Rightarrow> 'a pwm_scheme \<Rightarrow> 'a pwm_scheme res" where
  "key_color idr s =
     (let tmp = idr AND push_bit 3 1 in
      if tmp AND push_bit 3 1 = 0 then
        (let s = delay 200 (delay 200 (delay 200 s)) in
         if tmp AND push_bit 3 1 = 0 then
           (let s = s\<lparr>color1 := color1 s + 1\<rparr>;
                s = (if 7 < color1 s then s\<lparr>color1 := RED\<rparr> else s) in
            set_color (color1 s) s)
         else Inr s)
      else Inr s)"

fun pwm_loop :: "(8 word \<times> 8 word) list \<Rightarrow> 'a pwm_scheme \<Rightarrow> 'a pwm_scheme res" where
  "pwm_loop [] s = Inr s"
| "pwm_loop ((idr1, idr2) # ins) s = bindR (key_brightness idr1 s) (\<lambda>s. bindR (key_color idr2 s) (pwm_loop ins))"

section \<open>What the light shows\<close>

lemma delay_eq: "delay n s = s\<lparr>ticks := ticks s + n * 200\<rparr>"
  by (induction n arbitrary: s) simp_all

definition lit :: "nat \<Rightarrow> bool \<times> bool \<times> bool" where
  "lit color = (color \<in> {RED, UNKONW2, UNKONW3, UNKONW4}, color \<in> {GREEN, UNKONW1, UNKONW3, UNKONW4},
     color \<in> {BLUE, UNKONW1, UNKONW2, UNKONW3})"

text \<open>The value a light gets, and the state in which the lights show brightness and colour.\<close>

definition light_level :: "bool \<Rightarrow> 8 word \<Rightarrow> 8 word \<times> 8 word" where
  "light_level on b = (0, if on then duty_table_r ! unat b else 0)"

definition shows_light :: "'a pwm_scheme \<Rightarrow> bool" where
  "shows_light s \<longleftrightarrow> (case lit (color1 s) of (r, g, b) \<Rightarrow>
     ccr3 s = light_level r (brightness1 s) \<and> ccr1 s = light_level g (brightness1 s)
     \<and> ccr2 s = light_level b (brightness1 s))"

lemma tables_equal: "duty_table_g = duty_table_r" "duty_table_b = duty_table_r"
  by (simp_all add: duty_table_r_def duty_table_g_def duty_table_b_def)

lemma table_length: "length duty_table_r = 7"
  by (simp add: duty_table_r_def)

lemma hi_lo_ucast: "hi_lo (ucast (w :: 8 word)) = (0, w)"
proof -
  have "drop_bit 8 (ucast w :: 16 word) = 0"
    by (rule bit_word_eqI) (auto simp: bit_simps dest: bit_imp_le_length)
  moreover have "(0x00ff :: 16 word) = mask 8" by (simp add: mask_eq_exp_minus_1)
  moreover have "ucast (take_bit 8 (ucast w :: 16 word)) = w"
    by (rule bit_word_eqI) (auto simp: bit_simps)
  ultimately show ?thesis by (simp only: hi_lo_def flip: take_bit_eq_mask) simp
qed

lemma three_color_ok:
  assumes "unat r < 7" "unat b < 7" "unat g < 7"
  shows "three_color r b g s = Inr (s\<lparr>ccr1 := (0, duty_table_r ! unat g),
    ccr2 := (0, duty_table_r ! unat b), ccr3 := (0, duty_table_r ! unat r)\<rparr>)"
  using assms by (simp add: three_color_def at_def tables_equal table_length hi_lo_ucast word_less_nat_alt Let_def)

lemma three_color_over:
  assumes "r \<le> 7" "b \<le> 7" "g \<le> 7" "7 \<in> {r, b, g}"
  shows "three_color r b g s = Inl (UB ''duty table index'')"
  using assms by (auto simp: three_color_def at_def tables_equal table_length bindR_def Let_def split: if_splits sum.splits)

lemma lit_cases: "color \<in> {1..7} \<Longrightarrow> color \<in> {RED, BLUE, GREEN, UNKONW1, UNKONW2, UNKONW3, UNKONW4}"
  by auto

lemma set_color_shows:
  assumes "unat (brightness1 s) < 7" "color \<in> {1..7}"
  shows "\<exists>s'. set_color color s = Inr s' \<and> brightness1 s' = brightness1 s \<and> color1 s' = color1 s
    \<and> (color = color1 s \<longrightarrow> shows_light s')"
  using lit_cases [OF assms(2)] assms(1)
  by (auto simp: set_color_def three_color_ok shows_light_def lit_def light_level_def duty_table_r_def Let_def)

lemma set_color_over:
  assumes "brightness1 s = 7" "color \<in> {1..7}"
  shows "set_color color s = Inl (UB ''duty table index'')"
  using lit_cases [OF assms(2)] assms(1)
  by (auto simp: set_color_def three_color_over Let_def)

definition light_inv :: "'a pwm_scheme \<Rightarrow> bool" where
  "light_inv s \<longleftrightarrow> unat (brightness1 s) < 7 \<and> color1 s \<in> {1..7} \<and> shows_light s"

definition pressed :: "nat \<Rightarrow> 8 word \<Rightarrow> bool" where
  "pressed pin idr \<longleftrightarrow> \<not> bit idr pin"

lemma pressed_iff: "(idr AND push_bit n 1) AND push_bit n 1 = 0 \<longleftrightarrow> pressed n idr"
  by (simp add: pressed_def bit_iff_and_push_bit_not_eq_0 and.assoc)

lemma key_brightness_pressed:
  "key_brightness idr s = (if pressed 4 idr then
     let s = s\<lparr>ticks := 120000 + ticks s, brightness1 := brightness1 s + 1\<rparr>;
         s = (if 7 < brightness1 s then s\<lparr>brightness1 := 0\<rparr> else s) in set_color (color1 s) s
   else Inr s)"
  by (simp only: key_brightness_def Let_def pressed_iff delay_eq) (simp add: Let_def)

lemma key_color_pressed:
  "key_color idr s = (if pressed 3 idr then
     let s = s\<lparr>ticks := 120000 + ticks s, color1 := color1 s + 1\<rparr>;
         s = (if 7 < color1 s then s\<lparr>color1 := RED\<rparr> else s) in set_color (color1 s) s
   else Inr s)"
  by (simp only: key_color_def Let_def pressed_iff delay_eq) (simp add: Let_def)

lemma key_brightness_up:
  assumes "light_inv s"
  shows "\<not> pressed 4 idr \<Longrightarrow> key_brightness idr s = Inr s"
    and "pressed 4 idr \<Longrightarrow> unat (brightness1 s) < 6 \<Longrightarrow> \<exists>s'. key_brightness idr s = Inr s' \<and> light_inv s'
      \<and> unat (brightness1 s') = Suc (unat (brightness1 s)) \<and> color1 s' = color1 s"
    and "pressed 4 idr \<Longrightarrow> unat (brightness1 s) = 6 \<Longrightarrow> key_brightness idr s = Inl (UB ''duty table index'')"
proof -
  show "key_brightness idr s = Inr s" if "\<not> pressed 4 idr"
    using that by (simp add: key_brightness_pressed)
next
  assume "pressed 4 idr" and *: "unat (brightness1 s) < 6"
  have b: "unat (brightness1 s + 1) = Suc (unat (brightness1 s))"
    using * by (simp add: unat_word_ariths)
  then have "\<not> 7 < brightness1 s + 1" using * by (simp add: word_less_nat_alt)
  with \<open>pressed 4 idr\<close> b * assms set_color_shows [of "s\<lparr>ticks := 120000 + ticks s, brightness1 := brightness1 s + 1\<rparr>" "color1 s"]
  show "\<exists>s'. key_brightness idr s = Inr s' \<and> light_inv s' \<and> unat (brightness1 s') = Suc (unat (brightness1 s))
    \<and> color1 s' = color1 s"
    by (auto simp: key_brightness_pressed light_inv_def Let_def)
next
  assume "pressed 4 idr" and "unat (brightness1 s) = 6"
  then have "brightness1 s = 6" by (simp add: unat_arith_simps)
  with \<open>pressed 4 idr\<close> assms show "key_brightness idr s = Inl (UB ''duty table index'')"
    by (simp add: key_brightness_pressed light_inv_def Let_def set_color_over)
qed

lemma key_color_up:
  assumes "light_inv s"
  shows "\<exists>s'. key_color idr s = Inr s' \<and> light_inv s' \<and> brightness1 s' = brightness1 s
    \<and> color1 s' = (color1 s - 1 + (if pressed 3 idr then 1 else 0)) mod 7 + 1"
proof (cases "pressed 3 idr")
  case False
  with assms show ?thesis by (auto simp: key_color_pressed light_inv_def)
next
  case True
  define c where "c = (if 7 < Suc (color1 s) then 1 else Suc (color1 s))"
  have c: "c \<in> {1..7}" "c = (color1 s - 1 + 1) mod 7 + 1"
    using assms by (auto simp: c_def light_inv_def mod_if)
  from True assms c set_color_shows [of "s\<lparr>ticks := 120000 + ticks s, color1 := c\<rparr>" c]
  show ?thesis by (auto simp: key_color_pressed light_inv_def c_def Let_def)
qed

definition presses :: "nat \<Rightarrow> 8 word list \<Rightarrow> nat" where
  "presses pin idrs = length (filter (pressed pin) idrs)"

lemma pwm_loop_run:
  assumes "light_inv s"
  shows "if unat (brightness1 s) + presses 4 (map fst ins) < 7
    then \<exists>s'. pwm_loop ins s = Inr s' \<and> light_inv s' \<and> unat (brightness1 s') = unat (brightness1 s) + presses 4 (map fst ins)
      \<and> color1 s' = (color1 s - 1 + presses 3 (map snd ins)) mod 7 + 1
    else pwm_loop ins s = Inl (UB ''duty table index'')"
  using assms
proof (induction ins arbitrary: s)
  case Nil
  then show ?case by (auto simp: presses_def light_inv_def)
next
  case (Cons x ins)
  obtain i j where x: "x = (i, j)" by (cases x)
  show ?case
  proof (cases "pressed 4 i \<and> unat (brightness1 s) = 6")
    case True
    then show ?thesis using key_brightness_up(3) [OF Cons.prems] by (simp add: x presses_def)
  next
    case False
    have "unat (brightness1 s) < 7" using Cons.prems by (simp add: light_inv_def)
    with False key_brightness_up(1,2) [OF Cons.prems, of i] Cons.prems obtain s1 where s1: "key_brightness i s = Inr s1" "light_inv s1"
      "unat (brightness1 s1) = unat (brightness1 s) + presses 4 [i]" "color1 s1 = color1 s"
      by (cases "pressed 4 i") (auto simp: presses_def)
    from key_color_up [OF s1(2), of j] obtain s2 where s2: "key_color j s1 = Inr s2" "light_inv s2"
      "brightness1 s2 = brightness1 s1" "color1 s2 = (color1 s1 - 1 + presses 3 [j]) mod 7 + 1"
      by (auto simp: presses_def)
    have sum: "presses 4 (map fst (x # ins)) = presses 4 [i] + presses 4 (map fst ins)"
      "presses 3 (map snd (x # ins)) = presses 3 [j] + presses 3 (map snd ins)"
      by (simp_all add: x presses_def)
    have "((color1 s - 1 + presses 3 [j]) mod 7 + 1 - 1 + n) mod 7 + 1 = (color1 s - 1 + (presses 3 [j] + n)) mod 7 + 1" for n
      by (simp add: mod_simps add.assoc)
    then have "(color1 s2 - 1 + presses 3 (map snd ins)) mod 7 + 1
      = (color1 s - 1 + (presses 3 [j] + presses 3 (map snd ins))) mod 7 + 1" using s1 s2 by simp
    with Cons.IH [OF s2(2)] s1 s2 show ?thesis
      unfolding sum by (simp only: x pwm_loop.simps bindR_Inr add.assoc)
  qed
qed

lemma pwm_start_inv:
  assumes "brightness1 s = 1" "color1 s = RED"
  shows "\<exists>s'. pwm_start s = Inr s' \<and> light_inv s' \<and> brightness1 s' = 1 \<and> color1 s' = RED"
proof -
  obtain t where t: "pwm_start s = set_color RED t" "brightness1 t = 1" "color1 t = RED"
    using assms by (simp add: pwm_start_def Let_def)
  from set_color_shows [of t RED] t show ?thesis by (auto simp: light_inv_def)
qed

text \<open>
  Five presses are safe. After the firmware has started with brightness 1 and red, and as long as
  the brightness key is pressed at most five times, whatever the colour key does, the loop
  never leaves its duty tables; the brightness is one more than the number of presses, the colour
  goes round the seven values of the palette, and the three compare registers hold the duty
  value of that brightness for the lights that belong to the colour and 0 for the others.
\<close>

theorem pwm_follows_keys:
  assumes "brightness1 s = 1" and "color1 s = RED" and "presses 4 (map fst ins) \<le> 5"
  shows "\<exists>s'. bindR (pwm_start s) (pwm_loop ins) = Inr s' \<and> shows_light s'
    \<and> unat (brightness1 s') = 1 + presses 4 (map fst ins) \<and> color1 s' = presses 3 (map snd ins) mod 7 + 1"
proof -
  from pwm_start_inv [OF assms(1,2)] obtain s1 where s1: "pwm_start s = Inr s1" "light_inv s1" "brightness1 s1 = 1" "color1 s1 = 1"
    by auto
  from pwm_loop_run [OF s1(2), of ins] s1 assms(3) show ?thesis
    by (auto simp: light_inv_def)
qed

abbreviation pwm_off :: pwm where
  "pwm_off \<equiv> \<lparr>ccr1 = (0, 0), ccr2 = (0, 0), ccr3 = (0, 0), arr = (0, 0), pc_ddr = 0, config = [], brightness1 = 1,
     color1 = RED, ticks = 0\<rparr>"

lemma pwm_follows_keys_witness:
  "\<exists>s'. bindR (pwm_start pwm_off) (pwm_loop [(0x08, 0x18), (0x18, 0x10), (0x0F, 0x08)]) = Inr s' \<and> shows_light s'
    \<and> unat (brightness1 s') = 3 \<and> color1 s' = BLUE"
proof -
  have "presses 4 (map fst [(0x08 :: 8 word, 0x18 :: 8 word), (0x18, 0x10), (0x0F, 0x08)]) = 2"
    "presses 3 (map snd [(0x08 :: 8 word, 0x18 :: 8 word), (0x18, 0x10), (0x0F, 0x08)]) = 1"
    by code_simp+
  with pwm_follows_keys [of pwm_off "[(0x08, 0x18), (0x18, 0x10), (0x0F, 0x08)]"] show ?thesis by auto
qed

text \<open>
  The sixth press is not. The tables have seven entries, but the loop lets the brightness grow
  to 7 and \<open>three_color\<close> lets 7 pass: with the sixth press of the brightness key, and whatever
  happens to the colour key, an array is read past its end.
\<close>

theorem pwm_sixth_press:
  assumes "brightness1 s = 1" and "color1 s = RED"
  shows "bindR (pwm_start s) (pwm_loop ins) = Inl (UB ''duty table index'') \<longleftrightarrow> 6 \<le> presses 4 (map fst ins)"
proof -
  from pwm_start_inv [OF assms] obtain s1 where s1: "pwm_start s = Inr s1" "light_inv s1" "brightness1 s1 = 1"
    by auto
  from pwm_loop_run [OF s1(2), of ins] s1 show ?thesis
    by (auto split: if_splits)
qed

lemma pwm_sixth_press_witness:
  "bindR (pwm_start pwm_off) (pwm_loop (replicate 6 (0x08, 0x18))) = Inl (UB ''duty table index'')"
proof -
  have "presses 4 (map fst (replicate 6 (0x08 :: 8 word, 0x18 :: 8 word))) = 6" by code_simp
  with pwm_sixth_press [of pwm_off "replicate 6 (0x08, 0x18)"] show ?thesis by simp
qed

end
