(* ===== verification/DbFile.thy ===== *)
theory DbFile
  imports ErrLog
begin

text \<open>
  The two files of the database library (db.lock.fine): their contents, the offset of the next
  access, the byte-range locks of the process, and the three routines that write a field or a
  record: writeptr.c, writeidx.c and writedat.c. The header db.h is not in the repository: its
  constants are the record \<open>db_const\<close>, a parameter of every routine.
\<close>

section \<open>Constants, files, locks\<close>

record db_const =
  IDXLEN_SZ :: nat
  SEP :: char
  PTR_SZ :: nat
  PTR_MAX :: int
  NHASH_DEF :: int
  FREE_OFF :: int
  IDXLEN_MIN :: int
  IDXLEN_MAX :: int
  DATLEN_MIN :: int
  DATLEN_MAX :: int
  DB_INSERT :: "32 word"
  DB_REPLACE :: "32 word"

text \<open>
  What the fields of the index file need: a pointer and a length that pass the tests of the
  routines fit the widths they are printed with.
\<close>

definition db_const_ok :: "db_const \<Rightarrow> bool" where
  "db_const_ok c \<longleftrightarrow> 0 < PTR_SZ c \<and> PTR_MAX c < 10 ^ PTR_SZ c \<and> 0 < IDXLEN_SZ c \<and> IDXLEN_MAX c < 10 ^ IDXLEN_SZ c
     \<and> SEP c \<notin> set ''0123456789''"

datatype db_file = Idx | Dat

datatype whence = SEEK_SET | SEEK_END

text \<open>
  The answers of the kernel to the next calls: done completely, only the first bytes written, or
  failed. After the end of the list everything succeeds.
\<close>

datatype answer = Full | Short nat | Fails

text \<open>
  The structure DB with the fields that the sources use. A lock holds single bytes, so that the
  locked bytes are a predicate on offsets; \<open>rec_locks\<close> are the locks of this process.
\<close>

record db = proc_io +
  stdout_out :: string
  content :: "db_file \<Rightarrow> string"
  pos :: "db_file \<Rightarrow> nat"
  rec_locks :: "db_file \<Rightarrow> int \<Rightarrow> bool"
  kernel :: "answer list"
  idxoff :: int
  datoff :: int
  datlen :: int
  idxbuf :: string
  ptrval :: int
  chainoff :: int
  nhash :: int
  cnt_delok :: int
  cnt_delerr :: int
  cnt_fetchok :: int
  cnt_fetcherr :: int
  cnt_nextrec :: int
  cnt_stor1 :: int
  cnt_stor2 :: int
  cnt_stor3 :: int
  cnt_stor4 :: int
  cnt_storerr :: int

definition kernel_call :: "'a db_scheme \<Rightarrow> answer \<times> 'a db_scheme" where
  "kernel_call s = (case kernel s of [] \<Rightarrow> (Full, s) | a # as \<Rightarrow> (a, s\<lparr>kernel := as\<rparr>))"

text \<open>The system calls. A gap that a write leaves behind the end of the file reads as NULs.\<close>

definition in_region :: "int \<Rightarrow> int \<Rightarrow> int \<Rightarrow> bool" where
  "in_region offset len b \<longleftrightarrow> offset \<le> b \<and> (len = 0 \<or> b < offset + len)"

definition lock_region :: "bool \<Rightarrow> db_file \<Rightarrow> int \<Rightarrow> int \<Rightarrow> (db_file \<Rightarrow> int \<Rightarrow> bool) \<Rightarrow> db_file \<Rightarrow> int \<Rightarrow> bool" where
  "lock_region on f offset len l = l(f := \<lambda>b. if in_region offset len b then on else l f b)"

definition lock_reg :: "bool \<Rightarrow> db_file \<Rightarrow> int \<Rightarrow> int \<Rightarrow> 'a db_scheme \<Rightarrow> int \<times> 'a db_scheme" where
  "lock_reg on f offset len s =
     (let (a, s) = kernel_call s in
      if a = Fails then (-1, s)
      else (0, s\<lparr>rec_locks := lock_region on f offset len (rec_locks s)\<rparr>))"

abbreviation writew_lock :: "db_file \<Rightarrow> int \<Rightarrow> int \<Rightarrow> 'a db_scheme \<Rightarrow> int \<times> 'a db_scheme" where
  "writew_lock \<equiv> lock_reg True"

abbreviation un_lock :: "db_file \<Rightarrow> int \<Rightarrow> int \<Rightarrow> 'a db_scheme \<Rightarrow> int \<times> 'a db_scheme" where
  "un_lock \<equiv> lock_reg False"

definition lseek :: "db_file \<Rightarrow> int \<Rightarrow> whence \<Rightarrow> 'a db_scheme \<Rightarrow> int \<times> 'a db_scheme" where
  "lseek f offset wh s =
     (let (a, s) = kernel_call s; p = offset + (case wh of SEEK_SET \<Rightarrow> 0 | SEEK_END \<Rightarrow> int (length (content s f))) in
      if a = Fails \<or> p < 0 then (-1, s) else (p, s\<lparr>pos := (pos s)(f := nat p)\<rparr>))"

definition overwrite :: "string \<Rightarrow> nat \<Rightarrow> string \<Rightarrow> string" where
  "overwrite f p bs = take p f @ replicate (p - length f) NUL @ bs @ drop (p + length bs) f"

definition write_file :: "db_file \<Rightarrow> string \<Rightarrow> 'a db_scheme \<Rightarrow> int \<times> 'a db_scheme" where
  "write_file f bs s =
     (let (a, s) = kernel_call s in
      if a = Fails then (-1, s)
      else (let bs = (case a of Short k \<Rightarrow> take k bs | _ \<Rightarrow> bs) in
        (int (length bs), s\<lparr>content := (content s)(f := overwrite (content s f) (pos s f) bs),
           pos := (pos s)(f := pos s f + length bs)\<rparr>)))"

section \<open>Decimal fields\<close>

text \<open>\<open>%*d\<close> pads with blanks on the left; \<open>atol\<close> skips blanks and reads digits.\<close>

definition rjust :: "nat \<Rightarrow> string \<Rightarrow> string" where
  "rjust w t = replicate (w - length t) (CHR '' '') @ t"

definition atol :: "string \<Rightarrow> nat" where
  "atol t = foldl (\<lambda>n c. 10 * n + digit_val c) 0 (takeWhile is_digit (dropWhile (\<lambda>c. c = CHR '' '') t))"

lemma not_digit_blank: "\<not> is_digit (CHR '' '')"
  by (simp add: is_digit_def)

lemma takeWhile_replicate_append: "dropWhile (\<lambda>c. c = x) (replicate n x @ ys) = dropWhile (\<lambda>c. c = x) ys"
  by (induction n) auto

lemma atol_rjust: "atol (rjust w (dec n) @ t) = n" if "t = [] \<or> \<not> is_digit (hd t)"
proof -
  have "dropWhile (\<lambda>c. c = CHR '' '') (rjust w (dec n) @ t) = dec n @ t"
    using dec_digits [of n] not_digit_blank
    by (cases "dec n") (auto simp: rjust_def takeWhile_replicate_append)
  moreover have "takeWhile is_digit (dec n @ t) = dec n"
    using dec_digits [of n] that by (cases t) (auto simp: takeWhile_append)
  ultimately show ?thesis by (simp add: atol_def foldl_dec)
qed

lemma length_rjust: "length t \<le> w \<Longrightarrow> length (rjust w t) = w"
  by (simp add: rjust_def)

section \<open>writeptr.c, writedat.c and writeidx.c\<close>

text \<open>
  The pointer field is printed into \<open>char asciiptr[PTR_SZ + 1]\<close>, the two fields of the index
  record into \<open>char asciiptrlen[PTR_SZ + IDXLEN_SZ + 1]\<close>, the record itself into \<open>db->idxbuf\<close> of
  \<open>IDXLEN_MAX + 2\<close> bytes: sprintf does not know these sizes.
\<close>

definition db_writeptr :: "db_const \<Rightarrow> int \<Rightarrow> int \<Rightarrow> 'a db_scheme \<Rightarrow> 'a db_scheme res" where
  "db_writeptr c offset pv s =
     (if pv < 0 \<or> PTR_MAX c < pv then err_quit (''invalid ptr: '' @ deci pv) s
      else let asciiptr = rjust (PTR_SZ c) (deci pv) in
      if PTR_SZ c < length asciiptr then Inl (UB ''asciiptr overflow'')
      else let (r, s) = lseek Idx offset SEEK_SET s in
      if r = -1 then err_dump ''lseek error to ptr field'' s
      else let (r, s) = write_file Idx (take (PTR_SZ c) asciiptr) s in
      if r \<noteq> int (PTR_SZ c) then err_dump ''write error of ptr field'' s
      else Inr s)"

definition db_writedat :: "string \<Rightarrow> int \<Rightarrow> whence \<Rightarrow> 'a db_scheme \<Rightarrow> 'a db_scheme res" where
  "db_writedat data offset wh s =
     bindR (if wh = SEEK_END then
              (let (r, s) = writew_lock Dat 0 0 s in
               if r < 0 then err_dump ''writew_lock error'' s else Inr s)
            else Inr s) (\<lambda>s.
     let (r, s) = lseek Dat offset wh s; s = s\<lparr>datoff := r\<rparr> in
     if r = -1 then err_dump ''lseek error'' s
     else let s = s\<lparr>datlen := int (length data) + 1\<rparr>; (r, s) = write_file Dat (data @ [NL]) s in
     if r \<noteq> datlen s then err_dump ''writev error of data record'' s
     else if wh = SEEK_END then
       (let (r, s) = un_lock Dat 0 0 s in
        if r < 0 then err_dump ''un_lock error'' s else Inr s)
     else Inr s)"

definition idx_text :: "db_const \<Rightarrow> string \<Rightarrow> 'a db_scheme \<Rightarrow> string" where
  "idx_text c key s = key @ [SEP c] @ deci (datoff s) @ [SEP c] @ deci (datlen s) @ [NL]"

definition idx_start :: "db_const \<Rightarrow> 'a db_scheme \<Rightarrow> int" where
  "idx_start c s = (nhash s + 1) * int (PTR_SZ c) + 1"

lemma idx_start_update [simp]:
  "idx_start c (s\<lparr>ptrval := p\<rparr>) = idx_start c s" "idx_start c (s\<lparr>idxbuf := b\<rparr>) = idx_start c s"
  "idx_start c (s\<lparr>rec_locks := l\<rparr>) = idx_start c s" "idx_start c (s\<lparr>idxoff := i\<rparr>) = idx_start c s"
  "idx_start c (s\<lparr>datoff := i\<rparr>) = idx_start c s" "idx_start c (s\<lparr>datlen := i\<rparr>) = idx_start c s"
  "idx_start c (s\<lparr>content := k\<rparr>) = idx_start c s" "idx_start c (s\<lparr>pos := q\<rparr>) = idx_start c s"
  by (simp_all add: idx_start_def)

definition db_writeidx :: "db_const \<Rightarrow> string \<Rightarrow> int \<Rightarrow> whence \<Rightarrow> int \<Rightarrow> 'a db_scheme \<Rightarrow> 'a db_scheme res" where
  "db_writeidx c key offset wh pv s =
     (let s = s\<lparr>ptrval := pv\<rparr> in
      if pv < 0 \<or> PTR_MAX c < pv then err_quit (''invalid ptr: '' @ deci pv) s
      else let buf = idx_text c key s in
      if IDXLEN_MAX c + 2 < int (length buf) + 1 then Inl (UB ''idxbuf overflow'')
      else let s = s\<lparr>idxbuf := buf\<rparr>; len = int (length buf) in
      if len < IDXLEN_MIN c \<or> IDXLEN_MAX c < len then err_dump ''invalid length'' s
      else let asciiptrlen = rjust (PTR_SZ c) (deci pv) @ rjust (IDXLEN_SZ c) (deci len) in
      if PTR_SZ c + IDXLEN_SZ c < length asciiptrlen then Inl (UB ''asciiptrlen overflow'')
      else
      bindR (if wh = SEEK_END then
               (let (r, s) = writew_lock Idx (idx_start c s) 0 s in
                if r < 0 then err_dump ''writew_lock error'' s else Inr s)
             else Inr s) (\<lambda>s.
      let (r, s) = lseek Idx offset wh s; s = s\<lparr>idxoff := r\<rparr> in
      if r = -1 then err_dump ''lseek error'' s
      else let (r, s) = write_file Idx (take (PTR_SZ c + IDXLEN_SZ c) asciiptrlen @ buf) s in
      if r \<noteq> int (PTR_SZ c) + int (IDXLEN_SZ c) + len then err_dump ''writev error of index record'' s
      else if wh = SEEK_END then
        (let (r, s) = un_lock Idx (idx_start c s) 0 s in
         if r < 0 then err_dump ''un_lock error'' s else Inr s)
      else Inr s))"

section \<open>What the writing routines do\<close>

lemma kernel_call_quiet: "kernel s = [] \<Longrightarrow> kernel_call s = (Full, s)"
  by (simp add: kernel_call_def)

text \<open>The fields that the system calls leave alone.\<close>

lemma kernel_call_other [simp]:
  "rec_locks (snd (kernel_call s)) = rec_locks s" "chainoff (snd (kernel_call s)) = chainoff s"
  "nhash (snd (kernel_call s)) = nhash s"
  by (auto simp: kernel_call_def split: list.split)

lemma lseek_other [simp]:
  "rec_locks (snd (lseek f offset wh s)) = rec_locks s" "chainoff (snd (lseek f offset wh s)) = chainoff s"
  "nhash (snd (lseek f offset wh s)) = nhash s"
  by (simp_all add: lseek_def Let_def case_prod_unfold)

lemma write_file_other [simp]:
  "rec_locks (snd (write_file f bs s)) = rec_locks s" "chainoff (snd (write_file f bs s)) = chainoff s"
  "nhash (snd (write_file f bs s)) = nhash s"
  by (simp_all add: write_file_def Let_def case_prod_unfold)

lemma lock_reg_other [simp]:
  "chainoff (snd (lock_reg on f offset len s)) = chainoff s" "nhash (snd (lock_reg on f offset len s)) = nhash s"
  by (simp_all add: lock_reg_def Let_def case_prod_unfold)

lemma lock_reg_locks [simp]:
  "\<not> fst (lock_reg on f offset len s) < 0 \<Longrightarrow> rec_locks (snd (lock_reg on f offset len s)) =
     lock_region on f offset len (rec_locks s)"
  by (auto simp: lock_reg_def Let_def case_prod_unfold)

text \<open>
  Whatever the kernel answers: a routine that returns holds the locks it held before, except
  that appending releases the file (or, in the index, everything behind the hash table).
\<close>

definition released :: "db_file \<Rightarrow> int \<Rightarrow> 'a db_scheme \<Rightarrow> db_file \<Rightarrow> int \<Rightarrow> bool" where
  "released f offset s = lock_region False f offset 0 (rec_locks s)"

lemma lock_region_twice [simp]:
  "lock_region on f offset len (lock_region on' f offset len l) = lock_region on f offset len l"
  by (auto simp: lock_region_def)

lemma db_writeptr_locks:
  "db_writeptr c offset pv s = Inr s' \<Longrightarrow> rec_locks s' = rec_locks s \<and> chainoff s' = chainoff s \<and> nhash s' = nhash s"
  by (auto simp: db_writeptr_def Let_def case_prod_unfold split: if_splits)

lemma db_writedat_locks:
  "db_writedat data offset wh s = Inr s' \<Longrightarrow>
     rec_locks s' = (if wh = SEEK_END then released Dat 0 s else rec_locks s) \<and> chainoff s' = chainoff s \<and> nhash s' = nhash s"
  by (auto simp: db_writedat_def Let_def case_prod_unfold bindR_Inr_iff released_def split: if_splits)

lemma db_writeidx_locks:
  "db_writeidx c key offset wh pv s = Inr s' \<Longrightarrow>
     rec_locks s' = (if wh = SEEK_END then released Idx (idx_start c s) s else rec_locks s)
     \<and> chainoff s' = chainoff s \<and> nhash s' = nhash s"
  by (auto simp: db_writeidx_def Let_def case_prod_unfold bindR_Inr_iff released_def idx_start_def split: if_splits)

text \<open>The effects, when every system call succeeds.\<close>

lemma quiet_calls:
  assumes "kernel s = []"
  shows "lock_reg on f offset len s
      = (0, s\<lparr>rec_locks := lock_region on f offset len (rec_locks s)\<rparr>)"
    and "0 \<le> offset \<Longrightarrow> lseek f offset SEEK_SET s = (offset, s\<lparr>pos := (pos s)(f := nat offset)\<rparr>)"
    and "lseek f 0 SEEK_END s = (int (length (content s f)), s\<lparr>pos := (pos s)(f := length (content s f))\<rparr>)"
    and "write_file f bs s = (int (length bs), s\<lparr>content := (content s)(f := overwrite (content s f) (pos s f) bs),
      pos := (pos s)(f := pos s f + length bs)\<rparr>)"
  using assms by (simp_all add: lock_reg_def lseek_def write_file_def kernel_call_quiet Let_def)

lemma overwrite_end: "overwrite f (length f) bs = f @ bs"
  by (simp add: overwrite_def)

lemma overwrite_inside: "p + length bs \<le> length f \<Longrightarrow> overwrite f p bs = take p f @ bs @ drop (p + length bs) f"
  by (simp add: overwrite_def)

lemma deci_nonneg: "0 \<le> z \<Longrightarrow> deci z = dec (nat z)"
  by (simp add: deci_def)

lemma length_pointer:
  assumes "0 < w" "0 \<le> z" "z < 10 ^ w"
  shows "length (deci z) \<le> w"
proof -
  have "nat z < 10 ^ w" using assms(2,3) by (simp add: nat_less_iff)
  with assms show ?thesis by (simp add: deci_nonneg length_dec)
qed

definition ptr_field :: "db_const \<Rightarrow> int \<Rightarrow> string" where
  "ptr_field c pv = rjust (PTR_SZ c) (deci pv)"

lemma length_ptr_field:
  assumes "db_const_ok c" "0 \<le> pv" "pv \<le> PTR_MAX c"
  shows "length (ptr_field c pv) = PTR_SZ c"
  using assms length_pointer [of "PTR_SZ c" pv] by (simp add: ptr_field_def db_const_ok_def length_rjust)

lemma db_writeptr_effect:
  assumes "kernel s = []" "db_const_ok c" "0 \<le> offset" "0 \<le> pv" "pv \<le> PTR_MAX c"
  shows "db_writeptr c offset pv s = Inr (s\<lparr>content := (content s)(Idx := overwrite (content s Idx) (nat offset) (ptr_field c pv)),
    pos := (pos s)(Idx := nat offset + PTR_SZ c)\<rparr>)"
  using assms length_ptr_field [of c pv]
  by (simp add: db_writeptr_def quiet_calls Let_def ptr_field_def [symmetric])

lemma db_writedat_append:
  assumes "kernel s = []"
  shows "db_writedat data 0 SEEK_END s = Inr (s\<lparr>content := (content s)(Dat := content s Dat @ data @ [NL]),
    pos := (pos s)(Dat := length (content s Dat) + length data + 1), rec_locks := released Dat 0 s,
    datoff := int (length (content s Dat)), datlen := int (length data) + 1\<rparr>)"
  using assms by (simp add: db_writedat_def quiet_calls Let_def overwrite_end released_def)

definition idx_record :: "db_const \<Rightarrow> string \<Rightarrow> int \<Rightarrow> 'a db_scheme \<Rightarrow> string" where
  "idx_record c key pv s = ptr_field c pv @ rjust (IDXLEN_SZ c) (deci (int (length (idx_text c key s)))) @ idx_text c key s"

lemma db_writeidx_append:
  assumes "kernel s = []" "db_const_ok c" "0 \<le> pv" "pv \<le> PTR_MAX c"
    and "IDXLEN_MIN c \<le> int (length (idx_text c key s))" "int (length (idx_text c key s)) \<le> IDXLEN_MAX c"
  shows "db_writeidx c key 0 SEEK_END pv s = Inr (s\<lparr>content := (content s)(Idx := content s Idx @ idx_record c key pv s),
    pos := (pos s)(Idx := length (content s Idx) + length (idx_record c key pv s)), rec_locks := released Idx (idx_start c s) s,
    idxoff := int (length (content s Idx)), idxbuf := idx_text c key s, ptrval := pv\<rparr>)"
proof -
  let ?t = "idx_text c key s"
  have len: "length (rjust (IDXLEN_SZ c) (deci (int (length ?t)))) = IDXLEN_SZ c"
  proof (intro length_rjust length_pointer)
    show "0 < IDXLEN_SZ c" using assms(2) by (simp add: db_const_ok_def)
    show "int (length ?t) < 10 ^ IDXLEN_SZ c"
      by (rule le_less_trans [OF assms(6)]) (use assms(2) in \<open>simp add: db_const_ok_def\<close>)
  qed simp
  have txt_eq: "idx_text c key (s\<lparr>ptrval := pv\<rparr>) = ?t" by (simp add: idx_text_def)
  show ?thesis
    using assms length_ptr_field [of c pv] len
    by (simp add: db_writeidx_def quiet_calls Let_def overwrite_end released_def txt_eq idx_record_def ptr_field_def [symmetric])
qed

end
