(* ===== verification/DbStore.thy ===== *)
theory DbStore
  imports DbFile
begin

unbundle bit_operations_syntax

text \<open>
  The operations of the database library that are in the repository: store.c, rewind.c, stats.c,
  the fragments of alloc.c, checkfree.c and close.c, and the two programs t4.c and tstats.c. The
  other routines of the library are the fields of the record \<open>db_lib\<close>, a parameter.
\<close>

record 's db_lib =
  find_key :: "string \<Rightarrow> bool \<Rightarrow> 's \<Rightarrow> (int \<times> 's) res" \<comment> \<open>\<open>_db_find(db, key, writelock)\<close>\<close>
  readptr :: "int \<Rightarrow> 's \<Rightarrow> (int \<times> 's) res"
  findfree :: "int \<Rightarrow> int \<Rightarrow> 's \<Rightarrow> (int \<times> 's) res"
  dodelete :: "'s \<Rightarrow> 's res"
  readidx :: "int \<Rightarrow> 's \<Rightarrow> (int \<times> 's) res"
  readdat :: "'s \<Rightarrow> (string \<times> 's) res"
  nextrec :: "'s \<Rightarrow> (string option \<times> 's) res"
  hash_of :: "string \<Rightarrow> 's \<Rightarrow> nat"
  db_free :: "'s \<Rightarrow> 's res"

section \<open>store.c\<close>

definition append_record :: "db_const \<Rightarrow> string \<Rightarrow> string \<Rightarrow> int \<Rightarrow> 'a db_scheme \<Rightarrow> 'a db_scheme res" where
  "append_record c key data pv s =
     bindR (db_writedat data 0 SEEK_END s) (\<lambda>s.
     bindR (db_writeidx c key 0 SEEK_END pv s) (\<lambda>s.
     db_writeptr c (chainoff s) (idxoff s) s))"

definition reuse_record :: "db_const \<Rightarrow> string \<Rightarrow> string \<Rightarrow> int \<Rightarrow> 'a db_scheme \<Rightarrow> 'a db_scheme res" where
  "reuse_record c key data pv s =
     bindR (db_writedat data (datoff s) SEEK_SET s) (\<lambda>s.
     bindR (db_writeidx c key (idxoff s) SEEK_SET pv s) (\<lambda>s.
     db_writeptr c (chainoff s) (idxoff s) s))"

definition store_new :: "db_const \<Rightarrow> 'a db_scheme db_lib \<Rightarrow> string \<Rightarrow> string \<Rightarrow> 'a db_scheme \<Rightarrow> 'a db_scheme res" where
  "store_new c lib key data s =
     bindR (readptr lib (chainoff s) s) (\<lambda>(pv, s).
     bindR (findfree lib (int (length key)) (int (length data) + 1) s) (\<lambda>(r, s).
     if r < 0 then
       bindR (append_record c key data pv s) (\<lambda>s. Inr (s\<lparr>cnt_stor1 := cnt_stor1 s + 1\<rparr>))
     else
       bindR (reuse_record c key data pv s) (\<lambda>s. Inr (s\<lparr>cnt_stor2 := cnt_stor2 s + 1\<rparr>))))"

definition store_old :: "db_const \<Rightarrow> 'a db_scheme db_lib \<Rightarrow> string \<Rightarrow> string \<Rightarrow> 'a db_scheme \<Rightarrow> 'a db_scheme res" where
  "store_old c lib key data s =
     (if int (length data) + 1 \<noteq> datlen s then
        bindR (dodelete lib s) (\<lambda>s.
        bindR (readptr lib (chainoff s) s) (\<lambda>(pv, s).
        bindR (append_record c key data pv s) (\<lambda>s. Inr (s\<lparr>cnt_stor3 := cnt_stor3 s + 1\<rparr>))))
      else
        bindR (db_writedat data (datoff s) SEEK_SET s) (\<lambda>s. Inr (s\<lparr>cnt_stor4 := cnt_stor4 s + 1\<rparr>)))"

definition store_record :: "db_const \<Rightarrow> 'a db_scheme db_lib \<Rightarrow> string \<Rightarrow> string \<Rightarrow> 32 word \<Rightarrow> int \<Rightarrow> 'a db_scheme
    \<Rightarrow> (int \<times> 'a db_scheme) res" where
  "store_record c lib key data flag r s =
     (if r < 0 then
        (if flag AND DB_REPLACE c \<noteq> 0 then Inr (-1, s\<lparr>cnt_storerr := cnt_storerr s + 1\<rparr>)
         else bindR (store_new c lib key data s) (\<lambda>s. Inr (0, s)))
      else
        (if flag AND DB_INSERT c \<noteq> 0 then Inr (1, s\<lparr>cnt_storerr := cnt_storerr s + 1\<rparr>)
         else bindR (store_old c lib key data s) (\<lambda>s. Inr (0, s))))"

definition db_store :: "db_const \<Rightarrow> 'a db_scheme db_lib \<Rightarrow> string \<Rightarrow> string \<Rightarrow> 32 word \<Rightarrow> 'a db_scheme
    \<Rightarrow> (int \<times> 'a db_scheme) res" where
  "db_store c lib key data flag s =
     (let dlen = int (length data) + 1 in
      if dlen < DATLEN_MIN c \<or> DATLEN_MAX c < dlen then err_dump ''invalid data length'' s
      else bindR (find_key lib key True s) (\<lambda>(r, s).
      bindR (store_record c lib key data flag r s) (\<lambda>(rc, s).
      let (r, s) = un_lock Idx (chainoff s) 1 s in
      if r < 0 then err_dump ''un_lock error'' s else Inr (rc, s))))"

section \<open>rewind.c, stats.c, alloc.c, checkfree.c and close.c\<close>

definition db_rewind :: "db_const \<Rightarrow> 'a db_scheme \<Rightarrow> 'a db_scheme res" where
  "db_rewind c s =
     (let offset = (nhash s + 1) * int (PTR_SZ c);
          (r, s) = lseek Idx (offset + 1) SEEK_SET s; s = s\<lparr>idxoff := r\<rparr> in
      if r = -1 then err_dump ''lseek error'' s else Inr s)"

definition db_stats :: "int \<Rightarrow> 'a db_scheme \<Rightarrow> 'a db_scheme" where
  "db_stats pid s =
     s\<lparr>stderr_out := stderr_out s @ deci pid @ '': del='' @ deci (cnt_delok s) @ ''+'' @ deci (cnt_delerr s)
         @ '', fetch='' @ deci (cnt_fetchok s) @ ''+'' @ deci (cnt_fetcherr s) @ '', next='' @ deci (cnt_nextrec s)
         @ '', store='' @ deci (cnt_stor1 s + cnt_stor2 s + cnt_stor3 s + cnt_stor4 s + cnt_storerr s)
         @ ''('' @ deci (cnt_stor1 s) @ ''+'' @ deci (cnt_stor2 s) @ ''+'' @ deci (cnt_stor3 s)
         @ ''+'' @ deci (cnt_stor4 s) @ ''+'' @ deci (cnt_storerr s) @ '')'' @ [NL],
       cnt_delok := 0, cnt_delerr := 0, cnt_fetchok := 0, cnt_fetcherr := 0, cnt_nextrec := 0,
       cnt_stor1 := 0, cnt_stor2 := 0, cnt_stor3 := 0, cnt_stor4 := 0, cnt_storerr := 0\<rparr>"

text \<open>
  The result of \<open>_db_alloc\<close>: the structure is cleared, the descriptors are -1 and the three
  buffers have their sizes, with contents that are not initialised.
\<close>

record db_struct =
  idxfd :: int
  datfd :: int
  name_size :: int
  idxbuf_size :: int
  datbuf_size :: int

definition db_alloc :: "db_const \<Rightarrow> int \<Rightarrow> 'a db_scheme \<Rightarrow> (db_struct \<times> 'a db_scheme) res" where
  "db_alloc c namelen s =
     (case malloc s of None \<Rightarrow> err_dump ''calloc error for DB'' s | Some s \<Rightarrow>
      (case malloc s of None \<Rightarrow> err_dump ''malloc error for name'' s | Some s \<Rightarrow>
      (case malloc s of None \<Rightarrow> err_dump ''malloc error for index buffer'' s | Some s \<Rightarrow>
      (case malloc s of None \<Rightarrow> err_dump ''malloc error for data buffer'' s | Some s \<Rightarrow>
       Inr (\<lparr>idxfd = -1, datfd = -1, name_size = namelen + 5, idxbuf_size = IDXLEN_MAX c + 2,
         datbuf_size = DATLEN_MAX c + 2\<rparr>, s)))))"

definition all_blank :: "string \<Rightarrow> bool" where
  "all_blank t \<longleftrightarrow> (\<forall>x \<in> set (cstr t). x = CHR '' '')"

text \<open>The free list may be circular; the first argument is the fuel.\<close>

fun checkfree_loop :: "nat \<Rightarrow> 'a db_scheme db_lib \<Rightarrow> int \<Rightarrow> int \<Rightarrow> 'a db_scheme \<Rightarrow> (int \<times> 'a db_scheme) res option" where
  "checkfree_loop 0 lib offset count s = None"
| "checkfree_loop (Suc n) lib offset count s =
     (if offset = 0 then Some (Inr (count, s))
      else (case readidx lib offset s of
        Inl e \<Rightarrow> Some (Inl e)
      | Inr (nextoffset, s) \<Rightarrow>
          if \<not> all_blank (idxbuf s) then Some (Inr (-1, s))
          else (case readdat lib s of
            Inl e \<Rightarrow> Some (Inl e)
          | Inr (ptr, s) \<Rightarrow>
              if \<not> all_blank ptr then Some (Inr (-1, s)) else checkfree_loop n lib nextoffset (count + 1) s)))"

definition db_checkfree :: "nat \<Rightarrow> db_const \<Rightarrow> 'a db_scheme db_lib \<Rightarrow> 'a db_scheme \<Rightarrow> (int \<times> 'a db_scheme) res option" where
  "db_checkfree n c lib s =
     (case readptr lib (FREE_OFF c) s of
        Inl e \<Rightarrow> Some (Inl e)
      | Inr (offset, s) \<Rightarrow> checkfree_loop n lib offset 0 s)"

definition db_close :: "'a db_scheme db_lib \<Rightarrow> 'a db_scheme \<Rightarrow> 'a db_scheme res" where
  "db_close lib s = db_free lib s"

section \<open>t4.c and tstats.c\<close>

text \<open>The result of \<open>db_open\<close> is an argument, \<open>None\<close> for NULL. A program that gets to its \<open>exit(0)\<close> returns its state.\<close>

definition t4_main :: "db_const \<Rightarrow> 'a db_scheme db_lib \<Rightarrow> 'a db_scheme option \<Rightarrow> 'a db_scheme \<Rightarrow> 'a db_scheme res" where
  "t4_main c lib opened s =
     (case opened of None \<Rightarrow> err_sys ''db_open error'' s
      | Some s \<Rightarrow>
        bindR (db_store c lib ''Alpha'' ''data1'' (DB_INSERT c) s) (\<lambda>(r, s).
        if r \<noteq> 0 then err_quit ''db_store error for alpha'' s
        else bindR (db_store c lib ''beta'' ''Data for beta'' (DB_INSERT c) s) (\<lambda>(r, s).
        if r \<noteq> 0 then err_quit ''db_store error for beta'' s
        else bindR (db_store c lib ''gamma'' ''record3'' (DB_INSERT c) s) (\<lambda>(r, s).
        if r \<noteq> 0 then err_quit ''db_store error for gamma'' s
        else db_close lib s))))"

fun count_records :: "nat \<Rightarrow> 'a db_scheme db_lib \<Rightarrow> int list \<Rightarrow> int \<Rightarrow> 'a db_scheme \<Rightarrow> (int list \<times> int \<times> 'a db_scheme) res option" where
  "count_records 0 lib cntr nrec s = None"
| "count_records (Suc n) lib cntr nrec s =
     (case nextrec lib s of
        Inl e \<Rightarrow> Some (Inl e)
      | Inr (None, s) \<Rightarrow> Some (Inr (cntr, nrec, s))
      | Inr (Some key, s) \<Rightarrow>
          (let hash = hash_of lib key s in
           if length cntr \<le> hash then Some (Inl (UB ''cntr index''))
           else count_records n lib (cntr[hash := cntr ! hash + 1]) (nrec + 1) s))"

definition print_counters :: "int list \<Rightarrow> string" where
  "print_counters cntr = concat (map (\<lambda>i. rjust 3 (dec i) @ '': '' @ rjust 6 (deci (cntr ! i)) @ [NL]) [0..<length cntr])"

definition tstats_doit :: "nat \<Rightarrow> db_const \<Rightarrow> 'a db_scheme db_lib \<Rightarrow> 'a db_scheme option \<Rightarrow> 'a db_scheme \<Rightarrow> 'a db_scheme res option" where
  "tstats_doit n c lib opened s =
     (case opened of None \<Rightarrow> Some (err_sys ''db_open error'' s)
      | Some s \<Rightarrow>
       (case count_records n lib (replicate (nat (NHASH_DEF c)) 0) 0 s of
          None \<Rightarrow> None
        | Some (Inl e) \<Rightarrow> Some (Inl e)
        | Some (Inr (cntr, nrec, s)) \<Rightarrow>
          (let s = s\<lparr>stdout_out := stdout_out s @ ''total #records = '' @ deci nrec @ [NL] @ print_counters cntr\<rparr> in
           case db_checkfree n c lib s of
             None \<Rightarrow> None
           | Some (Inl e) \<Rightarrow> Some (Inl e)
           | Some (Inr (i, s)) \<Rightarrow>
               Some (Inr (s\<lparr>stdout_out := stdout_out s
                 @ (if i < 0 then ''corrupted free list'' else deci i @ '' records on free list'') @ [NL]\<rparr>)))))"

definition tstats_main :: "nat \<Rightarrow> db_const \<Rightarrow> 'a db_scheme db_lib \<Rightarrow> (string \<Rightarrow> 'a db_scheme option) \<Rightarrow> string list
    \<Rightarrow> 'a db_scheme \<Rightarrow> 'a db_scheme res option" where
  "tstats_main n c lib db_open argv s =
     (if length argv \<noteq> 2 then Some (err_quit ''tstats <db>'' s) else tstats_doit n c lib (db_open (argv ! 1)) s)"

section \<open>The result and the counters\<close>

text \<open>
  What store.c relies on: \<open>_db_find\<close> write-locks one byte, the head of the hash chain, which lies
  in the hash table; the others return with the locks they found.
\<close>

definition db_lib_locks :: "db_const \<Rightarrow> 'a db_scheme db_lib \<Rightarrow> bool" where
  "db_lib_locks c lib \<longleftrightarrow>
     (\<forall>key s r s'. find_key lib key True s = Inr (r, s') \<longrightarrow>
        rec_locks s' = lock_region True Idx (chainoff s') 1 (rec_locks s) \<and> chainoff s' < idx_start c s')
   \<and> (\<forall>off s r s'. readptr lib off s = Inr (r, s') \<longrightarrow> rec_locks s' = rec_locks s \<and> chainoff s' = chainoff s)
   \<and> (\<forall>k d s r s'. findfree lib k d s = Inr (r, s') \<longrightarrow> rec_locks s' = rec_locks s \<and> chainoff s' = chainoff s)
   \<and> (\<forall>s s'. dodelete lib s = Inr s' \<longrightarrow> rec_locks s' = rec_locks s \<and> chainoff s' = chainoff s)"

definition no_more_locks :: "'a db_scheme \<Rightarrow> 'b db_scheme \<Rightarrow> bool" where
  "no_more_locks s s' \<longleftrightarrow> (\<forall>f b. rec_locks s' f b \<longrightarrow> rec_locks s f b)"

lemma no_more_locks_released: "rec_locks s' = released f off s \<Longrightarrow> no_more_locks s s'"
  by (auto simp: no_more_locks_def released_def lock_region_def split: if_splits)

lemma no_more_locks_trans: "no_more_locks s1 s2 \<Longrightarrow> no_more_locks s2 s3 \<Longrightarrow> no_more_locks s1 s3"
  by (simp add: no_more_locks_def)

lemma no_more_locks_same: "rec_locks s' = rec_locks s \<Longrightarrow> no_more_locks s s'"
  by (simp add: no_more_locks_def)

lemma db_writedat_no_more:
  "db_writedat data offset wh s = Inr s' \<Longrightarrow> no_more_locks s s' \<and> chainoff s' = chainoff s"
  by (drule db_writedat_locks) (auto intro: no_more_locks_released no_more_locks_same split: if_splits)

lemma db_writeidx_no_more:
  "db_writeidx c key offset wh pv s = Inr s' \<Longrightarrow> no_more_locks s s' \<and> chainoff s' = chainoff s"
  by (drule db_writeidx_locks) (auto intro: no_more_locks_released no_more_locks_same split: if_splits)

lemma db_writeptr_no_more:
  "db_writeptr c offset pv s = Inr s' \<Longrightarrow> no_more_locks s s' \<and> chainoff s' = chainoff s"
  by (drule db_writeptr_locks) (auto intro: no_more_locks_same)

lemma append_record_no_more:
  "append_record c key data pv s = Inr s' \<Longrightarrow> no_more_locks s s' \<and> chainoff s' = chainoff s"
  by (auto simp: append_record_def bindR_Inr_iff dest!: db_writedat_no_more db_writeidx_no_more db_writeptr_no_more
      intro: no_more_locks_trans)

lemma reuse_record_no_more:
  "reuse_record c key data pv s = Inr s' \<Longrightarrow> no_more_locks s s' \<and> chainoff s' = chainoff s"
  by (auto simp: reuse_record_def bindR_Inr_iff dest!: db_writedat_no_more db_writeidx_no_more db_writeptr_no_more
      intro: no_more_locks_trans)

lemma db_lib_locksD:
  assumes "db_lib_locks c lib"
  shows "find_key lib key True s = Inr (r, s') \<Longrightarrow>
      rec_locks s' = lock_region True Idx (chainoff s') 1 (rec_locks s) \<and> chainoff s' < idx_start c s'"
    and "readptr lib off s = Inr (r, s') \<Longrightarrow> rec_locks s' = rec_locks s \<and> chainoff s' = chainoff s"
    and "findfree lib k d s = Inr (r, s') \<Longrightarrow> rec_locks s' = rec_locks s \<and> chainoff s' = chainoff s"
    and "dodelete lib s = Inr s' \<Longrightarrow> rec_locks s' = rec_locks s \<and> chainoff s' = chainoff s"
  using assms unfolding db_lib_locks_def by blast+

lemmas no_more_intros = append_record_no_more reuse_record_no_more db_writedat_no_more

lemma store_new_no_more:
  assumes "db_lib_locks c lib" "store_new c lib key data s = Inr s'"
  shows "no_more_locks s s' \<and> chainoff s' = chainoff s"
  using assms(2)
  by (auto simp: store_new_def bindR_Inr_iff no_more_locks_def dest!: no_more_intros db_lib_locksD(2-4) [OF assms(1)]
      split: if_splits)

lemma store_old_no_more:
  assumes "db_lib_locks c lib" "store_old c lib key data s = Inr s'"
  shows "no_more_locks s s' \<and> chainoff s' = chainoff s"
  using assms(2)
  by (auto simp: store_old_def bindR_Inr_iff no_more_locks_def dest!: no_more_intros db_lib_locksD(2-4) [OF assms(1)]
      split: if_splits)

lemma store_record_no_more:
  assumes "db_lib_locks c lib" "store_record c lib key data flag r s = Inr (rc, s')"
  shows "no_more_locks s s' \<and> chainoff s' = chainoff s"
  using assms(2)
  by (auto simp: store_record_def bindR_Inr_iff no_more_locks_def
      dest!: store_new_no_more [OF assms(1)] store_old_no_more [OF assms(1)] split: if_splits)

text \<open>The number that a reader finds in a field of \<open>w\<close> bytes.\<close>

definition num_at :: "nat \<Rightarrow> string \<Rightarrow> nat \<Rightarrow> nat" where
  "num_at w f off = atol (take w (drop off f))"

text \<open>An empty database with one hash chain, and a library that never finds a record.\<close>

definition db_const_ex :: db_const where
  "db_const_ex = \<lparr>IDXLEN_SZ = 4, SEP = CHR '':'', PTR_SZ = 6, PTR_MAX = 999999, NHASH_DEF = 137, FREE_OFF = 0,
     IDXLEN_MIN = 6, IDXLEN_MAX = 1024, DATLEN_MIN = 2, DATLEN_MAX = 1024, DB_INSERT = 1, DB_REPLACE = 2\<rparr>"

definition db_lib_ex :: "db db_lib" where
  "db_lib_ex = \<lparr>find_key = (\<lambda>key w s. if nhash s < 1 then Inl (Exit 1 []) else
       Inr (-1, s\<lparr>chainoff := 6, rec_locks := lock_region True Idx 6 1 (rec_locks s)\<rparr>)),
     readptr = (\<lambda>off s. Inr (int (num_at 6 (content s Idx) (nat off)), s)), findfree = (\<lambda>k d s. Inr (-1, s)),
     dodelete = (\<lambda>s. Inr s), readidx = (\<lambda>off s. Inr (int (num_at 6 (content s Idx) (nat off)), s)),
     readdat = (\<lambda>s. Inr ([], s)), nextrec = (\<lambda>s. Inr (None, s)), hash_of = (\<lambda>key s. 0), db_free = (\<lambda>s. Inr s)\<rparr>"

definition db_ex :: db where
  "db_ex = \<lparr>debug = 0, errno_text = [], stderr_out = [], syslog_out = [], heap = 0, stdout_out = [],
     content = (\<lambda>_. [])(Idx := ''     0     0'' @ [NL]), pos = (\<lambda>_. 0), rec_locks = (\<lambda>_ _. False), kernel = [],
     idxoff = 0, datoff = 0, datlen = 0, idxbuf = [], ptrval = 0, chainoff = 0, nhash = 1, cnt_delok = 0, cnt_delerr = 0,
     cnt_fetchok = 0, cnt_fetcherr = 0, cnt_nextrec = 0, cnt_stor1 = 0, cnt_stor2 = 0, cnt_stor3 = 0, cnt_stor4 = 0,
     cnt_storerr = 0\<rparr>"

lemma db_lib_ex_locks: "db_lib_locks db_const_ex db_lib_ex"
  by (auto simp: db_lib_locks_def db_lib_ex_def idx_start_def db_const_ex_def)

text \<open>
  C38: db_store leaves no lock behind. Whatever the kernel answers and on every path, errors of the
  caller included: when db_store returns to a process that held no locks, none is held.
\<close>

theorem db_store_unlocks:
  assumes "db_lib_locks c lib" and "rec_locks s = (\<lambda>_ _. False)" and "db_store c lib key data flag s = Inr (rc, s')"
  shows "rec_locks s' = (\<lambda>_ _. False)"
proof -
  from assms(3) obtain r s1 s2 where s1: "find_key lib key True s = Inr (r, s1)"
    and s2: "store_record c lib key data flag r s1 = Inr (rc, s2)"
    and u: "\<not> fst (un_lock Idx (chainoff s2) 1 s2) < 0" "s' = snd (un_lock Idx (chainoff s2) 1 s2)"
    by (auto simp: db_store_def bindR_Inr_iff Let_def case_prod_unfold split: if_splits)
  from db_lib_locksD(1) [OF assms(1) s1] store_record_no_more [OF assms(1) s2] assms(2) show ?thesis
    unfolding u(2) lock_reg_locks [OF u(1)] no_more_locks_def
    by (auto simp: lock_region_def in_region_def fun_eq_iff split: if_splits)
qed

lemma db_store_unlocks_witness:
  "\<exists>s'. db_store db_const_ex db_lib_ex ''Alpha'' ''data1'' 2 db_ex = Inr (-1, s') \<and> rec_locks s' = (\<lambda>_ _. False)"
proof -
  obtain s' where "db_store db_const_ex db_lib_ex ''Alpha'' ''data1'' 2 db_ex = Inr (-1, s')"
    by (simp add: db_store_def store_record_def db_lib_ex_def db_const_ex_def db_ex_def lock_reg_def kernel_call_def Let_def)
  with db_store_unlocks [OF db_lib_ex_locks _ this] show ?thesis by (simp add: db_ex_def)
qed

text \<open>
  What the result means. A record that exists is not stored with DB_INSERT (1), one that does
  not exist is not stored with DB_REPLACE (-1), and nothing but the counter of errors changes;
  every other call that returns has stored the record and returns 0.
\<close>

theorem db_store_result:
  assumes "db_store c lib key data flag s = Inr (rc, s')" and "find_key lib key True s = Inr (r, s1)"
  shows "rc = (if r < 0 then (if flag AND DB_REPLACE c \<noteq> 0 then -1 else 0) else if flag AND DB_INSERT c \<noteq> 0 then 1 else 0)
    \<and> (rc \<noteq> 0 \<longrightarrow> content s' = content s1 \<and> cnt_storerr s' = cnt_storerr s1 + 1)
    \<and> (rc = 0 \<longrightarrow> (\<exists>s2. (if r < 0 then store_new c lib key data s1 else store_old c lib key data s1) = Inr s2
          \<and> content s' = content s2))"
proof -
  have frame: "content (snd (lock_reg on f off len t)) = content t" "cnt_storerr (snd (lock_reg on f off len t)) = cnt_storerr t"
    for on f off len and t :: "'a db_scheme"
    by (auto simp: lock_reg_def kernel_call_def Let_def case_prod_unfold split: list.split)
  from assms show ?thesis
    by (auto simp: db_store_def store_record_def bindR_Inr_iff Let_def case_prod_unfold frame split: if_splits)
qed

lemma db_store_result_witness:
  "\<exists>s'. db_store db_const_ex db_lib_ex ''Alpha'' ''data1'' 2 db_ex = Inr (-1, s') \<and> content s' = content db_ex"
proof -
  obtain rc s' where s': "db_store db_const_ex db_lib_ex ''Alpha'' ''data1'' 2 db_ex = Inr (rc, s')"
    by (simp add: db_store_def store_record_def db_lib_ex_def db_const_ex_def db_ex_def lock_reg_def kernel_call_def Let_def)
  have "find_key db_lib_ex ''Alpha'' True db_ex
    = Inr (-1, db_ex\<lparr>chainoff := 6, rec_locks := lock_region True Idx 6 1 (rec_locks db_ex)\<rparr>)"
    by (simp add: db_lib_ex_def db_ex_def)
  from db_store_result [OF s' this] s' show ?thesis by (simp add: db_const_ex_def)
qed

section \<open>The hash chain as a list of records\<close>

text \<open>
  The index file as a reader sees it: the text of the record at an offset, and its key, offset and
  length of the data.
\<close>

definition idx_line :: "db_const \<Rightarrow> string \<Rightarrow> nat \<Rightarrow> string" where
  "idx_line c fi off = take (num_at (IDXLEN_SZ c) fi (off + PTR_SZ c)) (drop (off + PTR_SZ c + IDXLEN_SZ c) fi)"

definition split_line :: "db_const \<Rightarrow> string \<Rightarrow> string \<times> nat \<times> nat" where
  "split_line c l = (let key = takeWhile (\<lambda>x. x \<noteq> SEP c) l; r = drop (length key + 1) l;
     d = takeWhile (\<lambda>x. x \<noteq> SEP c) r in (key, atol d, atol (drop (length d + 1) r)))"

text \<open>
  The chain that starts at an offset: the keys and data of its records. All records lie behind the
  hash table (from \<open>lo\<close> on) and inside the files; the end of the chain is the offset 0.
\<close>

inductive chain :: "db_const \<Rightarrow> nat \<Rightarrow> string \<Rightarrow> string \<Rightarrow> nat \<Rightarrow> (string \<times> string) list \<Rightarrow> bool"
  for c lo fi fd where
  chain_end: "chain c lo fi fd 0 []"
| chain_rec: "chain c lo fi fd off ((key, take (n - 1) (drop d fd)) # rs)"
  if "off \<noteq> 0" "lo \<le> off" "off + PTR_SZ c + IDXLEN_SZ c + num_at (IDXLEN_SZ c) fi (off + PTR_SZ c) \<le> length fi"
    "split_line c (idx_line c fi off) = (key, d, n)" "d + n \<le> length fd" "chain c lo fi fd (num_at (PTR_SZ c) fi off) rs"

lemma take_drop_app: "off + n \<le> length f \<Longrightarrow> take n (drop off (f @ x)) = take n (drop off f)"
  by simp

text \<open>Bytes before \<open>lo\<close> and bytes added at the ends of the files do not matter to a chain.\<close>

lemma field_frame:
  assumes "drop lo f' = drop lo f @ x" "lo \<le> off" "off + n \<le> length f"
  shows "take n (drop off f') = take n (drop off f)"
proof -
  have "drop off f' = drop (off - lo) (drop lo f')" using assms(2) by simp
  also have "\<dots> = drop (off - lo) (drop lo f @ x)" by (simp only: assms(1))
  also have "\<dots> = drop off f @ x" using assms(2,3) by simp
  finally show ?thesis using assms(3) by simp
qed

lemma chain_frame:
  assumes "chain c lo fi fd off rs" "drop lo fi' = drop lo fi @ x" "length fi \<le> length fi'"
  shows "chain c lo fi' (fd @ y) off rs"
  using assms(1)
proof induction
  case chain_end
  show ?case by (rule chain.chain_end)
next
  case (chain_rec off key d n rs)
  have f: "num_at w fi' o' = num_at w fi o'" if "lo \<le> o'" "o' + w \<le> length fi" for w o'
    using field_frame [OF assms(2) that] by (simp add: num_at_def)
  have n1: "num_at (IDXLEN_SZ c) fi' (off + PTR_SZ c) = num_at (IDXLEN_SZ c) fi (off + PTR_SZ c)"
    and n2: "num_at (PTR_SZ c) fi' off = num_at (PTR_SZ c) fi off"
    using chain_rec.hyps(2,3) by (intro f; simp)+
  have l: "idx_line c fi' off = idx_line c fi off"
    unfolding idx_line_def n1 using chain_rec.hyps(2,3) by (intro field_frame [OF assms(2)]) simp_all
  have "take (n - 1) (drop d fd) = take (n - 1) (drop d (fd @ y))"
    using chain_rec.hyps(5) by (intro take_drop_app [symmetric]) simp
  moreover have "chain c lo fi' (fd @ y) off ((key, take (n - 1) (drop d (fd @ y))) # rs)"
    by (rule chain.chain_rec) (use chain_rec assms(3) n1 n2 l in auto)
  ultimately show ?case by (simp only:)
qed

text \<open>What \<open>_db_writeidx\<close> writes is what the reader expects.\<close>

lemma not_sep:
  assumes "db_const_ok c"
  shows "\<forall>x \<in> set (dec n). x \<noteq> SEP c"
  using assms dec_digits [of n] by (auto simp: db_const_ok_def is_digit_def)

lemma split_idx_text:
  assumes "db_const_ok c" "SEP c \<notin> set key" "datoff s = int d" "datlen s = int n"
  shows "split_line c (idx_text c key s) = (key, d, n)"
proof -
  have tw: "takeWhile (\<lambda>x. x \<noteq> SEP c) (l @ SEP c # r) = l" if "\<forall>x \<in> set l. x \<noteq> SEP c" for l r
    using that by (simp add: takeWhile_append2)
  have a: "atol (dec d) = d" "atol (dec n @ [NL]) = n"
    using atol_rjust [of "[]" 0 d] atol_rjust [of "[NL]" 0 n] by (simp_all add: rjust_def is_digit_def)
  have k: "\<forall>x \<in> set key. x \<noteq> SEP c" using assms(2) by auto
  show ?thesis
    using assms a tw [OF k] tw [OF not_sep [OF assms(1)]]
    by (simp add: split_line_def idx_text_def deci_def Let_def)
qed

lemma num_at_ptr_field:
  assumes "db_const_ok c" "0 \<le> pv" "pv \<le> PTR_MAX c" "drop off f = ptr_field c pv @ r"
  shows "num_at (PTR_SZ c) f off = nat pv"
  using assms atol_rjust [of "[]" "PTR_SZ c" "nat pv"] length_ptr_field [OF assms(1-3)]
  by (simp add: num_at_def) (simp add: ptr_field_def deci_nonneg)

lemma num_at_len_field:
  assumes "length (rjust w (dec n)) = w" "drop off f = rjust w (dec n) @ r"
  shows "num_at w f off = n"
  using assms atol_rjust [of "[]" w n] by (simp add: num_at_def)

text \<open>The length of the text of an index record, which must lie between IDXLEN_MIN and IDXLEN_MAX.\<close>

definition idx_length :: "string \<Rightarrow> string \<Rightarrow> nat \<Rightarrow> int" where
  "idx_length key data fdlen = int (length key + length (dec fdlen) + length (dec (length data + 1)) + 3)"

lemma append_record_effect:
  fixes s :: "'a db_scheme"
  assumes "kernel s = []" "db_const_ok c" "0 \<le> pv" "pv \<le> PTR_MAX c" "chainoff s = int h"
    and "h + PTR_SZ c \<le> length (content s Idx)" "int (length (content s Idx)) \<le> PTR_MAX c"
    and "IDXLEN_MIN c \<le> idx_length key data (length (content s Dat))" "idx_length key data (length (content s Dat)) \<le> IDXLEN_MAX c"
  obtains s' and t :: "'a db_scheme" where "append_record c key data pv s = Inr s'"
    and "content s' Idx = take h (content s Idx) @ ptr_field c (int (length (content s Idx)))
      @ drop (h + PTR_SZ c) (content s Idx) @ idx_record c key pv t"
    and "content s' Dat = content s Dat @ data @ [NL]" "kernel s' = []" "chainoff s' = chainoff s"
    and "datoff t = int (length (content s Dat))" "datlen t = int (length data + 1)"
    and "int (length (idx_text c key t)) \<le> IDXLEN_MAX c"
proof -
  define a where "a = s\<lparr>content := (content s)(Dat := content s Dat @ data @ [NL]),
    pos := (pos s)(Dat := length (content s Dat) + length data + 1), rec_locks := released Dat 0 s,
    datoff := int (length (content s Dat)), datlen := int (length data) + 1\<rparr>"
  have A: "db_writedat data 0 SEEK_END s = Inr a" unfolding a_def by (rule db_writedat_append [OF assms(1)])
  have len: "int (length (idx_text c key a)) = idx_length key data (length (content s Dat))"
    by (simp add: idx_text_def idx_length_def a_def deci_nonneg nat_add_distrib)
  have ka: "kernel a = []" "content a Idx = content s Idx" "content a Dat = content s Dat @ data @ [NL]"
    "chainoff a = int h" "datoff a = int (length (content s Dat))" "datlen a = int (length data + 1)"
    using assms(1,5) by (simp_all add: a_def)
  obtain b where B: "db_writeidx c key 0 SEEK_END pv a = Inr b"
    and b: "content b = (content a)(Idx := content a Idx @ idx_record c key pv a)" "kernel b = []" "chainoff b = int h"
      "idxoff b = int (length (content s Idx))"
    using db_writeidx_append [OF ka(1) assms(2-4), of key] len assms(8,9) ka by simp
  define e where "e = b\<lparr>content := (content b)(Idx := overwrite (content b Idx) h (ptr_field c (idxoff b))),
    pos := (pos b)(Idx := h + PTR_SZ c)\<rparr>"
  have C: "db_writeptr c (chainoff b) (idxoff b) b = Inr e" unfolding e_def
    using db_writeptr_effect [OF b(2) assms(2), of "int h" "idxoff b"] b assms(7) by simp
  have "overwrite (content b Idx) h (ptr_field c (idxoff b)) = take h (content s Idx) @ ptr_field c (int (length (content s Idx)))
      @ drop (h + PTR_SZ c) (content s Idx) @ idx_record c key pv a"
    using assms(6,7) length_ptr_field [OF assms(2), of "int (length (content s Idx))"] b ka by (simp add: overwrite_inside)
  moreover have "append_record c key data pv s = Inr e"
    using A B C by (simp add: append_record_def e_def)
  ultimately show thesis
    using ka b len assms(5,9) by (intro that [of e a]) (simp_all add: e_def)
qed

text \<open>
  C10: Storing a new record, as an operation on the hash chain. When the key was not found and no
  free record fits, db_store puts the record in front: the list of records that the chain head
  now leads to is the new key with its data, followed by the records it led to before, with their
  keys and data unchanged. This needs a key without the separator and sizes inside the limits;
  the routines that are not in the repository find the head of the chain and leave the files
  alone.
\<close>

theorem db_store_prepends:
  fixes s :: "'a db_scheme"
  assumes "db_const_ok c" and "flag AND DB_REPLACE c = 0" and "SEP c \<notin> set key"
    and "find_key lib key True s = Inr (r, s1)" "r < 0"
    and "readptr lib (chainoff s1) s1 = Inr (pv, s2)" "pv = int (num_at (PTR_SZ c) (content s Idx) h)"
    and "findfree lib (int (length key)) (int (length data) + 1) s2 = Inr (r', s3)" "r' < 0"
    and "content s3 = content s" "kernel s3 = []" "chainoff s3 = int h"
    and "DATLEN_MIN c \<le> int (length data) + 1" "int (length data) + 1 \<le> DATLEN_MAX c"
    and "IDXLEN_MIN c \<le> idx_length key data (length (content s Dat))" "idx_length key data (length (content s Dat)) \<le> IDXLEN_MAX c"
    and "pv \<le> PTR_MAX c" "int (length (content s Idx)) \<le> PTR_MAX c"
    and "h + PTR_SZ c \<le> lo" "lo \<le> length (content s Idx)"
    and "chain c lo (content s Idx) (content s Dat) (num_at (PTR_SZ c) (content s Idx) h) rs"
  shows "\<exists>s'. db_store c lib key data flag s = Inr (0, s')
    \<and> chain c lo (content s' Idx) (content s' Dat) (num_at (PTR_SZ c) (content s' Idx) h) ((key, data) # rs)"
proof -
  let ?fi = "content s Idx" and ?fd = "content s Dat" and ?m = "length (content s Idx)"
  obtain s4 and t :: "'a db_scheme" where e: "append_record c key data pv s3 = Inr s4"
    and fi: "content s4 Idx = take h ?fi @ ptr_field c (int ?m) @ drop (h + PTR_SZ c) ?fi @ idx_record c key pv t"
    and fd: "content s4 Dat = ?fd @ data @ [NL]" and k: "kernel s4 = []"
    and t: "datoff t = int (length ?fd)" "datlen t = int (length data + 1)" "int (length (idx_text c key t)) \<le> IDXLEN_MAX c"
    by (rule append_record_effect [of s3 c pv h key data]) (use assms in auto)
  have pf: "length (ptr_field c (int ?m)) = PTR_SZ c" "length (ptr_field c pv) = PTR_SZ c"
    using assms(1,7,17,18) by (simp_all add: length_ptr_field)
  have run: "\<exists>s'. db_store c lib key data flag s = Inr (0, s') \<and> content s' = content s4"
    using assms e k by (simp add: db_store_def store_record_def store_new_def quiet_calls Let_def)
  have head: "num_at (PTR_SZ c) (content s4 Idx) h = ?m"
    using num_at_ptr_field [OF assms(1) _ assms(18), of h "content s4 Idx"] assms(19,20) by (simp add: fi)
  have rec: "drop ?m (content s4 Idx) = idx_record c key pv t" and lf: "length ?fi \<le> length (content s4 Idx)"
    using assms(19,20) pf by (simp_all add: fi)
  have old: "drop lo (content s4 Idx) = drop lo ?fi @ idx_record c key pv t"
    using assms(19,20) pf by (simp add: fi)
  have len: "length (rjust (IDXLEN_SZ c) (dec (length (idx_text c key t)))) = IDXLEN_SZ c"
    using t(3) assms(1) length_pointer [of "IDXLEN_SZ c" "int (length (idx_text c key t))"]
    by (intro length_rjust) (auto simp: db_const_ok_def deci_nonneg simp del: of_nat_less_numeral_power_cancel_iff)
  have next_rec: "num_at (PTR_SZ c) (content s4 Idx) ?m = num_at (PTR_SZ c) ?fi h"
    using num_at_ptr_field [OF assms(1) _ assms(17), of ?m "content s4 Idx"] assms(7) rec by (simp add: idx_record_def)
  have dm: "drop (?m + PTR_SZ c) (content s4 Idx) = drop (PTR_SZ c) (drop ?m (content s4 Idx))"
    by (simp add: add.commute)
  have nl: "num_at (IDXLEN_SZ c) (content s4 Idx) (?m + PTR_SZ c) = length (idx_text c key t)"
    by (rule num_at_len_field [OF len]) (simp add: dm rec idx_record_def pf deci_nonneg)
  have line: "idx_line c (content s4 Idx) ?m = idx_text c key t"
  proof -
    have "drop (?m + PTR_SZ c + IDXLEN_SZ c) (content s4 Idx) = drop (PTR_SZ c + IDXLEN_SZ c) (drop ?m (content s4 Idx))"
      by (simp add: add.commute add.left_commute)
    then show ?thesis using pf len unfolding idx_line_def nl by (simp add: rec idx_record_def deci_nonneg)
  qed
  have "chain c lo (content s4 Idx) (content s4 Dat) ?m ((key, take (length data + 1 - 1) (drop (length ?fd) (content s4 Dat))) # rs)"
  proof (rule chain.chain_rec)
    show "split_line c (idx_line c (content s4 Idx) ?m) = (key, length ?fd, length data + 1)"
      unfolding line by (rule split_idx_text [OF assms(1,3) t(1,2)])
    show "?m \<noteq> 0" using assms(1,19,20) by (auto simp: db_const_ok_def)
    show "?m + PTR_SZ c + IDXLEN_SZ c + num_at (IDXLEN_SZ c) (content s4 Idx) (?m + PTR_SZ c) \<le> length (content s4 Idx)"
      using assms(19,20) pf len unfolding nl by (simp add: fi idx_record_def deci_nonneg)
    show "chain c lo (content s4 Idx) (content s4 Dat) (num_at (PTR_SZ c) (content s4 Idx) ?m) rs"
      unfolding next_rec fd by (rule chain_frame [OF assms(21) old lf])
  qed (use assms(20) fd in auto)
  with run head show ?thesis by (auto simp: fd)
qed

lemma db_store_prepends_witness:
  "\<exists>s'. db_store db_const_ex db_lib_ex ''Alpha'' ''data1'' 1 db_ex = Inr (0, s')
    \<and> chain db_const_ex 13 (content s' Idx) (content s' Dat) (num_at 6 (content s' Idx) 6) [(''Alpha'', ''data1'')]"
proof -
  let ?s1 = "db_ex\<lparr>chainoff := 6, rec_locks := lock_region True Idx 6 1 (rec_locks db_ex)\<rparr>"
  have f: "find_key db_lib_ex ''Alpha'' True db_ex = Inr (-1, ?s1)" "findfree db_lib_ex k d s = Inr (-1, s)"
    "readptr db_lib_ex 6 ?s1 = Inr (int (num_at 6 (content db_ex Idx) 6), ?s1)" for k d s
    by (simp_all add: db_lib_ex_def db_ex_def)
  have n: "num_at 6 (content db_ex Idx) 6 = 0" "idx_length ''Alpha'' ''data1'' 0 = 10"
    by (simp add: db_ex_def, code_simp+)
  have c: "db_const_ok db_const_ex" "DB_REPLACE db_const_ex = 2" "SEP db_const_ex = CHR '':''" "PTR_SZ db_const_ex = 6"
    "PTR_MAX db_const_ex = 999999" "IDXLEN_MIN db_const_ex = 6" "IDXLEN_MAX db_const_ex = 1024"
    "DATLEN_MIN db_const_ex = 2" "DATLEN_MAX db_const_ex = 1024"
    by (simp_all add: db_const_ok_def db_const_ex_def)
  have d: "content db_ex Dat = []" "length (content db_ex Idx) = 13" "kernel db_ex = []" by (simp_all add: db_ex_def)
  show ?thesis
    using db_store_prepends [of db_const_ex 1 "''Alpha''" db_lib_ex db_ex "-1" ?s1 0 ?s1 6 "''data1''" "-1" ?s1 13 "[]"]
    by (simp add: c d f n chain_end)
qed

section \<open>The free list\<close>

text \<open>One step along a free list whose records are blank.\<close>

definition blank_step :: "'a db_scheme db_lib \<Rightarrow> int \<Rightarrow> 'a db_scheme \<Rightarrow> int \<Rightarrow> 'a db_scheme \<Rightarrow> bool" where
  "blank_step lib off s off' s' \<longleftrightarrow> off \<noteq> 0 \<and> (\<exists>s1 p. readidx lib off s = Inr (off', s1) \<and> all_blank (idxbuf s1)
     \<and> readdat lib s1 = Inr (p, s') \<and> all_blank p)"

inductive free_path :: "'a db_scheme db_lib \<Rightarrow> int \<Rightarrow> 'a db_scheme \<Rightarrow> nat \<Rightarrow> 'a db_scheme \<Rightarrow> bool" for lib where
  path_end: "free_path lib 0 s 0 s"
| path_step: "blank_step lib off s off1 s1 \<Longrightarrow> free_path lib off1 s1 n s' \<Longrightarrow> free_path lib off s (Suc n) s'"

lemma checkfree_step:
  "blank_step lib off s off' s' \<Longrightarrow> checkfree_loop (Suc m) lib off k s = checkfree_loop m lib off' (k + 1) s'"
  by (auto simp: blank_step_def)

lemma checkfree_counts:
  "free_path lib off s n s' \<Longrightarrow> n < m \<Longrightarrow> checkfree_loop m lib off k s = Some (Inr (k + int n, s'))"
proof (induction arbitrary: m k rule: free_path.induct)
  case (path_end s)
  then show ?case by (cases m) auto
next
  case (path_step off s off1 s1 n s')
  then obtain m' where "m = Suc m'" "n < m'" by (cases m) auto
  with path_step show ?case by (simp only: checkfree_step) simp
qed

lemma checkfree_circular:
  "\<forall>off s. I off s \<longrightarrow> (\<exists>off' s'. blank_step lib off s off' s' \<and> I off' s') \<Longrightarrow> I off s \<Longrightarrow> checkfree_loop m lib off k s = None"
proof (induction m arbitrary: off s k)
  case (Suc m)
  then obtain off' s' where "blank_step lib off s off' s'" "I off' s'" by blast
  with Suc show ?case by (simp only: checkfree_step)
qed simp

text \<open>
  The check of the free list. On a list of \<open>n\<close> blank records it ends and returns \<open>n\<close>; \<open>n + 1\<close>
  rounds are enough. A list that leads back into itself is not noticed: the check never ends.
\<close>

lemma db_checkfree_ends:
  assumes "readptr lib (FREE_OFF c) s = Inr (off, s1)"
  shows "free_path lib off s1 n s' \<Longrightarrow> n < m \<Longrightarrow> db_checkfree m c lib s = Some (Inr (int n, s'))"
    and "\<forall>off s. I off s \<longrightarrow> (\<exists>off' s'. blank_step lib off s off' s' \<and> I off' s') \<Longrightarrow> I off s1 \<Longrightarrow> db_checkfree m c lib s = None"
  using assms checkfree_counts [of lib off s1 n s' m 0] checkfree_circular [of I lib off s1 m 0] by (simp_all add: db_checkfree_def)

end
