(* ===== verification/Connect.thy ===== *)
theory Connect
  imports ErrLog
begin

unbundle bit_operations_syntax

text \<open>
  How a client and a server find each other: lib.sun/servlisten.c, cliconn.c and servaccept.c. The
  client binds its socket to a name that carries its process number; the server takes the owner of
  that name for the user of the client. Names are a map to i-nodes, the clients that have connected
  and were not accepted yet are a queue of socket addresses. A blocked call is the result \<open>None\<close>.
\<close>

section \<open>Addresses and names\<close>

text \<open>
  What differs between the systems: whether SCM_RIGHTS is defined, the sizes of sun_len and
  sun_family (of the structure sockaddr_un) and of the array sun_path.
\<close>

record unix_sys =
  SCM_RIGHTS :: bool
  LEN_SZ :: nat
  FAMILY_SZ :: nat
  SUN_PATH :: nat

definition S_IRWXU :: "32 word" where "S_IRWXU = 0x1C0"
definition S_IRWXG :: "32 word" where "S_IRWXG = 0x38"
definition S_IRWXO :: "32 word" where "S_IRWXO = 0x07"

record inode =
  st_sock :: bool
  st_mode :: "32 word"
  st_uid :: int
  st_atime :: int
  st_mtime :: int
  st_ctime :: int

text \<open>
  \<open>undeletable\<close> are the names that unlink fails for. An address in the queue is the bytes of its
  sun_path and its length.
\<close>

record unix_net = proc_io +
  clock :: int
  umask :: "32 word"
  inodes :: "string \<Rightarrow> inode option"
  undeletable :: "string set"
  servers :: "string set" \<comment> \<open>names on which a process listens\<close>
  pending :: "(string \<times> int) list"

definition addr_len :: "unix_sys \<Rightarrow> string \<Rightarrow> int" where
  "addr_len sys path = (if SCM_RIGHTS sys then int (LEN_SZ sys) + int (FAMILY_SZ sys) + int (length path) + 1
     else int (length path) + int (FAMILY_SZ sys))"

definition unlink :: "string \<Rightarrow> 'a unix_net_scheme \<Rightarrow> 'a unix_net_scheme" where
  "unlink name s = (if name \<in> undeletable s then s else s\<lparr>inodes := (inodes s)(name := None)\<rparr>)"

definition bind_name :: "bool \<Rightarrow> int \<Rightarrow> string \<Rightarrow> 'a unix_net_scheme \<Rightarrow> int \<times> 'a unix_net_scheme" where
  "bind_name ok uid name s =
     (if \<not> ok \<or> inodes s name \<noteq> None then (-1, s)
      else (0, s\<lparr>inodes := (inodes s)(name \<mapsto> \<lparr>st_sock = True, st_mode = 0x1FF AND NOT (umask s), st_uid = uid,
        st_atime = clock s, st_mtime = clock s, st_ctime = clock s\<rparr>)\<rparr>))"

section \<open>servlisten.c\<close>

text \<open>The answers of socket, bind and listen come with the call.\<close>

definition serv_listen :: "unix_sys \<Rightarrow> int \<Rightarrow> bool \<Rightarrow> bool \<Rightarrow> int \<Rightarrow> string \<Rightarrow> 'a unix_net_scheme
    \<Rightarrow> (int \<times> 'a unix_net_scheme) res" where
  "serv_listen sys fd bind_ok listen_ok uid name s =
     (if fd < 0 then Inr (-1, s)
      else let s = unlink name s in
      if SUN_PATH sys \<le> length name then Inl (UB ''strcpy: sun_path'')
      else let (r, s) = bind_name bind_ok uid name s in
      if r < 0 then Inr (-2, s)
      else if \<not> listen_ok then Inr (-3, s)
      else Inr (fd, s\<lparr>servers := insert name (servers s)\<rparr>))"

section \<open>cliconn.c\<close>

definition CLI_PATH :: string where "CLI_PATH = ''/var/tmp/''"

definition CLI_PERM :: "32 word" where "CLI_PERM = S_IRWXU"

definition client_name :: "int \<Rightarrow> string" where
  "client_name pid = CLI_PATH @ replicate (5 - length (deci pid)) (CHR ''0'') @ deci pid"

definition chmod :: "bool \<Rightarrow> string \<Rightarrow> 32 word \<Rightarrow> 'a unix_net_scheme \<Rightarrow> int \<times> 'a unix_net_scheme" where
  "chmod ok name mode s =
     (case inodes s name of
        Some n \<Rightarrow> if ok then (0, s\<lparr>inodes := (inodes s)(name \<mapsto> n\<lparr>st_mode := mode, st_ctime := clock s\<rparr>)\<rparr>) else (-1, s)
      | None \<Rightarrow> (-1, s))"

definition connect_to :: "bool \<Rightarrow> string \<Rightarrow> string \<times> int \<Rightarrow> 'a unix_net_scheme \<Rightarrow> int \<times> 'a unix_net_scheme" where
  "connect_to ok name me s =
     (if ok \<and> name \<in> servers s then (0, s\<lparr>pending := pending s @ [me]\<rparr>) else (-1, s))"

text \<open>The kernel keeps the address that bind was given: with SCM_RIGHTS it includes the NUL.\<close>

definition own_address :: "unix_sys \<Rightarrow> string \<Rightarrow> string \<times> int" where
  "own_address sys path = (path @ (if SCM_RIGHTS sys then [NUL] else []), addr_len sys path)"

record cli_env =
  ce_socket :: int
  ce_bind :: bool
  ce_chmod :: bool
  ce_connect :: bool

definition cli_conn :: "unix_sys \<Rightarrow> cli_env \<Rightarrow> int \<Rightarrow> int \<Rightarrow> string \<Rightarrow> 'a unix_net_scheme
    \<Rightarrow> (int \<times> 'a unix_net_scheme) res" where
  "cli_conn sys e pid uid name s =
     (if ce_socket e < 0 then Inr (-1, s)
      else let path = client_name pid in
      if SUN_PATH sys \<le> length path then Inl (UB ''sprintf: sun_path'')
      else if \<not> SCM_RIGHTS sys \<and> addr_len sys path \<noteq> 16 then err_quit ''length != 16'' s
      else let s = unlink path s; (r, s) = bind_name (ce_bind e) uid path s in
      if r < 0 then Inr (-2, s)
      else let (r, s) = chmod (ce_chmod e) path CLI_PERM s in
      if r < 0 then Inr (-3, s)
      else if SUN_PATH sys \<le> length name then Inl (UB ''strcpy: sun_path'')
      else let (r, s) = connect_to (ce_connect e) name (own_address sys path) s in
      if r < 0 then Inr (-4, s) else Inr (ce_socket e, s))"

section \<open>servaccept.c\<close>

definition STALE :: int where "STALE = 30"

text \<open>
  \<open>junk\<close> is what the local variable unix_addr holds before the call of accept, which stores the
  bytes of the address over it; the program then puts a NUL at the index \<open>len\<close>. On systems with
  SCM_RIGHTS this index comes from \<open>len -= sizeof(sun_len) - sizeof(sun_family)\<close>.
\<close>

definition peer_path :: "unix_sys \<Rightarrow> string \<Rightarrow> string \<times> int \<Rightarrow> string res" where
  "peer_path sys junk me =
     (let len = snd me - (if SCM_RIGHTS sys then int (LEN_SZ sys) - int (FAMILY_SZ sys) else int (FAMILY_SZ sys)) in
      if len < 0 \<or> int (SUN_PATH sys) \<le> len then Inl (UB ''sun_path index'')
      else Inr (cstr ((fst me @ drop (length (fst me)) junk)[nat len := NUL])))"

definition is_stale :: "int \<Rightarrow> inode \<Rightarrow> bool" where
  "is_stale staletime n \<longleftrightarrow> st_atime n < staletime \<or> st_ctime n < staletime \<or> st_mtime n < staletime"

text \<open>The result also holds what is stored through \<open>uidptr\<close>.\<close>

definition serv_accept :: "unix_sys \<Rightarrow> string \<Rightarrow> int \<Rightarrow> 'a unix_net_scheme
    \<Rightarrow> (int \<times> int option \<times> 'a unix_net_scheme) res option" where
  "serv_accept sys junk clifd s =
     (if clifd < 0 then Some (Inr (-1, None, s))
      else (case pending s of
        [] \<Rightarrow> None
      | me # rest \<Rightarrow> Some (
          let s = s\<lparr>pending := rest\<rparr> in
          bindR (peer_path sys junk me) (\<lambda>path.
          case inodes s path of
            None \<Rightarrow> Inr (-2, None, s)
          | Some n \<Rightarrow>
              if \<not> st_sock n then Inr (-3, None, s)
              else if st_mode n AND (S_IRWXG OR S_IRWXO) \<noteq> 0 \<or> st_mode n AND S_IRWXU \<noteq> S_IRWXU then Inr (-4, None, s)
              else if is_stale (clock s - STALE) n then Inr (-5, None, s)
              else Inr (clifd, Some (st_uid n), unlink path s)))))"

section \<open>Who the client is\<close>

text \<open>
  C21: What an accepted client has shown. Whatever address a client has connected with: when serv_accept
  returns a descriptor, there was a socket that only its owner may use, not older than 30 seconds by
  any of its three times; the user that is reported is the owner of that socket; and its name is
  gone unless it could not be removed.
\<close>

theorem accept_checks_owner:
  assumes "serv_accept sys junk clifd s = Some (Inr (r, u, s'))" and "0 \<le> r"
  shows "\<exists>path n. inodes s path = Some n \<and> u = Some (st_uid n) \<and> st_sock n
    \<and> st_mode n AND (S_IRWXU OR S_IRWXG OR S_IRWXO) = S_IRWXU
    \<and> clock s - 30 \<le> min (st_atime n) (min (st_mtime n) (st_ctime n))
    \<and> (path \<notin> undeletable s \<longrightarrow> inodes s' path = None) \<and> r = clifd"
proof -
  from assms obtain me rest where p: "pending s = me # rest" and c: "\<not> clifd < 0"
    by (auto simp: serv_accept_def split: if_splits list.splits)
  with assms obtain path where path: "peer_path sys junk me = Inr path"
    by (auto simp: serv_accept_def bindR_Inr_iff Let_def)
  with p c assms obtain n where n: "inodes s path = Some n" "st_sock n" "st_mode n AND (S_IRWXG OR S_IRWXO) = 0"
    "st_mode n AND S_IRWXU = S_IRWXU" "\<not> is_stale (clock s - STALE) n" "r = clifd" "u = Some (st_uid n)"
    "s' = unlink path (s\<lparr>pending := rest\<rparr>)"
    by (auto simp: serv_accept_def Let_def split: option.splits if_splits)
  have "st_mode n AND (S_IRWXU OR S_IRWXG OR S_IRWXO) = (st_mode n AND S_IRWXU) OR (st_mode n AND (S_IRWXG OR S_IRWXO))"
    by (simp add: bit.conj_disj_distrib or.assoc)
  then have "st_mode n AND (S_IRWXU OR S_IRWXG OR S_IRWXO) = S_IRWXU" using n by simp
  with n show ?thesis
    by (intro exI [of _ path] exI [of _ n]) (auto simp: is_stale_def STALE_def unlink_def)
qed

text \<open>The sizes of the two systems.\<close>

definition sizes_ok :: "unix_sys \<Rightarrow> bool" where
  "sizes_ok sys \<longleftrightarrow> 20 \<le> SUN_PATH sys \<and> (if SCM_RIGHTS sys then LEN_SZ sys = 1 \<and> FAMILY_SZ sys = 1 else FAMILY_SZ sys = 2)"

lemma client_name_facts:
  assumes "0 \<le> pid" "pid < 100000"
  shows "length (client_name pid) = 14" "NUL \<notin> set (client_name pid)"
proof -
  have "length (dec (nat pid)) \<le> 5" using assms by (intro length_dec) simp_all
  then show "length (client_name pid) = 14" using assms by (simp add: client_name_def deci_def CLI_PATH_def)
  show "NUL \<notin> set (client_name pid)" using assms dec_not_NUL by (simp add: client_name_def deci_def CLI_PATH_def)
qed

lemma cstr_app_NUL: "NUL \<notin> set p \<Longrightarrow> cstr (p @ NUL # r) = p"
  by (induction p) (auto simp: cstr_def)

lemma peer_path_own:
  assumes "sizes_ok sys" "length junk = SUN_PATH sys" "length path = 14" "NUL \<notin> set path"
  shows "peer_path sys junk (own_address sys path) = Inr path"
proof (cases "SCM_RIGHTS sys")
  case True
  have "cstr ((path @ NUL # drop 15 junk)[17 := NUL]) = path"
    using cstr_app_NUL [OF assms(4)] assms(3) by (simp add: list_update_append)
  with True assms show ?thesis by (simp add: peer_path_def own_address_def addr_len_def sizes_ok_def Let_def)
next
  case False
  obtain j js where "drop 14 junk = j # js" using assms(1,2) by (cases "drop 14 junk") (auto simp: sizes_ok_def)
  then have "cstr ((path @ drop 14 junk)[14 := NUL]) = path"
    using cstr_app_NUL [OF assms(4)] assms(3) by (simp add: list_update_append)
  with False assms show ?thesis by (simp add: peer_path_def own_address_def addr_len_def sizes_ok_def Let_def)
qed

text \<open>
  C29: The server learns who the client is. A client that connects with cli_conn, on either kind of
  system and whatever its umask is, and is accepted within 30 seconds, is reported with its own user
  number, and its name is removed. Its process number must have at most five digits and the name
  must not belong to somebody else.
\<close>

theorem client_identified:
  assumes "sizes_ok sys" "0 \<le> pid" "pid < 100000" "client_name pid \<notin> undeletable s" "pending s = []"
    and "0 \<le> ce_socket e" "ce_bind e" "ce_chmod e" "ce_connect e"
    and "name \<in> servers s" "length name < SUN_PATH sys"
    and "0 \<le> d" "d \<le> 30" "0 \<le> clifd" "length junk = SUN_PATH sys"
  shows "\<exists>s1 s2. cli_conn sys e pid uid name s = Inr (ce_socket e, s1)
    \<and> serv_accept sys junk clifd (s1\<lparr>clock := clock s1 + d\<rparr>) = Some (Inr (clifd, Some uid, s2))
    \<and> inodes s2 (client_name pid) = None \<and> pending s2 = []"
proof -
  let ?p = "client_name pid"
  have p: "length ?p = 14" "NUL \<notin> set ?p" using client_name_facts assms(2,3) by auto
  have len: "\<not> SUN_PATH sys \<le> 14" "SCM_RIGHTS sys \<or> addr_len sys ?p = 16"
    using assms(1) p by (auto simp: sizes_ok_def addr_len_def)
  define n where "n = \<lparr>st_sock = True, st_mode = CLI_PERM, st_uid = uid, st_atime = clock s, st_mtime = clock s, st_ctime = clock s\<rparr>"
  define s1 where "s1 = s\<lparr>inodes := (inodes s)(?p \<mapsto> n), pending := [own_address sys ?p]\<rparr>"
  have "cli_conn sys e pid uid name s = Inr (ce_socket e, s1)"
    using assms p len
    by (simp add: cli_conn_def unlink_def bind_name_def chmod_def connect_to_def s1_def n_def Let_def)
  moreover have "serv_accept sys junk clifd (s1\<lparr>clock := clock s1 + d\<rparr>)
      = Some (Inr (clifd, Some uid, s1\<lparr>clock := clock s1 + d, inodes := (inodes s1)(?p := None), pending := []\<rparr>))"
    using assms peer_path_own [OF assms(1,15) p]
    by (simp add: serv_accept_def s1_def n_def CLI_PERM_def is_stale_def STALE_def unlink_def S_IRWXU_def S_IRWXG_def S_IRWXO_def Let_def)
  ultimately show ?thesis by (intro exI conjI) (assumption | simp add: s1_def)+
qed

text \<open>
  The index of the terminating NUL. A peer may bind its socket to a longer name. With SCM_RIGHTS the
  index is the length of the whole address, because the difference of the two sizes is subtracted
  instead of their sum: a name that fills sun_path is a write past its end.
\<close>

theorem accept_overflow:
  assumes "SCM_RIGHTS sys" "LEN_SZ sys = 1" "FAMILY_SZ sys = 1" "0 \<le> clifd"
    and "pending s = (path, int (length path) + 2) # rest" "SUN_PATH sys \<le> length path + 2"
  shows "serv_accept sys junk clifd s = Some (Inl (UB ''sun_path index''))"
  using assms by (simp add: serv_accept_def peer_path_def Let_def)

abbreviation unix_sys_ex :: unix_sys where
  "unix_sys_ex \<equiv> \<lparr>SCM_RIGHTS = True, LEN_SZ = 1, FAMILY_SZ = 1, SUN_PATH = 104\<rparr>"

abbreviation unix_net_ex :: unix_net where
  "unix_net_ex \<equiv> \<lparr>debug = 0, errno_text = [], stderr_out = [], syslog_out = [], heap = 0, clock = 1000, umask = 0x12,
     inodes = Map.empty, undeletable = {}, servers = {''/calld''}, pending = []\<rparr>"

abbreviation cli_env_ex :: cli_env where
  "cli_env_ex \<equiv> \<lparr>ce_socket = 3, ce_bind = True, ce_chmod = True, ce_connect = True\<rparr>"

lemma client_identified_witness:
  "\<exists>s1 s2. cli_conn unix_sys_ex cli_env_ex 4711 203 ''/calld'' unix_net_ex = Inr (3, s1)
     \<and> serv_accept unix_sys_ex (replicate 104 (CHR ''x'')) 5 (s1\<lparr>clock := clock s1 + 30\<rparr>) = Some (Inr (5, Some 203, s2))"
  using client_identified [of unix_sys_ex 4711 unix_net_ex cli_env_ex "''/calld''" 30 5 "replicate 104 (CHR ''x'')" 203]
  by (auto simp: sizes_ok_def)

abbreviation inode_ex :: inode where
  "inode_ex \<equiv> \<lparr>st_sock = True, st_mode = 0xC1C0, st_uid = 203, st_atime = 990, st_mtime = 980, st_ctime = 980\<rparr>"

lemma accept_checks_owner_witness:
  "\<exists>s2. serv_accept unix_sys_ex (replicate 104 (CHR ''x'')) 5
       (unix_net_ex\<lparr>inodes := [''/tmp/me'' \<mapsto> inode_ex], pending := [(''/tmp/me'' @ [NUL], 10)]\<rparr>) = Some (Inr (5, Some 203, s2))
     \<and> inodes s2 ''/tmp/me'' = None"
proof -
  have p: "peer_path unix_sys_ex (replicate 104 (CHR ''x'')) (''/tmp/me'' @ [NUL], 10) = Inr ''/tmp/me''"
    by code_simp
  obtain s2 where a: "serv_accept unix_sys_ex (replicate 104 (CHR ''x'')) 5
       (unix_net_ex\<lparr>inodes := [''/tmp/me'' \<mapsto> inode_ex], pending := [(''/tmp/me'' @ [NUL], 10)]\<rparr>) = Some (Inr (5, Some 203, s2))"
    using p by (simp add: serv_accept_def S_IRWXU_def S_IRWXG_def S_IRWXO_def is_stale_def STALE_def Let_def)
  with accept_checks_owner [OF a] show ?thesis by (auto split: if_splits)
qed

lemma accept_overflow_witness:
  "serv_accept unix_sys_ex [] 5 (unix_net_ex\<lparr>pending := [(replicate 103 (CHR ''x''), 105)]\<rparr>) = Some (Inl (UB ''sun_path index''))"
  using accept_overflow [of unix_sys_ex 5 "unix_net_ex\<lparr>pending := [(replicate 103 (CHR ''x''), 105)]\<rparr>" "replicate 103 (CHR ''x'')"]
  by simp

end
