(* ===== verification/ProcOpen.thy ===== *)
theory ProcOpen
  imports ErrLog
begin

text \<open>
  Pipes to commands: lib.sun/popen.c with open_max (openmax.c) and path_alloc (pathalloc.c). The
  descriptors of the process are a map to open files; the answers of the kernel come with the
  call. A stream is its descriptor. The child is the descriptor table in which the shell starts.
\<close>

section \<open>Limits of the system\<close>

text \<open>The answer of sysconf or pathconf: a value, no limit (errno stays 0), or an error.\<close>

datatype limit = Limit int | Indeterminate | LimitError

record procs = proc_io +
  openmax :: int
  pathmax :: int
  childpid :: "int list option"
  maxfd_tab :: int
  ofile :: "int \<Rightarrow> nat option"

definition open_max :: "limit \<Rightarrow> 'a procs_scheme \<Rightarrow> (int \<times> 'a procs_scheme) res" where
  "open_max l s =
     (if openmax s = 0 then
        (case l of
           Limit n \<Rightarrow> Inr (n, s\<lparr>openmax := n\<rparr>)
         | Indeterminate \<Rightarrow> Inr (256, s\<lparr>openmax := 256\<rparr>)
         | LimitError \<Rightarrow> err_sys ''sysconf error for _SC_OPEN_MAX'' (s\<lparr>openmax := -1\<rparr>))
      else Inr (openmax s, s))"

text \<open>The result of path_alloc is the size of the buffer; it is also stored through \<open>size\<close>.\<close>

definition path_alloc :: "limit \<Rightarrow> 'a procs_scheme \<Rightarrow> (int \<times> 'a procs_scheme) res" where
  "path_alloc l s =
     bindR (if pathmax s = 0 then
              (case l of
                 Limit n \<Rightarrow> Inr (s\<lparr>pathmax := n + 1\<rparr>)
               | Indeterminate \<Rightarrow> Inr (s\<lparr>pathmax := 1024\<rparr>)
               | LimitError \<Rightarrow> err_sys ''pathconf error for _PC_PATH_MAX'' (s\<lparr>pathmax := -1\<rparr>))
            else Inr s) (\<lambda>s.
     case malloc s of None \<Rightarrow> err_sys ''malloc error for pathname'' s | Some s \<Rightarrow> Inr (pathmax s + 1, s))"

section \<open>popen.c\<close>

definition dup2 :: "int \<Rightarrow> int \<Rightarrow> (int \<Rightarrow> nat option) \<Rightarrow> int \<Rightarrow> nat option" where
  "dup2 fd fd2 t = (if t fd = None then t else t(fd2 := t fd))"

text \<open>Lines 38 to 54: the child connects its end of the pipe and closes what earlier calls opened.\<close>

fun close_children :: "int list \<Rightarrow> int \<Rightarrow> (int \<Rightarrow> nat option) \<Rightarrow> int \<Rightarrow> nat option" where
  "close_children [] i t = t"
| "close_children (p # ps) i t = close_children ps (i + 1) (if 0 < p then t(i := None) else t)"

definition popen_child :: "bool \<Rightarrow> int \<times> int \<Rightarrow> int list \<Rightarrow> (int \<Rightarrow> nat option) \<Rightarrow> int \<Rightarrow> nat option" where
  "popen_child rd pfd children t =
     (let t = (if rd then
          (let t = t(fst pfd := None) in
           if snd pfd \<noteq> 1 then (dup2 (snd pfd) 1 t)(snd pfd := None) else t)
        else
          (let t = t(snd pfd := None) in
           if fst pfd \<noteq> 0 then (dup2 (fst pfd) 0 t)(fst pfd := None) else t)) in
      close_children children 0 t)"

text \<open>
  The answers: the new pipe (descriptors and open files), the result of fork in the parent and
  whether fdopen succeeds. The result is the stream and the descriptors of the child.
\<close>

record popen_env =
  pe_limit :: limit
  pe_pipe :: "((int \<times> nat) \<times> int \<times> nat) option"
  pe_fork :: int
  pe_fdopen :: bool

definition popen_parent :: "bool \<Rightarrow> int \<times> int \<Rightarrow> popen_env \<Rightarrow> 'a procs_scheme \<Rightarrow> (int option \<times> 'a procs_scheme) res" where
  "popen_parent rd pfd e s =
     (let (mine, other) = (if rd then pfd else (snd pfd, fst pfd)); s = s\<lparr>ofile := (ofile s)(other := None)\<rparr> in
      if \<not> pe_fdopen e then Inr (None, s)
      else (case childpid s of
        None \<Rightarrow> Inl (UB ''childpid is NULL'')
      | Some ps \<Rightarrow> if mine < 0 \<or> int (length ps) \<le> mine then Inl (UB ''childpid index'')
                   else Inr (Some mine, s\<lparr>childpid := Some (ps[nat mine := pe_fork e])\<rparr>)))"

definition popen_alloc :: "popen_env \<Rightarrow> 'a procs_scheme \<Rightarrow> (bool \<times> 'a procs_scheme) res" where
  "popen_alloc e s =
     (if childpid s = None then
        bindR (open_max (pe_limit e) s) (\<lambda>(n, s). let s = s\<lparr>maxfd_tab := n\<rparr> in
        case malloc s of None \<Rightarrow> Inr (False, s) | Some s \<Rightarrow> Inr (True, s\<lparr>childpid := Some (replicate (nat n) 0)\<rparr>))
      else Inr (True, s))"

definition popen :: "string \<Rightarrow> popen_env \<Rightarrow> 'a procs_scheme
    \<Rightarrow> (int option \<times> (int \<Rightarrow> nat option) option \<times> 'a procs_scheme) res" where
  "popen type e s =
     (if type \<noteq> ''r'' \<and> type \<noteq> ''w'' then Inr (None, None, s\<lparr>errno_text := ''Invalid argument''\<rparr>)
      else bindR (popen_alloc e s) (\<lambda>(ok, s).
      if \<not> ok then Inr (None, None, s)
      else (case pe_pipe e of
        None \<Rightarrow> Inr (None, None, s)
      | Some ((r, fr), (w, fw)) \<Rightarrow>
          (let s = s\<lparr>ofile := (ofile s)(r \<mapsto> fr, w \<mapsto> fw)\<rparr> in
           if pe_fork e < 0 then Inr (None, None, s)
           else bindR (popen_parent (type = ''r'') (r, w) e s) (\<lambda>(fp, s').
           Inr (fp, map_option (\<lambda>ps. popen_child (type = ''r'') (r, w) ps (ofile s)) (childpid s), s'))))))"

text \<open>The answers of waitpid; without a further one it does not return.\<close>

datatype wait_answer = Interrupted | WaitError | Terminated int

fun wait_loop :: "wait_answer list \<Rightarrow> int option" where
  "wait_loop [] = None"
| "wait_loop (Interrupted # ws) = wait_loop ws"
| "wait_loop (WaitError # ws) = Some (-1)"
| "wait_loop (Terminated st # ws) = Some st"

text \<open>\<open>waits pid\<close> are the answers of waitpid for this child; \<open>None\<close> is a call that does not return.\<close>

definition pclose :: "int \<Rightarrow> bool \<Rightarrow> (int \<Rightarrow> wait_answer list) \<Rightarrow> 'a procs_scheme \<Rightarrow> (int option \<times> 'a procs_scheme) res" where
  "pclose fd fclose_ok waits s =
     (case childpid s of
        None \<Rightarrow> Inr (Some (-1), s)
      | Some ps \<Rightarrow>
          if fd < 0 \<or> int (length ps) \<le> fd then Inl (UB ''childpid index'')
          else let pid = ps ! nat fd in
          if pid = 0 then Inr (Some (-1), s)
          else let s = s\<lparr>childpid := Some (ps[nat fd := 0]), ofile := (ofile s)(fd := None)\<rparr> in
          if \<not> fclose_ok then Inr (Some (-1), s)
          else Inr (wait_loop (waits pid), s))"

section \<open>Facts\<close>

lemma close_children_at:
  "close_children ps k t i = (if k \<le> i \<and> i < k + int (length ps) \<and> 0 < ps ! nat (i - k) then None else t i)"
proof (induction ps arbitrary: k t)
  case (Cons p ps)
  have "nat (i - k) = Suc (nat (i - (k + 1)))" if "k < i" using that by simp
  then show ?case by (auto simp: Cons.IH)
qed auto

text \<open>A table of children: large enough for every descriptor, only open descriptors have a child.\<close>

definition popen_inv :: "'a procs_scheme \<Rightarrow> bool" where
  "popen_inv s \<longleftrightarrow> (case childpid s of None \<Rightarrow> True
     | Some ps \<Rightarrow> (\<forall>p \<in> set ps. 0 \<le> p) \<and> int (length ps) = maxfd_tab s
         \<and> (\<forall>i < length ps. 0 < ps ! i \<longrightarrow> ofile s (int i) \<noteq> None))"

definition new_pipe :: "popen_env \<Rightarrow> int \<Rightarrow> nat \<Rightarrow> int \<Rightarrow> nat \<Rightarrow> 'a procs_scheme \<Rightarrow> bool" where
  "new_pipe e r fr w fw s \<longleftrightarrow> pe_pipe e = Some ((r, fr), (w, fw)) \<and> r \<noteq> w \<and> fr \<noteq> fw \<and> 2 < r \<and> 2 < w
     \<and> ofile s r = None \<and> ofile s w = None"

text \<open>
  What popen gives the two processes. With a table and a new pipe, the parent gets the stream of its
  end, and only that end, and remembers the child for it; the child has the other end as its
  standard output or input, no second descriptor of the pipe, none of the streams of earlier calls,
  and every other descriptor of the parent.
\<close>

theorem popen_connects:
  assumes "popen_inv s" "childpid s = Some ps" "new_pipe e r fr w fw s" "r < maxfd_tab s" "w < maxfd_tab s"
    and "0 < pe_fork e" "pe_fdopen e" "\<forall>i < length ps. i \<le> 2 \<longrightarrow> ps ! i = 0" "type \<in> {''r'', ''w''}"
  shows "\<exists>fp t s'. popen type e s = Inr (Some fp, Some t, s') \<and> fp = (if type = ''r'' then r else w)
    \<and> childpid s' = Some (ps[nat fp := pe_fork e]) \<and> ofile s' = (ofile s)(fp := Some (if type = ''r'' then fr else fw))
    \<and> popen_inv s'
    \<and> t = (\<lambda>i. if i = (if type = ''r'' then 1 else 0) then Some (if type = ''r'' then fw else fr)
          else if 0 \<le> i \<and> i < int (length ps) \<and> 0 < ps ! nat i then None else ofile s i)"
proof -
  have len: "int (length ps) = maxfd_tab s" and nn: "\<forall>p \<in> set ps. 0 \<le> p"
    and opn: "\<And>i. i < length ps \<Longrightarrow> 0 < ps ! i \<Longrightarrow> ofile s (int i) \<noteq> None"
    using assms(1,2) by (auto simp: popen_inv_def)
  have np: "r \<noteq> w" "2 < r" "2 < w" "ofile s r = None" "ofile s w = None" "pe_pipe e = Some ((r, fr), (w, fw))"
    using assms(3) by (auto simp: new_pipe_def)
  define fp where "fp = (if type = ''r'' then r else w)"
  define s' where "s' = s\<lparr>ofile := (ofile s)(fp := Some (if type = ''r'' then fr else fw)), childpid := Some (ps[nat fp := pe_fork e])\<rparr>"
  have l3: "2 < length ps" using np(2) assms(4) len by linarith
  have idle: "ps ! 0 = 0" "ps ! 1 = 0"
    using assms(8) [rule_format, of 0] assms(8) [rule_format, of 1] l3 by (cases "ps = []"; simp)+
  have upd: "(ofile s)(r \<mapsto> fr, w := None) = (ofile s)(r \<mapsto> fr)" "(ofile s)(r \<mapsto> fr, w \<mapsto> fw, r := None) = (ofile s)(w \<mapsto> fw)"
    using np by (auto simp: fun_eq_iff)
  have run: "popen type e s = Inr (Some fp, Some (popen_child (type = ''r'') (r, w) ps ((ofile s)(r \<mapsto> fr, w \<mapsto> fw))), s')"
    using assms(2,4-7,9) np len
    by (auto simp: popen_def popen_alloc_def popen_parent_def fp_def s'_def upd Let_def)
  have t: "popen_child (type = ''r'') (r, w) ps ((ofile s)(r \<mapsto> fr, w \<mapsto> fw))
      = (\<lambda>i. if i = (if type = ''r'' then 1 else 0) then Some (if type = ''r'' then fw else fr)
          else if 0 \<le> i \<and> i < int (length ps) \<and> 0 < ps ! nat i then None else ofile s i)"
    using np idle
    by (auto simp: popen_child_def dup2_def close_children_at fun_eq_iff Let_def)
  have inv: "popen_inv s'"
    using assms(6) len nn opn np assms(4,5) set_update_subset_insert [of ps "nat fp" "pe_fork e"]
    by (auto simp: popen_inv_def s'_def fp_def nth_list_update)
  show ?thesis
    by (rule exI [of _ fp], rule exI, rule exI [of _ s'], intro conjI, rule run) (simp_all add: fp_def s'_def t inv [unfolded s'_def fp_def])
qed

text \<open>
  Closing a stream of popen. pclose closes the descriptor, waits for exactly the child that popen
  started for it, however often the wait is interrupted, and forgets it: a second pclose of the
  same stream returns -1 and waits for nobody.
\<close>

theorem pclose_waits:
  assumes "childpid s = Some ps" "0 \<le> fd" "fd < int (length ps)" "ps ! nat fd = pid" "pid \<noteq> 0"
    and "waits pid = replicate n Interrupted @ Terminated st # ws"
  shows "\<exists>s'. pclose fd True waits s = Inr (Some st, s') \<and> ofile s' fd = None \<and> childpid s' = Some (ps[nat fd := 0])
    \<and> pclose fd True waits s' = Inr (Some (-1), s')"
proof -
  have "wait_loop (replicate n Interrupted @ Terminated st # ws) = Some st" by (induction n) auto
  with assms show ?thesis by (auto simp: pclose_def Let_def)
qed

text \<open>A shell that still has its three standard files and has run one command before.\<close>

abbreviation procs_ex :: procs where
  "procs_ex \<equiv> \<lparr>debug = 0, errno_text = [], stderr_out = [], syslog_out = [], heap = 0, openmax = 8, pathmax = 0,
     childpid = Some [0, 0, 0, 501, 0, 0, 0, 0], maxfd_tab = 8, ofile = [0 \<mapsto> 1, 1 \<mapsto> 2, 2 \<mapsto> 2, 3 \<mapsto> 7]\<rparr>"

abbreviation popen_env_ex :: popen_env where
  "popen_env_ex \<equiv> \<lparr>pe_limit = Indeterminate, pe_pipe = Some ((4, 8), (5, 9)), pe_fork = 502, pe_fdopen = True\<rparr>"

lemma popen_connects_witness:
  "\<exists>fp t s'. popen ''r'' popen_env_ex procs_ex = Inr (Some fp, Some t, s') \<and> fp = 4 \<and> t 1 = Some 9 \<and> t 3 = None \<and> t 4 = None
     \<and> t 0 = Some 1 \<and> popen_inv s'"
proof -
  have i: "popen_inv procs_ex" by (auto simp: popen_inv_def less_Suc_eq_0_disj nth_Cons split: nat.split)
  have z: "\<forall>i < length [0, 0, 0, 501, 0, 0, 0, 0 :: int]. i \<le> 2 \<longrightarrow> [0, 0, 0, 501, 0, 0, 0, 0 :: int] ! i = 0"
    by (auto simp: nth_Cons split: nat.split)
  show ?thesis
    using popen_connects [OF i, of "[0, 0, 0, 501, 0, 0, 0, 0]" popen_env_ex 4 8 5 9 "''r''", OF _ _ _ _ _ _ z]
    by (auto simp: new_pipe_def)
qed

lemma pclose_waits_witness:
  "\<exists>s'. pclose 3 True (\<lambda>pid. if pid = 501 then [Interrupted, Interrupted, Terminated 256] else []) procs_ex = Inr (Some 256, s')
     \<and> ofile s' 3 = None"
  using pclose_waits [of procs_ex "[0, 0, 0, 501, 0, 0, 0, 0]" 3 501
    "\<lambda>pid. if pid = 501 then [Interrupted, Interrupted, Terminated 256] else []" 2 256 "[]"]
  by (auto simp: numeral_2_eq_2)

end
