(* ===== verification/PtyOpen.thy ===== *)
theory PtyOpen
  imports ProcOpen
begin

text \<open>
  Pseudo terminals: lib.sun/ptyopen.c and ptyfork.c, and the driver.c of the program pty (in
  pty/ourhdr.h). Processes are their tables of descriptors, maps to open files.
\<close>

section \<open>ptyopen.c\<close>

text \<open>The answer of open for a master: a descriptor, ENOENT, or another error.\<close>

datatype open_answer = Opened int | NoEntry | OpenError

text \<open>
  The inner loop: \<open>None\<close> continues with the next letter. The second result is the buffer
  \<open>pts_name\<close>.
\<close>

fun ptym_digits :: "(string \<Rightarrow> open_answer) \<Rightarrow> string \<Rightarrow> string \<Rightarrow> int option \<times> string" where
  "ptym_digits ans [] nm = (None, nm)"
| "ptym_digits ans (y # ys) nm =
     (let nm = nm[9 := y] in
      case ans nm of
        Opened fdm \<Rightarrow> (Some fdm, nm[5 := CHR ''t''])
      | NoEntry \<Rightarrow> (Some (-1), nm)
      | OpenError \<Rightarrow> ptym_digits ans ys nm)"

definition pty_digits :: string where "pty_digits = ''0123456789abcdef''"

fun ptym_letters :: "(string \<Rightarrow> open_answer) \<Rightarrow> string \<Rightarrow> string \<Rightarrow> int \<times> string" where
  "ptym_letters ans [] nm = (-1, nm)"
| "ptym_letters ans (x # xs) nm =
     (case ptym_digits ans pty_digits (nm[8 := x]) of
        (Some r, nm) \<Rightarrow> (r, nm)
      | (None, nm) \<Rightarrow> ptym_letters ans xs nm)"

definition ptym_open :: "(string \<Rightarrow> open_answer) \<Rightarrow> int \<times> string" where
  "ptym_open ans = ptym_letters ans ''pqrstuvwxyzPQRST'' ''/dev/ptyXY''"

text \<open>
  The slave: its owner, group and mode are set when the process is the superuser; the descriptor of
  the slave, or -1 after closing the master. The answer of open comes with the call.
\<close>

record pty_dev =
  dev_uid :: int
  dev_gid :: int
  dev_mode :: nat

definition ptys_open :: "bool \<Rightarrow> int \<Rightarrow> int option \<Rightarrow> int \<Rightarrow> (int \<times> nat) \<Rightarrow> (int \<Rightarrow> nat option) \<Rightarrow> pty_dev
    \<Rightarrow> int \<times> (int \<Rightarrow> nat option) \<times> pty_dev" where
  "ptys_open root uid tty_group fdm answer t dev =
     (let gid = (case tty_group of Some g \<Rightarrow> g | None \<Rightarrow> -1);
          dev = (if root then dev\<lparr>dev_uid := uid, dev_gid := (if gid = -1 then dev_gid dev else gid)\<rparr> else dev);
          dev = (if root then dev\<lparr>dev_mode := 0x190\<rparr> else dev) in
      if fst answer < 0 then (-1, t(fdm := None), dev)
      else (fst answer, t(fst answer \<mapsto> snd answer), dev))"

section \<open>ptyfork.c\<close>

text \<open>The child after its calls have succeeded: lines 31 to 58, without the terminal settings.\<close>

definition pty_child :: "int \<Rightarrow> int \<Rightarrow> (int \<Rightarrow> nat option) \<Rightarrow> int \<Rightarrow> nat option" where
  "pty_child fdm fds t =
     (let t = t(fdm := None); t = dup2 fds 2 (dup2 fds 1 (dup2 fds 0 t)) in if 2 < fds then t(fds := None) else t)"

record pty_env =
  py_masters :: "string \<Rightarrow> open_answer"
  py_file :: nat \<comment> \<open>the open file of the master\<close>
  py_fork :: int
  py_root :: bool
  py_uid :: int
  py_group :: "int option"
  py_slave :: "int \<times> nat"

text \<open>
  The parent's result is the process number (or -1), the master's descriptor and the slave's name; the
  result of the child is its descriptor table, unless it ends with an error.
\<close>

definition pty_fork :: "pty_env \<Rightarrow> pty_dev \<Rightarrow> 'a procs_scheme
    \<Rightarrow> (int \<times> int option \<times> string \<times> (int \<Rightarrow> nat option) option \<times> 'a procs_scheme) res" where
  "pty_fork e dev s =
     (let (fdm, pts_name) = ptym_open (py_masters e) in
      if fdm < 0 then err_sys (''can't open master pty: '' @ pts_name) s
      else let s = s\<lparr>ofile := (ofile s)(fdm \<mapsto> py_file e)\<rparr> in
      if py_fork e < 0 then Inr (-1, None, pts_name, None, s)
      else let (fds, t, _) = ptys_open (py_root e) (py_uid e) (py_group e) fdm (py_slave e) (ofile s) dev in
        Inr (py_fork e, Some fdm, pts_name, if fds < 0 then None else Some (pty_child fdm fds t), s))"

section \<open>driver.c\<close>

definition driver_child :: "int \<times> int \<Rightarrow> (int \<Rightarrow> nat option) \<Rightarrow> int \<Rightarrow> nat option" where
  "driver_child pipe t = (let t = t(snd pipe := None); t = dup2 (fst pipe) 1 (dup2 (fst pipe) 0 t) in t(fst pipe := None))"

text \<open>The stream pipe is two descriptors of two files; the results are the parent and the driver.\<close>

definition do_driver :: "((int \<times> nat) \<times> int \<times> nat) option \<Rightarrow> int \<Rightarrow> 'a procs_scheme
    \<Rightarrow> ((int \<Rightarrow> nat option) \<times> 'a procs_scheme) res" where
  "do_driver pipe child s =
     (case pipe of
        None \<Rightarrow> err_sys ''can't create stream pipe'' s
      | Some ((p0, f0), (p1, f1)) \<Rightarrow>
          (let s = s\<lparr>ofile := (ofile s)(p0 \<mapsto> f0, p1 \<mapsto> f1)\<rparr> in
           if child < 0 then err_sys ''fork error'' s
           else let t = (ofile s)(p0 := None); t = dup2 p1 1 (dup2 p1 0 t) in
             Inr (driver_child (p0, p1) (ofile s), s\<lparr>ofile := t(p1 := None)\<rparr>)))"

section \<open>What they find and connect\<close>

text \<open>The names in the order in which they are tried.\<close>

definition pty_names :: "string list" where
  "pty_names = concat (map (\<lambda>x. map (\<lambda>y. ''/dev/pty'' @ [x, y]) pty_digits) ''pqrstuvwxyzPQRST'')"

text \<open>The search over a list of names, as a specification.\<close>

fun first_pty :: "(string \<Rightarrow> open_answer) \<Rightarrow> string list \<Rightarrow> (int \<times> string) option" where
  "first_pty ans [] = None"
| "first_pty ans (n # ns) =
     (case ans n of
        Opened fdm \<Rightarrow> Some (fdm, n[5 := CHR ''t''])
      | NoEntry \<Rightarrow> Some (-1, n)
      | OpenError \<Rightarrow> first_pty ans ns)"

lemma first_pty_append:
  "first_pty ans (ms @ ns) = (case first_pty ans ms of None \<Rightarrow> first_pty ans ns | Some r \<Rightarrow> Some r)"
  by (induction ms) (auto split: open_answer.split)

lemma ptym_digits_first:
  assumes "length nm = 10"
  shows "ptym_digits ans ys nm = (case first_pty ans (map (\<lambda>y. nm[9 := y]) ys) of
       Some (r, n) \<Rightarrow> (Some r, n) | None \<Rightarrow> (None, if ys = [] then nm else nm[9 := last ys]))"
proof -
  have "list_update (nm[9 := a]) 9 = list_update nm 9" for nm and a :: char by (simp add: fun_eq_iff)
  with assms show ?thesis
    by (induction ys arbitrary: nm) (auto simp: Let_def split: open_answer.split option.split)
qed

lemma ptym_letters_first:
  "length nm = 10 \<Longrightarrow> take 8 nm = ''/dev/pty'' \<Longrightarrow> fst (ptym_letters ans xs nm) =
     (case first_pty ans (concat (map (\<lambda>x. map (\<lambda>y. ''/dev/pty'' @ [x, y]) pty_digits) xs)) of
        None \<Rightarrow> -1 | Some r \<Rightarrow> fst r)
   \<and> (\<forall>r. first_pty ans (concat (map (\<lambda>x. map (\<lambda>y. ''/dev/pty'' @ [x, y]) pty_digits) xs)) = Some r
        \<longrightarrow> ptym_letters ans xs nm = r)"
proof (induction xs arbitrary: nm)
  case (Cons x xs)
  have nm: "nm[8 := x, 9 := y] = ''/dev/pty'' @ [x, y]" for y
  proof -
    obtain a b where "drop 8 nm = [a, b]"
    proof -
      have "length (drop 8 nm) = Suc (Suc 0)" using Cons.prems(1) by simp
      then show thesis using that unfolding length_Suc_conv by blast
    qed
    then have "nm = ''/dev/pty'' @ [a, b]" using append_take_drop_id [of 8 nm] Cons.prems(2) by simp
    then show ?thesis by simp
  qed
  have last_digit: "last pty_digits = CHR ''f''" "pty_digits \<noteq> []" by (simp_all add: pty_digits_def)
  let ?ns = "map (\<lambda>y. ''/dev/pty'' @ [x, y]) pty_digits"
  have d: "ptym_digits ans pty_digits (nm[8 := x]) = (case first_pty ans ?ns of
      Some (r, n) \<Rightarrow> (Some r, n) | None \<Rightarrow> (None, ''/dev/pty'' @ [x, CHR ''f'']))"
    using ptym_digits_first [of "nm[8 := x]" ans pty_digits] Cons.prems(1) by (simp add: nm last_digit split: option.split)
  show ?case
  proof (cases "first_pty ans ?ns")
    case None
    with Cons.IH [of "''/dev/pty'' @ [x, CHR ''f'']"] d show ?thesis
      by (simp add: first_pty_append)
  next
    case (Some r)
    with d show ?thesis by (cases r) (simp add: first_pty_append)
  qed
qed simp

text \<open>
  The first terminal that is free. ptym_open returns the descriptor of the first of the 256 masters, in
  the order of the names, that can be opened, together with the name of its slave; a name that does
  not exist ends the search.
\<close>

theorem ptym_open_first:
  "fst (ptym_open ans) = (case first_pty ans pty_names of None \<Rightarrow> -1 | Some r \<Rightarrow> fst r)
   \<and> (\<forall>r. first_pty ans pty_names = Some r \<longrightarrow> ptym_open ans = r)"
  unfolding ptym_open_def pty_names_def by (rule ptym_letters_first) simp_all

lemma ptym_open_first_witness:
  "ptym_open (\<lambda>n. if n = ''/dev/ptyq2'' then Opened 7 else OpenError) = (7, ''/dev/ttyq2'')"
proof -
  have "first_pty (\<lambda>n. if n = ''/dev/ptyq2'' then Opened 7 else OpenError) pty_names = Some (7, ''/dev/ttyq2'')"
    by code_simp
  then show ?thesis using ptym_open_first by blast
qed

text \<open>
  Who has which end. After pty_fork the parent holds the master and the child has the slave, and
  nothing else of the pair, as its standard input, output and error; every other descriptor is
  inherited.
\<close>

theorem pty_fork_connects:
  assumes "ptym_open (py_masters e) = (fdm, nm)" "2 < fdm" "0 < py_fork e" "py_slave e = (fds, fs)" "2 < fds" "fds \<noteq> fdm"
  shows "\<exists>s'. pty_fork e dev s = Inr (py_fork e, Some fdm, nm,
      Some ((ofile s)(fdm := None, fds := None, 0 \<mapsto> fs, 1 \<mapsto> fs, 2 \<mapsto> fs)), s')
    \<and> ofile s' = (ofile s)(fdm \<mapsto> py_file e)"
proof -
  have "pty_child fdm fds ((ofile s)(fdm \<mapsto> py_file e, fds \<mapsto> fs)) = (ofile s)(fdm := None, fds := None, 0 \<mapsto> fs, 1 \<mapsto> fs, 2 \<mapsto> fs)"
    using assms by (auto simp: pty_child_def dup2_def Let_def fun_eq_iff)
  with assms show ?thesis by (simp add: pty_fork_def ptys_open_def Let_def)
qed

abbreviation pty_env_ex :: pty_env where
  "pty_env_ex \<equiv> \<lparr>py_masters = (\<lambda>n. if n = ''/dev/ptyp1'' then Opened 4 else OpenError), py_file = 11, py_fork = 300, py_root = False,
     py_uid = 203, py_group = None, py_slave = (5, 12)\<rparr>"

lemma pty_fork_connects_witness:
  "\<exists>s'. pty_fork pty_env_ex \<lparr>dev_uid = 0, dev_gid = 4, dev_mode = 0x1B6\<rparr> procs_ex = Inr (300, Some 4, ''/dev/ttyp1'',
      Some ((ofile procs_ex)(4 := None, 5 := None, 0 \<mapsto> 12, 1 \<mapsto> 12, 2 \<mapsto> 12)), s')
    \<and> ofile s' 4 = Some 11"
proof -
  have "ptym_open (py_masters pty_env_ex) = (4, ''/dev/ttyp1'')" by code_simp
  from pty_fork_connects [OF this, of 5 12 "\<lparr>dev_uid = 0, dev_gid = 4, dev_mode = 0x1B6\<rparr>" procs_ex] show ?thesis by auto
qed

text \<open>
  The driver between the program and its terminal: after do_driver both processes have their standard
  input and output on their end of the stream pipe and no other descriptor of it.
\<close>

lemma do_driver_connects:
  assumes "2 < p0" "2 < p1" "p0 \<noteq> p1" "0 < child"
  shows "\<exists>s'. do_driver (Some ((p0, f0), (p1, f1))) child s = Inr ((ofile s)(p0 := None, p1 := None, 0 \<mapsto> f0, 1 \<mapsto> f0), s')
    \<and> ofile s' = (ofile s)(p0 := None, p1 := None, 0 \<mapsto> f1, 1 \<mapsto> f1)"
proof -
  let ?t = "(ofile s)(p0 \<mapsto> f0, p1 \<mapsto> f1)"
  have "driver_child (p0, p1) ?t = (ofile s)(p0 := None, p1 := None, 0 \<mapsto> f0, 1 \<mapsto> f0)"
    using assms by (auto simp: driver_child_def dup2_def Let_def fun_eq_iff)
  moreover have "(dup2 p1 1 (dup2 p1 0 (?t(p0 := None))))(p1 := None) = (ofile s)(p0 := None, p1 := None, 0 \<mapsto> f1, 1 \<mapsto> f1)"
    using assms by (auto simp: dup2_def fun_eq_iff)
  ultimately show ?thesis using assms by (simp add: do_driver_def Let_def)
qed

end
