(* ===== verification/TtyModes.thy ===== *)
theory TtyModes
  imports CPrelude
begin

unbundle bit_operations_syntax

text \<open>
  Changing the mode of a terminal and restoring it: lib.sun/ttymodes.c. The flags of termios.h are
  a parameter. A descriptor without attributes is not a terminal; the results of the next calls of
  tcsetattr are a list in the state, after its end they succeed.
\<close>

record tty_flags =
  F_ECHO :: "32 word"
  F_ICANON :: "32 word"
  F_IEXTEN :: "32 word"
  F_ISIG :: "32 word"
  F_BRKINT :: "32 word"
  F_ICRNL :: "32 word"
  F_INPCK :: "32 word"
  F_ISTRIP :: "32 word"
  F_IXON :: "32 word"
  F_CSIZE :: "32 word"
  F_PARENB :: "32 word"
  F_CS8 :: "32 word"
  F_OPOST :: "32 word"

record tty_attr =
  a_iflag :: "32 word"
  a_oflag :: "32 word"
  a_cflag :: "32 word"
  a_lflag :: "32 word"
  a_vmin :: "8 word"
  a_vtime :: "8 word"
  a_other_cc :: "8 word list"

datatype ttystate = RESET | RAW | CBREAK

record ttys =
  attrs :: "int \<Rightarrow> tty_attr option"
  setattr_ok :: "bool list"
  save_termios :: tty_attr
  ttysavefd :: int
  ttystate :: ttystate

definition tcsetattr :: "int \<Rightarrow> tty_attr \<Rightarrow> 'a ttys_scheme \<Rightarrow> int \<times> 'a ttys_scheme" where
  "tcsetattr fd a s =
     (let ok = (case setattr_ok s of [] \<Rightarrow> True | b # _ \<Rightarrow> b); s = s\<lparr>setattr_ok := tl (setattr_ok s)\<rparr> in
      if attrs s fd = None \<or> \<not> ok then (-1, s) else (0, s\<lparr>attrs := (attrs s)(fd \<mapsto> a)\<rparr>))"

definition cbreak_attr :: "tty_flags \<Rightarrow> tty_attr \<Rightarrow> tty_attr" where
  "cbreak_attr F buf =
     (let buf = buf\<lparr>a_lflag := a_lflag buf AND NOT (F_ECHO F OR F_ICANON F)\<rparr> in buf\<lparr>a_vmin := 1, a_vtime := 0\<rparr>)"

definition raw_attr :: "tty_flags \<Rightarrow> tty_attr \<Rightarrow> tty_attr" where
  "raw_attr F buf =
     (let buf = buf\<lparr>a_lflag := a_lflag buf AND NOT (F_ECHO F OR F_ICANON F OR F_IEXTEN F OR F_ISIG F)\<rparr>;
          buf = buf\<lparr>a_iflag := a_iflag buf AND NOT (F_BRKINT F OR F_ICRNL F OR F_INPCK F OR F_ISTRIP F OR F_IXON F)\<rparr>;
          buf = buf\<lparr>a_cflag := a_cflag buf AND NOT (F_CSIZE F OR F_PARENB F)\<rparr>;
          buf = buf\<lparr>a_cflag := a_cflag buf OR F_CS8 F\<rparr>;
          buf = buf\<lparr>a_oflag := a_oflag buf AND NOT (F_OPOST F)\<rparr> in buf\<lparr>a_vmin := 1, a_vtime := 0\<rparr>)"

definition tty_cbreak :: "tty_flags \<Rightarrow> int \<Rightarrow> 'a ttys_scheme \<Rightarrow> int \<times> 'a ttys_scheme" where
  "tty_cbreak F fd s =
     (case attrs s fd of
        None \<Rightarrow> (-1, s)
      | Some a \<Rightarrow>
          (let s = s\<lparr>save_termios := a\<rparr>; (r, s) = tcsetattr fd (cbreak_attr F (save_termios s)) s in
           if r < 0 then (-1, s) else (0, s\<lparr>ttystate := CBREAK, ttysavefd := fd\<rparr>)))"

definition tty_raw :: "tty_flags \<Rightarrow> int \<Rightarrow> 'a ttys_scheme \<Rightarrow> int \<times> 'a ttys_scheme" where
  "tty_raw F fd s =
     (case attrs s fd of
        None \<Rightarrow> (-1, s)
      | Some a \<Rightarrow>
          (let s = s\<lparr>save_termios := a\<rparr>; (r, s) = tcsetattr fd (raw_attr F (save_termios s)) s in
           if r < 0 then (-1, s) else (0, s\<lparr>ttystate := RAW, ttysavefd := fd\<rparr>)))"

definition tty_reset :: "int \<Rightarrow> 'a ttys_scheme \<Rightarrow> int \<times> 'a ttys_scheme" where
  "tty_reset fd s =
     (if ttystate s \<noteq> CBREAK \<and> ttystate s \<noteq> RAW then (0, s)
      else let (r, s) = tcsetattr fd (save_termios s) s in
      if r < 0 then (-1, s) else (0, s\<lparr>ttystate := RESET\<rparr>))"

definition tty_atexit :: "'a ttys_scheme \<Rightarrow> 'a ttys_scheme" where
  "tty_atexit s = (if 0 \<le> ttysavefd s then snd (tty_reset (ttysavefd s) s) else s)"

definition tty_termios :: "'a ttys_scheme \<Rightarrow> tty_attr" where
  "tty_termios s = save_termios s"

section \<open>Modes\<close>

text \<open>One step of a program that uses the three routines on one descriptor.\<close>

datatype tty_call = Cbreak | Raw | Reset

definition tty_step :: "tty_flags \<Rightarrow> int \<Rightarrow> tty_call \<Rightarrow> 'a ttys_scheme \<Rightarrow> int \<times> 'a ttys_scheme" where
  "tty_step F fd c = (case c of Cbreak \<Rightarrow> tty_cbreak F fd | Raw \<Rightarrow> tty_raw F fd | Reset \<Rightarrow> tty_reset fd)"

lemma tty_step_effect:
  assumes "attrs s fd = Some a" "setattr_ok s = []"
  shows "tty_step F fd c s = (0, case c of
       Cbreak \<Rightarrow> s\<lparr>attrs := (attrs s)(fd \<mapsto> cbreak_attr F a), save_termios := a, ttystate := CBREAK, ttysavefd := fd\<rparr>
     | Raw \<Rightarrow> s\<lparr>attrs := (attrs s)(fd \<mapsto> raw_attr F a), save_termios := a, ttystate := RAW, ttysavefd := fd\<rparr>
     | Reset \<Rightarrow> if ttystate s = RESET then s else s\<lparr>attrs := (attrs s)(fd \<mapsto> save_termios s), ttystate := RESET\<rparr>)"
  using assms by (cases c; cases "ttystate s"; cases s)
    (auto simp: tty_step_def tty_cbreak_def tty_raw_def tty_reset_def tcsetattr_def Let_def)

text \<open>
  Raw mode. After tty_raw no flag that it turns off is set, the character size is the one of CS8,
  and every other flag is as it was.
\<close>

lemma tty_raw_flags:
  assumes "F_CS8 F AND NOT (F_CSIZE F) = 0" "F_CS8 F AND F_PARENB F = 0" "F_CSIZE F AND F_PARENB F = 0"
  shows "a_lflag (raw_attr F a) AND (F_ECHO F OR F_ICANON F OR F_IEXTEN F OR F_ISIG F) = 0"
    and "a_cflag (raw_attr F a) AND F_CSIZE F = F_CS8 F" "a_cflag (raw_attr F a) AND F_PARENB F = 0"
    and "a_oflag (raw_attr F a) AND F_OPOST F = 0" "a_vmin (raw_attr F a) = 1" "a_vtime (raw_attr F a) = 0"
  using assms
  by (auto simp: raw_attr_def Let_def bit_eq_iff bit_simps)

text \<open>
  Restoring the terminal. When a mode was set once, tty_reset, or tty_atexit at the end of the
  process, gives the terminal back exactly the attributes it had.
\<close>

theorem tty_mode_restored:
  assumes "ttystate s = RESET" "attrs s fd = Some a" "setattr_ok s = []" "0 \<le> fd" "c \<noteq> Reset"
  shows "\<exists>s1 s2. tty_step F fd c s = (0, s1) \<and> tty_termios s1 = a \<and> tty_reset fd s1 = (0, s2) \<and> tty_atexit s1 = s2
    \<and> attrs s2 = attrs s \<and> ttystate s2 = RESET"
proof -
  obtain s1 where s1: "tty_step F fd c s = (0, s1)" and f: "setattr_ok s1 = []" "save_termios s1 = a" "ttysavefd s1 = fd"
    "ttystate s1 \<noteq> RESET" and a: "\<exists>b. attrs s1 = (attrs s)(fd \<mapsto> b)"
    using assms tty_step_effect [OF assms(2,3), of F c] by (cases c) auto
  have r: "tty_reset fd s1 = (0, s1\<lparr>attrs := (attrs s1)(fd \<mapsto> a), ttystate := RESET\<rparr>)"
    using f a by (cases "ttystate s1"; cases s1) (auto simp: tty_reset_def tcsetattr_def Let_def)
  moreover have "(attrs s1)(fd \<mapsto> a) = attrs s" using a assms(2) by auto
  ultimately show ?thesis
    using s1 f assms(4) by (auto simp: tty_atexit_def tty_termios_def)
qed

abbreviation tty_flags_ex :: tty_flags where
  "tty_flags_ex \<equiv> \<lparr>F_ECHO = 8, F_ICANON = 2, F_IEXTEN = 0x8000, F_ISIG = 1, F_BRKINT = 2, F_ICRNL = 0x100, F_INPCK = 16,
     F_ISTRIP = 32, F_IXON = 0x400, F_CSIZE = 0x30, F_PARENB = 0x100, F_CS8 = 0x30, F_OPOST = 1\<rparr>"

abbreviation tty_attr_ex :: tty_attr where
  "tty_attr_ex \<equiv> \<lparr>a_iflag = 0x500, a_oflag = 5, a_cflag = 0xbf, a_lflag = 0x8a3b, a_vmin = 1, a_vtime = 0, a_other_cc = [3, 28]\<rparr>"

abbreviation ttys_ex :: ttys where
  "ttys_ex \<equiv> \<lparr>attrs = [0 \<mapsto> tty_attr_ex], setattr_ok = [], save_termios = tty_attr_ex\<lparr>a_cflag := 0\<rparr>, ttysavefd = -1, ttystate = RESET\<rparr>"

lemma tty_mode_restored_witness:
  "\<exists>s1 s2. tty_step tty_flags_ex 0 Raw ttys_ex = (0, s1) \<and> tty_reset 0 s1 = (0, s2) \<and> attrs s2 = attrs ttys_ex"
  using tty_mode_restored [of ttys_ex 0 tty_attr_ex Raw tty_flags_ex] by auto

text \<open>
  A second mode forgets the original. When a mode is set while another one is in force, the saved
  attributes are those of the first mode: tty_reset puts the terminal into that mode, reports
  success, and nothing restores the original any more.
\<close>

theorem tty_second_mode_forgets:
  assumes "ttystate s = RESET" "attrs s fd = Some a" "setattr_ok s = []"
  shows "\<exists>s1 s2 s3. tty_raw F fd s = (0, s1) \<and> tty_cbreak F fd s1 = (0, s2) \<and> tty_reset fd s2 = (0, s3)
    \<and> attrs s3 fd = Some (raw_attr F a) \<and> ttystate s3 = RESET \<and> tty_reset fd s3 = (0, s3) \<and> tty_termios s3 = raw_attr F a"
proof -
  obtain s1 where s1: "tty_raw F fd s = (0, s1)" "attrs s1 fd = Some (raw_attr F a)" "setattr_ok s1 = []"
    using tty_step_effect [OF assms(2,3), of F Raw] assms(3) by (auto simp: tty_step_def)
  obtain s2 where s2: "tty_cbreak F fd s1 = (0, s2)" "attrs s2 fd = Some (cbreak_attr F (raw_attr F a))" "setattr_ok s2 = []"
    "save_termios s2 = raw_attr F a" "ttystate s2 = CBREAK"
    using tty_step_effect [OF s1(2,3), of F Cbreak] s1(3) by (auto simp: tty_step_def)
  obtain s3 where s3: "tty_reset fd s2 = (0, s3)" "attrs s3 fd = Some (raw_attr F a)" "ttystate s3 = RESET"
    "save_termios s3 = raw_attr F a"
    using tty_step_effect [OF s2(2,3), of F Reset] s2(4,5) by (auto simp: tty_step_def)
  moreover have "tty_reset fd s3 = (0, s3)" using s3(3) by (simp add: tty_reset_def)
  ultimately show ?thesis using s1(1) s2(1) by (auto simp: tty_termios_def)
qed

lemma tty_second_mode_forgets_witness:
  "\<exists>s1 s2 s3. tty_raw tty_flags_ex 0 ttys_ex = (0, s1) \<and> tty_cbreak tty_flags_ex 0 s1 = (0, s2) \<and> tty_reset 0 s2 = (0, s3)
    \<and> attrs s3 0 = Some (raw_attr tty_flags_ex tty_attr_ex) \<and> a_lflag (raw_attr tty_flags_ex tty_attr_ex) = 0xa30"
  using tty_second_mode_forgets [of ttys_ex 0 tty_attr_ex tty_flags_ex] by (auto simp: raw_attr_def)

end
