(* ===== verification/ExitTable.thy ===== *)
theory ExitTable
  imports ByteIO
begin

text \<open>
  The functions to call at the end of the process: lib.sun/atexit.c, atexit.h and exit.c. Functions
  are numbers, what they do is the parameter \<open>run\<close>. The tables are a list, the static table is its
  first entry; memory from malloc is not initialised (\<open>None\<close>).
\<close>

definition ATEXIT_SIZE :: nat where "ATEXIT_SIZE = 32"

record exit_tab =
  tab_next :: "nat option"
  tab_ind :: "int option"
  tab_fns :: "nat option list"

record exits = byte_io +
  exit_tabs :: "exit_tab list"
  exit_top :: "nat option" \<comment> \<open>__atexit\<close>

definition static_tab :: exit_tab where
  "static_tab = \<lparr>tab_next = None, tab_ind = Some 0, tab_fns = replicate ATEXIT_SIZE None\<rparr>"

definition fresh_tab :: exit_tab where
  "fresh_tab = \<lparr>tab_next = None, tab_ind = None, tab_fns = replicate ATEXIT_SIZE None\<rparr>"

definition put_fn :: "nat \<Rightarrow> nat \<Rightarrow> 'a exits_scheme \<Rightarrow> (int \<times> 'a exits_scheme) res" where
  "put_fn p fn s =
     (case tab_ind (exit_tabs s ! p) of
        None \<Rightarrow> Inl (UB ''p->ind is not initialised'')
      | Some i \<Rightarrow>
          if i < 0 \<or> int ATEXIT_SIZE \<le> i then Inl (UB ''fns index'')
          else Inr (0, s\<lparr>exit_tabs := (exit_tabs s)[p := (exit_tabs s ! p)
            \<lparr>tab_ind := Some (i + 1), tab_fns := (tab_fns (exit_tabs s ! p))[nat i := Some fn]\<rparr>]\<rparr>))"

definition c_atexit :: "nat \<Rightarrow> 'a exits_scheme \<Rightarrow> (int \<times> 'a exits_scheme) res" where
  "c_atexit fn s =
     (let p = (case exit_top s of None \<Rightarrow> 0 | Some p \<Rightarrow> p); s = s\<lparr>exit_top := Some p\<rparr> in
      case tab_ind (exit_tabs s ! p) of
        None \<Rightarrow> Inl (UB ''p->ind is not initialised'')
      | Some i \<Rightarrow>
          if int ATEXIT_SIZE \<le> i then
            (case malloc s of
               None \<Rightarrow> Inr (-1, s)
             | Some s \<Rightarrow>
                 (let q = length (exit_tabs s) in
                  put_fn q fn (s\<lparr>exit_tabs := (exit_tabs s)[p := (exit_tabs s ! p)\<lparr>tab_next := Some q\<rparr>] @ [fresh_tab],
                    exit_top := Some q\<rparr>)))
          else put_fn p fn s)"

text \<open>The loop of exit: \<open>i\<close> functions are left to call.\<close>

fun call_down :: "(nat \<Rightarrow> 'a exits_scheme \<Rightarrow> 'a exits_scheme res) \<Rightarrow> nat \<Rightarrow> nat \<Rightarrow> 'a exits_scheme \<Rightarrow> 'a exits_scheme res" where
  "call_down run p 0 s = Inr s"
| "call_down run p (Suc i) s =
     (if length (tab_fns (exit_tabs s ! p)) \<le> i then Inl (UB ''fns index'')
      else (case tab_fns (exit_tabs s ! p) ! i of
        None \<Rightarrow> Inl (UB ''call of a null pointer'')
      | Some fn \<Rightarrow> bindR (run fn s) (call_down run p i)))"

text \<open>The result is the state in which \<open>_cleanup\<close> and \<open>_exit(status)\<close> are called.\<close>

definition c_exit :: "(nat \<Rightarrow> 'a exits_scheme \<Rightarrow> 'a exits_scheme res) \<Rightarrow> int \<Rightarrow> 'a exits_scheme \<Rightarrow> (int \<times> 'a exits_scheme) res" where
  "c_exit run status s =
     (case exit_top s of
        None \<Rightarrow> Inr (status, s)
      | Some p \<Rightarrow>
          (case tab_ind (exit_tabs s ! p) of
             None \<Rightarrow> Inl (UB ''p->ind is not initialised'')
           | Some i \<Rightarrow>
               if i \<le> 0 then err_dump (''p->ind = '' @ deci i) s
               else bindR (call_down run p (nat i) s) (\<lambda>s. Inr (status, s))))"

section \<open>Registering and calling\<close>

fun register :: "nat list \<Rightarrow> 'a exits_scheme \<Rightarrow> (int \<times> 'a exits_scheme) res" where
  "register [] s = Inr (0, s)"
| "register (fn # fns) s = bindR (c_atexit fn s) (\<lambda>(r, s). if r = 0 then register fns s else Inr (r, s))"

fun run_all :: "(nat \<Rightarrow> 's \<Rightarrow> 's res) \<Rightarrow> nat list \<Rightarrow> 's \<Rightarrow> 's res" where
  "run_all run [] s = Inr s"
| "run_all run (fn # fns) s = bindR (run fn s) (run_all run fns)"

text \<open>The first table holds the functions registered so far.\<close>

definition holds_fns :: "nat list \<Rightarrow> 'a exits_scheme \<Rightarrow> bool" where
  "holds_fns fns s \<longleftrightarrow> length fns \<le> ATEXIT_SIZE \<and> (exit_top s = Some 0 \<or> exit_top s = None \<and> fns = [])
     \<and> (\<exists>n. exit_tabs s = [\<lparr>tab_next = n, tab_ind = Some (int (length fns)),
            tab_fns = map Some fns @ replicate (ATEXIT_SIZE - length fns) None\<rparr>])"

lemma holds_fns_start: "exit_tabs s = [static_tab] \<Longrightarrow> exit_top s = None \<Longrightarrow> holds_fns [] s"
  by (simp add: holds_fns_def static_tab_def)

lemma atexit_holds:
  assumes "holds_fns fns s" "length fns < ATEXIT_SIZE"
  shows "\<exists>s'. c_atexit fn s = Inr (0, s') \<and> holds_fns (fns @ [fn]) s'"
proof -
  have "(map Some fns @ replicate (ATEXIT_SIZE - length fns) None)[length fns := Some fn]
    = map Some (fns @ [fn]) @ replicate (ATEXIT_SIZE - Suc (length fns)) None"
    using assms(2) by (cases "ATEXIT_SIZE - length fns") (auto simp: list_update_append Suc_diff_Suc)
  with assms show ?thesis by (auto simp: holds_fns_def c_atexit_def put_fn_def Let_def)
qed

lemma register_holds:
  "holds_fns fns s \<Longrightarrow> length fns + length new \<le> ATEXIT_SIZE \<Longrightarrow> \<exists>s'. register new s = Inr (0, s') \<and> holds_fns (fns @ new) s'"
proof (induction new arbitrary: fns s)
  case (Cons fn new)
  from atexit_holds [OF Cons.prems(1), of fn] Cons.prems(2) obtain s1 where
    "c_atexit fn s = Inr (0, s1)" "holds_fns (fns @ [fn]) s1" by auto
  with Cons.IH [of "fns @ [fn]" s1] Cons.prems(2) show ?case by auto
qed auto

lemma call_down_run_all:
  assumes "\<forall>fn s s'. run fn s = Inr s' \<longrightarrow> exit_tabs s' = exit_tabs s"
  shows "tab_fns (exit_tabs s ! p) = map Some fns @ r \<Longrightarrow> call_down run p (length fns) s = run_all run (rev fns) s"
proof (induction fns arbitrary: s r rule: rev_induct)
  case (snoc fn fns)
  then have "tab_fns (exit_tabs s ! p) ! length fns = Some fn" by (simp add: nth_append)
  moreover have "call_down run p (length fns) s' = run_all run (rev fns) s'" if "run fn s = Inr s'" for s'
    using snoc.IH [of s' "Some fn # r"] snoc.prems assms that by simp
  ultimately show ?case using snoc.prems by (simp cong: bindR_cong)
qed simp

lemma exit_holds:
  assumes "holds_fns fns s" "fns \<noteq> []" "\<forall>fn s s'. run fn s = Inr s' \<longrightarrow> exit_tabs s' = exit_tabs s"
  shows "c_exit run status s = bindR (run_all run (rev fns) s) (\<lambda>s. Inr (status, s))"
proof -
  from assms(1) call_down_run_all [OF assms(3), of s 0 fns]
  have "call_down run 0 (length fns) s = run_all run (rev fns) s" by (auto simp: holds_fns_def)
  with assms(1,2) show ?thesis by (auto simp: holds_fns_def c_exit_def)
qed

text \<open>Registering changes nothing but the tables and the memory that is left.\<close>

definition exit_core :: "'a exits_scheme \<Rightarrow> 'a exits_scheme" where
  "exit_core s = s\<lparr>exit_tabs := [], exit_top := None, heap := 0\<rparr>"

lemma c_atexit_core: "c_atexit fn s = Inr (r, s') \<Longrightarrow> exit_core s' = exit_core s"
  by (auto simp: c_atexit_def put_fn_def exit_core_def Let_def dest!: malloc_frame split: option.splits if_splits)

text \<open>
  Up to 32 functions can be registered, and exit calls each of them once, the last one first,
  before the process ends with the status it was given. The functions must leave the tables alone.
\<close>

theorem exit_calls_in_reverse:
  assumes "exit_tabs s = [static_tab]" "exit_top s = None" "length fns \<le> 32"
    and "\<forall>fn s s'. run fn s = Inr s' \<longrightarrow> exit_tabs s' = exit_tabs s"
  shows "\<exists>s'. register fns s = Inr (0, s') \<and> c_exit run status s' = bindR (run_all run (rev fns) s') (\<lambda>s. Inr (status, s))"
proof -
  from register_holds [OF holds_fns_start [OF assms(1,2)], of fns] assms(3) obtain s' where
    s': "register fns s = Inr (0, s')" "holds_fns fns s'" by (auto simp: ATEXIT_SIZE_def)
  with assms(1,2) exit_holds [OF s'(2) _ assms(4)] show ?thesis
    by (cases "fns = []") (auto simp: c_exit_def)
qed

lemma exit_calls_in_reverse_witness:
  "\<exists>s'. register [7, 8] \<lparr>debug = 0, errno_text = [], stderr_out = [], syslog_out = [], heap = 1, rd_env = (\<lambda>_. []), wr_env = [], fd_out = (\<lambda>_. []),
       exit_tabs = [static_tab], exit_top = None\<rparr> = Inr (0, s')
     \<and> c_exit (\<lambda>fn s. Inr (s\<lparr>stderr_out := stderr_out s @ dec fn\<rparr>)) 3 s' = Inr (3, s'\<lparr>stderr_out := stderr_out s' @ ''8'' @ ''7''\<rparr>)"
proof -
  have "dec 8 = ''8''" "dec 7 = ''7''" by code_simp+
  with exit_calls_in_reverse [of "\<lparr>debug = 0, errno_text = [], stderr_out = [], syslog_out = [], heap = 1, rd_env = (\<lambda>_. []), wr_env = [], fd_out = (\<lambda>_. []),
    exit_tabs = [static_tab], exit_top = None\<rparr>" "[7, 8]" "\<lambda>fn s. Inr (s\<lparr>stderr_out := stderr_out s @ dec fn\<rparr>)" 3]
  show ?thesis by auto
qed

text \<open>
  The next one is lost. A 33rd registration fails without memory; with memory, the counter of the
  new table is used before anything was stored in it, because malloc does not clear the table.
\<close>

theorem atexit_second_table:
  assumes "exit_tabs s = [static_tab]" "exit_top s = None" "length fns = 32"
  shows "\<exists>s'. register fns s = Inr (0, s')
    \<and> c_atexit fn s' = (if heap s' = 0 then Inr (-1, s') else Inl (UB ''p->ind is not initialised''))"
proof -
  from register_holds [OF holds_fns_start [OF assms(1,2)], of fns] assms(3) obtain s' where
    s': "register fns s = Inr (0, s')" "holds_fns fns s'" by (auto simp: ATEXIT_SIZE_def)
  moreover have "s'\<lparr>exit_top := Some 0\<rparr> = s'" if "exit_top s' = Some 0" using that by (cases s') simp
  moreover have "exit_top s' = Some 0" using s'(2) assms(3) by (auto simp: holds_fns_def)
  ultimately show ?thesis
    using assms(3) by (auto simp: holds_fns_def c_atexit_def put_fn_def malloc_def fresh_tab_def ATEXIT_SIZE_def Let_def)
qed

lemma atexit_second_table_witness:
  "\<exists>s'. register (replicate 32 1) \<lparr>debug = 0, errno_text = [], stderr_out = [], syslog_out = [], heap = 1, rd_env = (\<lambda>_. []), wr_env = [], fd_out = (\<lambda>_. []),
       exit_tabs = [static_tab], exit_top = None\<rparr> = Inr (0, s')
     \<and> c_atexit 2 s' = (if heap s' = 0 then Inr (-1, s') else Inl (UB ''p->ind is not initialised''))"
  by (rule atexit_second_table) simp_all

end
