(* ===== verification/PtyMain.thy ===== *)
theory PtyMain
  imports PtyOpen TtyModes ExitTable
begin

unbundle bit_operations_syntax

text \<open>
  The program pty, which runs another program on a pseudo terminal: pty/main.c and loop.c (in
  pty/ourhdr.h, where its last lines are missing). It is where the exit functions, the terminal modes, the
  byte routines and the pseudo terminals come together: the state is theirs. The loop runs in two
  processes that share the user's terminal, and is modelled by their turns in any order.
\<close>

record ptys = exits +
  pt_tty :: ttys
  pt_proc :: procs
  pt_killed :: "int list" \<comment> \<open>the processes that SIGTERM was sent to\<close>

section \<open>loop.c\<close>

definition BUFFSIZE :: nat where "BUFFSIZE = 512"

text \<open>Lines 92 to 100, the child: one pass of its loop; the result tells whether the loop goes on.\<close>

definition in_pass :: "int \<Rightarrow> 'a byte_io_scheme \<Rightarrow> (bool \<times> 'a byte_io_scheme) res" where
  "in_pass ptym s =
     (case read_call 0 BUFFSIZE s of
        (None, s) \<Rightarrow> err_sys ''read error from stdin'' s
      | (Some bs, s) \<Rightarrow>
          if bs = [] then Inr (False, s)
          else bindR (writen ptym bs (length bs) s) (\<lambda>(r, s).
            if r \<noteq> int (length bs) then err_sys ''writen error to master pty'' s else Inr (True, s)))"

text \<open>Lines 113 to 119, the parent: an error or the end of file ends the loop.\<close>

definition out_pass :: "int \<Rightarrow> 'a byte_io_scheme \<Rightarrow> (bool \<times> 'a byte_io_scheme) res" where
  "out_pass ptym s =
     (case read_call ptym BUFFSIZE s of
        (None, s) \<Rightarrow> Inr (False, s)
      | (Some bs, s) \<Rightarrow>
          if bs = [] then Inr (False, s)
          else bindR (writen 1 bs (length bs) s) (\<lambda>(r, s).
            if r \<noteq> int (length bs) then err_sys ''writen error to stdout'' s else Inr (True, s)))"

text \<open>The functions for atexit: number 1 is tty_atexit.\<close>

definition TTY_ATEXIT :: nat where "TTY_ATEXIT = 1"

definition run_exit :: "nat \<Rightarrow> 'a ptys_scheme \<Rightarrow> 'a ptys_scheme res" where
  "run_exit fn s = (if fn = TTY_ATEXIT then Inr (s\<lparr>pt_tty := tty_atexit (pt_tty s)\<rparr>) else Inl (UB ''exit function''))"

text \<open>
  The two processes. The memory of each is its own after the fork, the user's terminal is not: \<open>terminal\<close> has
  its attributes. The parent has been forked from (\<open>Forked\<close>: its handler for SIGTERM is not installed yet), is
  copying, has left the loop, has told the child or not and is about to exit, or is gone; \<open>Dead\<close>: SIGTERM
  has killed it.
\<close>

datatype child_state = Alive ptys | Exited ptys | Killed ptys

datatype phase = Forked | Copying | Leaving | Exiting | Gone | Dead

record sess =
  par :: ptys
  kid :: child_state
  terminal :: "int \<Rightarrow> tty_attr option"
  sig_pending :: bool
  sigcaught :: bool
  parent_phase :: phase

text \<open>exit(0): the exit functions run on the shared terminal.\<close>

definition proc_exit :: "(int \<Rightarrow> tty_attr option) \<Rightarrow> ptys \<Rightarrow> ptys res" where
  "proc_exit T p = bindR (c_exit run_exit 0 (p\<lparr>pt_tty := (pt_tty p)\<lparr>attrs := T\<rparr>\<rparr>)) (\<lambda>(_, p). Inr p)"

definition sess_start :: "wr_event list \<Rightarrow> ptys \<Rightarrow> sess" where
  "sess_start w s = \<lparr>par = s, kid = Alive (s\<lparr>wr_env := w\<rparr>), terminal = attrs (pt_tty s), sig_pending = False, sigcaught = False,
     parent_phase = Forked\<rparr>"

text \<open>Lines 91 to 107, the child: at the end of its input it notifies the parent, unless told not to, and exits.\<close>

definition notify :: "sess \<Rightarrow> sess" where
  "notify st = (if parent_phase st = Forked then st\<lparr>parent_phase := Dead\<rparr> else st\<lparr>sig_pending := True\<rparr>)"

definition child_turn :: "int \<Rightarrow> bool \<Rightarrow> sess \<Rightarrow> sess res" where
  "child_turn ptym ignoreeof st =
     (case kid st of
        Alive c \<Rightarrow> bindR (in_pass ptym c) (\<lambda>(go, c).
          if go then Inr (st\<lparr>kid := Alive c\<rparr>)
          else let st = (if \<not> ignoreeof then notify st else st) in
               bindR (proc_exit (terminal st) c) (\<lambda>c. Inr (st\<lparr>kid := Exited c, terminal := attrs (pt_tty c)\<rparr>)))
      | _ \<Rightarrow> Inr st)"

text \<open>Lines 109 to 127, the parent, and the exit of main. The child does not catch SIGTERM and dies without its exit functions.\<close>

definition parent_turn :: "int \<Rightarrow> int \<Rightarrow> sess \<Rightarrow> sess res" where
  "parent_turn ptym child st =
     (case parent_phase st of
        Forked \<Rightarrow> Inr (st\<lparr>parent_phase := Copying\<rparr>)
      | Copying \<Rightarrow> bindR (out_pass ptym (par st)) (\<lambda>(go, p).
          Inr (if go then st\<lparr>par := p\<rparr> else st\<lparr>par := p, parent_phase := Leaving\<rparr>))
      | Leaving \<Rightarrow>
          Inr (if \<not> sigcaught st then
                 st\<lparr>par := (par st)\<lparr>pt_killed := pt_killed (par st) @ [child]\<rparr>,
                   kid := (case kid st of Alive c \<Rightarrow> Killed c | k \<Rightarrow> k), parent_phase := Exiting\<rparr>
               else st\<lparr>parent_phase := Exiting\<rparr>)
      | Exiting \<Rightarrow> bindR (proc_exit (terminal st) (par st)) (\<lambda>p.
          Inr (st\<lparr>par := p, terminal := attrs (pt_tty p), parent_phase := Gone\<rparr>))
      | _ \<Rightarrow> Inr st)"

text \<open>
  A session is a list of turns. The handler of SIGTERM runs while the parent waits in read, which returns (\<open>InRead\<close>), or
  elsewhere (\<open>Handler\<close>), and then the loop goes on.
\<close>

datatype turn = ChildTurn | ParentTurn | InRead | Handler

fun sess_step :: "int \<Rightarrow> bool \<Rightarrow> int \<Rightarrow> turn \<Rightarrow> sess \<Rightarrow> sess res" where
  "sess_step ptym ignoreeof child ChildTurn st = child_turn ptym ignoreeof st"
| "sess_step ptym ignoreeof child ParentTurn st = parent_turn ptym child st"
| "sess_step ptym ignoreeof child InRead st =
     Inr (if sig_pending st \<and> parent_phase st = Copying then st\<lparr>sig_pending := False, sigcaught := True, parent_phase := Leaving\<rparr> else st)"
| "sess_step ptym ignoreeof child Handler st =
     Inr (if sig_pending st \<and> (parent_phase st = Copying \<or> parent_phase st = Leaving) then st\<lparr>sig_pending := False, sigcaught := True\<rparr> else st)"

fun sess_run :: "int \<Rightarrow> bool \<Rightarrow> int \<Rightarrow> turn list \<Rightarrow> sess \<Rightarrow> sess res" where
  "sess_run ptym ignoreeof child [] st = Inr st"
| "sess_run ptym ignoreeof child (e # es) st = bindR (sess_step ptym ignoreeof child e st) (sess_run ptym ignoreeof child es)"

text \<open>\<open>child\<close> is the result of fork, \<open>w\<close> what the kernel answers to the writes of the child.\<close>

definition pty_loop :: "int \<Rightarrow> bool \<Rightarrow> int \<Rightarrow> wr_event list \<Rightarrow> turn list \<Rightarrow> ptys \<Rightarrow> sess res" where
  "pty_loop ptym ignoreeof child w es s =
     (if child < 0 then err_sys ''fork error'' s else sess_run ptym ignoreeof child es (sess_start w s))"

section \<open>main.c\<close>

text \<open>
  The options as getopt delivers them for \<open>"d:einv"\<close>: they end at the first argument that is not one,
  or after \<open>--\<close>; \<open>Unknown\<close> stands for the result \<open>'?'\<close> and its optopt.
\<close>

datatype pty_opt = Driver string | Flag char | Unknown char

fun opt_letters :: "string \<Rightarrow> string list \<Rightarrow> pty_opt list \<times> string list" where
  "opt_letters [] args = ([], args)"
| "opt_letters (c # cs) args =
     (if c = CHR ''d'' then
        (if cs \<noteq> [] then ([Driver cs], args)
         else (case args of [] \<Rightarrow> ([Unknown c], []) | a # as \<Rightarrow> ([Driver a], as)))
      else (let (os, as) = opt_letters cs args in ((if c \<in> set ''einv'' then Flag c else Unknown c) # os, as)))"

lemma opt_letters_shorter: "length (snd (opt_letters cs args)) \<le> length args"
  by (induction cs) (auto simp: case_prod_unfold Let_def split: list.split)

function getopts :: "string list \<Rightarrow> pty_opt list \<times> string list" where
  "getopts [] = ([], [])"
| "getopts (a # args) =
     (if a = ''--'' then ([], args)
      else if a = ''-'' \<or> take 1 a \<noteq> ''-'' then ([], a # args)
      else let (os, rest) = opt_letters (drop 1 a) args; (os', rest') = getopts rest in (os @ os', rest'))"
  by pat_completeness auto
termination
  by (relation "measure length", simp)
    (metis in_measure length_Cons opt_letters_shorter snd_conv le_imp_less_Suc)

record pty_opts =
  o_interactive :: bool
  o_ignoreeof :: bool
  o_noecho :: bool
  o_verbose :: bool
  o_driver :: "string option"

fun take_opt :: "pty_opt \<Rightarrow> pty_opts + char \<Rightarrow> pty_opts + char" where
  "take_opt opt (Inr c) = Inr c"
| "take_opt (Driver d) (Inl os) = Inl (os\<lparr>o_driver := Some d\<rparr>)"
| "take_opt (Flag c) (Inl os) =
     Inl (if c = CHR ''e'' then os\<lparr>o_noecho := True\<rparr>
          else if c = CHR ''i'' then os\<lparr>o_ignoreeof := True\<rparr>
          else if c = CHR ''n'' then os\<lparr>o_interactive := False\<rparr>
          else if c = CHR ''v'' then os\<lparr>o_verbose := True\<rparr> else os)"
| "take_opt (Unknown c) (Inl os) = Inr c"

definition pty_args :: "bool \<Rightarrow> string list \<Rightarrow> 'a proc_io_scheme \<Rightarrow> (pty_opts \<times> string list) res" where
  "pty_args isatty args s =
     (let (opts, rest) = getopts args in
      case fold take_opt opts (Inl \<lparr>o_interactive = isatty, o_ignoreeof = False, o_noecho = False, o_verbose = False, o_driver = None\<rparr>) of
        Inr c \<Rightarrow> err_quit (''unrecognized option: -'' @ [c]) s
      | Inl os \<Rightarrow> if rest = [] then err_quit ''usage: pty [ -d driver -einv ] program [ arg ... ]'' s else Inr (os, rest))"

record noecho_flags = tty_flags +
  F_ECHOE :: "32 word"
  F_ECHOK :: "32 word"
  F_ECHONL :: "32 word"
  F_ONLCR :: "32 word"

definition set_noecho :: "noecho_flags \<Rightarrow> int \<Rightarrow> 'a ttys_scheme \<Rightarrow> (string, 'a ttys_scheme) sum" where
  "set_noecho F fd s =
     (case attrs s fd of
        None \<Rightarrow> Inl ''tcgetattr error''
      | Some a \<Rightarrow>
          (let a = a\<lparr>a_lflag := a_lflag a AND NOT (F_ECHO F OR F_ECHOE F OR F_ECHOK F OR F_ECHONL F)\<rparr>;
               a = a\<lparr>a_oflag := a_oflag a AND NOT (F_ONLCR F)\<rparr>; (r, s) = tcsetattr fd a s in
           if r < 0 then Inl ''tcsetattr error'' else Inr s))"

text \<open>Lines 56 to 67 and 77 to 81: forking, and what is printed with the option v.\<close>

definition pty_start :: "bool \<Rightarrow> pty_opts \<Rightarrow> pty_env \<Rightarrow> pty_dev \<Rightarrow> 'a ptys_scheme \<Rightarrow> (int \<times> int \<times> 'a ptys_scheme) res" where
  "pty_start winsize_ok os e dev s =
     (if o_interactive os \<and> attrs (pt_tty s) 0 = None then err_sys ''tcgetattr error on stdin'' s
      else if o_interactive os \<and> \<not> winsize_ok then err_sys ''TIOCGWINSZ error'' s
      else bindR (pty_fork e dev (pt_proc s)) (\<lambda>(pid, fdm, slave_name, _, p).
        let s1 = s\<lparr>pt_proc := p\<rparr> in
        if pid < 0 then err_sys ''fork error'' s1
        else Inr (pid, the fdm, if o_verbose os then s1\<lparr>stderr_out := stderr_out s @ ''slave name = '' @ slave_name @ [NL]
             @ (case o_driver os of None \<Rightarrow> [] | Some d \<Rightarrow> ''driver = '' @ d @ [NL])\<rparr> else s1)))"

text \<open>Lines 70 to 74, in the child: the state in which the program starts on its terminal.\<close>

definition pty_program :: "noecho_flags \<Rightarrow> pty_opts \<Rightarrow> bool \<Rightarrow> string list \<Rightarrow> 'a ptys_scheme \<Rightarrow> 'a ptys_scheme res" where
  "pty_program F os exec_ok prog s =
     bindR (if o_noecho os then
              (case set_noecho F 0 (pt_tty s) of Inl m \<Rightarrow> err_sys m s | Inr t \<Rightarrow> Inr (s\<lparr>pt_tty := t\<rparr>))
            else Inr s) (\<lambda>s.
     if exec_ok then Inr s else err_sys (''can't execute: '' @ hd prog) s)"

text \<open>Lines 83 to 91: raw mode, or the driver.\<close>

definition pty_connect :: "tty_flags \<Rightarrow> ((int \<times> nat) \<times> int \<times> nat) option \<Rightarrow> int \<Rightarrow> pty_opts \<Rightarrow> 'a ptys_scheme \<Rightarrow> 'a ptys_scheme res" where
  "pty_connect F pipe dchild os s =
     (case o_driver os of
        None \<Rightarrow>
          if o_interactive os then
            (let (r, t) = tty_raw F 0 (pt_tty s); s = s\<lparr>pt_tty := t\<rparr> in
             if r < 0 then err_sys ''tty_raw error'' s
             else bindR (c_atexit TTY_ATEXIT s) (\<lambda>(r, s). if r < 0 then err_sys ''atexit error'' s else Inr s))
          else Inr s
      | Some d \<Rightarrow> bindR (do_driver pipe dchild (pt_proc s)) (\<lambda>(_, p). Inr (s\<lparr>pt_proc := p\<rparr>)))"

text \<open>
  The program. The arguments after the options: whether standard input is a terminal and its
  size is known, the answers for pty_fork and do_driver, and those for the loop.
\<close>

definition pty_main :: "tty_flags \<Rightarrow> string list \<Rightarrow> bool \<Rightarrow> bool \<Rightarrow> pty_env \<Rightarrow> pty_dev \<Rightarrow> ((int \<times> nat) \<times> int \<times> nat) option
    \<Rightarrow> int \<Rightarrow> int \<Rightarrow> wr_event list \<Rightarrow> turn list \<Rightarrow> ptys \<Rightarrow> sess res" where
  "pty_main F args isatty winsize_ok e dev pipe dchild child w es s =
     bindR (pty_args isatty args s) (\<lambda>(os, prog).
     bindR (pty_start winsize_ok os e dev s) (\<lambda>(pid, fdm, s).
     bindR (pty_connect F pipe dchild os s) (\<lambda>s.
     pty_loop fdm (o_ignoreeof os) child w es s)))"

section \<open>Copying\<close>

lemma read_call_shrinks:
  assumes "(Some bs, s1) = read_call fd BUFFSIZE s" "bs \<noteq> []" "writen g bs k s1 = Inr (r, s2)"
  shows "ev_size (rd_env s2 fd) < ev_size (rd_env s fd)"
proof -
  obtain es where es: "read_ev BUFFSIZE (rd_env s fd) = (Some bs, es)" "s1 = s\<lparr>rd_env := (rd_env s)(fd := es)\<rparr>"
    using assms(1) by (auto simp: read_call_def split: prod.splits)
  have "rd_env s2 = rd_env s1" using arg_cong [OF writen_core [OF assms(3)], of rd_env] by (simp add: wr_core_def)
  with es read_ev_decreases [OF _ es(1)] assms(2) show ?thesis by (auto simp: BUFFSIZE_def)
qed

definition io_core :: "'a byte_io_scheme \<Rightarrow> 'a byte_io_scheme" where
  "io_core s = s\<lparr>rd_env := (\<lambda>_. []), wr_env := [], fd_out := (\<lambda>_. [])\<rparr>"

lemma copy_step:
  assumes "delivering (rd_env s f)" "accepting (wr_env s)" "rd_env s f \<noteq> []"
  obtains bs s1 s2 where "read_call f BUFFSIZE s = (Some bs, s1)" "bs \<noteq> []"
    "writen g bs (length bs) s1 = Inr (int (length bs), s2)" "delivering (rd_env s2 f)" "accepting (wr_env s2)"
    "data (rd_env s f) = bs @ data (rd_env s2 f)" "sent s2 g = sent s g @ bs" "io_core s2 = io_core s"
proof -
  have pos: "0 < BUFFSIZE" by (simp add: BUFFSIZE_def)
  obtain bs es where r: "read_ev BUFFSIZE (rd_env s f) = (Some bs, es)" "data (rd_env s f) = bs @ data es" "delivering es"
    "length bs \<le> BUFFSIZE" "bs = [] \<longleftrightarrow> rd_env s f = []"
    by (rule read_ev_delivering [OF assms(1) pos])
  let ?s1 = "s\<lparr>rd_env := (rd_env s)(f := es)\<rparr>"
  have acc: "accepting (wr_env ?s1)" "length bs < 2 ^ 31" using assms(2) r(4) by (simp_all add: BUFFSIZE_def)
  from writen_ok [OF acc, of g] obtain s2 where w: "writen g bs (length bs) ?s1 = Inr (int (length bs), s2)"
    "accepting (wr_env s2)" "sent s2 g = sent ?s1 g @ bs" by blast
  have core: "wr_core s2 = wr_core ?s1" by (rule writen_core [OF w(1)])
  have "rd_env s2 = (rd_env s)(f := es)" using arg_cong [OF core, of rd_env] by (simp add: wr_core_def)
  moreover have "io_core s2 = io_core s"
    using arg_cong [OF core, of io_core] by (simp add: wr_core_def io_core_def)
  moreover have "read_call f BUFFSIZE s = (Some bs, ?s1)" using r(1) by (simp add: read_call_def)
  ultimately show thesis
    using r w assms(3) by (intro that [of bs ?s1 s2]) (simp_all add: sent_def)
qed

lemma copy_end:
  assumes "rd_env s f = []"
  shows "read_call f BUFFSIZE s = (Some [], s)"
proof -
  have "(rd_env s)(f := []) = rd_env s" using assms by auto
  then show ?thesis using assms by (simp add: read_call_def)
qed

text \<open>A pass moves some bytes on, or it is the end of file and there are none left.\<close>

lemma out_pass_ok:
  assumes "delivering (rd_env s ptym)" "accepting (wr_env s)"
  shows "\<exists>go s'. out_pass ptym s = Inr (go, s') \<and> delivering (rd_env s' ptym) \<and> accepting (wr_env s') \<and> io_core s' = io_core s
    \<and> sent s' 1 @ data (rd_env s' ptym) = sent s 1 @ data (rd_env s ptym)
    \<and> (go \<longrightarrow> ev_size (rd_env s' ptym) < ev_size (rd_env s ptym)) \<and> (\<not> go \<longrightarrow> rd_env s' ptym = [])"
proof (cases "rd_env s ptym = []")
  case True
  then show ?thesis using assms by (intro exI [of _ False] exI [of _ s]) (simp add: out_pass_def copy_end)
next
  case False
  from copy_step [OF assms False, of 1] obtain bs s1 s2 where st: "read_call ptym BUFFSIZE s = (Some bs, s1)" "bs \<noteq> []"
    "writen 1 bs (length bs) s1 = Inr (int (length bs), s2)" "delivering (rd_env s2 ptym)" "accepting (wr_env s2)"
    "data (rd_env s ptym) = bs @ data (rd_env s2 ptym)" "sent s2 1 = sent s 1 @ bs" "io_core s2 = io_core s" .
  have "ev_size (rd_env s2 ptym) < ev_size (rd_env s ptym)" by (rule read_call_shrinks [OF st(1) [symmetric] st(2,3)])
  then show ?thesis using st by (intro exI [of _ True] exI [of _ s2]) (simp add: out_pass_def)
qed

lemma in_pass_ok:
  assumes "delivering (rd_env s 0)" "accepting (wr_env s)"
  shows "\<exists>go s'. in_pass ptym s = Inr (go, s') \<and> delivering (rd_env s' 0) \<and> accepting (wr_env s') \<and> io_core s' = io_core s
    \<and> sent s' ptym @ data (rd_env s' 0) = sent s ptym @ data (rd_env s 0) \<and> (\<not> go \<longrightarrow> rd_env s' 0 = [])"
proof (cases "rd_env s 0 = []")
  case True
  then show ?thesis using assms by (intro exI [of _ False] exI [of _ s]) (simp add: in_pass_def copy_end)
next
  case False
  from copy_step [OF assms False, of ptym] obtain bs s1 s2 where st: "read_call 0 BUFFSIZE s = (Some bs, s1)" "bs \<noteq> []"
    "writen ptym bs (length bs) s1 = Inr (int (length bs), s2)" "delivering (rd_env s2 0)" "accepting (wr_env s2)"
    "data (rd_env s 0) = bs @ data (rd_env s2 0)" "sent s2 ptym = sent s ptym @ bs" "io_core s2 = io_core s" .
  then show ?thesis by (intro exI [of _ True] exI [of _ s2]) (simp add: in_pass_def)
qed

section \<open>A session\<close>

text \<open>What a process has that has put the terminal with the attributes \<open>T0\<close> into raw mode: its exit puts them back.\<close>

definition raw_saved :: "(int \<Rightarrow> tty_attr option) \<Rightarrow> ttys \<Rightarrow> bool" where
  "raw_saved T0 t \<longleftrightarrow> setattr_ok t = [] \<and> ttysavefd t = 0 \<and> ttystate t = RAW \<and> T0 0 = Some (save_termios t)"

lemma tty_raw_saves:
  assumes "attrs t 0 = Some a" "setattr_ok t = []"
  shows "\<exists>t1. tty_raw F 0 t = (0, t1) \<and> attrs t1 = (attrs t)(0 \<mapsto> raw_attr F a) \<and> raw_saved (attrs t) t1"
proof -
  let ?t1 = "t\<lparr>attrs := (attrs t)(0 \<mapsto> raw_attr F a), save_termios := a, ttystate := RAW, ttysavefd := 0\<rparr>"
  have "tty_raw F 0 t = (0, ?t1)" using tty_step_effect [OF assms, of F Raw] by (simp add: tty_step_def)
  then show ?thesis using assms by (simp add: raw_saved_def)
qed

lemma exit_resets:
  assumes "raw_saved T0 t" "T = T0 \<or> T = T0(0 \<mapsto> b)"
  shows "attrs (tty_atexit (t\<lparr>attrs := T\<rparr>)) = T0"
  using assms by (auto simp: raw_saved_def tty_atexit_def tty_reset_def tcsetattr_def Let_def)

lemma run_exit_tabs: "\<forall>fn s s'. run_exit fn s = Inr s' \<longrightarrow> exit_tabs s' = exit_tabs s"
  by (auto simp: run_exit_def split: if_splits)

lemma pty_connect_raw:
  assumes "o_interactive os" "o_driver os = None" "attrs (pt_tty s) 0 = Some a" "setattr_ok (pt_tty s) = []"
    and "exit_tabs s = [static_tab]" "exit_top s = None"
  shows "\<exists>s1. pty_connect F pipe dchild os s = Inr s1 \<and> holds_fns [TTY_ATEXIT] s1 \<and> rd_env s1 = rd_env s \<and> wr_env s1 = wr_env s
    \<and> fd_out s1 = fd_out s \<and> pt_killed s1 = pt_killed s \<and> attrs (pt_tty s1) = (attrs (pt_tty s))(0 \<mapsto> raw_attr F a)
    \<and> raw_saved (attrs (pt_tty s)) (pt_tty s1)"
proof -
  from tty_raw_saves [OF assms(3,4)] obtain t1 where t1: "tty_raw F 0 (pt_tty s) = (0, t1)"
    "attrs t1 = (attrs (pt_tty s))(0 \<mapsto> raw_attr F a)" "raw_saved (attrs (pt_tty s)) t1" by blast
  let ?s = "s\<lparr>pt_tty := t1\<rparr>"
  have "holds_fns [] ?s" by (rule holds_fns_start) (use assms(5,6) in simp_all)
  from atexit_holds [OF this, of TTY_ATEXIT] obtain s1 where s1: "c_atexit TTY_ATEXIT ?s = Inr (0, s1)" "holds_fns [TTY_ATEXIT] s1"
    by (auto simp: ATEXIT_SIZE_def)
  note core = c_atexit_core [OF s1(1)]
  have "rd_env s1 = rd_env s" "wr_env s1 = wr_env s" "fd_out s1 = fd_out s" "pt_killed s1 = pt_killed s" "pt_tty s1 = t1"
    using arg_cong [OF core, of rd_env] arg_cong [OF core, of wr_env] arg_cong [OF core, of fd_out]
      arg_cong [OF core, of pt_killed] arg_cong [OF core, of pt_tty] by (simp_all add: exit_core_def)
  then show ?thesis using assms(1,2) t1 s1 by (simp add: pty_connect_def)
qed

lemma proc_exit_holds:
  assumes "holds_fns [TTY_ATEXIT] p"
  shows "proc_exit T p = Inr (p\<lparr>pt_tty := tty_atexit ((pt_tty p)\<lparr>attrs := T\<rparr>)\<rparr>)"
proof -
  have "holds_fns [TTY_ATEXIT] (p\<lparr>pt_tty := (pt_tty p)\<lparr>attrs := T\<rparr>\<rparr>)" using assms by (simp add: holds_fns_def)
  note ex = exit_holds [OF this _ run_exit_tabs, of 0]
  have "run_exit TTY_ATEXIT q = Inr (q\<lparr>pt_tty := tty_atexit (pt_tty q)\<rparr>)" for q :: ptys by (simp add: run_exit_def)
  then show ?thesis using ex by (simp add: proc_exit_def)
qed

lemma io_core_kept:
  assumes "io_core s' = io_core s"
  shows "holds_fns fns s' = holds_fns fns s" "pt_tty s' = pt_tty s" "pt_killed s' = pt_killed s"
proof -
  have "exit_tabs s' = exit_tabs s" "exit_top s' = exit_top s"
    using arg_cong [OF assms, of exit_tabs] arg_cong [OF assms, of exit_top] by (simp_all add: io_core_def)
  then show "holds_fns fns s' = holds_fns fns s" by (simp add: holds_fns_def)
  show "pt_tty s' = pt_tty s" "pt_killed s' = pt_killed s"
    using arg_cong [OF assms, of pt_tty] arg_cong [OF assms, of pt_killed] by (simp_all add: io_core_def)
qed

lemma holds_fns_killed [simp]: "holds_fns fns (s\<lparr>pt_killed := k\<rparr>) = holds_fns fns s"
  by (simp add: holds_fns_def)

fun child_mem :: "child_state \<Rightarrow> ptys" where
  "child_mem (Alive c) = c" | "child_mem (Exited c) = c" | "child_mem (Killed c) = c"

fun exited :: "child_state \<Rightarrow> bool" where
  "exited (Exited c) = True" | "exited k = False"

text \<open>
  The two halves of the invariant of a session that was forked from \<open>s1\<close>: the parent with its copying from the program to the
  user, and the child with the way from the user to the program.
\<close>

definition parent_ok :: "int \<Rightarrow> int \<Rightarrow> ptys \<Rightarrow> phase \<Rightarrow> bool \<Rightarrow> ptys \<Rightarrow> bool" where
  "parent_ok ptym child s1 ph caught p \<longleftrightarrow> delivering (rd_env p ptym) \<and> accepting (wr_env p)
     \<and> sent p 1 @ data (rd_env p ptym) = sent s1 1 @ data (rd_env s1 ptym)
     \<and> (ph \<noteq> Gone \<longrightarrow> holds_fns [TTY_ATEXIT] p \<and> pt_tty p = pt_tty s1)
     \<and> (ph \<in> {Leaving, Exiting, Gone} \<and> \<not> caught \<longrightarrow> rd_env p ptym = [])
     \<and> pt_killed p = pt_killed s1 @ (if ph \<in> {Exiting, Gone} \<and> \<not> caught then [child] else [])"

definition child_ok :: "int \<Rightarrow> ptys \<Rightarrow> child_state \<Rightarrow> bool" where
  "child_ok ptym s1 k \<longleftrightarrow> sent (child_mem k) ptym @ data (rd_env (child_mem k) 0) = sent s1 ptym @ data (rd_env s1 0)
     \<and> (case k of Alive c \<Rightarrow> holds_fns [TTY_ATEXIT] c \<and> pt_tty c = pt_tty s1 \<and> delivering (rd_env c 0) \<and> accepting (wr_env c)
        | Exited c \<Rightarrow> rd_env c 0 = [] | Killed c \<Rightarrow> True)"

definition sess_inv :: "(int \<Rightarrow> tty_attr option) \<Rightarrow> int \<Rightarrow> bool \<Rightarrow> int \<Rightarrow> ptys \<Rightarrow> sess \<Rightarrow> bool" where
  "sess_inv T0 ptym ignoreeof child s1 st \<longleftrightarrow>
     parent_ok ptym child s1 (parent_phase st) (sigcaught st) (par st) \<and> child_ok ptym s1 (kid st)
     \<and> (sig_pending st \<or> sigcaught st \<or> parent_phase st = Dead \<longrightarrow> \<not> ignoreeof \<and> exited (kid st))
     \<and> (parent_phase st \<in> {Exiting, Gone, Dead} \<longrightarrow> (\<forall>c. kid st \<noteq> Alive c))
     \<and> terminal st = (if exited (kid st) \<or> parent_phase st = Gone then T0 else attrs (pt_tty s1))"

lemma child_turn_inv:
  assumes "sess_inv T0 ptym ign child s1 st" "raw_saved T0 (pt_tty s1)" "attrs (pt_tty s1) = T0(0 \<mapsto> r)"
  shows "\<exists>st'. child_turn ptym ign st = Inr st' \<and> sess_inv T0 ptym ign child s1 st' \<and> par st' = par st
    \<and> (parent_phase st' = parent_phase st \<or> parent_phase st' = Dead)"
proof (cases "kid st")
  case (Alive c)
  have c: "holds_fns [TTY_ATEXIT] c" "pt_tty c = pt_tty s1" "delivering (rd_env c 0)" "accepting (wr_env c)"
    "sent c ptym @ data (rd_env c 0) = sent s1 ptym @ data (rd_env s1 0)"
    using assms(1) Alive by (auto simp: sess_inv_def child_ok_def)
  have st: "\<not> sig_pending st" "\<not> sigcaught st" "parent_phase st \<in> {Forked, Copying, Leaving}" "terminal st = attrs (pt_tty s1)"
    using assms(1) Alive by (cases "parent_phase st"; auto simp: sess_inv_def)+
  obtain go d where d: "in_pass ptym c = Inr (go, d)" "delivering (rd_env d 0)" "accepting (wr_env d)" "io_core d = io_core c"
    "sent d ptym @ data (rd_env d 0) = sent c ptym @ data (rd_env c 0)" "\<not> go \<longrightarrow> rd_env d 0 = []"
    using in_pass_ok [OF c(3,4), of ptym] by blast
  note kept = io_core_kept [OF d(4)]
  show ?thesis
  proof (cases go)
    case True
    then have "child_turn ptym ign st = Inr (st\<lparr>kid := Alive d\<rparr>)" using Alive d(1) by (simp add: child_turn_def)
    moreover have "child_ok ptym s1 (Alive d)" using c d kept by (simp add: child_ok_def)
    ultimately show ?thesis using assms(1) Alive st by (auto simp: sess_inv_def)
  next
    case False
    define e where "e = d\<lparr>pt_tty := tty_atexit ((pt_tty d)\<lparr>attrs := terminal st\<rparr>)\<rparr>"
    define u where "u = (if \<not> ign then notify st else st)"
    have u: "terminal u = terminal st" "par u = par st" "sigcaught u = False" "sig_pending u \<or> parent_phase u = Dead \<longrightarrow> \<not> ign"
      "parent_phase u = parent_phase st \<or> parent_phase st = Forked \<and> parent_phase u = Dead"
      using st(1-3) by (auto simp: u_def notify_def)
    have ex: "proc_exit (terminal st) d = Inr e" unfolding e_def by (rule proc_exit_holds) (use c(1) kept(1) in simp)
    have t: "attrs (pt_tty e) = T0"
      using exit_resets [OF assms(2), of "terminal st" r] st(4) assms(3) c(2) kept(2) by (simp add: e_def)
    have go: "child_turn ptym ign st = Inr (u\<lparr>kid := Exited e, terminal := T0\<rparr>)"
      using Alive d(1) False ex u(1) t by (simp add: child_turn_def u_def [symmetric] Let_def)
    have "child_ok ptym s1 (Exited e)" using c(5) d(5,6) False by (simp add: child_ok_def e_def sent_def)
    moreover have "parent_ok ptym child s1 (parent_phase u) False (par st)"
    proof -
      have p: "parent_ok ptym child s1 (parent_phase st) False (par st)" using assms(1) st(2) by (simp add: sess_inv_def)
      have "parent_ok ptym child s1 Dead False (par st)" if "parent_ok ptym child s1 Forked False (par st)"
        using that by (simp add: parent_ok_def)
      with p u(5) show ?thesis by metis
    qed
    ultimately have "sess_inv T0 ptym ign child s1 (u\<lparr>kid := Exited e, terminal := T0\<rparr>)"
      using u(2-4) by (simp add: sess_inv_def)
    with go u(2,5) show ?thesis by (intro exI [of _ "u\<lparr>kid := Exited e, terminal := T0\<rparr>"]) auto
  qed
qed (use assms(1) in \<open>simp_all add: child_turn_def\<close>)

text \<open>How many turns the parent needs at most until it is gone.\<close>

definition turns_left :: "int \<Rightarrow> sess \<Rightarrow> nat" where
  "turns_left ptym st = (case parent_phase st of Forked \<Rightarrow> ev_size (rd_env (par st) ptym) + 4 | Copying \<Rightarrow> ev_size (rd_env (par st) ptym) + 3
     | Leaving \<Rightarrow> 2 | Exiting \<Rightarrow> 1 | Gone \<Rightarrow> 0 | Dead \<Rightarrow> 0)"

lemma parent_turn_inv:
  assumes "sess_inv T0 ptym ign child s1 st" "raw_saved T0 (pt_tty s1)" "attrs (pt_tty s1) = T0(0 \<mapsto> r)"
  shows "\<exists>st'. parent_turn ptym child st = Inr st' \<and> sess_inv T0 ptym ign child s1 st' \<and> turns_left ptym st' \<le> turns_left ptym st - 1"
proof (cases "parent_phase st")
  case Forked
  then show ?thesis using assms(1) by (auto simp: parent_turn_def sess_inv_def parent_ok_def turns_left_def)
next
  case Copying
  have p: "delivering (rd_env (par st) ptym)" "accepting (wr_env (par st))" using assms(1) by (simp_all add: sess_inv_def parent_ok_def)
  obtain go q where q: "out_pass ptym (par st) = Inr (go, q)" "delivering (rd_env q ptym)" "accepting (wr_env q)" "io_core q = io_core (par st)"
    "sent q 1 @ data (rd_env q ptym) = sent (par st) 1 @ data (rd_env (par st) ptym)"
    "go \<longrightarrow> ev_size (rd_env q ptym) < ev_size (rd_env (par st) ptym)" "\<not> go \<longrightarrow> rd_env q ptym = []"
    using out_pass_ok [OF p] by blast
  note kept = io_core_kept [OF q(4)]
  let ?u = "if go then st\<lparr>par := q\<rparr> else st\<lparr>par := q, parent_phase := Leaving\<rparr>"
  have "parent_turn ptym child st = Inr ?u" using Copying q(1) by (simp add: parent_turn_def)
  moreover have "parent_ok ptym child s1 (if go then Copying else Leaving) (sigcaught st) q"
    using assms(1) Copying q kept by (simp add: sess_inv_def parent_ok_def)
  then have "sess_inv T0 ptym ign child s1 ?u" using assms(1) Copying by (auto simp: sess_inv_def)
  moreover have "turns_left ptym ?u \<le> turns_left ptym st - 1" using Copying q(6) by (auto simp: turns_left_def)
  ultimately show ?thesis by blast
next
  case Leaving
  let ?k = "case kid st of Alive c \<Rightarrow> Killed c | k \<Rightarrow> k"
  let ?u = "if \<not> sigcaught st then st\<lparr>par := (par st)\<lparr>pt_killed := pt_killed (par st) @ [child]\<rparr>, kid := ?k, parent_phase := Exiting\<rparr>
    else st\<lparr>parent_phase := Exiting\<rparr>"
  have "parent_turn ptym child st = Inr ?u" using Leaving by (simp add: parent_turn_def)
  moreover have "child_ok ptym s1 ?k" "exited ?k = exited (kid st)" "?k \<noteq> Alive c" for c
    using assms(1) by (auto simp: sess_inv_def child_ok_def split: child_state.splits)
  moreover have "parent_ok ptym child s1 Exiting (sigcaught st) (par ?u)"
    using assms(1) Leaving by (auto simp: sess_inv_def parent_ok_def sent_def)
  moreover have "sigcaught st \<longrightarrow> (\<forall>c. kid st \<noteq> Alive c)" using assms(1) by (auto simp: sess_inv_def)
  ultimately have "sess_inv T0 ptym ign child s1 ?u" "parent_turn ptym child st = Inr ?u" using assms(1) Leaving by (auto simp: sess_inv_def)
  moreover have "turns_left ptym ?u \<le> turns_left ptym st - 1" using Leaving by (simp add: turns_left_def)
  ultimately show ?thesis by blast
next
  case Exiting
  define q where "q = (par st)\<lparr>pt_tty := tty_atexit ((pt_tty (par st))\<lparr>attrs := terminal st\<rparr>)\<rparr>"
  have p: "holds_fns [TTY_ATEXIT] (par st)" "pt_tty (par st) = pt_tty s1" using assms(1) Exiting by (simp_all add: sess_inv_def parent_ok_def)
  have "terminal st = T0 \<or> terminal st = T0(0 \<mapsto> r)" using assms(1,3) by (auto simp: sess_inv_def)
  from exit_resets [OF assms(2) this] have t: "attrs (pt_tty q) = T0" by (simp add: q_def p(2))
  have "parent_turn ptym child st = Inr (st\<lparr>par := q, terminal := T0, parent_phase := Gone\<rparr>)"
    using Exiting proc_exit_holds [OF p(1), of "terminal st"] t by (simp add: parent_turn_def flip: q_def)
  moreover have "parent_ok ptym child s1 Gone (sigcaught st) q"
    using assms(1) Exiting by (auto simp: sess_inv_def parent_ok_def q_def sent_def)
  ultimately show ?thesis using assms(1) Exiting by (auto simp: sess_inv_def turns_left_def)
qed (use assms(1) in \<open>simp_all add: parent_turn_def turns_left_def\<close>)

lemma sess_step_inv:
  assumes "sess_inv T0 ptym ign child s1 st" "raw_saved T0 (pt_tty s1)" "attrs (pt_tty s1) = T0(0 \<mapsto> r)"
  shows "\<exists>st'. sess_step ptym ign child e st = Inr st' \<and> sess_inv T0 ptym ign child s1 st'
    \<and> turns_left ptym st' \<le> turns_left ptym st - (if e = ParentTurn then 1 else 0)"
proof (cases e)
  case ChildTurn
  from child_turn_inv [OF assms] obtain st' where "child_turn ptym ign st = Inr st'" "sess_inv T0 ptym ign child s1 st'"
    "par st' = par st" "parent_phase st' = parent_phase st \<or> parent_phase st' = Dead" by blast
  then show ?thesis using ChildTurn by (cases "parent_phase st") (auto simp: turns_left_def)
next
  case ParentTurn
  then show ?thesis using parent_turn_inv [OF assms] by auto
next
  case InRead
  then show ?thesis using assms(1) by (auto simp: sess_inv_def parent_ok_def turns_left_def)
next
  case Handler
  then show ?thesis using assms(1) by (auto simp: sess_inv_def parent_ok_def turns_left_def)
qed

lemma sess_run_inv:
  assumes "raw_saved T0 (pt_tty s1)" "attrs (pt_tty s1) = T0(0 \<mapsto> r)"
  shows "sess_inv T0 ptym ign child s1 st \<Longrightarrow> \<exists>st'. sess_run ptym ign child es st = Inr st' \<and> sess_inv T0 ptym ign child s1 st'
    \<and> turns_left ptym st' \<le> turns_left ptym st - count_list es ParentTurn"
proof (induction es arbitrary: st)
  case (Cons e es)
  from sess_step_inv [OF Cons.prems assms, of e] obtain u where u: "sess_step ptym ign child e st = Inr u" "sess_inv T0 ptym ign child s1 u"
    "turns_left ptym u \<le> turns_left ptym st - (if e = ParentTurn then 1 else 0)" by blast
  from Cons.IH [OF u(2)] u(1,3) show ?case by (auto split: if_splits)
qed simp

text \<open>
  The handler for SIGTERM is installed after the fork: when the input is at its end at once, the child's signal can come
  before, and kills the parent.
\<close>

lemma early_signal_kills:
  assumes "rd_env s 0 = []" "holds_fns [TTY_ATEXIT] s"
  shows "\<exists>st. sess_run ptym False child [ChildTurn] (sess_start w s) = Inr st \<and> parent_phase st = Dead \<and> exited (kid st)"
proof -
  have "in_pass ptym (s\<lparr>wr_env := w\<rparr>) = Inr (False, s\<lparr>wr_env := w\<rparr>)"
    using assms(1) copy_end [of "s\<lparr>wr_env := w\<rparr>" 0] by (simp add: in_pass_def)
  moreover have "holds_fns [TTY_ATEXIT] (s\<lparr>wr_env := w\<rparr>)" using assms(2) by (simp add: holds_fns_def)
  note proc_exit_holds [OF this]
  ultimately show ?thesis by (simp add: sess_start_def child_turn_def notify_def)
qed

text \<open>
  C40: A session at a terminal, for every order of the turns of the two processes and every time at which the signal
  arrives. The user's terminal is in raw mode from the fork of the loop until the child exits at the end of its input or the
  program exits, whichever is first, and then it has its old attributes: with the option i the child's exit comes
  while the loop goes on. What the program writes is shown in order, what is typed is sent to it in order; the
  loop stops showing before the end of the output only after a signal from the child, which the option i rules out;
  a program that leaves its loop without that signal has told the child to stop. After as many turns as there can be
  reads, and four, the program has exited, unless the signal came before its handler was installed.
\<close>

theorem pty_session:
  assumes "pty_args True args s = Inr (os, prog)" "o_interactive os" "o_driver os = None"
    and "attrs (pt_tty s) 0 = Some a" "setattr_ok (pt_tty s) = []" "exit_tabs s = [static_tab]" "exit_top s = None"
    and "pty_fork e dev (pt_proc s) = Inr (pid, Some fdm, nm, t, p)" "0 < pid" "0 < child"
    and "delivering (rd_env s fdm)" "accepting (wr_env s)" "delivering (rd_env s 0)" "accepting w"
  shows "\<exists>st. pty_main F args True True e dev pipe dchild child w es s = Inr st
    \<and> terminal st = (if exited (kid st) \<or> parent_phase st = Gone then attrs (pt_tty s) else (attrs (pt_tty s))(0 \<mapsto> raw_attr F a))
    \<and> sent (par st) 1 @ data (rd_env (par st) fdm) = sent s 1 @ data (rd_env s fdm)
    \<and> (parent_phase st \<in> {Leaving, Exiting, Gone} \<and> \<not> sigcaught st \<longrightarrow> sent (par st) 1 = sent s 1 @ data (rd_env s fdm))
    \<and> (sigcaught st \<or> parent_phase st = Dead \<longrightarrow> \<not> o_ignoreeof os \<and> exited (kid st))
    \<and> sent (child_mem (kid st)) fdm @ data (rd_env (child_mem (kid st)) 0) = sent s fdm @ data (rd_env s 0)
    \<and> (exited (kid st) \<longrightarrow> sent (child_mem (kid st)) fdm = sent s fdm @ data (rd_env s 0))
    \<and> (parent_phase st = Gone \<longrightarrow> pt_killed (par st) = pt_killed s @ (if sigcaught st then [] else [child]))
    \<and> (ev_size (rd_env s fdm) + 4 \<le> count_list es ParentTurn \<longrightarrow> parent_phase st \<in> {Gone, Dead})"
proof -
  define s0 where "s0 = (if o_verbose os then s\<lparr>pt_proc := p, stderr_out := stderr_out s @ ''slave name = '' @ nm @ [NL]\<rparr>
    else s\<lparr>pt_proc := p\<rparr>)"
  have s0: "pty_start True os e dev s = Inr (pid, fdm, s0)"
    using assms(3,4,8,9) by (simp add: pty_start_def s0_def Let_def)
  have k: "pt_tty s0 = pt_tty s" "exit_tabs s0 = exit_tabs s" "exit_top s0 = exit_top s" "rd_env s0 = rd_env s"
    "wr_env s0 = wr_env s" "fd_out s0 = fd_out s" "pt_killed s0 = pt_killed s" by (simp_all add: s0_def)
  from pty_connect_raw [of os s0 a F pipe dchild] assms(2-7) k obtain s1 where c: "pty_connect F pipe dchild os s0 = Inr s1"
    "holds_fns [TTY_ATEXIT] s1" "rd_env s1 = rd_env s" "wr_env s1 = wr_env s" "fd_out s1 = fd_out s" "pt_killed s1 = pt_killed s"
    "attrs (pt_tty s1) = (attrs (pt_tty s))(0 \<mapsto> raw_attr F a)" "raw_saved (attrs (pt_tty s)) (pt_tty s1)" by auto
  have "holds_fns [TTY_ATEXIT] (s1\<lparr>wr_env := w\<rparr>)" using c(2) by (simp add: holds_fns_def)
  then have i0: "sess_inv (attrs (pt_tty s)) fdm (o_ignoreeof os) child s1 (sess_start w s1)"
    using assms(11-14) c(2-4) by (simp add: sess_inv_def sess_start_def parent_ok_def child_ok_def sent_def)
  from sess_run_inv [OF c(8,7) i0, of es] obtain st where st: "sess_run fdm (o_ignoreeof os) child es (sess_start w s1) = Inr st"
    "sess_inv (attrs (pt_tty s)) fdm (o_ignoreeof os) child s1 st"
    "turns_left fdm st \<le> turns_left fdm (sess_start w s1) - count_list es ParentTurn" by blast
  have "pty_main F args True True e dev pipe dchild child w es s = Inr st"
    using assms(1,10) s0 c(1) st(1) by (simp add: pty_main_def pty_loop_def)
  moreover have "sent s1 fd = sent s fd" for fd using c(5) by (simp add: sent_def)
  moreover have "parent_phase st \<in> {Gone, Dead}" if "ev_size (rd_env s fdm) + 4 \<le> count_list es ParentTurn"
    using st(3) that c(3) by (cases "parent_phase st") (auto simp: turns_left_def sess_start_def)
  ultimately show ?thesis using st(2) c(3,6,7)
    by (intro exI [of _ st]) (cases "kid st"; auto simp: sess_inv_def parent_ok_def child_ok_def)
qed

text \<open>
  A user at a terminal runs \<open>pty -v cat\<close>: the program's output is shown and the parent ends the session; and with the end of
  the input first, after which the signal interrupts the parent.
\<close>

abbreviation ptys_ex :: ptys where
  "ptys_ex \<equiv> \<lparr>debug = 0, errno_text = [], stderr_out = [], syslog_out = [], heap = 0,
     rd_env = (\<lambda>_. [])(0 := [Data ''ls''], 4 := [Data ''ab'', Data ''c'']), wr_env = [Wrote 1], fd_out = (\<lambda>_. []),
     exit_tabs = [static_tab], exit_top = None, pt_tty = ttys_ex, pt_proc = procs_ex, pt_killed = []\<rparr>"

lemma pty_session_witness:
  "\<exists>st. pty_main tty_flags_ex [''-iv'', ''cat''] True True pty_env_ex \<lparr>dev_uid = 0, dev_gid = 4, dev_mode = 0x1B6\<rparr> None 0 301 []
       ([ParentTurn, ChildTurn, ChildTurn] @ replicate 20 ParentTurn) ptys_ex = Inr st
     \<and> parent_phase st = Gone \<and> sent (par st) 1 = ''abc'' \<and> terminal st = [0 \<mapsto> tty_attr_ex] \<and> pt_killed (par st) = [301]"
proof -
  let ?os = "\<lparr>o_interactive = True, o_ignoreeof = True, o_noecho = False, o_verbose = True, o_driver = None\<rparr>"
    and ?dev = "\<lparr>dev_uid = 0, dev_gid = 4, dev_mode = 0x1B6\<rparr>" and ?es = "[ParentTurn, ChildTurn, ChildTurn] @ replicate 20 ParentTurn"
  have "getopts [''-iv'', ''cat''] = ([Flag (CHR ''i''), Flag (CHR ''v'')], [''cat''])" by (simp add: Let_def)
  then have g: "pty_args True [''-iv'', ''cat''] ptys_ex = Inr (?os, [''cat''])" by (simp add: pty_args_def)
  have "ptym_open (py_masters pty_env_ex) = (4, ''/dev/ttyp1'')" by code_simp
  then obtain t p where f: "pty_fork pty_env_ex ?dev (pt_proc ptys_ex) = Inr (300, Some 4, ''/dev/ttyp1'', t, p)"
    by (simp add: pty_fork_def case_prod_unfold Let_def)
  have n: "ev_size (rd_env ptys_ex 4) + 4 \<le> count_list ?es ParentTurn" by code_simp
  have d: "delivering (rd_env ptys_ex 4)" "accepting (wr_env ptys_ex)" "delivering (rd_env ptys_ex 0)" "accepting []"
    by (simp_all add: delivering_def accepting_def)
  from pty_session [OF g _ _ _ _ _ _ f _ _ d, of tty_attr_ex 301 tty_flags_ex None 0 ?es] obtain st where
    "pty_main tty_flags_ex [''-iv'', ''cat''] True True pty_env_ex ?dev None 0 301 [] ?es ptys_ex = Inr st"
    "terminal st = (if exited (kid st) \<or> parent_phase st = Gone then attrs (pt_tty ptys_ex)
        else (attrs (pt_tty ptys_ex))(0 \<mapsto> raw_attr tty_flags_ex tty_attr_ex))"
    "parent_phase st \<in> {Leaving, Exiting, Gone} \<and> \<not> sigcaught st \<longrightarrow> sent (par st) 1 = sent ptys_ex 1 @ data (rd_env ptys_ex 4)"
    "\<not> sigcaught st" "parent_phase st \<in> {Gone, Dead}" "parent_phase st \<noteq> Dead"
    "parent_phase st = Gone \<longrightarrow> pt_killed (par st) = pt_killed ptys_ex @ (if sigcaught st then [] else [301])"
    using n by auto
  then show ?thesis by (intro exI [of _ st]) (auto simp: sent_def)
qed

end
