(* ===== verification/Threads.thy ===== *)
theory Threads
  imports CPrelude
begin

text \<open>
  Programs of several threads: the outcome of one step of a thread, the states that a system of
  threads can reach, and the two interfaces the models of such programs share: an invariant that
  every step keeps, and events that are executed one by one (for concrete runs).
\<close>

text \<open>A step of a thread leads on, has to wait for the others, or is undefined in C.\<close>

datatype 's outcome = Goes 's | Waits | Undef string

inductive reach :: "('s \<Rightarrow> 's \<Rightarrow> bool) \<Rightarrow> 's \<Rightarrow> 's \<Rightarrow> bool" for step :: "'s \<Rightarrow> 's \<Rightarrow> bool" and init :: 's where
  start: "reach step init init"
| steps: "reach step init s \<Longrightarrow> step s s' \<Longrightarrow> reach step init s'"

fun run_events :: "('e \<Rightarrow> 's \<Rightarrow> 's outcome) \<Rightarrow> 'e list \<Rightarrow> 's \<Rightarrow> 's option" where
  "run_events ev [] s = Some s"
| "run_events ev (e # es) s = (case ev e s of Goes s' \<Rightarrow> run_events ev es s' | _ \<Rightarrow> None)"

locale inductive_invariant =
  fixes init :: 's and step :: "'s \<Rightarrow> 's \<Rightarrow> bool" and inv :: "'s \<Rightarrow> bool"
  assumes inv_init: "inv init"
    and inv_step: "step s s' \<Longrightarrow> inv s \<Longrightarrow> inv s'"
begin

lemma reach_inv: "reach step init s \<Longrightarrow> inv s"
  by (induction rule: reach.induct) (auto intro: inv_init inv_step)

end

locale event_system = inductive_invariant init step inv
  for init :: 's and step :: "'s \<Rightarrow> 's \<Rightarrow> bool" and inv :: "'s \<Rightarrow> bool" +
  fixes ev :: "'e \<Rightarrow> 's \<Rightarrow> 's outcome"
  assumes ev_step: "ev e s = Goes s' \<Longrightarrow> step s s'"
begin

lemma run_reach: "run_events ev es s = Some s' \<Longrightarrow> reach step init s \<Longrightarrow> reach step init s'"
proof (induction es arbitrary: s)
  case (Cons e es)
  then show ?case using reach.steps [OF Cons.prems(2) ev_step] by (auto split: outcome.splits)
qed simp

lemma run_holds:
  assumes "case run_events ev es init of None \<Rightarrow> False | Some s \<Rightarrow> P s"
  shows "\<exists>s. reach step init s \<and> P s"
  using assms run_reach [OF _ reach.start] by (auto split: option.splits)

end

section \<open>Systems with few states\<close>

text \<open>
  The states that are found from some by following the transitions at most \<open>n\<close> times. When the list
  is closed under the transitions, what holds in all its states holds in all reachable ones.
\<close>

fun explore :: "nat \<Rightarrow> ('s \<Rightarrow> 's list) \<Rightarrow> 's list \<Rightarrow> 's list \<Rightarrow> 's list" where
  "explore 0 succs todo seen = seen"
| "explore (Suc n) succs todo seen =
     (case todo of
        [] \<Rightarrow> seen
      | s # todo \<Rightarrow>
          if List.member seen s then explore n succs todo seen else explore n succs (succs s @ todo) (s # seen))"

definition closed_states :: "('s \<Rightarrow> 's list) \<Rightarrow> 's \<Rightarrow> 's list \<Rightarrow> bool" where
  "closed_states succs init L \<longleftrightarrow> List.member L init \<and> list_all (\<lambda>s. list_all (List.member L) (succs s)) L"

text \<open>What can come next after a state, when these are all the events.\<close>

definition goes :: "'s outcome \<Rightarrow> 's list" where
  "goes r = (case r of Goes s \<Rightarrow> [s] | _ \<Rightarrow> [])"

definition event_succs :: "('e \<Rightarrow> 's \<Rightarrow> 's outcome) \<Rightarrow> 'e list \<Rightarrow> 's \<Rightarrow> 's list" where
  "event_succs ev es s = concat (map (\<lambda>e. goes (ev e s)) es)"

locale explored_system =
  fixes init :: 's and step :: "'s \<Rightarrow> 's \<Rightarrow> bool" and ev :: "'e \<Rightarrow> 's \<Rightarrow> 's outcome" and es :: "'e list" and n :: nat
  assumes step_iff: "step s s' \<longleftrightarrow> (\<exists>e. ev e s = Goes s')"
    and all_events: "e \<in> set es"
    and all_found: "closed_states (event_succs ev es) init (explore n (event_succs ev es) [init] [])"
begin

lemma succs_iff: "s' \<in> set (event_succs ev es s) \<longleftrightarrow> step s s'"
proof -
  have "s' \<in> set (goes (ev e s)) \<longleftrightarrow> ev e s = Goes s'" for e by (cases "ev e s") (auto simp: goes_def)
  then show ?thesis using all_events by (auto simp: event_succs_def step_iff)
qed

lemma stuck_iff: "event_succs ev es s = [] \<longleftrightarrow> (\<nexists>s'. step s s')"
  using succs_iff [of _ s] by (cases "event_succs ev es s") auto

lemma found_init: "init \<in> set (explore n (event_succs ev es) [init] [])"
  using all_found by (simp add: closed_states_def)

lemma found_step: "step s s' \<Longrightarrow> s \<in> set (explore n (event_succs ev es) [init] []) \<Longrightarrow> s' \<in> set (explore n (event_succs ev es) [init] [])"
  using all_found succs_iff by (auto simp: closed_states_def list_all_iff)

end

sublocale explored_system \<subseteq> event_system init step "\<lambda>s. s \<in> set (explore n (event_succs ev es) [init] [])" ev
  by unfold_locales (rule found_init, rule found_step, assumption+, simp only: step_iff, rule exI)

context explored_system
begin

lemma holds_everywhere: "list_all P (explore n (event_succs ev es) [init] []) \<Longrightarrow> reach step init s \<Longrightarrow> P s"
  using reach_inv by (auto simp: list_all_iff)

end

section \<open>Systems that come to an end\<close>

text \<open>A rank that every step lowers bounds the length of all runs.\<close>

locale ranked_system = inductive_invariant init step inv
  for init :: 's and step :: "'s \<Rightarrow> 's \<Rightarrow> bool" and inv :: "'s \<Rightarrow> bool" +
  fixes rank :: "'s \<Rightarrow> nat"
  assumes rank_step: "step s s' \<Longrightarrow> inv s \<Longrightarrow> rank s' < rank s"
begin

lemma run_bound: "(step ^^ k) s t \<Longrightarrow> inv s \<Longrightarrow> rank t + k \<le> rank s"
proof (induction k arbitrary: s)
  case (Suc k)
  from Suc.prems(1) obtain u where "step s u" "(step ^^ k) u t" by (rule relpowp_Suc_E2)
  then show ?case using Suc.IH [of u] Suc.prems(2) rank_step [of s u] inv_step [of s u] by simp
qed simp

lemma comes_to_end: "reach step init s \<Longrightarrow> \<exists>k t. (step ^^ k) s t \<and> k \<le> rank s \<and> reach step init t \<and> (\<nexists>u. step t u)"
proof (induction "rank s" arbitrary: s rule: less_induct)
  case less
  show ?case
  proof (cases "\<exists>u. step s u")
    case True
    then obtain u where u: "step s u" by blast
    have lower: "rank u < rank s" using rank_step [OF u] reach_inv less.prems by blast
    then obtain k t where "(step ^^ k) u t" "k \<le> rank u" "reach step init t" "\<nexists>v. step t v"
      using less.hyps [of u] reach.steps [OF less.prems u] by blast
    moreover from this have "(step ^^ Suc k) s t" using u by (blast intro: relpowp_Suc_I2)
    ultimately show ?thesis using lower by (meson Suc_leI le_trans not_less_eq_eq)
  next
    case False
    then show ?thesis using less.prems by (intro exI [of _ 0] exI [of _ s]) simp
  qed
qed

end

locale explored_ranked = explored_system init step ev es n
  for init :: 's and step :: "'s \<Rightarrow> 's \<Rightarrow> bool" and ev :: "'e \<Rightarrow> 's \<Rightarrow> 's outcome" and es :: "'e list" and n :: nat +
  fixes rank :: "'s \<Rightarrow> nat"
  assumes all_ranked: "list_all (\<lambda>s. list_all (\<lambda>t. rank t < rank s) (event_succs ev es s)) (explore n (event_succs ev es) [init] [])"

sublocale explored_ranked \<subseteq> ranked_system init step "\<lambda>s. s \<in> set (explore n (event_succs ev es) [init] [])" rank
  by unfold_locales (use all_ranked succs_iff in \<open>auto simp: list_all_iff\<close>)

end
