(* ===== verification/WorkQueue.thy ===== *)
theory WorkQueue
  imports Threads
begin

text \<open>
  The work queue of excerpts/kernel_list.c: any number of processes submit work, one kernel thread
  takes it from the list and calls its function. Both run at the same time, one kernel call per
  step. Spin locks, the wait queue and the lists are those of the kernel: a routine that waits for
  the lock, or for being woken, has no step. Memory is a map from addresses to work structures.
\<close>

section \<open>State\<close>

record work =
  worker_func :: nat
  worker_data :: nat

datatype holder = Worker | Submitter nat

datatype wpc =
    WStart | WTest | WQueue | WCheck | WSchedule | WAwake | WRemove | WLock | WNext
  | WTaken nat nat | WCall nat nat | WRelock | WUnlock | WAgain | WDie | WGone

datatype spc =
    SOut
  | SAlloc nat nat
  | SLock nat
  | SAdd nat
  | SWake
  | SUnlock
  | SRet int

text \<open>
  \<open>todo\<close>: the thread is in the wait queue; \<open>running\<close>: its state is TASK_RUNNING. The two last fields
  record the calls of worker_func and the work that was put into the list, in the order of time.
\<close>

record wq =
  worklist :: "nat list"
  wlock :: "holder option"
  todo :: bool
  running :: bool
  heap :: "nat \<Rightarrow> work option"
  wpc :: wpc
  spc :: "nat \<Rightarrow> spc"
  called :: "(nat \<times> nat) list"
  added :: "(nat \<times> nat) list"

definition mydrv_init :: wq where
  "mydrv_init = \<lparr>worklist = [], wlock = None, todo = False, running = True, heap = (\<lambda>_. None), wpc = WStart,
     spc = (\<lambda>_. SOut), called = [], added = []\<rparr>"

text \<open>The use of memory that was freed.\<close>

abbreviation Freed :: "wq outcome" where
  "Freed \<equiv> Undef ''use after kfree''"

definition spin_lock :: "holder \<Rightarrow> (wq \<Rightarrow> wq) \<Rightarrow> wq \<Rightarrow> wq outcome" where
  "spin_lock h f s = (if wlock s = None then Goes (f (s\<lparr>wlock := Some h\<rparr>)) else Waits)"

definition spin_unlock :: "wq \<Rightarrow> wq" where
  "spin_unlock s = s\<lparr>wlock := None\<rparr>"

definition wgo :: "wpc \<Rightarrow> wq \<Rightarrow> wq" where
  "wgo c s = s\<lparr>wpc := c\<rparr>"

definition sgo :: "nat \<Rightarrow> spc \<Rightarrow> wq \<Rightarrow> wq" where
  "sgo p c s = s\<lparr>spc := (spc s)(p := c)\<rparr>"

section \<open>The routines\<close>

text \<open>
  The next step of submit_work in process \<open>p\<close>. \<open>mem\<close> is the answer of kmalloc, which never returns
  memory that is in use. The structure is filled before another process can see it.
\<close>

fun submit_work :: "nat option \<Rightarrow> nat \<Rightarrow> spc \<Rightarrow> wq \<Rightarrow> wq outcome" where
  "submit_work mem p (SAlloc func data) s =
     (case mem of
        None \<Rightarrow> Goes (sgo p (SRet (-1)) s)
      | Some a \<Rightarrow>
          if heap s a = None then Goes (sgo p (SLock a) (s\<lparr>heap := (heap s)(a \<mapsto> \<lparr>worker_func = func, worker_data = data\<rparr>)\<rparr>))
          else Waits)"
| "submit_work mem p (SLock a) s = spin_lock (Submitter p) (sgo p (SAdd a)) s"
| "submit_work mem p (SAdd a) s =
     (case heap s a of
        None \<Rightarrow> Freed
      | Some w \<Rightarrow> Goes (sgo p SWake (s\<lparr>worklist := worklist s @ [a], added := added s @ [(worker_func w, worker_data w)]\<rparr>)))"
| "submit_work mem p SWake s = Goes (sgo p SUnlock (s\<lparr>running := running s \<or> todo s\<rparr>))"
| "submit_work mem p SUnlock s = Goes (sgo p (SRet 0) (spin_unlock s))"
| "submit_work mem p _ s = Waits"

text \<open>The next step of the thread; \<open>die\<close> is the answer of asked_to_die.\<close>

fun mydrv_worker :: "bool \<Rightarrow> wpc \<Rightarrow> wq \<Rightarrow> wq outcome" where
  "mydrv_worker die WStart s = Goes (wgo WTest (s\<lparr>running := False\<rparr>))"
| "mydrv_worker die WTest s = Goes (wgo (if die then WDie else WQueue) s)"
| "mydrv_worker die WQueue s = Goes (wgo WCheck (s\<lparr>todo := True\<rparr>))"
| "mydrv_worker die WCheck s = Goes (wgo (if worklist s = [] then WSchedule else WAwake) s)"
| "mydrv_worker die WSchedule s = (if running s then Goes (wgo WRemove s) else Waits)"
| "mydrv_worker die WAwake s = Goes (wgo WRemove (s\<lparr>running := True\<rparr>))"
| "mydrv_worker die WRemove s = Goes (wgo WLock (s\<lparr>todo := False\<rparr>))"
| "mydrv_worker die WLock s = spin_lock Worker (wgo WNext) s"
| "mydrv_worker die WNext s =
     (case worklist s of
        [] \<Rightarrow> Goes (wgo WUnlock s)
      | a # as \<Rightarrow> (case heap s a of
            None \<Rightarrow> Freed
          | Some w \<Rightarrow> Goes (wgo (WTaken (worker_func w) (worker_data w)) (s\<lparr>worklist := as, heap := (heap s)(a := None)\<rparr>))))"
| "mydrv_worker die (WTaken func data) s = Goes (wgo (WCall func data) (spin_unlock s))"
| "mydrv_worker die (WCall func data) s = Goes (wgo WRelock (s\<lparr>called := called s @ [(func, data)]\<rparr>))"
| "mydrv_worker die WRelock s = spin_lock Worker (wgo WNext) s"
| "mydrv_worker die WUnlock s = Goes (wgo WAgain (spin_unlock s))"
| "mydrv_worker die WAgain s = Goes (wgo WTest (s\<lparr>running := False\<rparr>))"
| "mydrv_worker die WDie s = Goes (wgo WGone (s\<lparr>running := True\<rparr>))"
| "mydrv_worker die WGone s = Waits"

text \<open>
  The steps of the system. The thread may also be woken by something else at any time.
\<close>

inductive wq_step :: "wq \<Rightarrow> wq \<Rightarrow> bool" where
  worker: "mydrv_worker die (wpc s) s = Goes s' \<Longrightarrow> wq_step s s'"
| submit: "submit_work mem p (spc s p) s = Goes s' \<Longrightarrow> wq_step s s'"
| submit_call: "spc s p = SOut \<or> spc s p = SRet r \<Longrightarrow> wq_step s (sgo p (SAlloc func data) s)"
| woken: "wq_step s (s\<lparr>running := True\<rparr>)"

abbreviation wq_reach :: "wq \<Rightarrow> bool" where
  "wq_reach \<equiv> reach wq_step mydrv_init"

section \<open>The invariant\<close>

fun worker_locked :: "wpc \<Rightarrow> bool" where
  "worker_locked WNext = True"
| "worker_locked (WTaken f d) = True"
| "worker_locked WUnlock = True"
| "worker_locked _ = False"

fun submit_locked :: "spc \<Rightarrow> bool" where
  "submit_locked (SAdd a) = True"
| "submit_locked SWake = True"
| "submit_locked SUnlock = True"
| "submit_locked _ = False"

definition lock_ok :: "wq \<Rightarrow> bool" where
  "lock_ok s \<longleftrightarrow> (wlock s = Some Worker \<longleftrightarrow> worker_locked (wpc s))
     \<and> (\<forall>p. wlock s = Some (Submitter p) \<longleftrightarrow> submit_locked (spc s p))"

text \<open>The structure that a process has allocated and not yet put into the list.\<close>

fun owned :: "spc \<Rightarrow> nat option" where
  "owned (SLock a) = Some a"
| "owned (SAdd a) = Some a"
| "owned _ = None"

definition heap_ok :: "wq \<Rightarrow> bool" where
  "heap_ok s \<longleftrightarrow> distinct (worklist s)
     \<and> (\<forall>a. heap s a \<noteq> None \<longleftrightarrow> a \<in> set (worklist s) \<or> (\<exists>p. owned (spc s p) = Some a))
     \<and> (\<forall>p a. owned (spc s p) = Some a \<longrightarrow> a \<notin> set (worklist s))
     \<and> (\<forall>p q a. owned (spc s p) = Some a \<longrightarrow> owned (spc s q) = Some a \<longrightarrow> p = q)"

text \<open>The work the thread has taken and not yet called, and the work in the list.\<close>

fun in_hand :: "wpc \<Rightarrow> (nat \<times> nat) list" where
  "in_hand (WTaken f d) = [(f, d)]"
| "in_hand (WCall f d) = [(f, d)]"
| "in_hand _ = []"

definition queued :: "wq \<Rightarrow> (nat \<times> nat) list" where
  "queued s = map (\<lambda>a. case heap s a of None \<Rightarrow> (0, 0) | Some w \<Rightarrow> (worker_func w, worker_data w)) (worklist s)"

definition fifo_ok :: "wq \<Rightarrow> bool" where
  "fifo_ok s \<longleftrightarrow> added s = called s @ in_hand (wpc s) @ queued s"

fun waiting :: "wpc \<Rightarrow> bool" where
  "waiting WCheck = True"
| "waiting WSchedule = True"
| "waiting WAwake = True"
| "waiting WRemove = True"
| "waiting _ = False"

definition wake_ok :: "wq \<Rightarrow> bool" where
  "wake_ok s \<longleftrightarrow> (todo s \<longleftrightarrow> waiting (wpc s))
     \<and> (wpc s = WSchedule \<longrightarrow> \<not> running s \<longrightarrow> worklist s \<noteq> [] \<longrightarrow> (\<exists>p. spc s p = SWake))"

definition wq_inv :: "wq \<Rightarrow> bool" where
  "wq_inv s \<longleftrightarrow> lock_ok s \<and> heap_ok s \<and> fifo_ok s \<and> wake_ok s"

lemmas wq_steps = spin_lock_def spin_unlock_def wgo_def sgo_def

lemma lock_ok_worker: "mydrv_worker die (wpc s) s = Goes s' \<Longrightarrow> lock_ok s \<Longrightarrow> lock_ok s'"
  by (cases "wpc s") (auto simp: lock_ok_def wq_steps split: if_splits list.splits option.splits)

lemma lock_ok_submit:
  assumes "submit_work mem p (spc s p) s = Goes s'" "lock_ok s"
  shows "lock_ok s'"
proof -
  have "wlock s = Some (Submitter p) \<longleftrightarrow> submit_locked (spc s p)" using assms(2) by (simp add: lock_ok_def)
  then show ?thesis using assms
    by (cases "spc s p") (auto simp: lock_ok_def wq_steps split: if_splits option.splits)
qed

text \<open>What the thread leaves alone.\<close>

lemma worker_frame:
  assumes "mydrv_worker die (wpc s) s = Goes s'"
  shows "spc s' = spc s" "added s' = added s"
    "wpc s \<noteq> WNext \<Longrightarrow> worklist s' = worklist s \<and> heap s' = heap s"
  using assms by (cases "wpc s"; auto simp: wq_steps split: if_splits list.splits option.splits)+

lemma worker_next:
  assumes "mydrv_worker die (wpc s) s = Goes s'" "wpc s = WNext"
  obtains "worklist s = []" "s' = wgo WUnlock s"
  | a as w where "worklist s = a # as" "heap s a = Some w"
      "s' = wgo (WTaken (worker_func w) (worker_data w)) (s\<lparr>worklist := as, heap := (heap s)(a := None)\<rparr>)"
  using assms by (auto split: list.splits option.splits)

lemma heap_ok_used: "heap_ok s \<Longrightarrow> heap s a \<noteq> None \<longleftrightarrow> a \<in> set (worklist s) \<or> (\<exists>p. owned (spc s p) = Some a)"
  unfolding heap_ok_def by blast

lemma heap_ok_cong:
  "heap s' = heap s \<Longrightarrow> worklist s' = worklist s \<Longrightarrow> (\<And>p. owned (spc s' p) = owned (spc s p)) \<Longrightarrow> heap_ok s' = heap_ok s"
  by (simp add: heap_ok_def)

lemma queued_cong: "heap s' = heap s \<Longrightarrow> worklist s' = worklist s \<Longrightarrow> queued s' = queued s"
  by (simp add: queued_def)

lemma queued_other: "a \<notin> set (worklist s) \<Longrightarrow> queued (s\<lparr>heap := (heap s)(a := x)\<rparr>) = queued s"
  by (auto simp: queued_def)

lemma heap_ok_take:
  assumes "heap_ok s" "worklist s = a # as"
  shows "heap_ok (s\<lparr>worklist := as, heap := (heap s)(a := None)\<rparr>)"
  using assms by (auto simp: heap_ok_def)

lemma heap_ok_worker:
  assumes st: "mydrv_worker die (wpc s) s = Goes s'" and inv: "heap_ok s"
  shows "heap_ok s'"
proof (cases "wpc s = WNext")
  case True
  show ?thesis
  proof (rule worker_next [OF st True], goal_cases)
    case 1
    then show ?thesis using inv heap_ok_cong [of s' s] by (simp add: wgo_def)
  next
    case (2 a as w)
    then show ?thesis using heap_ok_take [OF inv 2(1)] heap_ok_cong [of s' "s\<lparr>worklist := as, heap := (heap s)(a := None)\<rparr>"]
      by (simp add: wgo_def)
  qed
next
  case False
  then show ?thesis using worker_frame [OF st] inv heap_ok_cong [of s' s] by simp
qed

lemma heap_ok_alloc:
  assumes "heap_ok s" "heap s a = None" "owned (spc s p) = None"
  shows "heap_ok (sgo p (SLock a) (s\<lparr>heap := (heap s)(a \<mapsto> w)\<rparr>))"
proof -
  have n: "a \<notin> set (worklist s)" "owned (spc s q) \<noteq> Some a" for q using heap_ok_used [OF assms(1), of a] assms(2) by auto
  have "(\<exists>q. owned (((spc s)(p := SLock a)) q) = Some b) \<longleftrightarrow> b = a \<or> (\<exists>q. owned (spc s q) = Some b)" for b
    using assms(3) by (metis fun_upd_def option.distinct(1) option.inject owned.simps(1))
  with assms n show ?thesis by (auto simp: heap_ok_def sgo_def)
qed

lemma heap_ok_add:
  assumes "heap_ok s" "spc s p = SAdd a"
  shows "heap_ok (sgo p SWake (s\<lparr>worklist := worklist s @ [a], added := x\<rparr>))"
proof -
  have o: "owned (spc s p) = Some a" using assms(2) by simp
  have "(\<exists>q. owned (((spc s)(p := SWake)) q) = Some b) \<longleftrightarrow> b \<noteq> a \<and> (\<exists>q. owned (spc s q) = Some b)" for b
    using assms(1) o by (auto simp: heap_ok_def) (metis option.inject)+
  with assms(1) o show ?thesis by (auto simp: heap_ok_def sgo_def)
qed

lemma heap_ok_submit:
  assumes st: "submit_work mem p (spc s p) s = Goes s'" and inv: "heap_ok s"
  shows "heap_ok s'"
proof (cases "spc s p")
  case (SAlloc f d)
  with st inv heap_ok_alloc [of s _ p] heap_ok_cong [of s' s] show ?thesis
    by (auto simp: sgo_def split: option.splits if_splits)
next
  case (SAdd a)
  with st heap_ok_add [OF inv SAdd] show ?thesis by (auto split: option.splits)
qed (use st inv heap_ok_cong [of s' s] in \<open>auto simp: wq_steps split: if_splits\<close>)

lemma fifo_ok_worker:
  assumes st: "mydrv_worker die (wpc s) s = Goes s'" and inv: "heap_ok s" "fifo_ok s"
  shows "fifo_ok s'"
proof (cases "wpc s = WNext")
  case True
  show ?thesis
  proof (rule worker_next [OF st True], goal_cases)
    case 1
    then show ?thesis using inv(2) True queued_cong [of s' s] by (simp add: fifo_ok_def wgo_def)
  next
    case (2 a as w)
    have "a \<notin> set as" using inv(1) 2(1) by (simp add: heap_ok_def)
    then show ?thesis using inv(2) True 2 by (auto simp: fifo_ok_def wgo_def queued_def)
  qed
next
  case False
  then show ?thesis using st worker_frame [OF st] inv(2) queued_cong [of s' s]
    by (cases "wpc s") (auto simp: fifo_ok_def wq_steps split: if_splits)
qed

lemma fifo_ok_submit:
  assumes st: "submit_work mem p (spc s p) s = Goes s'" and inv: "heap_ok s" "fifo_ok s"
  shows "fifo_ok s'"
proof (cases "spc s p")
  case (SAlloc f d)
  have "heap s a = None \<Longrightarrow> a \<notin> set (worklist s)" for a using heap_ok_used [OF inv(1), of a] by auto
  then show ?thesis using st inv(2) SAlloc queued_other queued_cong [of s' s]
    by (auto simp: fifo_ok_def sgo_def queued_def split: option.splits if_splits)
next
  case (SAdd a)
  with st inv(2) show ?thesis by (auto simp: fifo_ok_def sgo_def queued_def split: option.splits)
qed (use st inv(2) queued_cong [of s' s] in \<open>auto simp: fifo_ok_def wq_steps split: if_splits\<close>)

lemma wake_ok_worker: "mydrv_worker die (wpc s) s = Goes s' \<Longrightarrow> wake_ok s \<Longrightarrow> wake_ok s'"
  by (cases "wpc s") (auto simp: wake_ok_def wq_steps split: if_splits list.splits option.splits)

lemma wake_ok_submit:
  assumes st: "submit_work mem p (spc s p) s = Goes s'" and inv: "wake_ok s"
  shows "wake_ok s'"
proof -
  have t: "todo s \<longleftrightarrow> waiting (wpc s)" using inv by (simp add: wake_ok_def)
  have keep: "\<exists>q. ((spc s)(p := c)) q = SWake" if "spc s q = SWake" "spc s p \<noteq> SWake" for c q
    using that by (auto intro: exI [of _ q])
  show ?thesis
  proof (cases "spc s p")
    case (SAdd a)
    with st t show ?thesis by (auto simp: wake_ok_def wq_steps split: option.splits intro: exI [of _ p])
  next
    case SWake
    with st t show ?thesis by (auto simp: wake_ok_def wq_steps)
  qed (use st inv keep in \<open>auto simp: wake_ok_def wq_steps split: if_splits option.splits\<close>)
qed

lemma wq_inv_step:
  assumes "wq_step s s'" "wq_inv s"
  shows "wq_inv s'"
  using assms
proof cases
  case (worker die)
  then show ?thesis using assms(2) lock_ok_worker heap_ok_worker fifo_ok_worker wake_ok_worker unfolding wq_inv_def by metis
next
  case (submit mem p)
  then show ?thesis using assms(2) lock_ok_submit heap_ok_submit fifo_ok_submit wake_ok_submit unfolding wq_inv_def by metis
next
  case (submit_call p r func data)
  have n: "owned (spc s' q) = owned (spc s q)" "submit_locked (spc s' q) = submit_locked (spc s q)" "spc s' q = SWake \<longleftrightarrow> spc s q = SWake" for q
    using submit_call by (auto simp: sgo_def)
  have f: "heap s' = heap s" "worklist s' = worklist s" "wlock s' = wlock s" "wpc s' = wpc s" "todo s' = todo s" "running s' = running s"
    "added s' = added s" "called s' = called s" using submit_call by (simp_all add: sgo_def)
  show ?thesis using assms(2) n f queued_cong [OF f(1,2)] heap_ok_cong [OF f(1,2) n(1)]
    by (simp add: wq_inv_def lock_ok_def fifo_ok_def wake_ok_def)
next
  case woken
  then show ?thesis using assms(2) heap_ok_cong [of s' s] queued_cong [of s' s]
    by (simp add: wq_inv_def lock_ok_def fifo_ok_def wake_ok_def)
qed

lemma wq_inv_init: "wq_inv mydrv_init"
  by (simp add: wq_inv_def lock_ok_def heap_ok_def fifo_ok_def wake_ok_def mydrv_init_def queued_def)

text \<open>Events, for concrete runs.\<close>

datatype wq_event = Work bool | Submit nat "nat option" | CallSubmit nat nat nat

fun wq_do :: "wq_event \<Rightarrow> wq \<Rightarrow> wq outcome" where
  "wq_do (Work die) s = mydrv_worker die (wpc s) s"
| "wq_do (Submit p mem) s = submit_work mem p (spc s p) s"
| "wq_do (CallSubmit p f d) s = (if spc s p = SOut then Goes (sgo p (SAlloc f d) s) else Waits)"

interpretation wq: event_system mydrv_init wq_step wq_inv wq_do
proof
  show "wq_step s s'" if "wq_do e s = Goes s'" for e s s'
    using that by (cases e) (auto intro: wq_step.intros split: if_splits)
qed (simp_all add: wq_inv_init wq_inv_step)

section \<open>Properties\<close>

text \<open>C7: Work is called once, in the order in which it was submitted; what has not been called is
  in the hand of the thread or in the list.\<close>
theorem work_called_in_order:
  assumes "wq_reach s"
  shows "added s = called s @ in_hand (wpc s) @ queued s"
  using wq.reach_inv [OF assms] by (simp add: wq_inv_def fifo_ok_def)

lemma head_used: "heap_ok s \<Longrightarrow> worklist s = a # as \<Longrightarrow> heap s a \<noteq> None"
  using heap_ok_used [of s a] by simp

lemma worker_memory:
  assumes "heap_ok s"
  shows "mydrv_worker die (wpc s) s \<noteq> Freed"
  using head_used [OF assms] by (cases "wpc s") (auto simp: spin_lock_def split: list.split option.split)

lemma submit_memory:
  assumes "heap_ok s"
  shows "submit_work mem p (spc s p) s \<noteq> Freed"
proof -
  have "owned (spc s p) = Some a \<Longrightarrow> heap s a \<noteq> None" for a using heap_ok_used [OF assms, of a] by auto
  then show ?thesis by (cases "spc s p") (auto simp: spin_lock_def split: option.split)
qed

lemma submitters_exclude: "lock_ok s \<Longrightarrow> submit_locked (spc s p) \<Longrightarrow> submit_locked (spc s q) \<Longrightarrow> p = q"
  unfolding lock_ok_def by (metis holder.inject option.inject)

text \<open>
  C13: Neither side uses a structure after kfree, and none is lost: what is allocated is in the list or
  held by the one process that is about to put it there. The list is only changed under the lock.
\<close>
theorem work_memory_safe:
  assumes "wq_reach s"
  shows "mydrv_worker die (wpc s) s \<noteq> Freed \<and> submit_work mem p (spc s p) s \<noteq> Freed
    \<and> (heap s a \<noteq> None \<longleftrightarrow> a \<in> set (worklist s) \<or> (\<exists>q. owned (spc s q) = Some a))
    \<and> \<not> (worker_locked (wpc s) \<and> submit_locked (spc s p)) \<and> (submit_locked (spc s p) \<and> submit_locked (spc s q) \<longrightarrow> p = q)"
proof -
  have i: "lock_ok s" "heap_ok s" using wq.reach_inv [OF assms] by (simp_all add: wq_inv_def)
  have "\<not> (worker_locked (wpc s) \<and> submit_locked (spc s p))" "submit_locked (spc s p) \<and> submit_locked (spc s q) \<longrightarrow> p = q"
    using submitters_exclude [OF i(1)] i(1) by (auto simp: lock_ok_def)
  then show ?thesis using worker_memory [OF i(2)] submit_memory [OF i(2)] heap_ok_used [OF i(2)] by blast
qed

text \<open>
  C12: No wake-up is lost: when the thread sleeps although there is work, a submitter is just about to
  wake it.
\<close>
theorem work_wakes_thread:
  assumes "wq_reach s" "mydrv_worker die (wpc s) s = Waits" "wpc s = WSchedule" "worklist s \<noteq> []"
  shows "\<exists>p s'. spc s p = SWake \<and> submit_work None p SWake s = Goes s' \<and> mydrv_worker die (wpc s') s' \<noteq> Waits"
proof -
  have w: "wake_ok s" using wq.reach_inv [OF assms(1)] by (simp add: wq_inv_def)
  have "\<not> running s" using assms(2,3) by (simp split: if_splits)
  then obtain p where p: "spc s p = SWake" using w assms(3,4) by (auto simp: wake_ok_def)
  have "todo s" using w assms(3) by (simp add: wake_ok_def)
  then show ?thesis using assms(3) by (intro exI [of _ p]) (simp add: p wq_steps)
qed

text \<open>The thread alone, which nobody asks to end, for at most \<open>n\<close> steps.\<close>

fun worker_run :: "nat \<Rightarrow> wq \<Rightarrow> wq" where
  "worker_run 0 s = s"
| "worker_run (Suc n) s = (case mydrv_worker False (wpc s) s of Goes s' \<Rightarrow> worker_run n s' | _ \<Rightarrow> s)"

fun to_next :: "wpc \<Rightarrow> nat" where
  "to_next WNext = 1" | "to_next WRelock = 2" | "to_next (WCall f d) = 3" | "to_next (WTaken f d) = 4"
| "to_next WLock = 2" | "to_next WRemove = 3" | "to_next WAwake = 4" | "to_next WSchedule = 4" | "to_next WCheck = 5"
| "to_next WQueue = 6" | "to_next WTest = 7" | "to_next WStart = 8" | "to_next WAgain = 8" | "to_next WUnlock = 9" | "to_next _ = 0"

definition work_left :: "wq \<Rightarrow> nat" where
  "work_left s = 4 * length (worklist s) + to_next (wpc s)"

definition quiet :: "wq \<Rightarrow> bool" where
  "quiet s \<longleftrightarrow> (\<forall>p. \<not> submit_locked (spc s p)) \<and> wpc s \<noteq> WDie \<and> wpc s \<noteq> WGone"

definition all_done :: "wq \<Rightarrow> bool" where
  "all_done s \<longleftrightarrow> worklist s = [] \<and> in_hand (wpc s) = []"

lemma worker_progress:
  assumes inv: "wq_inv s" and q: "quiet s" and n: "\<not> all_done s"
  obtains s' where "mydrv_worker False (wpc s) s = Goes s'" "quiet s'" "work_left s' < work_left s"
proof -
  have l: "wlock s = None \<longleftrightarrow> \<not> worker_locked (wpc s)"
    using inv q by (cases "wlock s") (auto simp: wq_inv_def lock_ok_def quiet_def, metis holder.exhaust)
  have r: "wpc s = WSchedule \<Longrightarrow> running s"
  proof -
    assume c: "wpc s = WSchedule"
    have "spc s p \<noteq> SWake" for p using q unfolding quiet_def by (metis submit_locked.simps(2))
    then show ?thesis using inv n c by (auto simp: wq_inv_def wake_ok_def all_done_def)
  qed
  have h: "worklist s = a # as \<Longrightarrow> heap s a \<noteq> None" for a as
    using inv head_used by (simp add: wq_inv_def)
  have "\<exists>s'. mydrv_worker False (wpc s) s = Goes s' \<and> quiet s' \<and> work_left s' < work_left s"
    using l r h q n by (cases "wpc s") (auto simp: wq_steps work_left_def quiet_def all_done_def split: list.split option.split)
  then show ?thesis using that by blast
qed

lemma worker_stays_done:
  assumes "mydrv_worker False (wpc s) s = Goes s'" "all_done s"
  shows "all_done s' \<and> added s' = added s"
  using assms worker_frame(2) [OF assms(1)] by (cases "wpc s") (auto simp: all_done_def wq_steps split: if_splits)

lemma worker_run_done: "all_done s \<Longrightarrow> all_done (worker_run n s)"
  by (induction n arbitrary: s) (auto split: outcome.split dest: worker_stays_done)

lemma worker_run_reach: "wq_reach s \<Longrightarrow> wq_reach (worker_run n s)"
proof (induction n arbitrary: s)
  case (Suc n)
  then show ?case using reach.steps [OF Suc.prems wq_step.worker] by (simp split: outcome.split)
qed simp

lemma worker_run_added: "added (worker_run n s) = added s"
  by (induction n arbitrary: s) (auto split: outcome.split dest: worker_frame)

lemma worker_run_works:
  "wq_inv s \<Longrightarrow> quiet s \<Longrightarrow> work_left s \<le> n \<Longrightarrow> all_done (worker_run n s)"
proof (induction n arbitrary: s)
  case 0
  then have "\<not> (\<not> all_done s)" using worker_progress [of s] by (metis le_zero_eq not_less_zero)
  then show ?case by simp
next
  case (Suc n)
  show ?case
  proof (cases "all_done s")
    case False
    obtain s' where s': "mydrv_worker False (wpc s) s = Goes s'" "quiet s'" "work_left s' < work_left s"
      using worker_progress [OF Suc.prems(1,2) False] by blast
    have "wq_inv s'" using wq_inv_step [OF wq_step.worker [OF s'(1)] Suc.prems(1)] .
    with s' Suc show ?thesis by simp
  qed (rule worker_run_done)
qed

text \<open>
  C6: All submitted work gets done: from any reachable state in which no submitter holds the lock and
  the thread has not been asked to end, four steps per piece of work and nine more are enough.
\<close>
theorem work_gets_done:
  assumes "wq_reach s" "quiet s" "4 * length (worklist s) + 9 \<le> n"
  shows "called (worker_run n s) = added s"
proof -
  have "to_next (wpc s) \<le> 9" by (cases "wpc s") auto
  then have "all_done (worker_run n s)"
    using assms wq.reach_inv worker_run_works by (simp add: work_left_def)
  moreover have "fifo_ok (worker_run n s)" using wq.reach_inv [OF worker_run_reach [OF assms(1)]] by (simp add: wq_inv_def)
  ultimately show ?thesis by (simp add: all_done_def fifo_ok_def queued_def worker_run_added)
qed

section \<open>Runs\<close>

text \<open>
  Work is lost when the thread ends: submit_work returns 0, but nothing calls the function.
\<close>
theorem work_lost_at_end:
  "\<exists>s. wq_reach s \<and> wpc s = WGone \<and> spc s 0 = SRet 0 \<and> added s = [(7, 1)] \<and> called s = []"
proof -
  let ?es = "[Work False, Work True, Work True, CallSubmit 0 7 1, Submit 0 (Some 3)] @ replicate 4 (Submit 0 None)"
  have "case run_events wq_do ?es mydrv_init of None \<Rightarrow> False
      | Some s \<Rightarrow> wpc s = WGone \<and> spc s 0 = SRet 0 \<and> added s = [(7, 1)] \<and> called s = []" by code_simp
  from wq.run_holds [OF this] show ?thesis by blast
qed

lemma wq_sleeps:
  "\<exists>s. wq_reach s \<and> wpc s = WSchedule \<and> \<not> running s \<and> worklist s = [3] \<and> spc s 0 = SWake \<and> added s = [(7, 1)]"
proof -
  let ?es = "replicate 4 (Work False) @ [CallSubmit 0 7 1, Submit 0 (Some 3), Submit 0 None, Submit 0 None]"
  have "case run_events wq_do ?es mydrv_init of None \<Rightarrow> False
      | Some s \<Rightarrow> wpc s = WSchedule \<and> \<not> running s \<and> worklist s = [3] \<and> spc s 0 = SWake \<and> added s = [(7, 1)]" by code_simp
  from wq.run_holds [OF this] show ?thesis by blast
qed

text \<open>Two processes submit, the second while the thread has taken the first work.\<close>

lemma wq_two:
  "\<exists>s. wq_reach s \<and> spc s 0 = SRet 0 \<and> spc s 1 = SRet 0 \<and> wpc s = WCall 7 1 \<and> worklist s = [3] \<and> added s = [(7, 1), (8, 2)] \<and> wlock s = None"
proof -
  let ?es = "replicate 4 (Work False) @ [CallSubmit 0 7 1, Submit 0 (Some 3)] @ replicate 4 (Submit 0 None)
    @ replicate 5 (Work False) @ [CallSubmit 1 8 2, Submit 1 (Some 3)] @ replicate 4 (Submit 1 None)"
  have "case run_events wq_do ?es mydrv_init of None \<Rightarrow> False
      | Some s \<Rightarrow> spc s 0 = SRet 0 \<and> spc s 1 = SRet 0 \<and> wpc s = WCall 7 1 \<and> worklist s = [3] \<and> added s = [(7, 1), (8, 2)] \<and> wlock s = None" by code_simp
  from wq.run_holds [OF this] show ?thesis by blast
qed

theorem work_called_in_order_witness:
  "\<exists>s. wq_reach s \<and> added s = [(7, 1), (8, 2)] \<and> called s @ (7, 1) # queued s = [(7, 1), (8, 2)]"
proof -
  obtain s where s: "wq_reach s" "wpc s = WCall 7 1" "added s = [(7, 1), (8, 2)]" using wq_two by blast
  from work_called_in_order [OF s(1)] s show ?thesis by (intro exI [of _ s]) simp
qed

theorem work_memory_safe_witness: "\<exists>s. wq_reach s \<and> worklist s = [3] \<and> heap s 3 \<noteq> None"
proof -
  obtain s where s: "wq_reach s" "worklist s = [3]" using wq_two by blast
  from work_memory_safe [OF s(1), of True None 0 3 0] s show ?thesis by auto
qed

theorem work_wakes_thread_witness: "\<exists>s p. wq_reach s \<and> wpc s = WSchedule \<and> worklist s = [3] \<and> spc s p = SWake"
proof -
  obtain s where s: "wq_reach s" "wpc s = WSchedule" "\<not> running s" "worklist s = [3]" using wq_sleeps by blast
  from work_wakes_thread [OF s(1), of False] s show ?thesis by auto
qed

theorem work_gets_done_witness: "\<exists>s. wq_reach s \<and> worklist s = [3] \<and> called (worker_run 13 s) = [(7, 1), (8, 2)]"
proof -
  obtain s where s: "wq_reach s" "worklist s = [3]" "added s = [(7, 1), (8, 2)]"
    "wpc s = WCall 7 1" "wlock s = None" using wq_two by blast
  have "lock_ok s" using wq.reach_inv [OF s(1)] by (simp add: wq_inv_def)
  then have "quiet s" using s by (simp add: quiet_def lock_ok_def)
  from work_gets_done [OF s(1) this, of 13] s show ?thesis by auto
qed

end
