(* ===== verification/FifoThreads.thy ===== *)
theory FifoThreads
  imports Threads
begin

text \<open>
  excerpts/product.c: a producer and a consumer thread that exchange bytes through a named pipe,
  guarded by three semaphores, and the main thread that waits for both. One call of the C library
  is one step; the clock may pass end_time at any moment.
\<close>

section \<open>State\<close>

definition slots :: nat where "slots = 5"
definition buf_size :: nat where "buf_size = 100"

datatype ppc = PTest | PAvail | PMutex | PWrite | PFull | PPost | PSleep | PEnd
datatype cpc = CTest | CFull | CMutex | CRead | CAvail | CPost | CSleep | CEnd
datatype mpc = MJoin1 | MJoin2 | MExit

text \<open>
  The pipe holds at most \<open>room\<close> bytes. \<open>over\<close>: the time is not before end_time any more. \<open>id1\<close> and
  \<open>id2\<close>: pthread_create has stored the identifier. The last two fields record what was written
  and what the calls of read returned.
\<close>

record prog =
  mutex :: nat
  full :: nat
  avail :: nat
  fifo :: string
  room :: nat
  over :: bool
  buf_r :: string
  ppc :: ppc
  cpc :: cpc
  mpc :: mpc
  id1 :: bool
  id2 :: bool
  out :: "string list"
  written :: string
  reads :: "string list"

definition hello :: string where "hello = ''hello''"
definition busy_msg :: string where "busy_msg = ''The FIFO has not been read yet.Please try later''"
definition wrote_msg :: string where "wrote_msg = ''write hello to the FIFO''"
definition nodata_msg :: string where "nodata_msg = ''no data yet''"
definition read_msg :: "string \<Rightarrow> string" where "read_msg b = ''read '' @ cstr b @ '' from FIFO''"

section \<open>The library\<close>

text \<open>A write of at most PIPE_BUF bytes puts all of them into the pipe, or fails with EAGAIN.\<close>

definition fifo_write :: "string \<Rightarrow> prog \<Rightarrow> bool \<times> prog" where
  "fifo_write bs s =
     (if length (fifo s) + length bs \<le> room s then (True, s\<lparr>fifo := fifo s @ bs, written := written s @ bs\<rparr>)
      else (False, s))"

text \<open>A read takes up to \<open>n\<close> bytes; \<open>None\<close> is EAGAIN, the pipe is empty.\<close>

definition fifo_read :: "nat \<Rightarrow> prog \<Rightarrow> string option \<times> prog" where
  "fifo_read n s =
     (if fifo s = [] then (None, s)
      else (Some (take n (fifo s)), s\<lparr>fifo := drop n (fifo s), reads := reads s @ [take n (fifo s)]\<rparr>))"

definition fifo_print :: "string \<Rightarrow> prog \<Rightarrow> prog" where
  "fifo_print m s = s\<lparr>out := out s @ [m]\<rparr>"

section \<open>The threads\<close>

fun productor :: "ppc \<Rightarrow> prog \<Rightarrow> prog outcome" where
  "productor PTest s = Goes (s\<lparr>ppc := (if over s then PEnd else PAvail)\<rparr>)"
| "productor PAvail s = (if avail s = 0 then Waits else Goes (s\<lparr>avail := avail s - 1, ppc := PMutex\<rparr>))"
| "productor PMutex s = (if mutex s = 0 then Waits else Goes (s\<lparr>mutex := mutex s - 1, ppc := PWrite\<rparr>))"
| "productor PWrite s =
     (case fifo_write hello s of
        (True, s) \<Rightarrow> Goes (fifo_print wrote_msg s\<lparr>ppc := PFull\<rparr>)
      | (False, s) \<Rightarrow> Goes (fifo_print busy_msg s\<lparr>ppc := PFull\<rparr>))"
| "productor PFull s = Goes (s\<lparr>full := full s + 1, ppc := PPost\<rparr>)"
| "productor PPost s = Goes (s\<lparr>mutex := mutex s + 1, ppc := PSleep\<rparr>)"
| "productor PSleep s = Goes (s\<lparr>ppc := PTest\<rparr>)"
| "productor PEnd s = Waits"

text \<open>printf with the conversion s needs a NUL within the buffer.\<close>

definition show_buf :: "prog \<Rightarrow> prog outcome" where
  "show_buf s =
     (if NUL \<in> set (buf_r s) then Goes (fifo_print (read_msg (buf_r s)) s\<lparr>cpc := CAvail\<rparr>)
      else Undef ''buf_r is not terminated'')"

fun consumer :: "cpc \<Rightarrow> prog \<Rightarrow> prog outcome" where
  "consumer CTest s = Goes (s\<lparr>cpc := (if over s then CEnd else CFull)\<rparr>)"
| "consumer CFull s = (if full s = 0 then Waits else Goes (s\<lparr>full := full s - 1, cpc := CMutex\<rparr>))"
| "consumer CMutex s = (if mutex s = 0 then Waits else Goes (s\<lparr>mutex := mutex s - 1, cpc := CRead\<rparr>))"
| "consumer CRead s =
     (let s = s\<lparr>buf_r := replicate buf_size NUL\<rparr> in
      case fifo_read buf_size s of
        (None, s) \<Rightarrow> show_buf (fifo_print nodata_msg s)
      | (Some bs, s) \<Rightarrow> show_buf (s\<lparr>buf_r := bs @ drop (length bs) (buf_r s)\<rparr>))"
| "consumer CAvail s = Goes (s\<lparr>avail := avail s + 1, cpc := CPost\<rparr>)"
| "consumer CPost s = Goes (s\<lparr>mutex := mutex s + 1, cpc := CSleep\<rparr>)"
| "consumer CSleep s = Goes (s\<lparr>cpc := CTest\<rparr>)"
| "consumer CEnd s = Waits"

text \<open>The main thread after the threads were created; to join a thread without identifier is undefined.\<close>

fun main_join :: "mpc \<Rightarrow> prog \<Rightarrow> prog outcome" where
  "main_join MJoin1 s = (if \<not> id1 s then Undef ''id1'' else if ppc s = PEnd then Goes (s\<lparr>mpc := MJoin2\<rparr>) else Waits)"
| "main_join MJoin2 s = (if \<not> id2 s then Undef ''id2'' else if cpc s = CEnd then Goes (s\<lparr>mpc := MExit\<rparr>) else Waits)"
| "main_join MExit s = Waits"

text \<open>
  main before that: whether mkfifo succeeded or found the pipe, whether the pipe was opened, and
  whether each thread was created. The three calls of sem_init succeed.
\<close>

definition fifo_threads :: "nat \<Rightarrow> string list \<Rightarrow> bool \<Rightarrow> bool \<Rightarrow> prog" where
  "fifo_threads space msgs t1 t2 =
     \<lparr>mutex = 1, full = 0, avail = slots, fifo = [], room = space, over = False, buf_r = replicate buf_size NUL,
      ppc = (if t1 then PTest else PEnd), cpc = (if t2 then CTest else CEnd), mpc = MJoin1, id1 = t1, id2 = t2,
      out = msgs @ (if t1 then [] else [''pthread cread1'']) @ (if t2 then [] else [''pthread cread2'']), written = [], reads = []\<rparr>"

definition fifo_start :: "nat \<Rightarrow> bool \<Rightarrow> bool \<Rightarrow> bool \<Rightarrow> bool \<Rightarrow> prog res" where
  "fifo_start space made opened t1 t2 =
     (let msgs = (if made then [] else [''cannot create fifoserver'']) @ [''Preparing for reading bytes...'']
      in if \<not> opened then Inl (Exit 1 ''open'') else Inr (fifo_threads space msgs t1 t2))"

datatype fifo_event = Producer | Consumer | Main | Clock

fun fifo_do :: "fifo_event \<Rightarrow> prog \<Rightarrow> prog outcome" where
  "fifo_do Producer s = productor (ppc s) s"
| "fifo_do Consumer s = consumer (cpc s) s"
| "fifo_do Main s = main_join (mpc s) s"
| "fifo_do Clock s = Goes (s\<lparr>over := True\<rparr>)"

inductive fifo_step :: "prog \<Rightarrow> prog \<Rightarrow> bool" where
  "fifo_do e s = Goes s' \<Longrightarrow> fifo_step s s'"

inductive_cases fifo_stepE: "fifo_step s s'"

text \<open>The program when everything was created, on a pipe that holds \<open>space\<close> bytes.\<close>

definition fifo_init :: "nat \<Rightarrow> prog" where
  "fifo_init space = fifo_threads space [''Preparing for reading bytes...''] True True"

lemma fifo_start_ok: "fifo_start space True True True True = Inr (fifo_init space)"
  by (simp add: fifo_start_def fifo_init_def)

section \<open>The invariant\<close>

definition hellos :: "nat \<Rightarrow> string" where
  "hellos k = concat (replicate k hello)"

lemma hello_length [simp]: "length hello = 5" "hello \<noteq> []"
  by (simp_all add: hello_def)

lemma hellos_simps [simp]: "hellos 0 = []" "length (hellos k) = 5 * k" "hellos k = [] \<longleftrightarrow> k = 0" "hellos k @ hello = hellos (Suc k)"
proof -
  show l: "length (hellos k) = 5 * k" for k by (induction k) (simp_all add: hellos_def)
  show "hellos k = [] \<longleftrightarrow> k = 0" using l [of k] by (metis length_0_conv mult_is_0 zero_neq_numeral)
  show "hellos k @ hello = hellos (Suc k)" by (induction k) (simp_all add: hellos_def)
qed (simp add: hellos_def)

text \<open>Which program points lie between taking and giving back the mutex, and a slot.\<close>

fun p_inside :: "ppc \<Rightarrow> bool" where
  "p_inside PWrite = True"
| "p_inside PFull = True"
| "p_inside PPost = True"
| "p_inside _ = False"

fun c_inside :: "cpc \<Rightarrow> bool" where
  "c_inside CRead = True"
| "c_inside CAvail = True"
| "c_inside CPost = True"
| "c_inside _ = False"

fun p_slot :: "ppc \<Rightarrow> bool" where
  "p_slot PMutex = True"
| "p_slot PWrite = True"
| "p_slot PFull = True"
| "p_slot _ = False"

fun c_slot :: "cpc \<Rightarrow> bool" where
  "c_slot CMutex = True"
| "c_slot CRead = True"
| "c_slot CAvail = True"
| "c_slot _ = False"

definition sems_inv :: "prog \<Rightarrow> bool" where
  "sems_inv s \<longleftrightarrow> mutex s + of_bool (p_inside (ppc s)) + of_bool (c_inside (cpc s)) = 1
     \<and> avail s + full s + of_bool (p_slot (ppc s)) + of_bool (c_slot (cpc s)) = slots"

text \<open>How many messages the pipe holds at most.\<close>

definition msgs_max :: "prog \<Rightarrow> nat" where
  "msgs_max s = full s + of_bool (ppc s = PFull) + of_bool (cpc s = CMutex \<or> cpc s = CRead)"

definition bytes_inv :: "prog \<Rightarrow> bool" where
  "bytes_inv s \<longleftrightarrow> (\<exists>k \<le> msgs_max s. fifo s = hellos k) \<and> written s = concat (reads s) @ fifo s
     \<and> (\<forall>r \<in> set (reads s). \<exists>k. 1 \<le> k \<and> k \<le> slots \<and> r = hellos k)"

definition main_inv :: "prog \<Rightarrow> bool" where
  "main_inv s \<longleftrightarrow> id1 s \<and> id2 s \<and> 25 \<le> room s \<and> busy_msg \<notin> set (out s)"

definition fifo_inv :: "prog \<Rightarrow> bool" where
  "fifo_inv s \<longleftrightarrow> sems_inv s \<and> bytes_inv s \<and> main_inv s"

lemmas fifo_inv_defs = sems_inv_def bytes_inv_def main_inv_def msgs_max_def

lemma bytes_bound:
  assumes "sems_inv s" "bytes_inv s"
  obtains k where "fifo s = hellos k" "k \<le> slots" "ppc s = PWrite \<Longrightarrow> k < slots"
proof -
  obtain k where k: "fifo s = hellos k" "k \<le> msgs_max s" using assms(2) by (auto simp: bytes_inv_def)
  moreover have "msgs_max s \<le> slots" "ppc s = PWrite \<Longrightarrow> msgs_max s < slots"
    using assms(1) by (cases "ppc s"; cases "cpc s"; simp add: sems_inv_def msgs_max_def)+
  ultimately show ?thesis using that by fastforce
qed

lemma bytes_inv_frame:
  assumes "bytes_inv s" "msgs_max s \<le> msgs_max s'" "fifo s' = fifo s" "written s' = written s" "reads s' = reads s"
  shows "bytes_inv s'"
  using assms order_trans unfolding bytes_inv_def by metis

lemma msgs_differ [simp]: "busy_msg \<noteq> wrote_msg" "busy_msg \<noteq> nodata_msg" "busy_msg \<noteq> read_msg b"
  by (simp_all add: busy_msg_def wrote_msg_def nodata_msg_def read_msg_def)

text \<open>The two calls on the pipe.\<close>

lemma write_goes:
  assumes "fifo_inv s" "ppc s = PWrite"
  shows "fifo_write hello s = (True, s\<lparr>fifo := fifo s @ hello, written := written s @ hello\<rparr>)"
proof -
  obtain k where "fifo s = hellos k" "k < slots" using assms bytes_bound [of s] by (auto simp: fifo_inv_def)
  then show ?thesis using assms(1) by (simp add: fifo_write_def fifo_inv_def main_inv_def slots_def)
qed

text \<open>A read empties the pipe; the buffer stays terminated.\<close>

lemma read_goes:
  assumes k: "fifo s = hellos k" "k \<le> slots"
  obtains bs o1 where "consumer CRead s = Goes (s\<lparr>buf_r := bs, fifo := [], reads := reads s @ (if k = 0 then [] else [hellos k]), out := out s @ o1, cpc := CAvail\<rparr>)"
    "busy_msg \<notin> set o1"
proof (cases "k = 0")
  case True
  with k show ?thesis
    by (intro that [where bs = "replicate buf_size NUL" and ?o1.0 = "[nodata_msg, read_msg (replicate buf_size NUL)]"])
      (simp_all add: fifo_read_def show_buf_def fifo_print_def buf_size_def)
next
  case False
  let ?bs = "hellos k @ drop (length (hellos k)) (replicate buf_size NUL)"
  have l: "5 * k \<le> 25" using k(2) by (simp add: slots_def)
  then have t: "take buf_size (hellos k) = hellos k" "drop buf_size (hellos k) = []" by (simp_all add: buf_size_def)
  have n: "NUL \<in> set ?bs" using l by (simp add: buf_size_def)
  show ?thesis using False k(1) t n
    by (intro that [where bs = ?bs and ?o1.0 = "[read_msg ?bs]"]) (simp_all add: fifo_read_def show_buf_def fifo_print_def Let_def)
qed

lemma producer_inv:
  assumes st: "productor (ppc s) s = Goes s'" and inv: "fifo_inv s"
  shows "fifo_inv s'"
proof (cases "ppc s = PWrite")
  case True
  obtain k where "fifo s = hellos k" "k \<le> msgs_max s" using inv by (auto simp: fifo_inv_def bytes_inv_def)
  then have "\<exists>j \<le> msgs_max s'. fifo s' = hellos j"
    using st True write_goes [OF inv True] by (intro exI [of _ "Suc k"]) (auto simp: msgs_max_def fifo_print_def)
  then show ?thesis using st True write_goes [OF inv True] inv
    by (auto simp: fifo_inv_def sems_inv_def bytes_inv_def main_inv_def fifo_print_def)
next
  case False
  have i: "sems_inv s'" using st inv False by (cases "ppc s") (auto simp: fifo_inv_def sems_inv_def split: if_splits)
  have m: "main_inv s'" using st inv False by (cases "ppc s") (auto simp: fifo_inv_def main_inv_def split: if_splits)
  have "msgs_max s \<le> msgs_max s'" "fifo s' = fifo s" "written s' = written s" "reads s' = reads s"
    using st False by (cases "ppc s"; auto simp: msgs_max_def split: if_splits)+
  then show ?thesis using inv i m bytes_inv_frame [of s s'] by (simp add: fifo_inv_def)
qed

lemma consumer_inv:
  assumes st: "consumer (cpc s) s = Goes s'" and inv: "fifo_inv s"
  shows "fifo_inv s'"
proof (cases "cpc s = CRead")
  case True
  obtain k where k: "fifo s = hellos k" "k \<le> slots" using inv bytes_bound [of s] by (auto simp: fifo_inv_def)
  obtain bs o1 where "consumer CRead s = Goes (s\<lparr>buf_r := bs, fifo := [], reads := reads s @ (if k = 0 then [] else [hellos k]), out := out s @ o1, cpc := CAvail\<rparr>)"
    and o1: "busy_msg \<notin> set o1" using read_goes [OF k] by blast
  with st True have s': "s' = s\<lparr>buf_r := bs, fifo := [], reads := reads s @ (if k = 0 then [] else [hellos k]), out := out s @ o1, cpc := CAvail\<rparr>" by simp
  have "sems_inv s'" "main_inv s'" using inv True o1 by (simp_all add: s' fifo_inv_def sems_inv_def main_inv_def)
  moreover have "bytes_inv s'" using inv k by (auto simp: s' fifo_inv_def bytes_inv_def intro: exI [of _ "0::nat"] exI [of _ k])
  ultimately show ?thesis by (simp add: fifo_inv_def)
next
  case False
  have i: "sems_inv s'" using st inv False by (cases "cpc s") (auto simp: fifo_inv_def sems_inv_def split: if_splits)
  have m: "main_inv s'" using st inv False by (cases "cpc s") (auto simp: fifo_inv_def main_inv_def split: if_splits)
  have "msgs_max s \<le> msgs_max s'" "fifo s' = fifo s" "written s' = written s" "reads s' = reads s"
    using st False by (cases "cpc s"; auto simp: msgs_max_def split: if_splits)+
  then show ?thesis using inv i m bytes_inv_frame [of s s'] by (simp add: fifo_inv_def)
qed

lemma fifo_inv_step: "fifo_step s s' \<Longrightarrow> fifo_inv s \<Longrightarrow> fifo_inv s'"
proof (elim fifo_stepE)
  fix e
  assume st: "fifo_do e s = Goes s'" and inv: "fifo_inv s"
  show "fifo_inv s'"
  proof (cases e)
    case Producer
    then show ?thesis using st inv producer_inv by simp
  next
    case Consumer
    then show ?thesis using st inv consumer_inv by simp
  next
    case Main
    then obtain c where "s' = s\<lparr>mpc := c\<rparr>" using st by (cases "mpc s") (auto split: if_splits)
    then show ?thesis using inv by (simp add: fifo_inv_def fifo_inv_defs)
  next
    case Clock
    then show ?thesis using st inv by (auto simp: fifo_inv_def fifo_inv_defs)
  qed
qed

lemma fifo_inv_init: "25 \<le> space \<Longrightarrow> fifo_inv (fifo_init space)"
  by (simp add: fifo_inv_def fifo_inv_defs fifo_init_def fifo_threads_def busy_msg_def)

text \<open>On every pipe that holds 25 bytes; the room is taken from a number, so that the interface has an instance.\<close>

interpretation ff: event_system "fifo_init (25 + extra)" fifo_step fifo_inv fifo_do for extra
  by unfold_locales (auto intro: fifo_inv_step fifo_inv_init fifo_step.intros)

lemma fifo_reach_inv: "reach fifo_step (fifo_init space) s \<Longrightarrow> 25 \<le> space \<Longrightarrow> fifo_inv s"
  using ff.reach_inv [of "space - 25"] by simp

section \<open>Properties\<close>

text \<open>
  The semaphores keep their promises: never two threads between taking and giving back the mutex, and
  every slot is available, full or held by a thread.
\<close>
theorem fifo_semaphores:
  assumes "reach fifo_step (fifo_init space) s" "25 \<le> space"
  shows "\<not> (p_inside (ppc s) \<and> c_inside (cpc s))
    \<and> avail s + full s + of_bool (p_slot (ppc s)) + of_bool (c_slot (cpc s)) = slots"
  using fifo_reach_inv [OF assms] by (auto simp: fifo_inv_def sems_inv_def)

lemma productor_defined: "productor c s \<noteq> Undef m"
  by (cases c) (auto split: prod.split bool.split)

lemma consumer_defined:
  assumes "fifo_inv s"
  shows "consumer (cpc s) s \<noteq> Undef m"
proof -
  obtain k where k: "fifo s = hellos k" "k \<le> slots" using assms bytes_bound [of s] by (auto simp: fifo_inv_def)
  obtain s' where r: "consumer CRead s = Goes s'" using read_goes [OF k] by blast
  show ?thesis by (cases "cpc s"; simp add: r del: consumer.simps(4))
qed

text \<open>
  C15: Whole messages arrive, in order, none is lost: what was written is what was read and what is in
  the pipe. A read returns between one and five messages, so that the buffer always has room for a
  NUL; the pipe never refuses a write; nothing undefined happens.
\<close>
theorem fifo_messages:
  assumes "reach fifo_step (fifo_init space) s" "25 \<le> space"
  shows "written s = concat (reads s) @ fifo s \<and> (\<forall>r \<in> set (reads s). \<exists>k. 1 \<le> k \<and> k \<le> slots \<and> r = hellos k)
    \<and> busy_msg \<notin> set (out s) \<and> fifo_do e s \<noteq> Undef m"
proof -
  have i: "fifo_inv s" by (rule fifo_reach_inv [OF assms])
  have "fifo_do e s \<noteq> Undef m"
    using i productor_defined consumer_defined [OF i] by (cases e; cases "mpc s") (auto simp: fifo_inv_def main_inv_def)
  with i show ?thesis by (simp add: fifo_inv_def bytes_inv_def main_inv_def)
qed

text \<open>As long as neither thread has ended, one of them can go on.\<close>
theorem fifo_no_deadlock:
  assumes "reach fifo_step (fifo_init space) s" "25 \<le> space" "ppc s \<noteq> PEnd" "cpc s \<noteq> CEnd"
  shows "\<exists>e s'. e \<in> {Producer, Consumer} \<and> fifo_do e s = Goes s'"
proof (rule ccontr)
  assume no: "\<not> ?thesis"
  have i: "fifo_inv s" by (rule fifo_reach_inv [OF assms(1,2)])
  have p: "productor (ppc s) s = Waits" using no productor_defined by (cases "productor (ppc s) s") (force, auto)
  have c: "consumer (cpc s) s = Waits" using no consumer_defined [OF i] by (cases "consumer (cpc s) s") (force, auto)
  have "ppc s = PAvail \<and> avail s = 0 \<or> ppc s = PMutex \<and> mutex s = 0"
    using p assms(3) by (cases "ppc s") (auto split: if_splits prod.splits bool.splits)
  moreover have "cpc s = CFull \<and> full s = 0 \<or> cpc s = CMutex \<and> mutex s = 0"
  proof -
    obtain k where k: "fifo s = hellos k" "k \<le> slots" using i bytes_bound [of s] by (auto simp: fifo_inv_def)
    obtain s' where "consumer CRead s = Goes s'" using read_goes [OF k] by blast
    then have "cpc s \<noteq> CRead" using c by auto
    then show ?thesis using c assms(4) by (cases "cpc s") (auto split: if_splits)
  qed
  ultimately show False using i by (auto simp: fifo_inv_def sems_inv_def slots_def)
qed

lemma consumer_stuck:
  assumes "fifo_step s s'" "ppc s = PEnd \<and> cpc s = CFull \<and> full s = 0 \<and> mpc s \<noteq> MExit"
  shows "ppc s' = PEnd \<and> cpc s' = CFull \<and> full s' = 0 \<and> mpc s' \<noteq> MExit"
proof (rule fifo_stepE [OF assms(1)])
  fix e assume "fifo_do e s = Goes s'"
  then show ?thesis using assms(2) by (cases e; cases "mpc s") (auto split: if_splits)
qed

text \<open>
  The program may never end: when the time is over for the producer while the consumer waits for a
  message, nobody posts \<open>full\<close> again and main waits for the consumer for ever.
\<close>
theorem fifo_never_ends:
  "\<exists>s. reach fifo_step (fifo_init 4096) s \<and> (\<forall>s'. reach fifo_step s s' \<longrightarrow> mpc s' \<noteq> MExit \<and> consumer (cpc s') s' = Waits)"
proof -
  have "case run_events fifo_do [Consumer, Clock, Producer] (fifo_init (25 + 4071)) of None \<Rightarrow> False
      | Some s \<Rightarrow> ppc s = PEnd \<and> cpc s = CFull \<and> full s = 0 \<and> mpc s \<noteq> MExit"
    by (simp add: fifo_init_def fifo_threads_def)
  from ff.run_holds [OF this] obtain s where s: "reach fifo_step (fifo_init 4096) s"
    "ppc s = PEnd \<and> cpc s = CFull \<and> full s = 0 \<and> mpc s \<noteq> MExit" by auto
  have "ppc s' = PEnd \<and> cpc s' = CFull \<and> full s' = 0 \<and> mpc s' \<noteq> MExit" if "reach fifo_step s s'" for s'
    using that by induction (use s consumer_stuck in blast)+
  with s(1) show ?thesis by (intro exI [of _ s]) simp
qed

text \<open>
  A read may take the messages that later posts of \<open>full\<close> announce: the consumer then finds the pipe
  empty although \<open>full\<close> was positive.
\<close>
theorem fifo_empty_read:
  "\<exists>s. reach fifo_step (fifo_init 4096) s \<and> nodata_msg \<in> set (out s) \<and> reads s = [hellos 2] \<and> written s = hellos 2"
proof -
  let ?es = "replicate 13 Producer @ replicate 11 Consumer"
  have "case run_events fifo_do ?es (fifo_init (25 + 4071)) of None \<Rightarrow> False
      | Some s \<Rightarrow> nodata_msg \<in> set (out s) \<and> reads s = [hellos 2] \<and> written s = hellos 2"
    by code_simp
  from ff.run_holds [OF this] show ?thesis by auto
qed

lemma fifo_three:
  "\<exists>s. reach fifo_step (fifo_init 4096) s \<and> ppc s = PWrite \<and> cpc s = CMutex \<and> avail s = 3 \<and> fifo s = hellos 1"
proof -
  let ?es = "replicate 10 Producer @ replicate 2 Consumer"
  have "case run_events fifo_do ?es (fifo_init (25 + 4071)) of None \<Rightarrow> False
      | Some s \<Rightarrow> ppc s = PWrite \<and> cpc s = CMutex \<and> avail s = 3 \<and> fifo s = hellos 1"
    by code_simp
  from ff.run_holds [OF this] show ?thesis by auto
qed

theorem fifo_semaphores_witness:
  "\<exists>s. reach fifo_step (fifo_init 4096) s \<and> ppc s = PWrite \<and> cpc s = CMutex \<and> full s = 0"
proof -
  obtain s where s: "reach fifo_step (fifo_init 4096) s" "ppc s = PWrite" "cpc s = CMutex" "avail s = 3" using fifo_three by blast
  from fifo_semaphores [OF s(1)] s show ?thesis by (intro exI [of _ s]) (simp add: slots_def)
qed

theorem fifo_messages_witness:
  "\<exists>s. reach fifo_step (fifo_init 4096) s \<and> written s = concat (reads s) @ hellos 1 \<and> productor PWrite s \<noteq> Waits"
proof -
  obtain s where s: "reach fifo_step (fifo_init 4096) s" "ppc s = PWrite" "fifo s = hellos 1" using fifo_three by blast
  from fifo_messages [OF s(1), of Producer] s show ?thesis by (intro exI [of _ s]) (auto split: prod.split bool.split)
qed

theorem fifo_no_deadlock_witness:
  "\<exists>s e s'. reach fifo_step (fifo_init 4096) s \<and> cpc s = CMutex \<and> mutex s = 0 \<and> e \<in> {Producer, Consumer} \<and> fifo_do e s = Goes s'"
proof -
  obtain s where s: "reach fifo_step (fifo_init 4096) s" "ppc s = PWrite" "cpc s = CMutex" using fifo_three by blast
  have "fifo_inv s" using fifo_reach_inv [OF s(1)] by simp
  then have "mutex s = 0" using s by (simp add: fifo_inv_def sems_inv_def)
  with fifo_no_deadlock [OF s(1)] s show ?thesis by auto
qed

end
