(* ===== verification/AlsaParams.thy ===== *)
theory AlsaParams
  imports CPrelude "HOL-Library.Signed_Division"
begin

text \<open>
  The first half of excerpts/alsa-test-latency.c: the options, and the search for a buffer size that
  both sound devices accept (setparams and its three parts). The sound library is not part of the
  repository: its functions on hardware and software parameters are the fields of a record that the
  routines take as an argument. Integers are mathematical, and every int operation that may
  overflow is checked; frame counts of the library are unsigned long and taken as natural numbers.
\<close>

section \<open>Options\<close>

record conf =
  pdevice :: string
  cdevice :: string
  fmt :: int
  rate :: int
  channels :: int
  buffer_size :: int
  period_size :: int
  latency_min :: int
  latency_max :: int
  loop_sec :: int
  block :: bool
  use_poll :: bool
  resample :: bool
  effect :: bool
  morehelp :: nat

text \<open>The initial values; the number of the format S16_LE comes from the library's header.\<close>

definition conf0 :: "int \<Rightarrow> conf" where
  "conf0 s16 = \<lparr>pdevice = ''hw:0,0'', cdevice = ''hw:0,0'', fmt = s16, rate = 22050, channels = 2, buffer_size = 0,
     period_size = 0, latency_min = 32, latency_max = 2048, loop_sec = 30, block = False, use_poll = False,
     resample = True, effect = False, morehelp = 0\<rparr>"

text \<open>
  One option: the letter that getopt_long returned and its argument. \<open>format_value\<close> is the library's,
  which answers \<open>None\<close> for an unknown format.
\<close>

definition clamp :: "int \<Rightarrow> int \<Rightarrow> int \<Rightarrow> int \<Rightarrow> int" where
  "clamp lo hi other err = (if lo \<le> err \<and> err < hi then err else other)"

definition set_min :: "int \<Rightarrow> conf \<Rightarrow> conf" where
  "set_min err c =
     (let lmin = (if 4 \<le> err then err else 4)
      in c\<lparr>latency_min := lmin, latency_max := (if latency_max c < lmin then lmin else latency_max c)\<rparr>)"

definition set_max :: "int \<Rightarrow> conf \<Rightarrow> conf" where
  "set_max err c = c\<lparr>latency_max := (if err < latency_min c then latency_min c else err)\<rparr>"

definition take_option :: "(string \<Rightarrow> int option) \<Rightarrow> int \<Rightarrow> char \<Rightarrow> string \<Rightarrow> conf \<Rightarrow> conf res" where
  "take_option format_value s16 opt arg c =
     (if opt = CHR ''h'' then Inr (c\<lparr>morehelp := morehelp c + 1\<rparr>)
      else if opt = CHR ''P'' then Inr (c\<lparr>pdevice := arg\<rparr>)
      else if opt = CHR ''C'' then Inr (c\<lparr>cdevice := arg\<rparr>)
      else if opt = CHR ''m'' then bindR (atoi arg) (\<lambda>n. Inr (set_min (n sdiv 2) c))
      else if opt = CHR ''M'' then bindR (atoi arg) (\<lambda>n. Inr (set_max (n sdiv 2) c))
      else if opt = CHR ''f'' then Inr (c\<lparr>fmt := (case format_value arg of None \<Rightarrow> s16 | Some f \<Rightarrow> f)\<rparr>)
      else if opt = CHR ''c'' then bindR (atoi arg) (\<lambda>err. Inr (c\<lparr>channels := clamp 1 1024 1 err\<rparr>))
      else if opt = CHR ''r'' then bindR (atoi arg) (\<lambda>err. Inr (c\<lparr>rate := clamp 4000 200000 44100 err\<rparr>))
      else if opt = CHR ''B'' then bindR (atoi arg) (\<lambda>err. Inr (c\<lparr>buffer_size := clamp 32 200000 0 err\<rparr>))
      else if opt = CHR ''E'' then bindR (atoi arg) (\<lambda>err. Inr (c\<lparr>period_size := clamp 32 200000 0 err\<rparr>))
      else if opt = CHR ''s'' then bindR (atoi arg) (\<lambda>err. Inr (c\<lparr>loop_sec := clamp 1 100001 30 err\<rparr>))
      else if opt = CHR ''b'' then Inr (c\<lparr>block := True\<rparr>)
      else if opt = CHR ''p'' then Inr (c\<lparr>use_poll := True\<rparr>)
      else if opt = CHR ''e'' then Inr (c\<lparr>effect := True\<rparr>)
      else if opt = CHR ''n'' then Inr (c\<lparr>resample := False\<rparr>)
      else Inr c)"

fun take_options :: "(string \<Rightarrow> int option) \<Rightarrow> int \<Rightarrow> (char \<times> string) list \<Rightarrow> conf \<Rightarrow> conf res" where
  "take_options fv s16 [] c = Inr c"
| "take_options fv s16 ((opt, arg) # os) c = bindR (take_option fv s16 opt arg c) (take_options fv s16 os)"

text \<open>The number of frames to transfer, an int product.\<close>

definition loop_limit :: "conf \<Rightarrow> nat res" where
  "loop_limit c = bindR (int_or_ub ''loop_sec * rate'' (loop_sec c * rate c)) (\<lambda>z. Inr (nat z))"

definition conf_ok :: "conf \<Rightarrow> bool" where
  "conf_ok c \<longleftrightarrow> 1 \<le> channels c \<and> channels c < 1024 \<and> 4000 \<le> rate c \<and> rate c < 200000
     \<and> (buffer_size c = 0 \<or> 32 \<le> buffer_size c \<and> buffer_size c < 200000)
     \<and> (period_size c = 0 \<or> 32 \<le> period_size c \<and> period_size c < 200000)
     \<and> 4 \<le> latency_min c \<and> latency_min c \<le> latency_max c \<and> latency_max c < 2 ^ 30
     \<and> 1 \<le> loop_sec c \<and> loop_sec c \<le> 100000"

lemma atoi_half: "atoi s = Inr n \<Longrightarrow> n sdiv 2 < 2 ^ 30"
proof -
  assume "atoi s = Inr n"
  then have "int_ok n" unfolding atoi_def Let_def by (rule int_or_ub_ok)
  then show ?thesis by (auto simp: int_ok_def signed_divide_int_def sgn_if)
qed

definition good :: "conf res \<Rightarrow> bool" where
  "good r \<longleftrightarrow> (\<forall>c. r = Inr c \<longrightarrow> conf_ok c)"

lemma good_Inr: "conf_ok c \<Longrightarrow> good (Inr c)"
  by (simp add: good_def)

lemma good_bind: "(\<And>x. m = Inr x \<Longrightarrow> good (f x)) \<Longrightarrow> good (bindR m f)"
  by (auto simp: good_def res_simps)

lemma good_if: "good x \<Longrightarrow> good y \<Longrightarrow> good (if b then x else y)"
  by simp

lemma conf_ok_set:
  assumes "conf_ok c"
  shows "v < 2 ^ 30 \<Longrightarrow> conf_ok (set_min v c)" "v < 2 ^ 30 \<Longrightarrow> conf_ok (set_max v c)"
    "conf_ok (c\<lparr>channels := clamp 1 1024 1 v\<rparr>)" "conf_ok (c\<lparr>rate := clamp 4000 200000 44100 v\<rparr>)"
    "conf_ok (c\<lparr>buffer_size := clamp 32 200000 0 v\<rparr>)" "conf_ok (c\<lparr>period_size := clamp 32 200000 0 v\<rparr>)"
    "conf_ok (c\<lparr>loop_sec := clamp 1 100001 30 v\<rparr>)"
    "conf_ok (c\<lparr>morehelp := n\<rparr>)" "conf_ok (c\<lparr>pdevice := str\<rparr>)" "conf_ok (c\<lparr>cdevice := str\<rparr>)" "conf_ok (c\<lparr>fmt := v\<rparr>)"
    "conf_ok (c\<lparr>block := b\<rparr>)" "conf_ok (c\<lparr>use_poll := b\<rparr>)" "conf_ok (c\<lparr>effect := b\<rparr>)" "conf_ok (c\<lparr>resample := b\<rparr>)"
  using assms by (auto simp: conf_ok_def set_min_def set_max_def clamp_def Let_def)

lemma take_option_good: "conf_ok c \<Longrightarrow> good (take_option fv s16 opt arg c)"
  unfolding take_option_def by (intro good_if good_bind good_Inr conf_ok_set atoi_half)

text \<open>C27: Whatever options are given, the configuration keeps its bounds.\<close>
theorem options_bounds:
  assumes "take_options fv s16 os (conf0 s16) = Inr c"
  shows "conf_ok c"
proof -
  have "take_options fv s16 os c0 = Inr c \<Longrightarrow> conf_ok c0 \<Longrightarrow> conf_ok c" for c0
    by (induction fv s16 os c0 rule: take_options.induct) (use take_option_good in \<open>auto simp: res_simps good_def\<close>)
  from this [OF assms] show ?thesis by (simp add: conf_ok_def conf0_def)
qed

text \<open>
  The bounds do not protect the product of the duration and the rate: it overflows for one
  day at 44100 Hz.
\<close>
theorem loop_limit_overflow:
  "take_options fv s16 [(CHR ''s'', ''86400''), (CHR ''r'', ''44100'')] (conf0 s16) = Inr ((conf0 s16)\<lparr>loop_sec := 86400, rate := 44100\<rparr>)
   \<and> loop_limit ((conf0 s16)\<lparr>loop_sec := 86400, rate := 44100\<rparr>) = Inl (UB ''loop_sec * rate'')"
  by (simp add: take_option_def atoi_def int_or_ub_def is_digit_def digit_val_def int_ok_def clamp_def conf0_def loop_limit_def Let_def)

theorem options_bounds_witness:
  "conf_ok ((conf0 2)\<lparr>latency_min := 2500, latency_max := 2500, channels := 1\<rparr>)"
proof -
  have "take_options (\<lambda>_. None) 2 [(CHR ''m'', ''5000''), (CHR ''c'', '' 7000'')] (conf0 2) = Inr ((conf0 2)\<lparr>latency_min := 2500, latency_max := 2500, channels := 1\<rparr>)"
    by code_simp
  from options_bounds [OF this] show ?thesis .
qed

section \<open>The parameters of the devices\<close>

datatype dev = Playback | Capture

text \<open>
  What the program uses of the library: functions on hardware parameters \<open>'h\<close> (a set of possible
  configurations) and software parameters \<open>'s\<close>, with the error code they return.
\<close>

record ('h, 's) pcm_lib =
  hw_any :: "dev \<Rightarrow> int \<times> 'h"
  hw_resample :: "dev \<Rightarrow> 'h \<Rightarrow> bool \<Rightarrow> int \<times> 'h"
  hw_access :: "dev \<Rightarrow> 'h \<Rightarrow> int \<times> 'h"
  hw_format :: "dev \<Rightarrow> 'h \<Rightarrow> int \<Rightarrow> int \<times> 'h"
  hw_channels :: "dev \<Rightarrow> 'h \<Rightarrow> int \<Rightarrow> int \<times> 'h"
  hw_rate_near :: "dev \<Rightarrow> 'h \<Rightarrow> int \<Rightarrow> int \<times> int \<times> 'h"
  hw_buffer_near :: "dev \<Rightarrow> 'h \<Rightarrow> nat \<Rightarrow> int \<times> nat \<times> 'h"
  hw_period_near :: "dev \<Rightarrow> 'h \<Rightarrow> nat \<Rightarrow> int \<times> nat \<times> 'h"
  hw_set :: "dev \<Rightarrow> 'h \<Rightarrow> int"
  sw_current :: "dev \<Rightarrow> int \<times> 's"
  sw_start :: "dev \<Rightarrow> 's \<Rightarrow> nat \<Rightarrow> int \<times> 's"
  sw_avail_min :: "dev \<Rightarrow> 's \<Rightarrow> nat \<Rightarrow> int \<times> 's"
  sw_set :: "dev \<Rightarrow> 's \<Rightarrow> int"
  prepare :: "dev \<Rightarrow> int"
  period_size_of :: "'h \<Rightarrow> nat"
  period_time_of :: "'h \<Rightarrow> nat"
  buffer_size_of :: "'h \<Rightarrow> nat"
  periods_min_of :: "'h \<Rightarrow> nat"

type_synonym 'a err = "(string \<times> int) + 'a"

definition chk :: "string \<Rightarrow> int \<times> 'a \<Rightarrow> 'a err" where
  "chk msg r = (if fst r < 0 then Inl (msg, fst r) else Inr (snd r))"

definition EINVAL :: int where "EINVAL = 22"

definition setparams_stream :: "('h, 's) pcm_lib \<Rightarrow> conf \<Rightarrow> dev \<Rightarrow> 'h err" where
  "setparams_stream l c d =
     bindR (chk ''Broken configuration'' (hw_any l d)) (\<lambda>h.
     bindR (chk ''Resample setup failed'' (hw_resample l d h (resample c))) (\<lambda>h.
     bindR (chk ''Access type not available'' (hw_access l d h)) (\<lambda>h.
     bindR (chk ''Sample format not available'' (hw_format l d h (fmt c))) (\<lambda>h.
     bindR (chk ''Channels count not available'' (hw_channels l d h (channels c))) (\<lambda>h.
     bindR (chk ''Rate not available'' (hw_rate_near l d h (rate c))) (\<lambda>(rrate, h).
       if rrate \<noteq> rate c then Inl (''Rate doesn't match'', - EINVAL) else Inr h))))))"

definition setparams_bufsize :: "('h, 's) pcm_lib \<Rightarrow> conf \<Rightarrow> dev \<Rightarrow> 'h \<Rightarrow> nat \<Rightarrow> 'h err" where
  "setparams_bufsize l c d tparams bufsize =
     bindR (chk ''Unable to set buffer size'' (hw_buffer_near l d tparams (bufsize * 2))) (\<lambda>(periodsize, h).
     bindR (chk ''Unable to set period size''
         (hw_period_near l d h (if 0 < period_size c then nat (period_size c) else periodsize div 2))) (\<lambda>(_, h).
       Inr h))"

definition setparams_set :: "('h, 's) pcm_lib \<Rightarrow> conf \<Rightarrow> dev \<Rightarrow> 'h \<Rightarrow> unit err" where
  "setparams_set l c d h =
     bindR (chk ''Unable to set hw params'' (hw_set l d h, ())) (\<lambda>_.
     bindR (chk ''Unable to determine current swparams'' (sw_current l d)) (\<lambda>sw.
     bindR (chk ''Unable to set start threshold mode'' (sw_start l d sw 0x7fffffff)) (\<lambda>sw.
     bindR (chk ''Unable to set avail min'' (sw_avail_min l d sw (if block c then period_size_of l h else 4))) (\<lambda>sw.
     chk ''Unable to set sw params'' (sw_set l d sw, ())))))"

text \<open>In setparams every error ends the program with status 0.\<close>

definition or_exit :: "string \<Rightarrow> 'a err \<Rightarrow> 'a res" where
  "or_exit msg r = (case r of Inl _ \<Rightarrow> Inl (Exit 0 msg) | Inr x \<Rightarrow> Inr x)"

text \<open>
  From the label set_it on: the new value of \<open>bufsize\<close>, and the parameters that were installed, or
  \<open>None\<close> for a jump to the label again. The int is compared as an unsigned int, and an unsigned long
  is assigned to it.
\<close>

definition to_int :: "nat \<Rightarrow> int" where
  "to_int n = signed_take_bit 31 (int n)"

definition raise_to :: "nat \<Rightarrow> int \<Rightarrow> int" where
  "raise_to psize bufsize = (if bufsize mod 2 ^ 32 < int psize then to_int psize else bufsize)"

definition two_periods :: "('h, 's) pcm_lib \<Rightarrow> string \<Rightarrow> 'h \<Rightarrow> bool res" where
  "two_periods l msg h =
     (if period_size_of l h * 2 < buffer_size_of l h then
        if 2 < periods_min_of l h then Inl (Exit 0 msg) else Inr False
      else Inr True)"

definition set_it :: "('h, 's) pcm_lib \<Rightarrow> conf \<Rightarrow> 'h \<Rightarrow> 'h \<Rightarrow> int \<Rightarrow> (int \<times> ('h \<times> 'h) option) res" where
  "set_it l c pt ct bufsize =
     bindR (or_exit ''playback'' (setparams_bufsize l c Playback pt (nat (bufsize mod 2 ^ 64)))) (\<lambda>p.
     bindR (or_exit ''capture'' (setparams_bufsize l c Capture ct (nat (bufsize mod 2 ^ 64)))) (\<lambda>h.
     let bufsize = raise_to (period_size_of l h) (raise_to (period_size_of l p) bufsize) in
     if period_time_of l p \<noteq> period_time_of l h then Inr (bufsize, None)
     else bindR (two_periods l ''playback device does not support 2 periods per buffer'' p) (\<lambda>ok.
     if \<not> ok then Inr (bufsize, None)
     else bindR (two_periods l ''capture device does not support 2 periods per buffer'' h) (\<lambda>ok.
     if \<not> ok then Inr (bufsize, None)
     else bindR (or_exit ''playback'' (setparams_set l c Playback p)) (\<lambda>_.
     bindR (or_exit ''capture'' (setparams_set l c Capture h)) (\<lambda>_.
     bindR (or_exit ''Prepare error'' (chk ''prepare'' (prepare l Playback, ()))) (\<lambda>_.
       Inr (bufsize, Some (p, h)))))))))"

text \<open>
  From the label again on, for at most \<open>fuel\<close> rounds (\<open>None\<close>: not yet at the end). The result is
  the value of bufsize with the installed parameters, \<open>None\<close> when -1 is returned.
\<close>

fun again :: "('h, 's) pcm_lib \<Rightarrow> conf \<Rightarrow> 'h \<Rightarrow> 'h \<Rightarrow> nat \<Rightarrow> int \<Rightarrow> int \<Rightarrow> (int \<times> ('h \<times> 'h) option) res option" where
  "again l c pt ct 0 last_bufsize bufsize = None"
| "again l c pt ct (Suc fuel) last_bufsize bufsize =
     (if 0 < buffer_size c then Some (Inr (bufsize, None))
      else case (if last_bufsize = bufsize then int_or_ub ''bufsize + 4'' (bufsize + 4) else Inr bufsize) of
          Inl e \<Rightarrow> Some (Inl e)
        | Inr bufsize \<Rightarrow>
            if latency_max c < bufsize then Some (Inr (bufsize, None))
            else case set_it l c pt ct bufsize of
                Inl e \<Rightarrow> Some (Inl e)
              | Inr (b, Some hs) \<Rightarrow> Some (Inr (b, Some hs))
              | Inr (b, None) \<Rightarrow> again l c pt ct fuel bufsize b)"

definition setparams :: "('h, 's) pcm_lib \<Rightarrow> conf \<Rightarrow> nat \<Rightarrow> int \<Rightarrow> (int \<times> ('h \<times> 'h) option) res option" where
  "setparams l c fuel bufsize =
     (case or_exit ''playback'' (setparams_stream l c Playback) of
        Inl e \<Rightarrow> Some (Inl e)
      | Inr pt \<Rightarrow> (case or_exit ''capture'' (setparams_stream l c Capture) of
            Inl e \<Rightarrow> Some (Inl e)
          | Inr ct \<Rightarrow>
              if 0 < buffer_size c then
                case set_it l c pt ct (buffer_size c) of
                  Inl e \<Rightarrow> Some (Inl e)
                | Inr (b, Some hs) \<Rightarrow> Some (Inr (b, Some hs))
                | Inr (b, None) \<Rightarrow> again l c pt ct fuel bufsize b
              else again l c pt ct fuel bufsize bufsize))"

section \<open>The search ends and finds\<close>

text \<open>The hypothesis on the library: a period has fewer frames than an int can hold.\<close>

definition small_periods :: "('h, 's) pcm_lib \<Rightarrow> bool" where
  "small_periods l \<longleftrightarrow> (\<forall>h. period_size_of l h < 2 ^ 31)"

lemma raise_to_max: "psize < 2 ^ 31 \<Longrightarrow> 0 \<le> b \<Longrightarrow> b < 2 ^ 31 \<Longrightarrow> raise_to psize b = max b (int psize)"
  by (simp add: raise_to_def to_int_def signed_take_bit_int_eq_self)

lemma chk_ok: "chk msg (e, x) = Inr y \<longleftrightarrow> 0 \<le> e \<and> y = x"
  by (auto simp: chk_def)

lemma or_exit_ok: "or_exit msg r = Inr y \<longleftrightarrow> r = Inr y"
  by (simp add: or_exit_def split: sum.split)

lemma two_periods_ok: "two_periods l msg h = Inr True \<longleftrightarrow> buffer_size_of l h \<le> period_size_of l h * 2"
  by (simp add: two_periods_def)

text \<open>What the parameters that were installed satisfy.\<close>

definition accepted :: "('h, 's) pcm_lib \<Rightarrow> conf \<Rightarrow> int \<Rightarrow> 'h \<Rightarrow> 'h \<Rightarrow> bool" where
  "accepted l c b p h \<longleftrightarrow> b < 2 ^ 31 \<and> period_time_of l p = period_time_of l h
     \<and> buffer_size_of l p \<le> period_size_of l p * 2 \<and> buffer_size_of l h \<le> period_size_of l h * 2
     \<and> int (period_size_of l p) \<le> b \<and> int (period_size_of l h) \<le> b
     \<and> setparams_set l c Playback p = Inr () \<and> setparams_set l c Capture h = Inr () \<and> 0 \<le> prepare l Playback"

lemma set_it_ok:
  assumes st: "set_it l c pt ct b = Inr (b', r)" and l: "small_periods l" and b: "0 \<le> b" "b < 2 ^ 31"
  shows "b \<le> b' \<and> b' < 2 ^ 31 \<and> (\<forall>p h. r = Some (p, h) \<longrightarrow> accepted l c b' p h)"
proof -
  obtain p h where st': "(let bufsize = raise_to (period_size_of l h) (raise_to (period_size_of l p) b) in
     if period_time_of l p \<noteq> period_time_of l h then Inr (bufsize, None)
     else bindR (two_periods l ''playback device does not support 2 periods per buffer'' p) (\<lambda>ok.
     if \<not> ok then Inr (bufsize, None)
     else bindR (two_periods l ''capture device does not support 2 periods per buffer'' h) (\<lambda>ok.
     if \<not> ok then Inr (bufsize, None)
     else bindR (or_exit ''playback'' (setparams_set l c Playback p)) (\<lambda>_.
     bindR (or_exit ''capture'' (setparams_set l c Capture h)) (\<lambda>_.
     bindR (or_exit ''Prepare error'' (chk ''prepare'' (prepare l Playback, ()))) (\<lambda>_.
       Inr (bufsize, Some (p, h)))))))) = Inr (b', r)"
    using st unfolding set_it_def by (elim bindR_InrE) blast
  have pq: "period_size_of l p < 2 ^ 31" "period_size_of l h < 2 ^ 31" using l by (simp_all add: small_periods_def)
  then have r: "raise_to (period_size_of l h) (raise_to (period_size_of l p) b) = max (max b (int (period_size_of l p))) (int (period_size_of l h))"
    using b by (simp add: raise_to_max)
  show ?thesis using st' b pq unfolding r Let_def
    by (auto simp: res_simps or_exit_ok chk_ok two_periods_ok accepted_def split: if_splits)
qed

text \<open>One round: either the end, or a jump back with a larger value.\<close>

lemma again_round:
  assumes l: "small_periods l" and c: "buffer_size c \<le> 0" and la: "0 \<le> la" "la \<le> b" "b < 2 ^ 31"
  obtains r where "\<And>n. again l c pt ct (Suc n) la b = Some r"
      "\<And>b' p h. r = Inr (b', Some (p, h)) \<Longrightarrow> la < b' \<and> la < latency_max c \<and> accepted l c b' p h"
  | x y where "\<And>n. again l c pt ct (Suc n) la b = again l c pt ct n x y" "la < x" "x \<le> latency_max c" "x \<le> y" "y < 2 ^ 31"
proof (cases "if la = b then int_or_ub ''bufsize + 4'' (b + 4) else Inr b")
  case (Inl e)
  then show ?thesis using c by (intro that(1) [of "Inl e"]) simp_all
next
  case (Inr x)
  have x: "la < x" "x < 2 ^ 31" "0 \<le> x" using Inr la int_or_ub_ok [of _ "b + 4" x]
    by (auto simp: int_ok_def int_or_ub_def split: if_splits)
  show ?thesis
  proof (cases "latency_max c < x")
    case True
    then show ?thesis using Inr c by (intro that(1) [of "Inr (x, None)"]) simp_all
  next
    case False
    show ?thesis
    proof (cases "set_it l c pt ct x")
      case e: (Inl e)
      then show ?thesis using Inr c False by (intro that(1) [of "Inl e"]) simp_all
    next
      case (Inr z)
      obtain y r where z: "z = (y, r)" by fastforce
      have ok: "x \<le> y \<and> y < 2 ^ 31 \<and> (\<forall>p h. r = Some (p, h) \<longrightarrow> accepted l c y p h)"
        using set_it_ok [OF Inr [unfolded z] l x(3,2)] .
      show ?thesis
      proof (cases r)
        case None
        then show ?thesis using Inr z \<open>(if la = b then int_or_ub ''bufsize + 4'' (b + 4) else Inr b) = Inr x\<close> c False ok x
          by (intro that(2) [of x y]) simp_all
      next
        case (Some hs)
        then show ?thesis using Inr z \<open>(if la = b then int_or_ub ''bufsize + 4'' (b + 4) else Inr b) = Inr x\<close> c False ok x
          by (intro that(1) [of "Inr (y, Some hs)"]) auto
      qed
    qed
  qed
qed

lemma again_ends:
  assumes "small_periods l" "buffer_size c \<le> 0"
  shows "0 \<le> la \<Longrightarrow> la \<le> b \<Longrightarrow> b < 2 ^ 31 \<Longrightarrow> nat (latency_max c + 1 - la) < n \<Longrightarrow> again l c pt ct n la b \<noteq> None"
proof (induction n arbitrary: la b)
  case (Suc n)
  show ?case
  proof (rule again_round [OF assms Suc.prems(1-3), where pt = pt and ct = ct], goal_cases)
    case (2 x y)
    then have "nat (latency_max c + 1 - x) < n" using Suc.prems by linarith
    then show ?case using Suc.IH [of x y] 2 Suc.prems(1) by simp
  qed simp
qed simp

lemma again_accepts:
  assumes "small_periods l" "buffer_size c \<le> 0"
  shows "0 \<le> la \<Longrightarrow> la \<le> b \<Longrightarrow> b < 2 ^ 31 \<Longrightarrow> again l c pt ct n la b = Some (Inr (b', Some (p, h))) \<Longrightarrow> la < b' \<and> la < latency_max c \<and> accepted l c b' p h"
proof (induction n arbitrary: la b)
  case (Suc n)
  show ?case
  proof (rule again_round [OF assms Suc.prems(1-3), where pt = pt and ct = ct], goal_cases)
    case (1 r)
    then show ?case using Suc.prems(4) by simp
  next
    case (2 x y)
    then show ?case using Suc.IH [of x y] Suc.prems(1,4) by simp
  qed
qed simp

lemma again_given: "0 < buffer_size c \<Longrightarrow> again l c pt ct (Suc n) la b = Some (Inr (b, None))"
  by simp

lemma setparams_total:
  assumes "small_periods l" "0 \<le> bufsize" "bufsize < 2 ^ 31" "nat (latency_max c + 1 - bufsize) < n"
  shows "\<exists>r. setparams l c n bufsize = Some r"
proof -
  obtain m where m: "n = Suc m" using assms(4) by (cases n) auto
  have a: "buffer_size c \<le> 0 \<Longrightarrow> again l c pt ct n bufsize bufsize \<noteq> None" for pt ct using again_ends assms by fastforce
  then show ?thesis
    unfolding setparams_def by (auto simp: again_given m not_less split: sum.split option.split)
qed

text \<open>
  C25: The search ends: every jump back to again raises last_bufsize, which is given up above
  latency_max; so one round more than there are values left is enough.
\<close>
theorem setparams_ends:
  assumes "small_periods l" "0 \<le> bufsize" "bufsize < 2 ^ 31" "nat (latency_max c + 1 - bufsize) < n"
  shows "\<exists>r. setparams l c n bufsize = Some r"
  using assms by (rule setparams_total)

lemma setparams_accepts:
  assumes "small_periods l" "0 \<le> bufsize" "bufsize < 2 ^ 31" "conf_ok c" "setparams l c n bufsize = Some (Inr (b, Some (p, h)))"
  shows "accepted l c b p h \<and> (buffer_size c = 0 \<longrightarrow> bufsize < b \<and> bufsize < latency_max c)"
proof -
  obtain pt ct where "(if 0 < buffer_size c then
                case set_it l c pt ct (buffer_size c) of
                  Inl e \<Rightarrow> Some (Inl e)
                | Inr (b, Some hs) \<Rightarrow> Some (Inr (b, Some hs))
                | Inr (b, None) \<Rightarrow> again l c pt ct n bufsize b
              else again l c pt ct n bufsize bufsize) = Some (Inr (b, Some (p, h)))"
    using assms(5) unfolding setparams_def by (auto split: sum.splits)
  note r = this
  show ?thesis
  proof (cases "0 < buffer_size c")
    case True
    have "again l c pt ct n x y \<noteq> Some (Inr (b, Some (p, h)))" for x y using True by (cases n) auto
    then have "set_it l c pt ct (buffer_size c) = Inr (b, Some (p, h))" using r True by (auto split: sum.splits option.splits)
    then show ?thesis using set_it_ok [OF _ assms(1)] True assms(4) by (fastforce simp: conf_ok_def)
  next
    case False
    then have "again l c pt ct n bufsize bufsize = Some (Inr (b, Some (p, h)))" using r by simp
    with False show ?thesis using again_accepts [OF assms(1) _ assms(2) order_refl assms(3)] by (metis not_less)
  qed
qed

text \<open>
  What is installed is what the program wants: both devices have the same period time, at most
  two periods per buffer, and periods of at most bufsize frames; and without the option B bufsize
  has grown, so that a repeated call tries something new.
\<close>
theorem setparams_result:
  assumes "small_periods l" "0 \<le> bufsize" "bufsize < 2 ^ 31" "conf_ok c" "setparams l c n bufsize = Some (Inr (b, Some (p, h)))"
  shows "period_time_of l p = period_time_of l h
    \<and> buffer_size_of l p \<le> period_size_of l p * 2 \<and> buffer_size_of l h \<le> period_size_of l h * 2
    \<and> int (period_size_of l p) \<le> b \<and> int (period_size_of l h) \<le> b \<and> (buffer_size c = 0 \<longrightarrow> bufsize < b)"
  using setparams_accepts [OF assms] by (simp add: accepted_def)

text \<open>
  A library for examples: parameters are the buffer and the period size; devices accept periods of
  at least 64 frames and buffers of a multiple of 64, and both are rounded up.
\<close>

definition up64 :: "nat \<Rightarrow> nat" where
  "up64 n = max 64 ((n + 63) div 64 * 64)"

definition demo_lib :: "(nat \<times> nat, unit) pcm_lib" where
  "demo_lib = \<lparr>hw_any = (\<lambda>d. (0, (0, 0))), hw_resample = (\<lambda>d h _. (0, h)), hw_access = (\<lambda>d h. (0, h)), hw_format = (\<lambda>d h _. (0, h)),
     hw_channels = (\<lambda>d h _. (0, h)), hw_rate_near = (\<lambda>d h r. (0, r, h)), hw_buffer_near = (\<lambda>d h n. (0, up64 n, (up64 n, snd h))),
     hw_period_near = (\<lambda>d h n. (0, up64 n, (fst h, up64 n))), hw_set = (\<lambda>d h. 0), sw_current = (\<lambda>d. (0, ())),
     sw_start = (\<lambda>d s _. (0, s)), sw_avail_min = (\<lambda>d s _. (0, s)), sw_set = (\<lambda>d s. 0), prepare = (\<lambda>d. 0),
     period_size_of = (\<lambda>h. min 100000 (snd h)), period_time_of = (\<lambda>h. snd h div 48), buffer_size_of = fst, periods_min_of = (\<lambda>_. 2)\<rparr>"

lemma demo_small: "small_periods demo_lib"
  by (simp add: small_periods_def demo_lib_def min_less_iff_disj)

lemmas demo_simps = demo_lib_def conf0_def chk_def or_exit_def setparams_stream_def setparams_bufsize_def setparams_set_def
  two_periods_def raise_to_def to_int_def up64_def int_or_ub_def int_ok_def

lemma demo_set_it: "set_it demo_lib (conf0 2) (0, 0) (0, 0) 36 = Inr (64, Some ((128, 64), (128, 64)))"
  by (simp add: set_it_def demo_simps)

lemma demo_run: "setparams demo_lib (conf0 2) (Suc n) 32 = Some (Inr (64, Some ((128, 64), (128, 64))))"
proof -
  have "or_exit m (setparams_stream demo_lib (conf0 2) d) = Inr (0, 0)" for m d by (simp add: demo_simps)
  moreover have "again demo_lib (conf0 2) (0, 0) (0, 0) (Suc n) 32 32 = Some (Inr (64, Some ((128, 64), (128, 64))))"
    using demo_set_it by (simp add: int_or_ub_def int_ok_def) (simp add: conf0_def)
  ultimately show ?thesis unfolding setparams_def by (simp add: conf0_def del: again.simps)
qed

theorem setparams_ends_witness: "\<exists>r. setparams demo_lib (conf0 2) 2048 32 = Some r"
  using setparams_ends [OF demo_small, of 32 "conf0 2" 2048] by (simp add: conf0_def)

theorem setparams_result_witness: "buffer_size_of demo_lib (128, 64) \<le> period_size_of demo_lib (128, 64) * 2 \<and> (32 :: int) < 64"
proof -
  have "conf_ok (conf0 2)" by (simp add: conf_ok_def conf0_def)
  from setparams_result [OF demo_small _ _ this demo_run] show ?thesis by (simp add: conf0_def)
qed

end
