(* ===== verification/AlsaLatency.thy ===== *)
theory AlsaLatency
  imports AlsaParams
begin

text \<open>
  The second half of excerpts/alsa-test-latency.c: copying from the capture device to the playback
  device, the effect, the time stamps and the loop of main that tries larger latencies until a copy
  succeeds. What the devices answer is part of the state; a loop that waits for an answer that is
  not there has the value \<open>None\<close>. Buffers are lists of bytes and every access is checked.
\<close>

section \<open>Copying\<close>

definition EAGAIN :: int where "EAGAIN = 11"

text \<open>
  \<open>readi\<close>: the answers of snd_pcm_readi with the bytes it stores; \<open>writei\<close>: those of snd_pcm_writei.
  \<open>captured\<close> and \<open>played\<close> record all bytes that went through the devices.
\<close>

record 'b lat =
  readi :: "(int \<times> 'b list) list"
  writei :: "int list"
  buffer :: "'b list"
  captured :: "'b list"
  played :: "'b list"
  frames_in :: nat
  frames_out :: nat
  in_max :: nat

text \<open>The bytes of a frame; \<open>width\<close> is the width of a sample in bits.\<close>

definition frame_bytes :: "nat \<Rightarrow> conf \<Rightarrow> nat" where
  "frame_bytes width c = width div 8 * nat (channels c)"

text \<open>
  One answer of snd_pcm_readi, which stores at most \<open>len\<close> frames of \<open>fb\<close> bytes at offset \<open>off\<close>: the
  frames that were read, or the error.
\<close>

definition pcm_readi :: "nat \<Rightarrow> nat \<Rightarrow> int \<Rightarrow> int \<times> 'b list \<Rightarrow> 'b lat \<Rightarrow> (int \<times> 'b lat) res" where
  "pcm_readi fb off len ans s =
     (let r = min (fst ans) len; bs = take (nat r * fb) (snd ans) in
      if r \<le> 0 then Inr (r, s)
      else if length (buffer s) < off + nat r * fb \<or> length (snd ans) < nat r * fb then Inl (UB ''read into buffer'')
      else Inr (r, s\<lparr>buffer := take off (buffer s) @ bs @ drop (off + nat r * fb) (buffer s), captured := captured s @ bs\<rparr>))"

definition count_in :: "int \<Rightarrow> 'b lat \<Rightarrow> 'b lat" where
  "count_in r s =
     (if 0 < r then s\<lparr>frames_in := frames_in s + nat r, in_max := (if int (in_max s) < r then nat r else in_max s)\<rparr> else s)"

text \<open>readbuf in non-blocking mode, on the remaining answers.\<close>

fun read_nonblock :: "nat \<Rightarrow> int \<Rightarrow> (int \<times> 'b list) list \<Rightarrow> 'b lat \<Rightarrow> (int \<times> 'b lat) res option" where
  "read_nonblock fb len [] s = None"
| "read_nonblock fb len (a # as) s =
     (case pcm_readi fb 0 len a (s\<lparr>readi := as\<rparr>) of
        Inl e \<Rightarrow> Some (Inl e)
      | Inr (r, s) \<Rightarrow> if r = - EAGAIN then read_nonblock fb len as s else Some (Inr (r, count_in r s)))"

text \<open>readbuf in blocking mode.\<close>

fun read_block :: "nat \<Rightarrow> nat \<Rightarrow> int \<Rightarrow> (int \<times> 'b list) list \<Rightarrow> 'b lat \<Rightarrow> (int \<times> 'b lat) res option" where
  "read_block fb off len [] s = None"
| "read_block fb off len (a # as) s =
     (case pcm_readi fb off len a (s\<lparr>readi := as\<rparr>) of
        Inl e \<Rightarrow> Some (Inl e)
      | Inr (r, s) \<Rightarrow>
          let len = (if 0 < r then len - r else len) in
          if 1 \<le> r \<and> 0 < len then read_block fb (off + nat r * fb) len as (count_in r s)
          else Some (Inr (r, count_in r s)))"

definition readbuf :: "nat \<Rightarrow> conf \<Rightarrow> int \<Rightarrow> 'b lat \<Rightarrow> (int \<times> 'b lat) res option" where
  "readbuf width c len s =
     (if block c then read_block (frame_bytes width c) 0 len (readi s) s
      else read_nonblock (frame_bytes width c) len (readi s) s)"

text \<open>
  writebuf on the remaining answers, from offset \<open>off\<close>. The device takes frames of \<open>fb\<close> bytes; the
  pointer moves by four bytes for each.
\<close>

fun writebuf :: "nat \<Rightarrow> nat \<Rightarrow> int \<Rightarrow> int list \<Rightarrow> 'b lat \<Rightarrow> (int \<times> 'b lat) res option" where
  "writebuf fb off len [] s = (if len \<le> 0 then Some (Inr (0, s)) else None)"
| "writebuf fb off len (a # as) s =
     (if len \<le> 0 then Some (Inr (0, s))
      else let r = min a len; s = s\<lparr>writei := as\<rparr> in
        if r = - EAGAIN then writebuf fb off len as s
        else if r < 0 then Some (Inr (r, s))
        else if length (buffer s) < off + nat r * fb then Some (Inl (UB ''write from buffer''))
        else writebuf fb (off + nat r * 4) (len - r) as
          (s\<lparr>played := played s @ take (nat r * fb) (drop off (buffer s)), frames_out := frames_out s + nat r\<rparr>))"

section \<open>The effect\<close>

text \<open>
  The arithmetic of the filter on floats is an argument; what is modelled is the memory: three
  arrays each for x and y that malloc returned, with one element for every channel.
\<close>

record 'f filt =
  next_lfo :: "'f \<Rightarrow> 'f"
  coeffs :: "'f \<Rightarrow> 'f list"
  combine :: "'f list \<Rightarrow> 'f \<Rightarrow> 'f \<Rightarrow> 'f \<Rightarrow> 'f \<Rightarrow> 'f \<Rightarrow> 'f"
  of_short :: "int \<Rightarrow> 'f"
  to_short :: "'f \<Rightarrow> int"

type_synonym 'f cells = "'f option list list"

definition malloc_cells :: "conf \<Rightarrow> 'f cells" where
  "malloc_cells c = replicate 3 (replicate (nat (channels c)) None)"

definition get_cell :: "'f cells \<Rightarrow> nat \<Rightarrow> nat \<Rightarrow> 'f res" where
  "get_cell xs i k =
     (if i < length xs \<and> k < length (xs ! i) then
        (case xs ! i ! k of None \<Rightarrow> Inl (UB ''uninitialised'') | Some v \<Rightarrow> Inr v)
      else Inl (UB ''outside the array''))"

definition set_cell :: "'f cells \<Rightarrow> nat \<Rightarrow> nat \<Rightarrow> 'f \<Rightarrow> 'f cells res" where
  "set_cell xs i k v =
     (if i < length xs \<and> k < length (xs ! i) then Inr (xs[i := (xs ! i)[k := Some v]]) else Inl (UB ''outside the array''))"

definition copy_cell :: "'f cells \<Rightarrow> nat \<Rightarrow> nat \<Rightarrow> nat \<Rightarrow> 'f cells res" where
  "copy_cell xs i k j = bindR (get_cell xs i j) (set_cell xs i k)"

definition effect_channel :: "'f filt \<Rightarrow> 'f list \<Rightarrow> nat \<Rightarrow> int \<Rightarrow> 'f cells \<times> 'f cells \<Rightarrow> (int \<times> 'f cells \<times> 'f cells) res" where
  "effect_channel f co chn sample xy =
     (case xy of (x, y) \<Rightarrow>
      bindR (copy_cell x chn 2 1) (\<lambda>x. bindR (copy_cell x chn 1 0) (\<lambda>x.
      bindR (copy_cell y chn 2 1) (\<lambda>y. bindR (copy_cell y chn 1 0) (\<lambda>y.
      bindR (set_cell x chn 0 (of_short f sample)) (\<lambda>x.
      bindR (get_cell x chn 0) (\<lambda>x0. bindR (get_cell x chn 1) (\<lambda>x1. bindR (get_cell x chn 2) (\<lambda>x2.
      bindR (get_cell y chn 1) (\<lambda>y1. bindR (get_cell y chn 2) (\<lambda>y2.
      bindR (set_cell y chn 0 (combine f co x0 x1 x2 y1 y2)) (\<lambda>y.
        Inr (to_short f (combine f co x0 x1 x2 y1 y2), x, y)))))))))))))"

fun effect_frame :: "'f filt \<Rightarrow> 'f list \<Rightarrow> nat \<Rightarrow> int list \<Rightarrow> 'f cells \<times> 'f cells \<Rightarrow> (int list \<times> 'f cells \<times> 'f cells) res" where
  "effect_frame f co chn [] xy = Inr ([], xy)"
| "effect_frame f co chn (v # vs) xy =
     bindR (effect_channel f co chn v xy) (\<lambda>(w, xy). bindR (effect_frame f co (Suc chn) vs xy) (\<lambda>(ws, xy). Inr (w # ws, xy)))"

text \<open>The frames are given as lists of one sample for every channel.\<close>

fun applyeffect :: "'f filt \<Rightarrow> int list list \<Rightarrow> 'f \<Rightarrow> 'f cells \<times> 'f cells \<Rightarrow> (int list list \<times> 'f \<times> 'f cells \<times> 'f cells) res" where
  "applyeffect f [] lfo xy = Inr ([], lfo, xy)"
| "applyeffect f (fr # frs) lfo xy =
     bindR (effect_frame f (coeffs f lfo) 0 fr xy) (\<lambda>(fr, xy).
     bindR (applyeffect f frs (next_lfo f lfo) xy) (\<lambda>(frs, r). Inr (fr # frs, r)))"

section \<open>Time stamps\<close>

type_synonym stamp = "int \<times> int"

definition timediff :: "stamp \<Rightarrow> stamp \<Rightarrow> int" where
  "timediff t1 t2 =
     (let sec = fst t1 - fst t2; l = snd t1 - snd t2;
          (sec, l) = (if l < 0 then (sec - 1, (1000000 + l) smod 1000000) else (sec, l))
      in sec * 1000000 + l)"

definition hardware_sync :: "stamp \<Rightarrow> stamp \<Rightarrow> bool" where
  "hardware_sync p_tstamp c_tstamp \<longleftrightarrow> fst p_tstamp = fst p_tstamp \<and> snd p_tstamp = snd c_tstamp"

section \<open>The test\<close>

text \<open>
  The copying loop of main, for at most \<open>fuel\<close> rounds: whether it ended without error. \<open>eff\<close> is what
  the effect makes of the bytes of the buffer (applyeffect on the samples they stand for).
\<close>

fun transfer :: "nat \<Rightarrow> conf \<Rightarrow> (int \<Rightarrow> 'b list \<Rightarrow> 'b list res) \<Rightarrow> nat \<Rightarrow> int \<Rightarrow> nat \<Rightarrow> 'b lat \<Rightarrow> (bool \<times> 'b lat) res option" where
  "transfer width c eff limit latency 0 s = None"
| "transfer width c eff limit latency (Suc fuel) s =
     (if limit \<le> frames_in s then Some (Inr (True, s))
      else case readbuf width c latency s of
          None \<Rightarrow> None
        | Some (Inl e) \<Rightarrow> Some (Inl e)
        | Some (Inr (r, s)) \<Rightarrow>
            if r < 0 then Some (Inr (False, s))
            else (case (if effect c then eff r (buffer s) else Inr (buffer s)) of
                Inl e \<Rightarrow> Some (Inl e)
              | Inr buf \<Rightarrow> (case writebuf (frame_bytes width c) 0 r (writei s) (s\<lparr>buffer := buf\<rparr>) of
                  None \<Rightarrow> None
                | Some (Inl e) \<Rightarrow> Some (Inl e)
                | Some (Inr (w, s)) \<Rightarrow> if w < 0 then Some (Inr (False, s)) else transfer width c eff limit latency fuel s)))"

text \<open>snd_pcm_format_set_silence on \<open>n\<close> samples, when \<open>sil\<close> are the bytes of a silent sample.\<close>

definition set_silence :: "'b list \<Rightarrow> nat \<Rightarrow> 'b lat \<Rightarrow> 'b lat res" where
  "set_silence sil n s =
     (let bs = concat (replicate n sil) in
      if length (buffer s) < length bs then Inl (UB ''set_silence'') else Inr (s\<lparr>buffer := bs @ drop (length bs) (buffer s)\<rparr>))"

text \<open>What the library answers in one round of the loop of main.\<close>

record 'b round =
  r_readi :: "(int \<times> 'b list) list"
  r_writei :: "int list"
  r_link :: int
  r_silence :: int
  r_start :: int
  r_status :: "int list" \<comment> \<open>two calls of gettimestamp and two of showstat\<close>

datatype verdict = Success | Failure | Broken

definition try_latency :: "nat \<Rightarrow> conf \<Rightarrow> 'b list \<Rightarrow> (int \<Rightarrow> 'b list \<Rightarrow> 'b list res) \<Rightarrow> nat \<Rightarrow> nat \<Rightarrow> int \<Rightarrow> 'b round \<Rightarrow> 'b list
    \<Rightarrow> (verdict \<times> 'b lat) res option" where
  "try_latency width c sil eff limit fuel latency t buf =
     (let s = \<lparr>readi = r_readi t, writei = r_writei t, buffer = buf, captured = [], played = [], frames_in = 0, frames_out = 0, in_max = 0\<rparr>;
          fb = frame_bytes width c in
      if r_link t < 0 then Some (Inl (Exit 0 ''Streams link error''))
      else case set_silence sil (nat (latency * channels c)) s of
        Inl e \<Rightarrow> Some (Inl e)
      | Inr s \<Rightarrow>
      if r_silence t < 0 then Some (Inr (Broken, s))
      else case writebuf fb 0 latency (writei s) s of
        None \<Rightarrow> None
      | Some (Inl e) \<Rightarrow> Some (Inl e)
      | Some (Inr (w, s)) \<Rightarrow>
      if w < 0 then Some (Inr (Broken, s))
      else case writebuf fb 0 latency (writei s) s of
        None \<Rightarrow> None
      | Some (Inl e) \<Rightarrow> Some (Inl e)
      | Some (Inr (w, s)) \<Rightarrow>
      if w < 0 then Some (Inr (Broken, s))
      else if r_start t < 0 then Some (Inl (Exit 0 ''Go error''))
      else if \<exists>st \<in> set (take 2 (r_status t)). st < 0 then Some (Inl (Exit 0 ''Stream status error''))
      else case transfer width c eff limit latency fuel s of
        None \<Rightarrow> None
      | Some (Inl e) \<Rightarrow> Some (Inl e)
      | Some (Inr (fine, s)) \<Rightarrow>
      if \<exists>st \<in> set (drop 2 (r_status t)). st < 0 then Some (Inl (Exit 0 ''Stream status error''))
      else Some (Inr (if fine then Success else Failure, s)))"

text \<open>The loop of main over the rounds; the latency it ends with, and \<open>None\<close> as verdict when setparams gave up.\<close>

fun latency_loop :: "('h, 's) pcm_lib \<Rightarrow> nat \<Rightarrow> conf \<Rightarrow> 'b list \<Rightarrow> (int \<Rightarrow> 'b list \<Rightarrow> 'b list res) \<Rightarrow> nat \<Rightarrow> nat \<Rightarrow> 'b round list \<Rightarrow> int \<Rightarrow> 'b list
    \<Rightarrow> (int \<times> (verdict \<times> 'b lat) option) res option" where
  "latency_loop l width c sil eff limit fuel ts latency buf =
     (case setparams l c fuel latency of
        None \<Rightarrow> None
      | Some (Inl e) \<Rightarrow> Some (Inl e)
      | Some (Inr (b, None)) \<Rightarrow> Some (Inr (b, None))
      | Some (Inr (b, Some _)) \<Rightarrow>
          (case ts of
             [] \<Rightarrow> None
           | t # ts \<Rightarrow> (case try_latency width c sil eff limit fuel b t buf of
                None \<Rightarrow> None
              | Some (Inl e) \<Rightarrow> Some (Inl e)
              | Some (Inr (Failure, s)) \<Rightarrow> latency_loop l width c sil eff limit fuel ts b (buffer s)
              | Some (Inr (v, s)) \<Rightarrow> Some (Inr (b, Some (v, s))))))"

text \<open>The size of the buffer, an int expression.\<close>

definition malloc_size :: "nat \<Rightarrow> conf \<Rightarrow> nat res" where
  "malloc_size width c =
     bindR (int_or_ub ''buffer size'' (latency_max c * int width)) (\<lambda>z.
     bindR (int_or_ub ''buffer size'' (z sdiv 8 * 2)) (\<lambda>z. Inr (nat z)))"

text \<open>main: \<open>attach\<close>, \<open>popen\<close> and \<open>copen\<close> are the results of snd_output_stdio_attach and of opening the devices.\<close>

definition latency_main :: "('h, 's) pcm_lib \<Rightarrow> (string \<Rightarrow> int option) \<Rightarrow> int \<Rightarrow> (int \<Rightarrow> nat) \<Rightarrow> (char \<times> string) list \<Rightarrow> int \<Rightarrow> int \<Rightarrow> int
    \<Rightarrow> 'b list \<Rightarrow> (int \<Rightarrow> 'b list \<Rightarrow> 'b list res) \<Rightarrow> nat \<Rightarrow> 'b round list \<Rightarrow> (nat \<Rightarrow> 'b list)
    \<Rightarrow> (int \<times> (verdict \<times> 'b lat) option) option res option" where
  "latency_main l fv s16 width os attach popen copen sil eff fuel ts mem =
     (case take_options fv s16 os (conf0 s16) of
        Inl e \<Rightarrow> Some (Inl e)
      | Inr c \<Rightarrow>
      if 0 < morehelp c \<or> attach < 0 then Some (Inr None)
      else case loop_limit c of
        Inl e \<Rightarrow> Some (Inl e)
      | Inr limit \<Rightarrow> (case malloc_size (width (fmt c)) c of
        Inl e \<Rightarrow> Some (Inl e)
      | Inr bytes \<Rightarrow>
      if popen < 0 \<or> copen < 0 then Some (Inr None)
      else case latency_loop l (width (fmt c)) c sil eff limit fuel ts (latency_min c - 4) (mem bytes) of
        None \<Rightarrow> None
      | Some (Inl e) \<Rightarrow> Some (Inl e)
      | Some (Inr r) \<Rightarrow> Some (Inr (Some r))))"

section \<open>Properties\<close>

lemma smod_small: "0 \<le> x \<Longrightarrow> x < m \<Longrightarrow> x smod m = (x :: int)"
  by (simp add: signed_modulo_int_def sgn_if)

text \<open>timediff is the difference in microseconds.\<close>
theorem timediff_exact:
  assumes "0 \<le> snd t1" "snd t1 < 1000000" "0 \<le> snd t2" "snd t2 < 1000000"
  shows "timediff t1 t2 = (fst t1 * 1000000 + snd t1) - (fst t2 * 1000000 + snd t2)"
proof (cases "snd t1 - snd t2 < 0")
  case True
  then have "(1000000 + (snd t1 - snd t2)) smod 1000000 = 1000000 + (snd t1 - snd t2)"
    using assms by (intro smod_small) simp_all
  with True show ?thesis by (simp add: timediff_def Let_def algebra_simps)
qed (simp add: timediff_def Let_def algebra_simps)

text \<open>What writebuf does when a frame has four bytes.\<close>

definition wrote :: "'b lat \<Rightarrow> nat \<Rightarrow> 'b list \<Rightarrow> 'b lat \<Rightarrow> bool" where
  "wrote s n bs s' \<longleftrightarrow> played s' = played s @ bs \<and> frames_out s' = frames_out s + n \<and> frames_in s' = frames_in s
     \<and> captured s' = captured s \<and> buffer s' = buffer s"

lemma writebuf_ok:
  "writebuf 4 off len as s = Some (Inr (w, s')) \<Longrightarrow> 0 \<le> w \<Longrightarrow> 0 \<le> len \<Longrightarrow>
    wrote s (nat len) (take (4 * nat len) (drop off (buffer s))) s'"
proof (induction "4::nat" off len as s arbitrary: s' rule: writebuf.induct)
  case (1 off len s)
  then show ?case by (auto simp: wrote_def split: if_splits)
next
  case (2 off len a as s)
  show ?case
  proof (cases "len \<le> 0")
    case True
    with 2 show ?thesis by (auto simp: wrote_def)
  next
    case False
    let ?r = "min a len"
    show ?thesis
    proof (cases "?r = - EAGAIN")
      case True
      then show ?thesis using 2(1) [OF False refl refl True] 2(3-5) False by (simp add: Let_def wrote_def)
    next
      case ne: False
      have r: "\<not> ?r < 0" "\<not> length (buffer s) < off + nat ?r * 4"
        using 2(3,4) False ne by (auto simp: Let_def split: if_splits)
      have "wrote (s\<lparr>writei := as, played := played s @ take (nat ?r * 4) (drop off (buffer s)), frames_out := frames_out s + nat ?r\<rparr>)
          (nat (len - ?r)) (take (4 * nat (len - ?r)) (drop (off + nat ?r * 4) (buffer s))) s'"
        using 2(2) [OF False refl refl ne r(1)] r(2) 2(3,4) False ne r by (simp add: Let_def)
      moreover have "take (nat ?r * 4) (drop off (buffer s)) @ take (4 * nat (len - ?r)) (drop (off + nat ?r * 4) (buffer s))
          = take (4 * nat len) (drop off (buffer s))"
      proof -
        have "4 * nat len = nat ?r * 4 + 4 * nat (len - ?r)" using r(1) False by linarith
        then show ?thesis by (simp add: take_add add.commute)
      qed
      moreover have "nat ?r + nat (len - ?r) = nat len" using r(1) False by linarith
      ultimately show ?thesis by (simp add: wrote_def)
    qed
  qed
qed

lemma read_nonblock_ok:
  "read_nonblock fb len as s = Some (Inr (r, s')) \<Longrightarrow> 0 \<le> r \<Longrightarrow>
    frames_in s' = frames_in s + nat r \<and> captured s' = captured s @ take (nat r * fb) (buffer s')
    \<and> length (buffer s') = length (buffer s) \<and> played s' = played s \<and> frames_out s' = frames_out s"
proof (induction fb len as s rule: read_nonblock.induct)
  case (2 fb len a as s)
  obtain x t where p: "pcm_readi fb 0 len a (s\<lparr>readi := as\<rparr>) = Inr (x, t)"
    using 2(2) by (auto split: sum.splits)
  have t: "length (buffer t) = length (buffer s) \<and> played t = played s \<and> frames_out t = frames_out s \<and> frames_in t = frames_in s
      \<and> captured t = captured s @ take (nat x * fb) (if 0 < x then buffer t else [])"
    using p by (auto simp: pcm_readi_def Let_def split: if_splits)
  show ?case
  proof (cases "x = - EAGAIN")
    case True
    with 2 p t show ?thesis by (auto simp: EAGAIN_def)
  next
    case False
    with 2(2,3) p t show ?thesis by (auto simp: count_in_def split: if_splits)
  qed
qed simp

definition plain :: "nat \<Rightarrow> conf \<Rightarrow> bool" where
  "plain width c \<longleftrightarrow> frame_bytes width c = 4 \<and> \<not> block c \<and> \<not> effect c"

lemma transfer_ok:
  assumes c: "plain width c"
  shows "transfer width c eff limit latency fuel s = Some (Inr (True, s')) \<Longrightarrow>
    limit \<le> frames_in s' \<and> (\<exists>bs. captured s' = captured s @ bs \<and> played s' = played s @ bs)
    \<and> frames_out s' + frames_in s = frames_out s + frames_in s'"
proof (induction fuel arbitrary: s)
  case (Suc fuel)
  show ?case
  proof (cases "limit \<le> frames_in s")
    case False
    with Suc.prems c obtain r t w u where r: "readbuf width c latency s = Some (Inr (r, t))" "0 \<le> r"
      and w: "writebuf 4 0 r (writei t) t = Some (Inr (w, u))" "0 \<le> w"
      and tr: "transfer width c eff limit latency fuel u = Some (Inr (True, s'))"
      by (auto simp: plain_def split: option.splits sum.splits if_splits)
    from r c have "captured t = captured s @ take (nat r * 4) (buffer t)" "played t = played s" "frames_out t = frames_out s"
        "frames_in t = frames_in s + nat r"
      using read_nonblock_ok [of 4 latency "readi s" s r t] by (auto simp: readbuf_def plain_def)
    with writebuf_ok [OF w r(2)] Suc.IH [OF tr] show ?thesis by (auto simp: wrote_def mult.commute)
  qed (use Suc.prems in auto)
qed simp

text \<open>
  C23: In non-blocking mode with frames of four bytes, a successful round has copied: the playback device
  got twice the latency in silence and then exactly the captured bytes, so that the two frame
  counts differ by twice the latency, and at least the required number of frames was captured.
\<close>
theorem success_copies:
  assumes "plain width c" "try_latency width c sil eff limit fuel latency t buf = Some (Inr (Success, s))"
    and "length sil * 8 = width" "width mod 8 = 0" "0 \<le> latency" "0 \<le> channels c"
  shows "played s = concat (replicate (2 * nat (latency * channels c)) sil) @ captured s
    \<and> frames_out s = frames_in s + 2 * nat latency \<and> limit \<le> frames_in s"
proof -
  let ?s0 = "\<lparr>readi = r_readi t, writei = r_writei t, buffer = buf, captured = [], played = [], frames_in = 0, frames_out = 0, in_max = 0\<rparr>"
  let ?bs = "concat (replicate (nat (latency * channels c)) sil)"
  have fb: "frame_bytes width c = 4" using assms(1) by (simp add: plain_def)
  have len: "length ?bs = 4 * nat latency"
  proof -
    have "length sil * nat (channels c) = 4" using fb assms(3) by (auto simp: frame_bytes_def)
    then show ?thesis using assms(5,6) by (simp add: length_concat sum_list_replicate nat_mult_distrib) (metis mult.assoc mult.commute)
  qed
  obtain a b d w v where a: "set_silence sil (nat (latency * channels c)) ?s0 = Inr a"
    and b: "writebuf 4 0 latency (writei a) a = Some (Inr (w, b))" "0 \<le> w"
    and d: "writebuf 4 0 latency (writei b) b = Some (Inr (v, d))" "0 \<le> v"
    and tr: "transfer width c eff limit latency fuel d = Some (Inr (True, s))"
    using assms(2) unfolding try_latency_def Let_def fb by (auto split: if_splits sum.splits option.splits)
  have s: "take (4 * nat latency) (buffer a) = ?bs" "captured a = []" "played a = []" "frames_in a = 0" "frames_out a = 0"
    using a len by (auto simp: set_silence_def Let_def split: if_splits)
  have "played d = ?bs @ ?bs" "captured d = []" "frames_in d = 0" "frames_out d = 2 * nat latency"
    using writebuf_ok [OF b assms(5)] writebuf_ok [OF d assms(5)] s by (auto simp: wrote_def)
  then show ?thesis using transfer_ok [OF assms(1) tr] by (auto simp: mult_2 replicate_add)
qed

text \<open>
  The devices answer: up to \<open>n\<close> calls that are not told to try again transfer something, or one of them
  is an error.
\<close>

fun supplies :: "nat \<Rightarrow> int list \<Rightarrow> bool" where
  "supplies 0 as \<longleftrightarrow> True"
| "supplies (Suc n) [] \<longleftrightarrow> False"
| "supplies (Suc n) (a # as) \<longleftrightarrow> (if a = - EAGAIN then supplies (Suc n) as else a < 0 \<or> 0 < a \<and> supplies n as)"

lemma supplies_less: "supplies n as \<Longrightarrow> m \<le> n \<Longrightarrow> supplies m as"
proof (induction n as arbitrary: m rule: supplies.induct)
  case (3 n a as)
  then show ?case by (cases m) (auto split: if_splits)
qed auto

text \<open>Then the loops in writebuf and readbuf end.\<close>

definition rest_ok :: "('b lat \<Rightarrow> int \<Rightarrow> bool) \<Rightarrow> (int \<times> 'b lat) res \<Rightarrow> bool" where
  "rest_ok P r \<longleftrightarrow> (\<forall>x s. r = Inr (x, s) \<and> 0 \<le> x \<longrightarrow> P s x)"

lemma writebuf_ends:
  assumes "supplies n as" "nat len \<le> n" "writei s = as"
  shows "\<exists>r. writebuf fb off len as s = Some r
    \<and> rest_ok (\<lambda>s' x. supplies (n - nat len) (writei s') \<and> readi s' = readi s \<and> frames_in s' = frames_in s) r"
  using assms
proof (induction fb off len as s arbitrary: n rule: writebuf.induct)
  case (1 fb off len s)
  then show ?case by (cases n) (auto simp: rest_ok_def)
next
  case (2 fb off len a as s)
  show ?case
  proof (cases "len \<le> 0")
    case False
    let ?r = "min a len"
    obtain m where m: "n = Suc m" using False 2(4) by (cases n) auto
    show ?thesis
    proof (cases "?r = - EAGAIN")
      case True
      then have "a = - EAGAIN" using False by (auto simp: min_def EAGAIN_def split: if_splits)
      then have "supplies n as" using 2(3) m by simp
      from 2(1) [OF False refl refl True this 2(4)] show ?thesis using False True by (simp add: Let_def)
    next
      case ne: False
      show ?thesis
      proof (cases "?r < 0 \<or> length (buffer s) < off + nat ?r * fb")
        case True
        then show ?thesis using False ne by (auto simp: Let_def rest_ok_def)
      next
        case go: False
        then have "a \<noteq> - EAGAIN" "\<not> a < 0" using False by (auto simp: EAGAIN_def min_def)
        then have a: "0 < a" "supplies m as" using 2(3) m by auto
        have r: "0 < ?r" "nat (len - ?r) \<le> m" "n - nat len \<le> m - nat (len - ?r)" using a(1) False 2(4) m by auto
        let ?s = "s\<lparr>writei := as, played := played s @ take (nat ?r * fb) (drop off (buffer s)), frames_out := frames_out s + nat ?r\<rparr>"
        have st: "writebuf fb off len (a # as) s = writebuf fb (off + nat ?r * 4) (len - ?r) as ?s"
          using False ne go by (simp add: Let_def)
        obtain x where x: "writebuf fb (off + nat ?r * 4) (len - ?r) as ?s = Some x"
          "rest_ok (\<lambda>s' x. supplies (m - nat (len - ?r)) (writei s') \<and> readi s' = readi ?s \<and> frames_in s' = frames_in ?s) x"
          using 2(2) [OF False refl refl ne _ _ a(2) r(2)] go by auto
        then show ?thesis unfolding st using supplies_less [OF _ r(3)] by (auto simp: rest_ok_def)
      qed
    qed
  qed (use 2 in \<open>simp add: rest_ok_def\<close>)
qed

text \<open>What a read leaves when it is not an error: it has made \<open>k\<close> calls and got at least as many frames.\<close>

definition has_read :: "nat \<Rightarrow> int \<Rightarrow> 'b lat \<Rightarrow> 'b lat \<Rightarrow> int \<Rightarrow> bool" where
  "has_read n len s s' x \<longleftrightarrow> 0 < x \<and> writei s' = writei s
     \<and> (\<exists>k g. k \<le> g \<and> nat x \<le> g \<and> g \<le> nat len \<and> frames_in s' = frames_in s + g \<and> supplies (n - k) (map fst (readi s')))"

lemma pcm_readi_frame:
  "pcm_readi fb off len a s = Inr (x, t) \<Longrightarrow> x = min (fst a) len \<and> readi t = readi s \<and> writei t = writei s \<and> frames_in t = frames_in s"
  by (auto simp: pcm_readi_def Let_def split: if_splits)

lemma read_nonblock_ends:
  assumes "supplies n (map fst as)" "0 < n" "0 < len"
  shows "\<exists>r. read_nonblock fb len as s = Some r \<and> rest_ok (has_read n len s) r"
  using assms
proof (induction fb len as s rule: read_nonblock.induct)
  case (1 fb len s)
  then show ?case by (cases n) auto
next
  case (2 fb len a as s)
  obtain m where m: "n = Suc m" using 2(3) by (cases n) auto
  show ?case
  proof (cases "pcm_readi fb 0 len a (s\<lparr>readi := as\<rparr>)")
    case (Inr y)
    obtain x t where y: "y = (x, t)" by fastforce
    have p: "x = min (fst a) len" "readi t = as" "writei t = writei s" "frames_in t = frames_in s"
      using pcm_readi_frame [OF Inr [unfolded y]] by auto
    show ?thesis
    proof (cases "x = - EAGAIN")
      case True
      then have "fst a = - EAGAIN" using p(1) 2(4) by (auto simp: min_def EAGAIN_def split: if_splits)
      then have "supplies n (map fst as)" using 2(2) m by simp
      from 2(1) [OF Inr y [symmetric] True this 2(3,4)] show ?thesis
        using True Inr y p by (auto simp: rest_ok_def has_read_def)
    next
      case False
      have "has_read n len s (count_in x t) x" if "0 \<le> x"
      proof -
        have "fst a \<noteq> - EAGAIN" "\<not> fst a < 0" using that p(1) by (auto simp: EAGAIN_def)
        then have "0 < fst a" "supplies m (map fst as)" using 2(2) m by auto
        then show ?thesis using p m 2(4) unfolding has_read_def
          by (intro conjI exI [of _ 1] exI [of _ "nat x"]) (auto simp: count_in_def)
      qed
      then show ?thesis using False Inr y by (auto simp: rest_ok_def)
    qed
  qed (simp add: rest_ok_def)
qed

lemma read_block_ends:
  assumes "supplies n (map fst as)" "nat len \<le> n" "0 < len"
  shows "\<exists>r. read_block fb off len as s = Some r \<and> rest_ok (has_read n len s) r"
  using assms
proof (induction fb off len as s arbitrary: n rule: read_block.induct)
  case (1 fb off len s)
  then show ?case by (cases n) auto
next
  case (2 fb off len a as s)
  obtain m where m: "n = Suc m" using 2(3,4) by (cases n) auto
  show ?case
  proof (cases "pcm_readi fb off len a (s\<lparr>readi := as\<rparr>)")
    case (Inr y)
    obtain x t where y: "y = (x, t)" by fastforce
    have p: "x = min (fst a) len" "readi t = as" "writei t = writei s" "frames_in t = frames_in s"
      using pcm_readi_frame [OF Inr [unfolded y]] by auto
    let ?len = "if 0 < x then len - x else len"
    show ?thesis
    proof (cases "0 \<le> x")
      case False
      then show ?thesis using Inr y by (auto simp: Let_def rest_ok_def)
    next
      case True
      have "fst a \<noteq> - EAGAIN" "\<not> fst a < 0" using True p(1) by (auto simp: EAGAIN_def)
      then have a: "0 < x" "supplies m (map fst as)" using 2(2,4) m p(1) by auto
      have c: "readi (count_in x t) = as" "writei (count_in x t) = writei s" "frames_in (count_in x t) = frames_in s + nat x"
        using a(1) p by (simp_all add: count_in_def)
      show ?thesis
      proof (cases "1 \<le> x \<and> 0 < ?len")
        case True
        have "nat ?len \<le> m" using a(1) 2(3) m by (simp add: nat_le_iff)
        from 2(1) [OF Inr y [symmetric] refl True a(2) this conjunct2 [OF True]]
        obtain r where r: "read_block fb (off + nat x * fb) ?len as (count_in x t) = Some r" "rest_ok (has_read m ?len (count_in x t)) r"
          by blast
        have "rest_ok (has_read n len s) r"
          unfolding rest_ok_def
        proof (intro allI impI)
          fix z u
          assume "r = Inr (z, u) \<and> 0 \<le> z"
          then have "has_read m ?len (count_in x t) u z" using r(2) by (simp add: rest_ok_def)
          then obtain k g where k: "0 < z" "writei u = writei s" "k \<le> g" "nat z \<le> g" "g \<le> nat ?len"
            "frames_in u = frames_in s + nat x + g" "supplies (m - k) (map fst (readi u))" by (auto simp: has_read_def c)
          then show "has_read n len s u z" unfolding has_read_def
            using a(1) m True by (intro conjI exI [of _ "Suc k"] exI [of _ "nat x + g"]) auto
        qed
        moreover have "read_block fb off len (a # as) s = Some r"
          using Inr y True r(1) by (simp add: Let_def split: if_splits)
        ultimately show ?thesis by blast
      next
        case False
        have "has_read n len s (count_in x t) x" unfolding has_read_def
          using a c m p(1) by (intro conjI exI [of _ 1] exI [of _ "nat x"]) auto
        then show ?thesis using Inr y False by (auto simp: Let_def rest_ok_def)
      qed
    qed
  qed (simp add: Let_def rest_ok_def)
qed

lemma readbuf_ends:
  assumes "supplies n (map fst (readi s))" "nat len \<le> n" "0 < len"
  shows "\<exists>r. readbuf width c len s = Some r \<and> rest_ok (has_read n len s) r"
  using read_block_ends [OF assms] read_nonblock_ends [OF assms(1) _ assms(3)] assms(2,3) by (simp add: readbuf_def)

text \<open>The copying: every pass of the loop gets a frame or ends it.\<close>

lemma transfer_ends:
  assumes l: "0 < latency"
  shows "limit - frames_in s < fuel \<Longrightarrow> frames_in s \<le> limit + nat latency \<Longrightarrow>
    supplies (limit + nat latency - frames_in s) (map fst (readi s)) \<Longrightarrow> supplies (limit + nat latency - frames_in s) (writei s) \<Longrightarrow>
    \<exists>r. transfer width c eff limit latency fuel s = Some r"
proof (induction fuel arbitrary: s)
  case (Suc fuel)
  let ?n = "limit + nat latency - frames_in s"
  show ?case
  proof (cases "limit \<le> frames_in s")
    case False
    then have "nat latency \<le> ?n" by simp
    from readbuf_ends [OF Suc.prems(3) this l] obtain y where y: "readbuf width c latency s = Some y" "rest_ok (has_read ?n latency s) y"
      by blast
    show ?thesis
    proof (cases "\<exists>x t. y = Inr (x, t) \<and> 0 \<le> x")
      case True
      then obtain x t where x: "y = Inr (x, t)" "0 \<le> x" by blast
      then obtain k g where k: "0 < x" "writei t = writei s" "k \<le> g" "nat x \<le> g" "g \<le> nat latency"
        "frames_in t = frames_in s + g" "supplies (?n - k) (map fst (readi t))" using y(2) by (auto simp: rest_ok_def has_read_def)
      show ?thesis
      proof (cases "if effect c then eff x (buffer t) else Inr (buffer t)")
        case (Inr buf)
        let ?t = "t\<lparr>buffer := buf\<rparr>"
        have "supplies ?n (writei ?t)" "nat x \<le> ?n" using Suc.prems(4) k False by simp_all
        from writebuf_ends [OF this refl] obtain z where z: "writebuf (frame_bytes width c) 0 x (writei ?t) ?t = Some z"
          "rest_ok (\<lambda>s' w. supplies (?n - nat x) (writei s') \<and> readi s' = readi ?t \<and> frames_in s' = frames_in ?t) z"
          by blast
        show ?thesis
        proof (cases "\<exists>w u. z = Inr (w, u) \<and> 0 \<le> w")
          case True
          then obtain w u where u: "z = Inr (w, u)" "0 \<le> w" by blast
          then have u': "supplies (?n - nat x) (writei u)" "readi u = readi t" "frames_in u = frames_in s + g"
            using z(2) k(6) by (auto simp: rest_ok_def)
          have "supplies (limit + nat latency - frames_in u) (map fst (readi u))" "supplies (limit + nat latency - frames_in u) (writei u)"
            using supplies_less [OF k(7), of "limit + nat latency - frames_in u"] supplies_less [OF u'(1), of "limit + nat latency - frames_in u"]
              u' k(3,4) by simp_all
          moreover have "limit - frames_in u < fuel" "frames_in u \<le> limit + nat latency" using u'(3) k(1,4,5) Suc.prems(1) False by simp_all
          ultimately have "\<exists>r. transfer width c eff limit latency fuel u = Some r" by (intro Suc.IH)
          then show ?thesis using False y(1) x z(1) u Inr by (simp split: if_splits)
        next
          case bad: False
          then show ?thesis using False y(1) x z(1) Inr by (cases z) (auto split: if_splits)
        qed
      qed (use False y(1) x in \<open>auto split: if_splits\<close>)
    next
      case bad: False
      then show ?thesis using False y(1) by (cases y) auto
    qed
  qed simp
qed simp

definition lively :: "nat \<Rightarrow> int \<Rightarrow> 'b round \<Rightarrow> bool" where
  "lively limit latency t \<longleftrightarrow> supplies (limit + 3 * nat latency) (map fst (r_readi t)) \<and> supplies (limit + 3 * nat latency) (r_writei t)"

lemma try_latency_ends:
  assumes "lively limit latency t" "0 < latency" "limit < fuel"
  shows "\<exists>r. try_latency width c sil eff limit fuel latency t buf = Some r"
proof -
  let ?n = "limit + 3 * nat latency" and ?fb = "frame_bytes width c"
  let ?s = "\<lparr>readi = r_readi t, writei = r_writei t, buffer = buf, captured = [], played = [], frames_in = 0, frames_out = 0, in_max = 0\<rparr>"
  have n: "supplies ?n (map fst (r_readi t))" "supplies ?n (r_writei t)" "nat latency \<le> ?n" "nat latency \<le> ?n - nat latency"
    using assms(1) by (simp_all add: lively_def)
  have go: "\<exists>r. transfer width c eff limit latency fuel u = Some r"
    if "supplies (?n - nat latency - nat latency) (writei u)" "readi u = r_readi t" "frames_in u = 0" for u
    using that n(1) assms(2,3) supplies_less [of ?n "map fst (r_readi t)" "limit + nat latency"] by (intro transfer_ends) (simp_all add: add.commute)
  show ?thesis
  proof (cases "set_silence sil (nat (latency * channels c)) ?s")
    case (Inr a)
    then have a: "writei a = r_writei t" "readi a = r_readi t" "frames_in a = 0"
      by (auto simp: set_silence_def Let_def split: if_splits)
    obtain y where y: "writebuf ?fb 0 latency (writei a) a = Some y"
      "rest_ok (\<lambda>s' w. supplies (?n - nat latency) (writei s') \<and> readi s' = readi a \<and> frames_in s' = frames_in a) y"
      using writebuf_ends [of ?n "writei a" latency a ?fb 0] n(2,3) a by auto
    have two: "\<exists>z. writebuf ?fb 0 latency (writei b) b = Some z
        \<and> rest_ok (\<lambda>s' w. supplies (?n - nat latency - nat latency) (writei s') \<and> readi s' = r_readi t \<and> frames_in s' = 0) z"
      if "y = Inr (w, b)" "0 \<le> w" for w b
      using writebuf_ends [of "?n - nat latency" "writei b" latency b ?fb 0] y(2) that n(4) a by (auto simp: rest_ok_def)
    show ?thesis
    proof (cases "\<exists>w b z v d. y = Inr (w, b) \<and> 0 \<le> w \<and> writebuf ?fb 0 latency (writei b) b = Some z \<and> z = Inr (v, d) \<and> 0 \<le> v")
      case True
      then obtain w b v d where d: "y = Inr (w, b)" "0 \<le> w" "writebuf ?fb 0 latency (writei b) b = Some (Inr (v, d))" "0 \<le> v" by blast
      from two [OF d(1,2)] d(3,4) have "supplies (?n - nat latency - nat latency) (writei d)" "readi d = r_readi t" "frames_in d = 0"
        by (auto simp: rest_ok_def)
      from go [OF this] obtain r where r: "transfer width c eff limit latency fuel d = Some r" by blast
      show ?thesis unfolding try_latency_def Let_def using Inr y(1) d r by (cases r) auto
    next
      case False
      then show ?thesis unfolding try_latency_def Let_def using Inr y(1) two by (cases y) (fastforce split: sum.split)+
    qed
  qed (simp add: try_latency_def Let_def)
qed

text \<open>
  C28: Without the option B the test ends, whatever the rounds do: every round raises the latency, and setparams gives up
  above latency_max. What is assumed of the sound library: a period has fewer than 2 to the 31 frames, and in each
  round the devices answer the calls that wait for them, so that after any number of EAGAIN a call transfers a
  frame or fails (for as many frames as the largest latency needs). \<open>limit\<close> passes of the copying loop
  and \<open>latency_max\<close> rounds are enough.
\<close>
theorem latency_loop_ends:
  assumes l: "small_periods l" and c: "conf_ok c" "buffer_size c = 0"
    and fuel: "nat (latency_max c + 1) < fuel" "limit < fuel"
    and rounds: "\<forall>t \<in> set ts. lively limit (2 ^ 31) t"
    and long: "0 \<le> latency" "latency < 2 ^ 31" "nat (latency_max c + 1 - latency) < length ts"
  shows "\<exists>r. latency_loop l width c sil eff limit fuel ts latency buf = Some r"
  using rounds long
proof (induction ts arbitrary: latency buf)
  case (Cons t ts)
  obtain r where r: "setparams l c fuel latency = Some r"
    using setparams_total [OF l Cons.prems(2,3), of c fuel] fuel Cons.prems(2) by fastforce
  show ?case
  proof (cases r)
    case (Inr z)
    obtain b o1 where z: "z = (b, o1)" by fastforce
    show ?thesis
    proof (cases o1)
      case (Some hs)
      have a: "b < 2 ^ 31" "latency < b" "latency < latency_max c"
        using setparams_accepts [OF l Cons.prems(2,3) c(1), of fuel b "fst hs" "snd hs"] r Inr z Some c(2) by (auto simp: accepted_def)
      have IH: "\<exists>r. latency_loop l width c sil eff limit fuel ts b buf' = Some r" for buf'
        using Cons.prems(1,2,4) a by (intro Cons.IH) auto
      have "lively limit b t"
        using Cons.prems(1) supplies_less [of "limit + 3 * nat (2 ^ 31)" _ "limit + 3 * nat b"] a(1) by (simp add: lively_def)
      then obtain y where "try_latency width c sil eff limit fuel b t buf = Some y"
        using try_latency_ends [of limit b t fuel] fuel(2) a(2) Cons.prems(2) by fastforce
      then show ?thesis using r Inr z Some IH
        by (cases y) (auto split: verdict.split)
    qed (use r Inr z in simp)
  qed (use r in simp)
qed simp

text \<open>
  With the option B the same size is tried again and again: however many rounds fail, the test goes on.
\<close>
theorem fixed_size_never_ends:
  assumes "0 < buffer_size c" "setparams l c fuel latency = Some (Inr (b, Some hs))"
    and "\<forall>t \<in> set ts. \<forall>buf. length buf = n \<longrightarrow>
      (\<exists>s. try_latency width c sil eff limit fuel b t buf = Some (Inr (Failure, s)) \<and> length (buffer s) = n)"
    and "length buf = n"
  shows "latency_loop l width c sil eff limit fuel ts latency buf = None"
proof -
  have same: "setparams l c fuel x = Some (Inr (b, Some hs))" for x
  proof -
    have "again l c pt ct fuel y z \<noteq> Some (Inr (b, Some hs))" for pt ct y z using assms(1) by (cases fuel) auto
    then show ?thesis using assms(1,2) unfolding setparams_def by (auto split: sum.splits option.splits)
  qed
  show ?thesis using assms(3,4)
  proof (induction ts arbitrary: latency buf)
    case (Cons t ts)
    obtain s where "try_latency width c sil eff limit fuel b t buf = Some (Inr (Failure, s))" "length (buffer s) = n"
      using Cons.prems by force
    then show ?case using Cons same by simp
  qed (simp add: same)
qed

text \<open>
  The buffer is allocated for latency_max frames: with one or two channels it has room for any latency
  up to that.
\<close>
theorem buffer_room:
  assumes "malloc_size width c = Inr (length (buffer s))" "length sil * 8 = width" "channels c \<le> 2" "0 \<le> latency" "latency \<le> latency_max c"
  shows "\<exists>s'. set_silence sil (nat (latency * channels c)) s = Inr s' \<and> length (buffer s') = length (buffer s)"
proof -
  let ?w = "int (length sil)"
  have w: "int width = ?w * 8" using assms(2) by simp
  have "length (buffer s) = nat (latency_max c * ?w * 2)"
  proof -
    have "latency_max c * int width sdiv 8 = latency_max c * ?w"
      unfolding w using assms(4,5) by (simp add: signed_divide_int_def sgn_if abs_mult zero_less_mult_iff)
    then show ?thesis using assms(1) by (auto simp: malloc_size_def int_or_ub_def split: if_splits)
  qed
  moreover have "int (length (concat (replicate (nat (latency * channels c)) sil))) \<le> latency_max c * ?w * 2"
  proof -
    have "int (nat (latency * channels c)) \<le> latency_max c * 2"
      using assms(3-5) mult_mono [of latency "latency_max c" "channels c" 2]
      by (cases "channels c \<ge> 0") (auto simp: mult_nonneg_nonpos)
    then have "int (nat (latency * channels c)) * ?w \<le> latency_max c * 2 * ?w" by (rule mult_right_mono) simp
    then show ?thesis by (simp add: length_concat sum_list_replicate mult_ac)
  qed
  ultimately show ?thesis by (auto simp: set_silence_def Let_def)
qed

text \<open>The option B allows a larger size: with 8192 frames the silence already runs past the end of the buffer.\<close>
theorem option_B_overflows:
  assumes "c = (conf0 s16)\<lparr>buffer_size := 8192\<rparr>" "length sil = 2" "malloc_size 16 c = Inr (length (buffer s))"
  shows "take_options fv s16 [(CHR ''B'', ''8192'')] (conf0 s16) = Inr c \<and> set_silence sil (nat (8192 * channels c)) s = Inl (UB ''set_silence'')"
proof -
  have "take_options fv s16 [(CHR ''B'', ''8192'')] (conf0 s16) = Inr c"
    unfolding assms(1)
    by (simp add: take_option_def atoi_def int_or_ub_def is_digit_def digit_val_def int_ok_def clamp_def conf0_def Let_def)
  moreover have "length (buffer s) = 8192"
    using assms(1,3) by (simp add: malloc_size_def int_or_ub_def int_ok_def conf0_def signed_divide_int_def)
  ultimately show ?thesis
    using assms(1,2) by (simp add: set_silence_def conf0_def length_concat sum_list_replicate)
qed

text \<open>
  The option e never works: whatever the number of channels, the first sample makes the filter read
  a float that was never stored, or one outside the array.
\<close>
theorem effect_undefined:
  assumes "1 \<le> channels c"
  shows "\<exists>m. applyeffect f ((v # vs) # frs) lfo (malloc_cells c, malloc_cells c) = Inl (UB m)"
proof (cases "channels c = 1")
  case True
  then show ?thesis
    by (simp add: effect_channel_def copy_cell_def get_cell_def malloc_cells_def)
next
  case False
  then have "1 < nat (channels c)" using assms by linarith
  then show ?thesis
    by (simp add: effect_channel_def copy_cell_def get_cell_def malloc_cells_def)
qed

text \<open>
  The test for a common start compares the seconds of the playback stamp with themselves, so that
  two starts exactly some seconds apart count as synchronous.
\<close>
theorem hardware_sync_seconds: "hardware_sync p (fst p + d, snd p)"
  by (simp add: hardware_sync_def)

text \<open>
  In blocking mode readbuf returns the length of the last piece: of five frames that arrive as three
  and two, main writes two.
\<close>
theorem block_read_last_piece:
  "read_block 1 0 5 [(3, [a1, a2, a3]), (2, [a4, a5])]
     \<lparr>readi = [], writei = [], buffer = replicate 5 z, captured = [], played = [], frames_in = 0, frames_out = 0, in_max = 0\<rparr>
   = Some (Inr (2, \<lparr>readi = [], writei = [], buffer = [a1, a2, a3, a4, a5], captured = [a1, a2, a3, a4, a5], played = [],
       frames_in = 5, frames_out = 0, in_max = 3\<rparr>))"
  by (simp add: pcm_readi_def count_in_def Let_def eval_nat_numeral)

section \<open>Examples\<close>

definition demo_round :: "int \<Rightarrow> nat round" where
  "demo_round r = \<lparr>r_readi = [(- EAGAIN, []), (1, [1, 2, 3, 4]), (r, [5, 6, 7, 8, 9, 10, 11, 12])], r_writei = [1, 1, - EAGAIN, 2, 1, 2],
     r_link = 0, r_silence = 0, r_start = 0, r_status = [0, 0, 0, 0]\<rparr>"

lemmas round_simps = demo_round_def try_latency_def set_silence_def frame_bytes_def pcm_readi_def readbuf_def count_in_def Let_def
  conf0_def EAGAIN_def

lemma demo_success:
  "try_latency 16 (conf0 2) [0, 0] (\<lambda>_. Inr) 3 9 2 (demo_round 2) (replicate 8 7) = Some (Inr (Success,
     \<lparr>readi = [], writei = [], buffer = [5, 6, 7, 8, 9, 10, 11, 12], captured = [1..<13],
      played = replicate 16 0 @ [1..<13], frames_in = 3, frames_out = 7, in_max = 2\<rparr>))"
  by code_simp

theorem success_copies_witness:
  "\<exists>s. try_latency 16 (conf0 2) [0, 0] (\<lambda>_. Inr) 3 9 2 (demo_round 2) (replicate 8 7) = Some (Inr (Success, s))
    \<and> played s = concat (replicate 8 [0, 0]) @ captured s \<and> frames_out s = frames_in s + 4 \<and> 3 \<le> frames_in s"
proof -
  obtain s where s: "try_latency 16 (conf0 2) [0, 0] (\<lambda>_. Inr) 3 9 2 (demo_round 2) (replicate 8 7) = Some (Inr (Success, s))"
    using demo_success by blast
  have c: "plain 16 (conf0 2)" "channels (conf0 2) = 2" by (simp_all add: plain_def frame_bytes_def conf0_def)
  from success_copies [OF c(1) s] show ?thesis by (intro exI [of _ s]) (simp add: s c(2))
qed

theorem timediff_exact_witness: "timediff (5, 100) (3, 900000) = 1100100"
  using timediff_exact [of "(5, 100)" "(3, 900000)"] by simp

text \<open>
  A round in which the first read fails, and one in which three frames are read; the devices would go on with an error.
\<close>

definition bad_read :: "nat round" where
  "bad_read = (demo_round 2)\<lparr>r_readi := [(-1, [])], r_writei := [64, 64]\<rparr>"

definition fail_round :: "nat round" where
  "fail_round = (demo_round 2)\<lparr>r_readi := [(- EAGAIN, []), (-1, [])], r_writei := [1000, 1000, -1]\<rparr>"

definition fine_round :: "nat round" where
  "fine_round = (demo_round 2)\<lparr>r_readi := [(3, [1..<13]), (-1, [])], r_writei := [1000, - EAGAIN, 1000, 1000, -1]\<rparr>"

definition short_conf :: conf where "short_conf = (conf0 2)\<lparr>latency_max := 100\<rparr>"

lemma supplies_error: "supplies n (a # as) \<longleftrightarrow> n = 0 \<or> (if a = - EAGAIN then supplies n as else a < 0 \<or> 0 < a \<and> supplies (n - 1) as)"
  by (cases n) auto

lemma short_set_it:
  "set_it demo_lib short_conf (0, 0) (0, 0) 32 = Inr (64, Some ((64, 64), (64, 64)))"
  "set_it demo_lib short_conf (0, 0) (0, 0) 68 = Inr (128, Some ((192, 128), (192, 128)))"
  by (simp_all add: set_it_def short_conf_def demo_simps)

lemma short_params:
  "setparams demo_lib short_conf (Suc n) 28 = Some (Inr (64, Some ((64, 64), (64, 64))))"
  "setparams demo_lib short_conf (Suc n) 64 = Some (Inr (128, Some ((192, 128), (192, 128))))"
proof -
  have s: "or_exit m (setparams_stream demo_lib short_conf d) = Inr (0, 0)" for m d by (simp add: demo_simps short_conf_def)
  have c: "buffer_size short_conf = 0" "latency_max short_conf = 100" by (simp_all add: short_conf_def conf0_def)
  have "again demo_lib short_conf (0, 0) (0, 0) (Suc n) 28 28 = Some (Inr (64, Some ((64, 64), (64, 64))))"
    "again demo_lib short_conf (0, 0) (0, 0) (Suc n) 64 64 = Some (Inr (128, Some ((192, 128), (192, 128))))"
    using short_set_it by (simp_all add: c int_or_ub_def int_ok_def)
  with s show "setparams demo_lib short_conf (Suc n) 28 = Some (Inr (64, Some ((64, 64), (64, 64))))"
    "setparams demo_lib short_conf (Suc n) 64 = Some (Inr (128, Some ((192, 128), (192, 128))))"
    unfolding setparams_def by (simp_all add: c del: again.simps)
qed

lemma short_rounds:
  "length buf = 1024 \<Longrightarrow> \<exists>s. try_latency 16 short_conf [0, 0] (\<lambda>_. Inr) 3 (Suc (Suc n)) 64 fail_round buf = Some (Inr (Failure, s)) \<and> length (buffer s) = 1024"
  "length buf = 1024 \<Longrightarrow> \<exists>s. try_latency 16 short_conf [0, 0] (\<lambda>_. Inr) 3 (Suc (Suc n)) 128 fine_round buf = Some (Inr (Success, s))"
proof -
  have c: "length (concat (replicate 128 [0 :: nat, 0])) = 256" "length (concat (replicate 256 [0 :: nat, 0])) = 512"
    by (simp_all add: length_concat sum_list_replicate)
  show "\<exists>s. try_latency 16 short_conf [0, 0] (\<lambda>_. Inr) 3 (Suc (Suc n)) 64 fail_round buf = Some (Inr (Failure, s)) \<and> length (buffer s) = 1024"
    if "length buf = 1024" using that c by (simp add: fail_round_def short_conf_def round_simps)
  show "\<exists>s. try_latency 16 short_conf [0, 0] (\<lambda>_. Inr) 3 (Suc (Suc n)) 128 fine_round buf = Some (Inr (Success, s))"
    if "length buf = 1024" using that c by (simp add: fine_round_def short_conf_def round_simps)
qed

text \<open>The first round fails at 64 frames, so that the latency is raised, and the next one succeeds at 128.\<close>

theorem latency_loop_ends_witness:
  "\<exists>r. latency_loop demo_lib 16 short_conf [0, 0] (\<lambda>_. Inr) 3 200 (fail_round # replicate 100 fine_round) 28 (replicate 1024 7) = Some r
     \<and> (\<exists>s. r = Inr (128, Some (Success, s)))"
proof -
  have c: "conf_ok short_conf" "buffer_size short_conf = 0" "latency_max short_conf = 100"
    by (simp_all add: conf_ok_def short_conf_def conf0_def)
  have "lively 3 (2 ^ 31) fail_round" "lively 3 (2 ^ 31) fine_round"
    by (simp_all add: lively_def fail_round_def fine_round_def supplies_error EAGAIN_def)
  then obtain r where r: "latency_loop demo_lib 16 short_conf [0, 0] (\<lambda>_. Inr) 3 200 (fail_round # replicate 100 fine_round) 28
      (replicate 1024 7) = Some r"
    using latency_loop_ends [OF demo_small c(1,2), of 200 3 "fail_round # replicate 100 fine_round" 28 16 "[0, 0]" "\<lambda>_. Inr"
        "replicate 1024 7"] c(3) by (auto simp del: latency_loop.simps)
  have n: "(200 :: nat) = Suc (Suc 198)" by simp
  have rounds: "replicate 100 fine_round = fine_round # replicate 99 fine_round"
    using replicate_Suc [of 99 fine_round] by (simp del: replicate_Suc)
  obtain s where s: "try_latency 16 short_conf [0, 0] (\<lambda>_. Inr) 3 200 64 fail_round (replicate 1024 7) = Some (Inr (Failure, s))"
    "length (buffer s) = 1024" using short_rounds(1) [of "replicate 1024 7" 198] by (auto simp flip: n)
  obtain u where u: "try_latency 16 short_conf [0, 0] (\<lambda>_. Inr) 3 200 128 fine_round (buffer s) = Some (Inr (Success, u))"
    using short_rounds(2) [OF s(2), of 198] by (auto simp flip: n)
  have "latency_loop demo_lib 16 short_conf [0, 0] (\<lambda>_. Inr) 3 200 (fail_round # replicate 100 fine_round) 28 (replicate 1024 7)
      = Some (Inr (128, Some (Success, u)))"
    using s(1) u short_params [of 199] unfolding rounds by simp
  with r show ?thesis by auto
qed

lemma bad_read_fails:
  assumes "length buf = 256"
  shows "\<exists>s. try_latency 16 ((conf0 2)\<lparr>buffer_size := 64\<rparr>) [0, 0] (\<lambda>_. Inr) 3 (Suc n) 64 bad_read buf = Some (Inr (Failure, s)) \<and> length (buffer s) = 256"
proof -
  have "length (concat (replicate 128 [0 :: nat, 0])) = 256" by (simp add: length_concat sum_list_replicate)
  then show ?thesis using assms by (simp add: bad_read_def round_simps)
qed

theorem fixed_size_never_ends_witness:
  "latency_loop demo_lib 16 ((conf0 2)\<lparr>buffer_size := 64\<rparr>) [0, 0] (\<lambda>_. Inr) 3 (Suc 9) (replicate 100 bad_read) 28 (replicate 256 0) = None"
proof (rule fixed_size_never_ends [where n = 256 and b = 64 and hs = "((128, 64), (128, 64))"])
  have "or_exit m (setparams_stream demo_lib ((conf0 2)\<lparr>buffer_size := 64\<rparr>) d) = Inr (0, 0)" for m d by (simp add: demo_simps)
  moreover have "set_it demo_lib ((conf0 2)\<lparr>buffer_size := 64\<rparr>) (0, 0) (0, 0) 64 = Inr (64, Some ((128, 64), (128, 64)))"
    by (simp add: set_it_def demo_simps)
  ultimately show "setparams demo_lib ((conf0 2)\<lparr>buffer_size := 64\<rparr>) (Suc 9) 28 = Some (Inr (64, Some ((128, 64), (128, 64))))"
    unfolding setparams_def by simp
  show "\<forall>t \<in> set (replicate 100 bad_read). \<forall>buf. length buf = 256 \<longrightarrow>
      (\<exists>s. try_latency 16 ((conf0 2)\<lparr>buffer_size := 64\<rparr>) [0, 0] (\<lambda>_. Inr) 3 (Suc 9) 64 t buf = Some (Inr (Failure, s)) \<and> length (buffer s) = 256)"
    using bad_read_fails [where n = 9] by simp
qed (simp_all add: conf0_def)

theorem buffer_room_witness:
  "\<exists>s'. set_silence [0, 0] (nat (100 * 2)) (\<lparr>readi = [], writei = [], buffer = replicate 8192 (1 :: nat), captured = [], played = [],
     frames_in = 0, frames_out = 0, in_max = 0\<rparr>) = Inr s'"
  using buffer_room [of 16 "conf0 2" "\<lparr>readi = [], writei = [], buffer = replicate 8192 (1 :: nat), captured = [], played = [],
     frames_in = 0, frames_out = 0, in_max = 0\<rparr>" "[0, 0]" 100]
  by (auto simp: malloc_size_def int_or_ub_def int_ok_def conf0_def signed_divide_int_def)

theorem option_B_overflows_witness:
  "set_silence [0, 0] 16384 (\<lparr>readi = [], writei = [], buffer = replicate 8192 (1 :: nat), captured = [], played = [],
     frames_in = 0, frames_out = 0, in_max = 0\<rparr>) = Inl (UB ''set_silence'')"
  using option_B_overflows [OF refl, of "[0, 0]" 2 "\<lparr>readi = [], writei = [], buffer = replicate 8192 (1 :: nat), captured = [], played = [],
     frames_in = 0, frames_out = 0, in_max = 0\<rparr>" "\<lambda>_. None"]
  by (simp add: malloc_size_def int_or_ub_def int_ok_def conf0_def signed_divide_int_def)

theorem effect_undefined_witness:
  "\<exists>m. applyeffect \<lparr>next_lfo = (\<lambda>x. x), coeffs = (\<lambda>_. []), combine = (\<lambda>_ a b c d e. a + b), of_short = (\<lambda>x. x), to_short = (\<lambda>x. x)\<rparr>
     [[1, 2]] 0 (malloc_cells (conf0 2), malloc_cells (conf0 2)) = Inl (UB m)"
  using effect_undefined [of "conf0 2"] by (simp add: conf0_def del: applyeffect.simps)

end
