(* ===== verification/FileServer.thy ===== *)
theory FileServer
  imports Threads
begin

text \<open>
  excerpts/select.c: a server that waits with select for connections and for the requests of its
  clients, who download (-get), upload (-up) and list (-ls) files. A round of the loop is a function of
  what the kernel reports; descriptors are numbers, files a map from names to contents.
\<close>

section \<open>State\<close>

definition BUF :: nat where "BUF = 4096"

record server =
  listenfd :: nat
  connfd :: int
  readfds :: "nat set"
  opened :: "nat set" \<comment> \<open>the descriptors of the process that are open\<close>
  buf :: string
  files :: "string \<Rightarrow> string option"
  sent :: "(int \<times> string) list" \<comment> \<open>the calls of write on connections\<close>

text \<open>
  What the kernel reports for a descriptor that select found ready: a new connection (or -1), or the
  bytes that are waiting. With the bytes come the answers for the request that they may hold: whether a
  file can be opened, the data that the upload reads from connfd, the entries of the directory.
\<close>

record answers =
  can_open :: bool
  upload :: "string list"
  entries :: "string list option"

datatype event = Accepted nat | AcceptFails | Waiting string answers

definition rmfd :: "nat \<Rightarrow> server \<Rightarrow> server" where
  "rmfd fd s = s\<lparr>readfds := readfds s - {fd}\<rparr>"

definition close_fd :: "int \<Rightarrow> server \<Rightarrow> server" where
  "close_fd fd s = (if fd < 0 then s else s\<lparr>opened := opened s - {nat fd}\<rparr>)"

text \<open>A write on a descriptor that is not open has no effect; its result is not looked at.\<close>

definition write_conn :: "string \<Rightarrow> server \<Rightarrow> server" where
  "write_conn bs s = (if 0 \<le> connfd s \<and> nat (connfd s) \<in> opened s then s\<lparr>sent := sent s @ [(connfd s, bs)]\<rparr> else s)"

definition bzero :: "server \<Rightarrow> server" where
  "bzero s = s\<lparr>buf := replicate BUF NUL\<rparr>"

section \<open>Requests\<close>

text \<open>The pieces in which a file is read, and the C string at a position of the buffer.\<close>

fun pieces :: "nat \<Rightarrow> string \<Rightarrow> string list" where
  "pieces n bs = (if bs = [] \<or> n = 0 then [] else take n bs # pieces n (drop n bs))"

declare pieces.simps [simp del]

definition name_at :: "nat \<Rightarrow> server \<Rightarrow> string" where
  "name_at k s = cstr (drop k (buf s))"

definition is_cmd :: "string \<Rightarrow> server \<Rightarrow> bool" where
  "is_cmd c s \<longleftrightarrow> take (length c) (buf s) = c"

definition do_get :: "nat \<Rightarrow> answers \<Rightarrow> server \<Rightarrow> server" where
  "do_get fd1 a s =
     (if is_cmd ''-get'' s then
        let bs = (if can_open a then files s (name_at 5 s) else None);
            s = fold write_conn (case bs of None \<Rightarrow> [] | Some bs \<Rightarrow> pieces BUF bs) s
        in rmfd fd1 (close_fd (int fd1) (bzero s))
      else s)"

text \<open>Each piece of an upload is stored at the start of the buffer and printed, which needs a NUL.\<close>

fun up_loop :: "string \<Rightarrow> bool \<Rightarrow> string list \<Rightarrow> server \<Rightarrow> server res" where
  "up_loop q ok [] s = Inr s"
| "up_loop q ok (m # ms) s =
     (let s = s\<lparr>buf := m @ drop (length m) (buf s)\<rparr> in
      if m = [] then Inr s
      else if NUL \<notin> set (buf s) then Inl (UB ''printf of buf'')
      else up_loop q ok ms
        (if ok then s\<lparr>files := (files s)(q \<mapsto> (case files s q of None \<Rightarrow> m | Some bs \<Rightarrow> bs @ m))\<rparr> else s))"

definition do_up :: "nat \<Rightarrow> answers \<Rightarrow> server \<Rightarrow> server res" where
  "do_up fd1 a s =
     (if is_cmd ''-up'' s then
        let q = name_at 4 s;
            s = (if can_open a \<and> files s q = None then s\<lparr>files := (files s)(q \<mapsto> [])\<rparr> else s)
        in bindR (up_loop q (can_open a) (map (take 128) (upload a)) s) (\<lambda>s.
           Inr (rmfd fd1 (close_fd (int fd1) (bzero s))))
      else Inr s)"

text \<open>A directory entry is sent with the whole array d_name of 256 bytes.\<close>

definition d_name :: "string \<Rightarrow> string" where
  "d_name n = n @ replicate (256 - length n) NUL"

definition do_ls :: "nat \<Rightarrow> answers \<Rightarrow> server \<Rightarrow> server res" where
  "do_ls fd1 a s =
     (if is_cmd ''-ls'' s then
        case entries a of
          None \<Rightarrow> Inl (UB ''readdir of NULL'')
        | Some ns \<Rightarrow>
            let s = fold write_conn (map d_name ns) s
            in Inr (rmfd fd1 (close_fd (connfd s) (close_fd (int fd1) s)))
      else Inr s)"

text \<open>The bytes of a client: they are read into the buffer and a NUL is put after them.\<close>

definition loaded :: "string \<Rightarrow> server \<Rightarrow> server" where
  "loaded bs s = s\<lparr>buf := bs @ NUL # drop (length bs + 1) (buf s)\<rparr>"

definition request_fd :: "nat \<Rightarrow> string \<Rightarrow> answers \<Rightarrow> server \<Rightarrow> server res" where
  "request_fd fd1 bs a s =
     (if bs = [] then Inr (rmfd fd1 (close_fd (int fd1) s))
      else if BUF \<le> length bs then Inl (UB ''overflow of buf'')
      else bindR (do_up fd1 a (do_get fd1 a (loaded bs s))) (do_ls fd1 a))"

definition ready_fd :: "nat \<times> event \<Rightarrow> server \<Rightarrow> server res" where
  "ready_fd r s =
     (case snd r of
        Accepted fd \<Rightarrow> Inr (s\<lparr>connfd := int fd, readfds := insert fd (readfds s), opened := insert fd (opened s)\<rparr>)
      | AcceptFails \<Rightarrow> Inl (UB ''FD_SET of -1'')
      | Waiting bs a \<Rightarrow> if fst r \<in> opened s then request_fd (fst r) bs a s else Inl (UB ''FIONREAD fails''))"

fun ready_fds :: "(nat \<times> event) list \<Rightarrow> server \<Rightarrow> server res" where
  "ready_fds [] s = Inr s"
| "ready_fds (r # rs) s = bindR (ready_fd r s) (ready_fds rs)"

text \<open>
  A round: select fails if a descriptor of the set is not open; otherwise the ready descriptors are
  handled in ascending order. The events of the listening descriptor are connections, those of the
  others are bytes; \<open>ready_ok\<close> says so.
\<close>

definition select_round :: "(nat \<times> event) list \<Rightarrow> server \<Rightarrow> server res" where
  "select_round rs s = (if readfds s \<subseteq> opened s then ready_fds rs s else Inl (Exit (-1) ''select''))"

fun select_loop :: "(nat \<times> event) list list \<Rightarrow> server \<Rightarrow> server res" where
  "select_loop [] s = Inr s"
| "select_loop (rs # rss) s = bindR (select_round rs s) (select_loop rss)"

text \<open>The server after listen, whose result 0 stays in connfd until a client connects.\<close>

definition server_start :: "nat \<Rightarrow> string \<Rightarrow> (string \<Rightarrow> string option) \<Rightarrow> server" where
  "server_start fd garbage fs = \<lparr>listenfd = fd, connfd = 0, readfds = {fd}, opened = {0, 1, 2, fd}, buf = garbage, files = fs, sent = []\<rparr>"

definition ready_ok :: "nat \<times> event \<Rightarrow> server \<Rightarrow> bool" where
  "ready_ok r s \<longleftrightarrow> fst r \<in> readfds s
     \<and> (case snd r of
          Accepted fd \<Rightarrow> fst r = listenfd s \<and> fd \<notin> opened s
        | AcceptFails \<Rightarrow> fst r = listenfd s
        | Waiting bs a \<Rightarrow> fst r \<noteq> listenfd s)"

section \<open>Properties\<close>

lemma concat_pieces: "0 < n \<Longrightarrow> concat (pieces n bs) = bs"
  by (induction n bs rule: pieces.induct) (subst pieces.simps, auto)

lemma write_conn_frame:
  "connfd (write_conn b s) = connfd s \<and> readfds (write_conn b s) = readfds s \<and> opened (write_conn b s) = opened s
    \<and> listenfd (write_conn b s) = listenfd s \<and> files (write_conn b s) = files s \<and> buf (write_conn b s) = buf s"
  by (simp add: write_conn_def)

lemma fold_write:
  "fold write_conn bs s = (if 0 \<le> connfd s \<and> nat (connfd s) \<in> opened s then s\<lparr>sent := sent s @ map (\<lambda>b. (connfd s, b)) bs\<rparr> else s)"
  by (induction bs arbitrary: s) (simp_all add: write_conn_def)

text \<open>The bytes that went to a descriptor.\<close>

definition sent_to :: "int \<Rightarrow> server \<Rightarrow> string" where
  "sent_to fd s = concat (map snd (filter (\<lambda>w. fst w = fd) (sent s)))"

text \<open>The invariant while clients come one after the other.\<close>

definition single :: "server \<Rightarrow> bool" where
  "single s \<longleftrightarrow> listenfd s \<in> readfds s \<and> readfds s \<subseteq> opened s \<and> (\<forall>fd \<in> readfds s. fd \<noteq> listenfd s \<longrightarrow> int fd = connfd s)"

text \<open>A new connection is accepted only when no client is connected.\<close>

inductive one_step :: "server \<Rightarrow> server \<Rightarrow> bool" where
  connect: "ready_ok (fd, Accepted c) s \<Longrightarrow> readfds s = {listenfd s} \<Longrightarrow> ready_fd (fd, Accepted c) s = Inr s' \<Longrightarrow> one_step s s'"
| ask: "ready_ok (fd, Waiting bs a) s \<Longrightarrow> ready_fd (fd, Waiting bs a) s = Inr s' \<Longrightarrow> one_step s s'"

lemma up_loop_frame:
  "up_loop q ok ms s = Inr s' \<Longrightarrow> connfd s' = connfd s \<and> readfds s' = readfds s \<and> opened s' = opened s \<and> listenfd s' = listenfd s \<and> sent s' = sent s"
  by (induction q ok ms s rule: up_loop.induct) (auto simp: Let_def split: if_splits)

lemma do_get_frame:
  "connfd (do_get fd a s) = connfd s \<and> listenfd (do_get fd a s) = listenfd s
    \<and> (readfds (do_get fd a s) = readfds s \<and> opened (do_get fd a s) = opened s
      \<or> readfds (do_get fd a s) = readfds s - {fd} \<and> opened (do_get fd a s) = opened s - {fd})
    \<and> (\<exists>ws. sent (do_get fd a s) = sent s @ map (\<lambda>w. (connfd s, w)) ws)"
  by (auto simp: do_get_def fold_write rmfd_def close_fd_def bzero_def Let_def split: option.split intro: exI [of _ "[]"])

lemma do_up_frame:
  assumes "do_up fd a s = Inr s'"
  shows "connfd s' = connfd s \<and> listenfd s' = listenfd s \<and> sent s' = sent s
    \<and> (readfds s' = readfds s \<and> opened s' = opened s \<or> readfds s' = readfds s - {fd} \<and> opened s' = opened s - {fd})"
proof (cases "is_cmd ''-up'' s")
  case True
  then obtain t u where "up_loop (name_at 4 s) (can_open a) (map (take 128) (upload a)) t = Inr u" "s' = rmfd fd (close_fd (int fd) (bzero u))"
    "t = (if can_open a \<and> files s (name_at 4 s) = None then s\<lparr>files := (files s)(name_at 4 s \<mapsto> [])\<rparr> else s)"
    using assms by (auto simp: do_up_def Let_def res_simps)
  then show ?thesis using up_loop_frame [of "name_at 4 s" "can_open a" "map (take 128) (upload a)" t u]
    by (auto simp: rmfd_def close_fd_def bzero_def)
qed (use assms in \<open>auto simp: do_up_def\<close>)

lemma do_ls_frame:
  assumes "do_ls fd a s = Inr s'" "connfd s = int fd"
  shows "connfd s' = connfd s \<and> listenfd s' = listenfd s \<and> (\<exists>ws. sent s' = sent s @ map (\<lambda>w. (connfd s, w)) ws)
    \<and> (readfds s' = readfds s \<and> opened s' = opened s \<or> readfds s' = readfds s - {fd} \<and> opened s' = opened s - {fd})"
proof (cases "is_cmd ''-ls'' s")
  case True
  then obtain ns where ns: "entries a = Some ns" using assms(1) by (auto simp: do_ls_def split: option.splits)
  let ?w = "fold write_conn (map d_name ns) s"
  have s': "s' = rmfd fd (close_fd (connfd ?w) (close_fd (int fd) ?w))" using assms(1) True ns by (simp add: do_ls_def Let_def)
  have "\<exists>ws. sent ?w = sent s @ map (\<lambda>w. (connfd s, w)) ws" unfolding fold_write by (auto intro: exI [of _ "[]"] simp del: map_map)
  moreover have "connfd ?w = int fd" "listenfd ?w = listenfd s" "readfds ?w = readfds s" "opened ?w = opened s"
    unfolding fold_write using assms(2) by simp_all
  ultimately show ?thesis unfolding s' using assms(2) by (simp add: rmfd_def close_fd_def)
qed (use assms in \<open>auto simp: do_ls_def\<close>)

text \<open>One request of the client that connfd belongs to.\<close>

lemma request_frame:
  assumes "request_fd fd bs a s = Inr s'" "connfd s = int fd"
  shows "connfd s' = connfd s \<and> listenfd s' = listenfd s \<and> (\<exists>ws. sent s' = sent s @ map (\<lambda>w. (int fd, w)) ws)
    \<and> (readfds s' = readfds s \<and> opened s' = opened s \<or> readfds s' = readfds s - {fd} \<and> opened s' = opened s - {fd})"
proof (cases "bs = []")
  case True
  with assms show ?thesis by (auto simp: request_fd_def rmfd_def close_fd_def intro: exI [of _ "[]"])
next
  case False
  let ?s = "loaded bs s"
  have l: "connfd ?s = connfd s \<and> listenfd ?s = listenfd s \<and> readfds ?s = readfds s \<and> opened ?s = opened s \<and> sent ?s = sent s"
    by (simp add: loaded_def)
  obtain u where u: "do_up fd a (do_get fd a ?s) = Inr u" "do_ls fd a u = Inr s'"
    using assms(1) False by (auto simp: request_fd_def Let_def res_simps split: if_splits)
  have c: "connfd u = int fd" using do_get_frame [of fd a ?s] do_up_frame [OF u(1)] assms(2) l by simp
  obtain ws where ws: "sent (do_get fd a ?s) = sent s @ map (\<lambda>w. (int fd, w)) ws" using do_get_frame [of fd a ?s] assms(2) l by auto
  obtain vs where vs: "sent s' = sent u @ map (\<lambda>w. (int fd, w)) vs" using do_ls_frame [OF u(2) c] c by auto
  have "sent s' = sent s @ map (\<lambda>w. (int fd, w)) (ws @ vs)" using ws vs do_up_frame [OF u(1)] by simp
  moreover have "connfd s' = connfd s \<and> listenfd s' = listenfd s \<and>
      (readfds s' = readfds s \<and> opened s' = opened s \<or> readfds s' = readfds s - {fd} \<and> opened s' = opened s - {fd})"
    using do_get_frame [of fd a ?s] do_up_frame [OF u(1)] do_ls_frame [OF u(2) c] assms(2) l by auto
  ultimately show ?thesis by blast
qed

lemma single_step: "one_step s s' \<Longrightarrow> single s \<Longrightarrow> single s'"
proof (induction rule: one_step.induct)
  case (connect fd c s s')
  then show ?case by (auto simp: single_def ready_fd_def ready_ok_def)
next
  case (ask fd bs a s s')
  then have "request_fd fd bs a s = Inr s'" "connfd s = int fd" "fd \<noteq> listenfd s"
    by (auto simp: ready_fd_def ready_ok_def single_def split: if_splits)
  with request_frame [of fd bs a s s'] ask(3) show ?case by (auto simp: single_def)
qed

lemma single_start: "single (server_start fd garbage fs)"
  by (simp add: single_def server_start_def)

interpretation sv: inductive_invariant "server_start fd garbage fs" one_step single for fd garbage fs
  by unfold_locales (auto intro: single_start single_step)

text \<open>
  C32: While clients come one after the other, the server serves them: select watches open descriptors
  only, the client that asks is the one in connfd, and all that is written goes to it.
\<close>
theorem clients_served_in_turn:
  assumes "reach one_step (server_start fd garbage fs) s" "ready_ok (c, Waiting bs a) s" "ready_fd (c, Waiting bs a) s = Inr s'"
  shows "readfds s \<subseteq> opened s \<and> readfds s' \<subseteq> opened s' \<and> connfd s = int c \<and> (\<exists>ws. sent s' = sent s @ map (\<lambda>w. (int c, w)) ws)"
proof -
  have i: "single s" by (rule sv.reach_inv [OF assms(1)])
  then have c: "connfd s = int c" using assms(2) by (auto simp: single_def ready_ok_def)
  have "single s'" using single_step [OF one_step.ask [OF assms(2,3)] i] .
  moreover have "request_fd c bs a s = Inr s'" using assms(3) by (auto simp: ready_fd_def split: if_splits)
  ultimately show ?thesis using i c request_frame [OF _ c] by (auto simp: single_def)
qed

text \<open>The request -get for a file that is there.\<close>

lemma zero_cmd: "\<not> is_cmd ''-up'' (rmfd f (close_fd g (bzero s)))" "\<not> is_cmd ''-ls'' (rmfd f (close_fd g (bzero s)))"
  by (simp_all add: is_cmd_def rmfd_def close_fd_def bzero_def BUF_def numeral_3_eq_3)

lemma get_served:
  assumes "NUL \<notin> set name" "length (''-get '' @ name) < BUF" "can_open a" "files s name = Some bs"
  shows "request_fd c (''-get '' @ name) a s =
    Inr (rmfd c (close_fd (int c) (bzero (fold write_conn (pieces BUF bs) (loaded (''-get '' @ name) s)))))"
proof -
  let ?s = "loaded (''-get '' @ name) s"
  have "is_cmd ''-get'' ?s" "name_at 5 ?s = name" "files ?s = files s" using cstr_name [OF assms(1)]
    by (simp_all add: is_cmd_def name_at_def loaded_def)
  then have g: "do_get c a ?s = rmfd c (close_fd (int c) (bzero (fold write_conn (pieces BUF bs) ?s)))"
    using assms(3,4) by (simp add: do_get_def)
  have "request_fd c (''-get '' @ name) a s = bindR (do_up c a (do_get c a ?s)) (do_ls c a)"
    using assms(2) by (simp add: request_fd_def)
  then show ?thesis unfolding g by (simp add: do_up_def do_ls_def zero_cmd)
qed

text \<open>
  C35: With several clients the file goes to the one that connected last: the client that asks gets
  nothing and its connection is closed.
\<close>
theorem reply_to_wrong_client:
  assumes "NUL \<notin> set name" "length (''-get '' @ name) < BUF" "can_open a" "files s name = Some bs"
    and "connfd s = int d" "d \<in> opened s" "c \<noteq> d"
  shows "\<exists>s'. request_fd c (''-get '' @ name) a s = Inr s' \<and> sent_to (int d) s' = sent_to (int d) s @ bs
    \<and> sent_to (int c) s' = sent_to (int c) s \<and> c \<notin> opened s'"
  unfolding get_served [OF assms(1-4)]
  using assms(5-7) concat_pieces [of BUF bs]
  by (auto simp: fold_write loaded_def rmfd_def close_fd_def bzero_def sent_to_def filter_map comp_def BUF_def)

text \<open>
  A listing for an earlier client closes the connection of the last one without taking it out of
  the set: the next select fails and the server ends.
\<close>
theorem listing_ends_server:
  assumes "entries a = Some ns" "connfd s = int d" "d \<in> readfds s" "c \<noteq> d" "length (''-ls '' @ dir) < BUF"
  shows "\<exists>s'. request_fd c (''-ls '' @ dir) a s = Inr s' \<and> select_round rs s' = Inl (Exit (-1) ''select'')"
proof -
  let ?s = "loaded (''-ls '' @ dir) s"
  have c: "is_cmd ''-ls'' ?s" "\<not> is_cmd ''-get'' ?s" "\<not> is_cmd ''-up'' ?s" by (simp_all add: is_cmd_def loaded_def)
  have "request_fd c (''-ls '' @ dir) a s = do_ls c a ?s"
    using assms(5) c(2,3) by (simp add: request_fd_def do_get_def do_up_def)
  then show ?thesis using assms(1-4) c(1)
    by (auto simp: do_ls_def fold_write loaded_def rmfd_def close_fd_def select_round_def)
qed

text \<open>An upload appends the pieces to the file.\<close>

lemma up_loop_stores:
  "up_loop q True ms s = Inr s' \<Longrightarrow> \<forall>m \<in> set ms. m \<noteq> [] \<Longrightarrow> files s q = Some old \<Longrightarrow> files s' q = Some (old @ concat ms)"
proof (induction ms arbitrary: s old)
  case (Cons m ms)
  then have r: "up_loop q True ms (s\<lparr>buf := m @ drop (length m) (buf s), files := (files s)(q \<mapsto> old @ m)\<rparr>) = Inr s'"
    by (auto simp: Let_def split: if_splits)
  show ?case using Cons.IH [OF r, of "old @ m"] Cons.prems(2) by simp
qed simp

lemma file_there:
  "files (if files x q = None then x\<lparr>files := (files x)(q \<mapsto> [])\<rparr> else x) q = Some (case files x q of None \<Rightarrow> [] | Some old \<Rightarrow> old)"
  by (cases "files x q") simp_all

lemma up_stored:
  assumes nm: "NUL \<notin> set name" "length (''-up '' @ name) < BUF" and a: "can_open a" "\<forall>m \<in> set (upload a). m \<noteq> [] \<and> length m \<le> 128"
    and r: "request_fd c (''-up '' @ name) a s = Inr s'"
  shows "files s' name = Some ((case files s name of None \<Rightarrow> [] | Some old \<Rightarrow> old) @ concat (upload a))"
proof -
  let ?s = "loaded (''-up '' @ name) s"
  have l: "files ?s = files s" by (simp add: loaded_def)
  let ?t = "if files ?s name = None then ?s\<lparr>files := (files ?s)(name \<mapsto> [])\<rparr> else ?s"
  have c: "is_cmd ''-up'' ?s" "\<not> is_cmd ''-get'' ?s" "name_at 4 ?s = name" using cstr_name [OF nm(1)]
    by (simp_all add: is_cmd_def name_at_def loaded_def)
  have m: "map (take 128) (upload a) = upload a" using a(2) by (simp add: map_idI)
  have "request_fd c (''-up '' @ name) a s = bindR (do_up c a ?s) (do_ls c a)"
    using nm(2) c(2) by (simp add: request_fd_def do_get_def)
  then obtain u where "do_up c a ?s = Inr u" "do_ls c a u = Inr s'" using r by (auto simp: res_simps)
  then obtain v where v: "up_loop name True (upload a) ?t = Inr v" "u = rmfd c (close_fd (int c) (bzero v))"
    using c(1,3) a(1) m by (auto simp: do_up_def res_simps split: if_splits)
  then have "s' = u" using \<open>do_ls c a u = Inr s'\<close> by (simp add: do_ls_def zero_cmd)
  then have f: "files s' name = files v name" using v(2) by (simp add: rmfd_def close_fd_def bzero_def)
  have "files ?t name = Some (case files s name of None \<Rightarrow> [] | Some old \<Rightarrow> old)" using file_there [of ?s name] unfolding l .
  from up_loop_stores [OF v(1) _ this] show ?thesis using a(2) f by auto
qed

text \<open>
  C33: A file that was uploaded can be downloaded: the next client that asks for it gets what was in the
  file before and then every byte of the upload, in order.
\<close>
theorem upload_download:
  assumes "NUL \<notin> set name" "length (''-get '' @ name) < BUF" "can_open a" "\<forall>m \<in> set (upload a). m \<noteq> [] \<and> length m \<le> 128"
    and "request_fd c (''-up '' @ name) a s = Inr s1"
    and "ready_fd (listenfd s1, Accepted d) s1 = Inr s2" "can_open b"
  shows "\<exists>s3. request_fd d (''-get '' @ name) b s2 = Inr s3
    \<and> sent_to (int d) s3 = sent_to (int d) s2 @ (case files s name of None \<Rightarrow> [] | Some old \<Rightarrow> old) @ concat (upload a)"
proof -
  let ?bs = "(case files s name of None \<Rightarrow> [] | Some old \<Rightarrow> old) @ concat (upload a)"
  have "files s1 name = Some ?bs" using up_stored [OF assms(1) _ assms(3-5)] assms(2) by simp
  moreover have "connfd s2 = int d" "d \<in> opened s2" "files s2 = files s1" using assms(6) by (auto simp: ready_fd_def)
  ultimately show ?thesis
    using get_served [OF assms(1,2,7), of s2 ?bs d] concat_pieces [of BUF ?bs]
    by (simp add: fold_write loaded_def rmfd_def close_fd_def bzero_def sent_to_def filter_map comp_def BUF_def)
qed

section \<open>Examples\<close>

definition demo :: server where
  "demo = (server_start 3 (replicate BUF NUL) [''f'' \<mapsto> ''data''])\<lparr>connfd := 4, readfds := {3, 4}, opened := {0, 1, 2, 3, 4}\<rparr>"

definition demo_ans :: answers where
  "demo_ans = \<lparr>can_open = True, upload = [''xy'', ''z''], entries = Some [''f'']\<rparr>"

theorem clients_served_in_turn_witness:
  "\<exists>s'. ready_fd (4, Waiting ''hello'' demo_ans) demo = Inr s' \<and> readfds s' \<subseteq> opened s' \<and> (\<exists>ws. sent s' = map (\<lambda>w. (4, w)) ws)"
proof -
  have "one_step (server_start 3 (replicate BUF NUL) [''f'' \<mapsto> ''data'']) demo"
    by (rule connect [of 3 4]) (auto simp: ready_ok_def server_start_def demo_def ready_fd_def)
  then have r: "reach one_step (server_start 3 (replicate BUF NUL) [''f'' \<mapsto> ''data'']) demo"
    by (rule reach.steps [OF reach.start])
  obtain s' where s': "ready_fd (4, Waiting ''hello'' demo_ans) demo = Inr s'"
    by (simp add: ready_fd_def demo_def request_fd_def BUF_def do_get_def do_up_def do_ls_def is_cmd_def loaded_def server_start_def)
  have "ready_ok (4, Waiting ''hello'' demo_ans) demo" by (simp add: ready_ok_def demo_def server_start_def)
  from clients_served_in_turn [OF r this s'] s' show ?thesis by (auto simp: demo_def server_start_def)
qed

text \<open>A second client, with descriptor 5, has connected.\<close>

definition demo2 :: server where
  "demo2 = demo\<lparr>connfd := 5, readfds := {3, 4, 5}, opened := {0, 1, 2, 3, 4, 5}\<rparr>"

theorem reply_to_wrong_client_witness:
  "\<exists>s'. request_fd 4 (''-get '' @ ''f'') demo_ans demo2 = Inr s' \<and> sent_to 5 s' = ''data'' \<and> sent_to 4 s' = []"
  using reply_to_wrong_client [of "''f''" demo_ans demo2 "''data''" 5 4]
  by (auto simp: demo2_def demo_def demo_ans_def server_start_def sent_to_def BUF_def)

theorem listing_ends_server_witness:
  "\<exists>s'. request_fd 4 (''-ls '' @ ''.'') demo_ans demo2 = Inr s' \<and> select_round [] s' = Inl (Exit (-1) ''select'')"
  using listing_ends_server [of demo_ans "[''f'']" demo2 5 4 "''.''" "[]"]
  by (simp add: demo2_def demo_def demo_ans_def server_start_def BUF_def)

theorem upload_download_witness:
  "\<exists>s1 s2 s3. request_fd 4 (''-up '' @ ''f'') demo_ans demo = Inr s1 \<and> ready_fd (3, Accepted 4) s1 = Inr s2
    \<and> request_fd 4 (''-get '' @ ''f'') demo_ans s2 = Inr s3 \<and> sent_to 4 s3 = ''dataxyz''"
proof -
  obtain s1 where s1: "request_fd 4 (''-up '' @ ''f'') demo_ans demo = Inr s1" "listenfd s1 = 3" "sent s1 = []"
    by (simp add: request_fd_def BUF_def do_get_def do_up_def do_ls_def is_cmd_def loaded_def name_at_def cstr_def demo_def demo_ans_def
      server_start_def bzero_def rmfd_def close_fd_def numeral_3_eq_3)
  obtain s2 where s2: "ready_fd (3, Accepted 4) s1 = Inr s2" "sent s2 = []" using s1(3) by (simp add: ready_fd_def)
  from upload_download [OF _ _ _ _ s1(1), of 4 s2 demo_ans] s1 s2 show ?thesis
    by (auto simp: demo_ans_def demo_def server_start_def BUF_def sent_to_def)
qed

end
