(* ===== verification/OpenServ.thy ===== *)
theory OpenServ
  imports BufArgs FdPass TtyModes
begin

text \<open>
  The clients of the two servers and the open server's side of the protocol: open/open.c (csopen),
  call.c in call/ourhdr.h (call), cliargs.c in opend.fe/ourhdr.h (cli_args), and call/takeput.c. They run
  the argument buffers, the passing of descriptors and the terminal modes.
\<close>

section \<open>The client side\<close>

record open_client = byte_io +
  csfd :: int

text \<open>What csopen sends: the command, the name, the flags in decimal and a NUL.\<close>

definition open_msg :: "string \<Rightarrow> int \<Rightarrow> string" where
  "open_msg name oflag = ''open '' @ name @ '' '' @ deci oflag @ [NUL]"

text \<open>
  \<open>conn\<close> is the result of cli_conn, used only in the first call; the messages of the server go to
  \<open>userfunc\<close>. The flags are printed into an array of ten bytes.
\<close>

definition csopen :: "int \<Rightarrow> (string \<Rightarrow> 'u \<Rightarrow> int \<times> 'u) \<Rightarrow> recv_event list \<Rightarrow> int \<Rightarrow> string \<Rightarrow> int \<Rightarrow> 'u \<Rightarrow> 'a open_client_scheme
    \<Rightarrow> (int \<times> 'u \<times> recv_event list \<times> 'a open_client_scheme) res" where
  "csopen conn userfunc es newfd name oflag u s =
     bindR (if csfd s < 0 then
              let s = s\<lparr>csfd := conn\<rparr> in if csfd s < 0 then err_sys ''cli_conn error'' s else Inr s
            else Inr s) (\<lambda>s.
       if 10 < length ('' '' @ deci oflag) + 1 then Inl (UB ''sprintf into buf'')
       else let (r, s) = write_call (csfd s) (open_msg name oflag) None s in
         if r \<noteq> int (length (open_msg name oflag)) then err_sys ''writev error'' s
         else recv_fd userfunc es newfd u s)"

definition call_msg :: "string \<Rightarrow> string" where
  "call_msg args = ''call '' @ args @ [NUL]"

definition call :: "int \<Rightarrow> (string \<Rightarrow> 'u \<Rightarrow> int \<times> 'u) \<Rightarrow> recv_event list \<Rightarrow> int \<Rightarrow> string \<Rightarrow> 'u \<Rightarrow> 'a byte_io_scheme
    \<Rightarrow> (int \<times> 'u \<times> recv_event list \<times> 'a byte_io_scheme) res" where
  "call conn userfunc es newfd args u s =
     (if conn < 0 then err_sys ''cli_conn error'' s
      else let (r, s) = write_call conn (call_msg args) None s in
        if r \<noteq> int (length (call_msg args)) then err_sys ''writev error'' s
        else recv_fd userfunc es newfd u s)"

section \<open>The server side\<close>

record open_req =
  errmsg :: string
  oflag :: int
  pathname :: string

definition usage :: string where "usage = ''usage: <pathname> <oflag>'' @ [NL]"

text \<open>The function that buf_args calls; the state is \<open>Inl\<close> after undefined behaviour (of atoi).\<close>

definition cli_args :: "nat \<Rightarrow> string list \<Rightarrow> open_req res \<Rightarrow> int \<times> open_req res" where
  "cli_args argc argv u =
     (case u of
        Inl e \<Rightarrow> (-1, Inl e)
      | Inr s \<Rightarrow>
          if argc \<noteq> 3 \<or> argv ! 0 \<noteq> ''open'' then (-1, Inr (s\<lparr>errmsg := usage\<rparr>))
          else (case atoi (argv ! 2) of
                  Inl e \<Rightarrow> (-1, Inl e)
                | Inr n \<Rightarrow> (0, Inr (s\<lparr>pathname := argv ! 1, oflag := n\<rparr>))))"

section \<open>The commands take and put\<close>

definition take_put_args :: "nat \<Rightarrow> string list \<Rightarrow> string \<times> string \<Rightarrow> int \<times> string \<times> string" where
  "take_put_args argc argv sd =
     (if argc = 1 then (0, argv ! 0, argv ! 0) else if argc = 2 then (0, argv ! 0, argv ! 1) else (-1, sd))"

text \<open>
  The loop of prompt_read over the bytes that the user types (\<open>None\<close> is a read error, an exhausted
  list end of file): what is stored, at most MAXLINE - 2 bytes, and what is left.
\<close>

fun prompt_loop :: "char option list \<Rightarrow> string \<Rightarrow> (string \<times> char option list) option" where
  "prompt_loop [] acc = Some (acc, [])"
| "prompt_loop (None # es) acc = None"
| "prompt_loop (Some c # es) acc =
     (if c = NL then Some (acc, es)
      else prompt_loop es (if length acc < MAXLINE - 2 then acc @ [c] else acc))"

record prompter = ttys +
  typed :: "char option list"
  shown :: string

text \<open>\<open>wrote\<close> is what the write of the prompt accepts; descriptor 0 is the terminal.\<close>

definition prompt_read :: "tty_flags \<Rightarrow> nat \<Rightarrow> string \<Rightarrow> (nat \<Rightarrow> string list \<Rightarrow> 'u \<Rightarrow> int \<times> 'u) \<Rightarrow> 'u \<Rightarrow> prompter \<Rightarrow> (int \<times> 'u \<times> prompter) res" where
  "prompt_read F wrote prompt userfunc u s =
     (let s = snd (tty_reset 0 s);
          s = s\<lparr>shown := shown s @ take wrote prompt\<rparr> in
      if min wrote (length prompt) \<noteq> length prompt then Inl (Exit 1 ''write error'')
      else case prompt_loop (typed s) [] of
        None \<Rightarrow> Inl (Exit 1 ''read error'')
      | Some (cmdargs, rest) \<Rightarrow>
          let s = snd (tty_raw F 0 (s\<lparr>typed := rest\<rparr>)); (r, u) = buf_args (cmdargs @ [NUL]) userfunc u
          in Inr (r, u, s))"

section \<open>Requests\<close>

lemma deci_word: "\<forall>c \<in> set (deci z). c \<notin> set WHITE" "deci z \<noteq> []" "NUL \<notin> set (deci z)"
proof -
  have "\<forall>c \<in> set (dec n). c \<notin> set WHITE" for n using dec_digits [of n] is_digit_not by (auto simp: WHITE_def)
  then show "\<forall>c \<in> set (deci z). c \<notin> set WHITE" by (simp add: deci_def WHITE_def)
  show "deci z \<noteq> []" by (simp add: deci_def)
  show "NUL \<notin> set (deci z)" using dec_not_NUL by (simp add: deci_def)
qed

lemma open_words:
  assumes "NUL \<notin> set name"
  shows "words (cstr (open_msg name oflg)) = ''open'' # words name @ [deci oflg]" "cstr (open_msg name oflg) = ''open '' @ name @ '' '' @ deci oflg"
proof -
  have nn: "NUL \<notin> set (''open '' @ name @ '' '' @ deci oflg)" using assms deci_word(3) by simp
  then show c: "cstr (open_msg name oflg) = ''open '' @ name @ '' '' @ deci oflg"
    using cstr_name [OF nn, of "[]"] by (simp add: open_msg_def)
  have e: "''open '' @ name @ '' '' @ deci oflg = ''open'' @ CHR '' '' # (name @ CHR '' '' # deci oflg)" by simp
  have s: "CHR '' '' \<in> set WHITE" by (simp add: WHITE_def)
  have "words (''open'' @ CHR '' '' # (name @ CHR '' '' # deci oflg)) = words ''open'' @ words name @ words (deci oflg)"
    by (simp only: words_sep [OF s])
  moreover have "words ''open'' = [''open'']" by (rule words_one) (auto simp: WHITE_def)
  moreover have "words (deci oflg) = [deci oflg]" using words_one deci_word by blast
  ultimately show "words (cstr (open_msg name oflg)) = ''open'' # words name @ [deci oflg]" unfolding c e by simp
qed

text \<open>
  C30: What the server makes of a request of csopen: the name arrives when it is one word, with the flags; a
  name of no word or of several words is refused and nothing is opened.
\<close>
theorem open_request_arrives:
  assumes "NUL \<notin> set name" "int_ok oflg"
  shows "buf_args (open_msg name oflg) cli_args (Inr s) =
    (if length (words name) = 1 then (0, Inr (s\<lparr>pathname := hd (words name), oflag := oflg\<rparr>))
     else if length (words name) \<le> 47 then (-1, Inr (s\<lparr>errmsg := usage\<rparr>)) else (-1, Inr s))"
proof -
  have h: "cstr (open_msg name oflg) = [] \<or> hd (cstr (open_msg name oflg)) \<notin> set WHITE"
    unfolding open_words(2) [OF assms(1)] by (simp add: WHITE_def)
  have b: "buf_args (open_msg name oflg) cli_args (Inr s) =
    (if MAXARGC - 1 < length (words name) + 2 then (-1, Inr s)
     else cli_args (length (words name) + 2) (''open'' # words name @ [deci oflg]) (Inr s))"
    using buf_args_words [OF h, of cli_args "Inr s"] open_words(1) [OF assms(1)] by (simp add: Let_def)
  show ?thesis
  proof (cases "words name")
    case (Cons w ws)
    then show ?thesis using b atoi_deci [OF assms(2)] by (cases ws) (simp_all add: cli_args_def MAXARGC_def)
  qed (use b in \<open>simp add: cli_args_def MAXARGC_def\<close>)
qed

text \<open>
  White space around a name is lost: the request for the file whose name is a blank followed by f
  opens the file f.
\<close>
theorem open_request_blank:
  "fst (buf_args (open_msg '' f'' 0) cli_args (Inr s)) = 0
   \<and> (case snd (buf_args (open_msg '' f'' 0) cli_args (Inr s)) of Inl e \<Rightarrow> False | Inr s' \<Rightarrow> pathname s' = ''f'')"
proof -
  have "words '' f'' = [''f'']" using words_white [of "CHR '' ''" "''f''"] words_one [of "''f''"] by (simp add: WHITE_def)
  then have "words (cstr (open_msg '' f'' 0)) = [''open'', ''f'', deci 0]" using open_words(1) [of "'' f''" 0] by simp
  moreover have "hd (cstr (open_msg '' f'' 0)) \<notin> set WHITE" using open_words(2) [of "'' f''" 0] by (simp add: WHITE_def)
  ultimately have "buf_args (open_msg '' f'' 0) cli_args (Inr s) = cli_args 3 [''open'', ''f'', deci 0] (Inr s)"
    by (simp add: buf_args_words MAXARGC_def eval_nat_numeral)
  then show ?thesis using atoi_deci [of 0] by (simp add: cli_args_def int_ok_def)
qed

text \<open>
  The whole way: csopen sends its request on the connection, made in the first call only, and
  returns the descriptor that the server sends back with the status 0.
\<close>
theorem csopen_gets_descriptor:
  assumes "0 \<le> conn" "csfd s = -1" "wr_env s = []" "0 \<le> oflg" "oflg < 10 ^ 8"
  shows "\<exists>s'. csopen conn userfunc [Msg [NUL, NUL] (Some fd)] newfd name oflg u s = Inr (fd, u, [], s')
    \<and> fd_out s' conn = fd_out s conn @ [(open_msg name oflg, None)] \<and> csfd s' = conn"
proof -
  have "length (dec (nat oflg)) \<le> 8" using assms(4,5) by (intro length_dec) auto
  then have l: "\<not> 10 < length ('' '' @ deci oflg) + 1" using assms(4) by (simp add: deci_def)
  show ?thesis using assms(1-3) l
    by (auto simp: csopen_def write_call_def recv_scan.simps MAXLINE_def Let_def)
qed

theorem open_request_arrives_witness:
  "buf_args (open_msg ''f'' 577) cli_args (Inr \<lparr>errmsg = [], oflag = 0, pathname = []\<rparr>) = (0, Inr \<lparr>errmsg = [], oflag = 577, pathname = ''f''\<rparr>)"
proof -
  have "words ''f'' = [''f'']" by (rule words_one) (auto simp: WHITE_def)
  then show ?thesis using open_request_arrives [of "''f''" 577 "\<lparr>errmsg = [], oflag = 0, pathname = []\<rparr>"] by (simp add: int_ok_def)
qed

theorem csopen_gets_descriptor_witness:
  "\<exists>s'. csopen 3 (\<lambda>b u. (int (length b), u @ b)) [Msg [NUL, NUL] (Some 7)] (-1) ''f'' 0 []
    \<lparr>debug = 0, errno_text = [], stderr_out = [], syslog_out = [], heap = 0, rd_env = (\<lambda>_. []), wr_env = [], fd_out = (\<lambda>_. []), csfd = -1\<rparr> = Inr (7, [], [], s')
    \<and> fd_out s' 3 = [(open_msg ''f'' 0, None)]"
  using csopen_gets_descriptor [of 3 "\<lparr>debug = 0, errno_text = [], stderr_out = [], syslog_out = [], heap = 0, rd_env = (\<lambda>_. []), wr_env = [], fd_out = (\<lambda>_. []), csfd = -1\<rparr>" 0
    "\<lambda>b u. (int (length b), u @ b)" 7 "-1" "''f''" "[]"] by auto

section \<open>The prompt\<close>

text \<open>The line that the user typed: what comes before the newline, cut to what the array holds.\<close>

lemma prompt_loop_line:
  "NL \<notin> set l \<Longrightarrow> length acc \<le> MAXLINE - 2 \<Longrightarrow>
    prompt_loop (map Some l @ Some NL # es) acc = Some (take (MAXLINE - 2) (acc @ l), es)"
proof (induction l arbitrary: acc)
  case (Cons c l)
  then show ?case by (cases "length acc < MAXLINE - 2") (auto simp: MAXLINE_def take_Cons')
qed simp

text \<open>
  prompt_read shows the prompt, splits the line that the user typed into words for the function, and
  leaves the terminal in raw mode.
\<close>
theorem prompt_read_words:
  assumes "NL \<notin> set l" "NUL \<notin> set l" "length l \<le> MAXLINE - 2" "l = [] \<or> hd l \<notin> set WHITE"
    and "typed s = map Some l @ Some NL # es" "setattr_ok s = []" "attrs s 0 = Some at" "ttystate s = RESET" "length prompt \<le> wrote"
  shows "\<exists>s'. prompt_read F wrote prompt f u s =
      (let ws = words l; ru = (if ws = [] \<or> MAXARGC - 1 < length ws then (-1, u) else f (length ws) ws u) in Inr (fst ru, snd ru, s'))
    \<and> shown s' = shown s @ prompt \<and> typed s' = es \<and> ttystate s' = RAW \<and> attrs s' 0 = Some (raw_attr F at)"
proof -
  have c: "cstr (l @ [NUL]) = l" using cstr_name [OF assms(2), of "[]"] .
  have "buf_args (l @ [NUL]) f u = (let ws = words l in if ws = [] \<or> MAXARGC - 1 < length ws then (-1, u) else f (length ws) ws u)"
    using buf_args_words [of "l @ [NUL]" f u] assms(4) unfolding c by blast
  moreover have "prompt_loop (typed s) [] = Some (l, es)" using prompt_loop_line [OF assms(1), of "[]" es] assms(3,5) by simp
  ultimately show ?thesis using assms(6-9)
    by (auto simp: prompt_read_def tty_reset_def tty_raw_def tcsetattr_def Let_def split: prod.split)
qed

theorem prompt_read_words_witness:
  "\<exists>s'. prompt_read \<lparr>F_ECHO = 8, F_ICANON = 2, F_IEXTEN = 0, F_ISIG = 1, F_BRKINT = 0, F_ICRNL = 0, F_INPCK = 0, F_ISTRIP = 0, F_IXON = 0, F_CSIZE = 0x30, F_PARENB = 0, F_CS8 = 0x30, F_OPOST = 1\<rparr>
     99 ''? '' take_put_args ([], []) \<lparr>attrs = (\<lambda>_. Some \<lparr>a_iflag = 0, a_oflag = 1, a_cflag = 0, a_lflag = 11, a_vmin = 1, a_vtime = 0, a_other_cc = []\<rparr>), setattr_ok = [],
       save_termios = \<lparr>a_iflag = 0, a_oflag = 1, a_cflag = 0, a_lflag = 11, a_vmin = 1, a_vtime = 0, a_other_cc = []\<rparr>, ttysavefd = -1, ttystate = RESET,
       typed = map Some ''f'' @ [Some NL], shown = []\<rparr> = Inr (0, (''f'', ''f''), s') \<and> ttystate s' = RAW"
proof -
  have "words ''f'' = [''f'']" by (rule words_one) (auto simp: WHITE_def)
  then show ?thesis
    using prompt_read_words [of "''f''" "\<lparr>attrs = (\<lambda>_. Some \<lparr>a_iflag = 0, a_oflag = 1, a_cflag = 0, a_lflag = 11, a_vmin = 1, a_vtime = 0, a_other_cc = []\<rparr>), setattr_ok = [],
       save_termios = \<lparr>a_iflag = 0, a_oflag = 1, a_cflag = 0, a_lflag = 11, a_vmin = 1, a_vtime = 0, a_other_cc = []\<rparr>, ttysavefd = -1, ttystate = RESET,
       typed = map Some ''f'' @ [Some NL], shown = []\<rparr>" "[]" "\<lparr>a_iflag = 0, a_oflag = 1, a_cflag = 0, a_lflag = 11, a_vmin = 1, a_vtime = 0, a_other_cc = []\<rparr>" "''? ''" 99
       "\<lparr>F_ECHO = 8, F_ICANON = 2, F_IEXTEN = 0, F_ISIG = 1, F_BRKINT = 0, F_ICRNL = 0, F_INPCK = 0, F_ISTRIP = 0, F_IXON = 0, F_CSIZE = 0x30, F_PARENB = 0, F_CS8 = 0x30, F_OPOST = 1\<rparr>"
       take_put_args "([], [])"]
    by (auto simp: MAXLINE_def MAXARGC_def WHITE_def take_put_args_def)
qed

end
