(* ===== verification/TellWait.thy ===== *)
theory TellWait
  imports Threads
begin

text \<open>
  Parent and child that take turns: ipc/tellwait.c (two pipes over which each tells the other to go on)
  and the two programs proc/tellwait1.c and proc/tellwait2.c, in which both processes write a line to
  the same output character by character, without and with the synchronisation.
\<close>

datatype tw_pc = AtStart | Waiting | Printing nat | Telling | Exited | Quit

record tw_pipes =
  pfd1 :: string \<comment> \<open>from the parent to the child\<close>
  pfd2 :: string \<comment> \<open>from the child to the parent\<close>

record tw = tw_pipes +
  out :: string
  parent_pc :: tw_pc
  child_pc :: tw_pc

section \<open>tellwait.c\<close>

text \<open>
  TELL_WAIT makes the pipes. Both processes keep all ends open, so that a read of an empty pipe waits;
  a byte that was not expected ends the process.
\<close>

definition TELL_WAIT :: "'a tw_pipes_scheme \<Rightarrow> 'a tw_pipes_scheme" where
  "TELL_WAIT s = s\<lparr>pfd1 := [], pfd2 := []\<rparr>"

definition TELL_PARENT :: "'a tw_pipes_scheme \<Rightarrow> 'a tw_pipes_scheme" where
  "TELL_PARENT s = s\<lparr>pfd2 := pfd2 s @ ''c''\<rparr>"

definition TELL_CHILD :: "'a tw_pipes_scheme \<Rightarrow> 'a tw_pipes_scheme" where
  "TELL_CHILD s = s\<lparr>pfd1 := pfd1 s @ ''p''\<rparr>"

text \<open>The two waits; \<open>go\<close> is where the process goes on, \<open>go False\<close> its end (err_quit) after a wrong byte.\<close>

definition WAIT_PARENT :: "(bool \<Rightarrow> 'a tw_pipes_scheme \<Rightarrow> 'a tw_pipes_scheme) \<Rightarrow> 'a tw_pipes_scheme \<Rightarrow> 'a tw_pipes_scheme outcome" where
  "WAIT_PARENT go s = (case pfd1 s of [] \<Rightarrow> Waits | c # cs \<Rightarrow> Goes (go (c = CHR ''p'') (s\<lparr>pfd1 := cs\<rparr>)))"

definition WAIT_CHILD :: "(bool \<Rightarrow> 'a tw_pipes_scheme \<Rightarrow> 'a tw_pipes_scheme) \<Rightarrow> 'a tw_pipes_scheme \<Rightarrow> 'a tw_pipes_scheme outcome" where
  "WAIT_CHILD go s = (case pfd2 s of [] \<Rightarrow> Waits | c # cs \<Rightarrow> Goes (go (c = CHR ''c'') (s\<lparr>pfd2 := cs\<rparr>)))"

section \<open>The programs\<close>

definition parent_msg :: string where "parent_msg = ''output from parent'' @ [NL]"
definition child_msg :: string where "child_msg = ''output from child'' @ [NL]"

text \<open>One character of charatatime, and where the process is afterwards.\<close>

definition charatatime :: "string \<Rightarrow> nat \<Rightarrow> tw_pc \<Rightarrow> tw \<Rightarrow> tw_pc \<times> tw" where
  "charatatime str k nxt s =
     (if k < length str then (Printing (Suc k), s\<lparr>out := out s @ [str ! k]\<rparr>) else (nxt, s))"

fun parent1 :: "tw_pc \<Rightarrow> tw \<Rightarrow> tw outcome" where
  "parent1 AtStart s = Goes (s\<lparr>parent_pc := Printing 0\<rparr>)"
| "parent1 (Printing k) s = (let (c, s) = charatatime parent_msg k Exited s in Goes (s\<lparr>parent_pc := c\<rparr>))"
| "parent1 _ s = Waits"

fun child1 :: "tw_pc \<Rightarrow> tw \<Rightarrow> tw outcome" where
  "child1 AtStart s = Goes (s\<lparr>child_pc := Printing 0\<rparr>)"
| "child1 (Printing k) s = (let (c, s) = charatatime child_msg k Exited s in Goes (s\<lparr>child_pc := c\<rparr>))"
| "child1 _ s = Waits"

fun parent2 :: "tw_pc \<Rightarrow> tw \<Rightarrow> tw outcome" where
  "parent2 AtStart s = Goes (s\<lparr>parent_pc := Printing 0\<rparr>)"
| "parent2 (Printing k) s = (let (c, s) = charatatime parent_msg k Telling s in Goes (s\<lparr>parent_pc := c\<rparr>))"
| "parent2 Telling s = Goes ((TELL_CHILD s)\<lparr>parent_pc := Exited\<rparr>)"
| "parent2 _ s = Waits"

fun child2 :: "tw_pc \<Rightarrow> tw \<Rightarrow> tw outcome" where
  "child2 AtStart s = Goes (s\<lparr>child_pc := Waiting\<rparr>)"
| "child2 Waiting s = WAIT_PARENT (\<lambda>ok s. s\<lparr>child_pc := (if ok then Printing 0 else Quit)\<rparr>) s"
| "child2 (Printing k) s = (let (c, s) = charatatime child_msg k Exited s in Goes (s\<lparr>child_pc := c\<rparr>))"
| "child2 _ s = Waits"

text \<open>After fork; \<open>sync\<close> says which of the two programs it is.\<close>

definition tw_init :: tw where
  "tw_init = TELL_WAIT \<lparr>pfd1 = [], pfd2 = [], out = [], parent_pc = AtStart, child_pc = AtStart\<rparr>"

fun tw_do :: "bool \<Rightarrow> bool \<Rightarrow> tw \<Rightarrow> tw outcome" where
  "tw_do sync True s = (if sync then parent2 (parent_pc s) s else parent1 (parent_pc s) s)"
| "tw_do sync False s = (if sync then child2 (child_pc s) s else child1 (child_pc s) s)"

inductive tw_step :: "bool \<Rightarrow> tw \<Rightarrow> tw \<Rightarrow> bool" for sync :: bool where
  "tw_do sync who s = Goes s' \<Longrightarrow> tw_step sync s s'"

inductive_cases tw_stepE: "tw_step sync s s'"

section \<open>With synchronisation\<close>

text \<open>What each process has written.\<close>

fun written :: "string \<Rightarrow> tw_pc \<Rightarrow> string" where
  "written m (Printing k) = take k m"
| "written m Telling = m"
| "written m Exited = m"
| "written m _ = []"

definition turn :: "tw \<Rightarrow> bool" where
  "turn s \<longleftrightarrow> out s = written parent_msg (parent_pc s) @ written child_msg (child_pc s)
     \<and> (parent_pc s \<noteq> Exited \<longrightarrow> pfd1 s = [] \<and> child_pc s \<in> {AtStart, Waiting})
     \<and> (parent_pc s = Exited \<and> child_pc s \<in> {AtStart, Waiting} \<longrightarrow> pfd1 s = ''p'')
     \<and> parent_pc s \<notin> {Waiting, Quit} \<and> child_pc s \<notin> {Telling, Quit}
     \<and> (\<forall>k. parent_pc s = Printing k \<longrightarrow> k \<le> length parent_msg) \<and> (\<forall>k. child_pc s = Printing k \<longrightarrow> k \<le> length child_msg)"

lemma parent2_turn: "parent2 (parent_pc s) s = Goes s' \<Longrightarrow> turn s \<Longrightarrow> turn s'"
  by (cases "parent_pc s") (auto simp: turn_def charatatime_def TELL_CHILD_def take_Suc_conv_app_nth split: if_splits)

lemma child2_turn: "child2 (child_pc s) s = Goes s' \<Longrightarrow> turn s \<Longrightarrow> turn s'"
  by (cases "child_pc s"; cases "parent_pc s = Exited")
    (auto simp: turn_def charatatime_def WAIT_PARENT_def take_Suc_conv_app_nth split: if_splits list.splits)

lemma turn_step: "tw_step True s s' \<Longrightarrow> turn s \<Longrightarrow> turn s'"
proof (elim tw_stepE)
  fix who
  assume "tw_do True who s = Goes s'" "turn s"
  then show "turn s'" by (cases who) (auto intro: parent2_turn child2_turn)
qed

lemma turn_init: "turn tw_init"
  by (simp add: turn_def tw_init_def TELL_WAIT_def)

interpretation tw2: event_system tw_init "tw_step True" turn "tw_do True"
  by unfold_locales (auto intro: turn_init turn_step tw_step.intros)

text \<open>The steps that are left, for both processes together.\<close>

fun steps_left :: "string \<Rightarrow> tw_pc \<Rightarrow> nat" where
  "steps_left m AtStart = length m + 4"
| "steps_left m Waiting = length m + 3"
| "steps_left m (Printing k) = length m - k + 2"
| "steps_left m Telling = 1"
| "steps_left m _ = 0"

definition tw_left :: "tw \<Rightarrow> nat" where
  "tw_left s = steps_left parent_msg (parent_pc s) + steps_left child_msg (child_pc s)"

lemma tw_left_step:
  assumes "tw_step True s s'" "turn s"
  shows "tw_left s' < tw_left s"
proof (rule tw_stepE [OF assms(1)])
  fix who
  assume st: "tw_do True who s = Goes s'"
  show ?thesis
  proof (cases who)
    case True
    then show ?thesis using st by (cases "parent_pc s") (auto simp: tw_left_def charatatime_def TELL_CHILD_def split: if_splits)
  next
    case False
    then show ?thesis using st assms(2)
      by (cases "child_pc s"; cases "parent_pc s = Exited")
        (auto simp: tw_left_def charatatime_def WAIT_PARENT_def turn_def split: if_splits list.splits)
  qed
qed

text \<open>
  In tellwait2 the parent goes first: at every moment the output is a part of the parent's line, or the
  whole line and a part of the child's.
\<close>
theorem parent_goes_first:
  assumes "reach (tw_step True) tw_init s"
  shows "\<exists>k. out s = take k (parent_msg @ child_msg) \<and> (parent_pc s = Exited \<and> child_pc s = Exited \<longrightarrow> out s = parent_msg @ child_msg)"
proof -
  have t: "turn s" by (rule tw2.reach_inv [OF assms])
  have c: "\<exists>k \<le> length m. written m c = take k m" if "\<forall>k. c = Printing k \<longrightarrow> k \<le> length m" for m c
    using that by (cases c) (auto intro: exI [of _ "0::nat"])
  show ?thesis
  proof (cases "parent_pc s = Exited")
    case True
    have "\<forall>k. child_pc s = Printing k \<longrightarrow> k \<le> length child_msg" using t by (simp add: turn_def)
    from c [OF this] obtain k where "k \<le> length child_msg" "written child_msg (child_pc s) = take k child_msg" by blast
    moreover have "out s = parent_msg @ written child_msg (child_pc s)" using t True by (simp add: turn_def)
    moreover from this have "child_pc s = Exited \<longrightarrow> out s = parent_msg @ child_msg" by simp
    ultimately show ?thesis by (intro exI [of _ "length parent_msg + k"]) simp
  next
    case False
    then have "written child_msg (child_pc s) = []" using t by (auto simp: turn_def)
    moreover have "\<forall>k. parent_pc s = Printing k \<longrightarrow> k \<le> length parent_msg" using t by (simp add: turn_def)
    from c [OF this] obtain k where "k \<le> length parent_msg" "written parent_msg (parent_pc s) = take k parent_msg" by blast
    ultimately show ?thesis using t False by (intro exI [of _ k]) (auto simp: turn_def)
  qed
qed

lemma tw_goes_on:
  assumes t: "turn s"
  shows "parent_pc s = Exited \<and> child_pc s = Exited \<or> (\<exists>s'. tw_step True s s')"
proof -
  have "\<exists>s'. tw_do True True s = Goes s'" if "parent_pc s \<noteq> Exited"
    using t that by (cases "parent_pc s") (auto simp: turn_def split: prod.split)
  moreover have "\<exists>s'. tw_do True False s = Goes s'" if "parent_pc s = Exited" "child_pc s \<noteq> Exited"
    using t that by (cases "child_pc s") (auto simp: turn_def WAIT_PARENT_def split: prod.split)
  ultimately show ?thesis by (blast intro: tw_step.intros)
qed

interpretation tw2r: ranked_system tw_init "tw_step True" turn tw_left
  by unfold_locales (rule tw_left_step)

lemma tw_left_init: "tw_left tw_init = 45"
  by (simp add: tw_left_def tw_init_def TELL_WAIT_def parent_msg_def child_msg_def)

text \<open>
  No run has more than 45 steps, and from every state on the way both come to their end.
\<close>
theorem tellwait_ends:
  assumes "reach (tw_step True) tw_init s"
  shows "((tw_step True ^^ k) tw_init s \<longrightarrow> k \<le> 45) \<and> (\<exists>k t. (tw_step True ^^ k) s t \<and> parent_pc t = Exited \<and> child_pc t = Exited)"
proof -
  obtain j t where t: "(tw_step True ^^ j) s t" "reach (tw_step True) tw_init t" "\<nexists>u. tw_step True t u"
    using tw2r.comes_to_end [OF assms] by blast
  then have "parent_pc t = Exited \<and> child_pc t = Exited" using tw_goes_on tw2.reach_inv by blast
  then show ?thesis using t(1) tw2r.run_bound [OF _ tw2.inv_init, of k s] by (auto simp: tw_left_init)
qed

section \<open>Without\<close>

interpretation tw1: event_system tw_init "tw_step False" "\<lambda>_. True" "tw_do False"
  by unfold_locales (auto intro: tw_step.intros)

text \<open>In tellwait1 the characters of the two lines mix.\<close>
theorem output_mixes:
  "\<exists>s. reach (tw_step False) tw_init s \<and> parent_pc s = Exited \<and> child_pc s = Exited
    \<and> take 6 (out s) = ''oouutt'' \<and> length (out s) = 37"
proof -
  let ?es = "concat (replicate 19 [True, False]) @ [True, False, True]"
  have "case run_events (tw_do False) ?es tw_init of None \<Rightarrow> False
      | Some s \<Rightarrow> parent_pc s = Exited \<and> child_pc s = Exited \<and> take 6 (out s) = ''oouutt'' \<and> length (out s) = 37" by code_simp
  from tw1.run_holds [OF this] show ?thesis .
qed

theorem parent_goes_first_witness: "\<exists>s k. reach (tw_step True) tw_init s \<and> out s = ''ou'' \<and> out s = take k (parent_msg @ child_msg)"
proof -
  have "case run_events (tw_do True) [False, True, True, True] tw_init of None \<Rightarrow> False | Some s \<Rightarrow> out s = ''ou''" by code_simp
  from tw2.run_holds [OF this] obtain s where s: "reach (tw_step True) tw_init s" "out s = ''ou''" by blast
  with parent_goes_first [OF s(1)] show ?thesis by blast
qed

theorem tellwait_ends_witness: "\<exists>k t. (tw_step True ^^ k) tw_init t \<and> parent_pc t = Exited \<and> child_pc t = Exited"
  using tellwait_ends [OF reach.start] by blast

end
