(* ===== verification/MusicPlayer.thy ===== *)
theory MusicPlayer
  imports Beep
begin

text \<open>
  The programs that use the buzzer drivers: driver_test/test_beep.c, driver_platform_test/test.c, and the
  player driver_test/test_beep_music.c with the songs of its header. They run on the models of
  the two drivers; what can be heard is listed: the timer's registers while the program sleeps.
\<close>

section \<open>The songs\<close>

type_synonym Note = "int \<times> int" \<comment> \<open>pitch, and dimation in units of 100 microseconds\<close>

text \<open>The pitches with BIG_D defined, in Hertz, and the length of a beat.\<close>

definition DO :: int where "DO = 293"
definition RE :: int where "RE = 330"
definition MI :: int where "MI = 370"
definition SOL :: int where "SOL = 440"
definition LA :: int where "LA = 494"
definition TIME :: int where "TIME = 6000"

definition MumIsTheBestInTheWorld :: "Note list" where
  "MumIsTheBestInTheWorld = [
     (LA, TIME + TIME div 2), (SOL, TIME div 2), (MI, TIME), (SOL, TIME),
     (DO * 2, TIME), (LA, TIME div 2), (SOL, TIME div 2), (LA, 2 * TIME),
     (MI, TIME), (SOL, TIME div 2), (LA, TIME div 2), (SOL, TIME),
     (MI, TIME), (DO, TIME div 2), (LA div 2, TIME div 2),
     (SOL, TIME div 2), (MI, TIME div 2), (RE, TIME * 2), (RE, TIME + TIME div 2),
     (MI, TIME div 2), (SOL, TIME), (SOL, TIME div 2), (LA, TIME div 2),
     (MI, TIME), (RE, TIME), (DO, TIME * 2), (SOL, TIME + TIME div 2),
     (MI, TIME div 2), (RE, TIME div 2), (DO, TIME div 2), (LA div 2, TIME div 2),
     (DO, TIME div 2), (SOL div 2, TIME * 3)]"

definition GreatlyLongNow :: "Note list" where
  "GreatlyLongNow = [
     (RE, TIME), (MI, TIME), (MI, TIME), (MI, TIME + TIME div 2), (RE, TIME div 2), (DO, TIME),
     (LA div 2, TIME), (DO, TIME), (RE, TIME), (DO, TIME * 3), (RE, TIME), (MI, TIME), (MI, TIME),
     (MI, TIME + TIME div 2), (SOL, TIME div 2), (MI, TIME), (MI, TIME), (RE, TIME), (MI, TIME),
     (MI, TIME * 3), (SOL, TIME), (LA, TIME), (LA, TIME), (LA, TIME + TIME div 2), (SOL, TIME div 2),
     (MI, TIME), (MI, TIME), (SOL, TIME), (LA, TIME), (SOL, TIME * 3), (RE, TIME), (MI, TIME),
     (MI, TIME), (RE, TIME + TIME div 2), (MI, TIME div 2), (MI, TIME), (RE, TIME), (MI, TIME),
     (LA div 2, TIME), (DO, TIME div 2), (LA div 2, TIME div 2), (LA div 2, TIME * 2),
     (RE, TIME div 2), (RE, TIME div 2), (RE, TIME div 2), (DO, TIME div 2), (LA div 2, TIME),
     (RE, TIME div 2), (RE, TIME div 2), (RE, TIME div 2), (DO, TIME div 2), (LA div 2, TIME),
     (RE, TIME), (MI, TIME), (DO, TIME), (RE, TIME + TIME div 2), (MI, TIME div 2), (SOL, TIME),
     (LA, TIME div 2), (LA, TIME div 2), (LA, TIME div 2), (SOL, TIME div 2), (MI, TIME),
     (RE, TIME div 2), (RE, TIME div 2), (RE, TIME div 2), (DO, TIME div 2), (LA div 2, TIME),
     (LA div 2, TIME), (SOL div 2, TIME + TIME div 2), (LA div 2, TIME div 2), (LA div 2, TIME * 3),
     (RE, TIME div 2), (RE, TIME div 2), (RE, TIME div 2), (DO, TIME div 2), (LA div 2, TIME),
     (RE, TIME div 2), (RE, TIME div 2), (RE, TIME div 2), (DO, TIME div 2), (LA div 2, TIME),
     (RE, TIME), (MI, TIME), (DO, TIME), (RE, TIME + TIME div 2), (MI, TIME div 2), (SOL, TIME),
     (LA, TIME div 2), (LA, TIME div 2), (LA, TIME div 2), (SOL, TIME div 2), (MI, TIME),
     (RE, TIME div 2), (RE, TIME div 2), (RE, TIME div 2), (DO, TIME div 2), (LA div 2, TIME),
     (LA div 2, TIME), (SOL div 2, TIME + TIME div 2), (LA div 2, TIME div 2), (LA div 2, TIME * 3)]"

definition FishBoat :: "Note list" where
  "FishBoat = [
     (MI, TIME + TIME div 2), (SOL, TIME div 2), (LA, TIME div 2 + TIME div 4), (DO * 2, TIME div 4), (LA, TIME div 2),
     (SOL, TIME div 2), (MI, TIME * 3), (RE, TIME), (DO, TIME + TIME div 2), (MI, TIME div 2), (RE, TIME div 2 + TIME div 4),
     (MI, TIME div 4), (RE, TIME div 2), (DO, TIME div 2), (RE, TIME * 4), (MI, TIME + TIME div 2), (SOL, TIME div 2),
     (RE, TIME), (DO, TIME), (LA, TIME div 2 + TIME div 4), (DO * 2, TIME div 4), (LA, TIME div 2), (SOL, TIME div 2),
     (LA, TIME * 2), (SOL div 2, TIME + TIME div 2), (LA div 2, TIME div 2), (DO, TIME div 2 + TIME div 4), (MI, TIME div 4),
     (RE, TIME div 2), (DO, TIME div 2), (SOL div 2, TIME * 4),
     (MI, TIME + TIME div 2), (SOL, TIME div 2), (LA, TIME div 2 + TIME div 4), (DO * 2, TIME div 4), (LA, TIME div 2),
     (SOL, TIME div 2), (MI, TIME * 3), (SOL, TIME div 2), (LA, TIME div 2), (DO * 2, TIME + TIME div 2), (LA, TIME div 2),
     (SOL, TIME div 2 + TIME div 4), (LA, TIME div 4), (SOL, TIME div 2), (MI, TIME div 2), (RE, TIME * 4),
     (MI, TIME + TIME div 2), (SOL, TIME div 2), (RE, TIME div 2 + TIME div 4), (MI, TIME div 4), (RE, TIME div 2), (DO, TIME div 2),
     (LA, TIME div 2 + TIME div 4), (DO * 2, TIME div 4), (LA, TIME div 2), (SOL, TIME div 2), (LA, TIME * 2), (DO, TIME + TIME div 2),
     (RE, TIME div 2), (MI, TIME div 2), (SOL, TIME div 2), (RE, TIME div 2), (MI, TIME div 2), (DO, TIME * 4)]"

section \<open>Hearing\<close>

record player = beep +
  heard :: "(32 word \<times> 32 word \<times> bool \<times> int) list" \<comment> \<open>period, compare value, running, microseconds\<close>

definition usleep :: "int \<Rightarrow> 'a player_scheme \<Rightarrow> 'a player_scheme" where
  "usleep us s =
     s\<lparr>heard := heard s @ [(readl (timer_base s + TCNTB0) s, readl (timer_base s + TCMPB0) s, bit (readl (timer_base s + TCON) s) 0, us)]\<rparr>"

section \<open>The programs\<close>

text \<open>The loop over one song; the results of ioctl are ignored. The pitch is passed as it is.\<close>

fun play :: "(char \<Rightarrow> nat \<Rightarrow> 32 word) \<Rightarrow> Note list \<Rightarrow> 'a player_scheme \<Rightarrow> 'a player_scheme res" where
  "play cmd [] s = Inr s"
| "play cmd ((pitch, dimation) # ns) s =
     bindR (beep_ioctl cmd (BEEP_FREQ cmd) (word_of_int pitch) s) (\<lambda>(_, s).
     bindR (beep_ioctl cmd (BEEP_ON cmd) 0 s) (\<lambda>(_, s).
     bindR (beep_ioctl cmd (BEEP_OFF cmd) 0 (usleep (dimation * 100) s)) (\<lambda>(_, s). play cmd ns s)))"

text \<open>The descriptor that open returned; the process that ends closes it.\<close>

definition music_main :: "(char \<Rightarrow> nat \<Rightarrow> 32 word) \<Rightarrow> int \<Rightarrow> 'a player_scheme \<Rightarrow> (int \<times> 'a player_scheme) res" where
  "music_main cmd dev_fd s =
     (if dev_fd = -1 then Inl (Exit 1 ''open'')
      else bindR (play cmd GreatlyLongNow (snd (beep_open s))) (\<lambda>s.
           bindR (play cmd MumIsTheBestInTheWorld s) (\<lambda>s.
           bindR (play cmd FishBoat s) (\<lambda>s. Inr (0, snd (beep_close s))))))"

definition test_beep_main :: "(char \<Rightarrow> nat \<Rightarrow> 32 word) \<Rightarrow> int \<Rightarrow> 'a player_scheme \<Rightarrow> 'a player_scheme res" where
  "test_beep_main cmd fd s =
     (if fd < 0 then Inr s
      else bindR (beep_ioctl cmd (BEEP_ON cmd) 0 (snd (beep_open s))) (\<lambda>(_, s).
           bindR (beep_ioctl cmd (BEEP_OFF cmd) 0 (usleep (6 * 1000000) s)) (\<lambda>(_, s). Inr (snd (beep_close s)))))"

definition test_plat_main :: "int \<Rightarrow> 'a player_scheme \<Rightarrow> 'a player_scheme" where
  "test_plat_main fd s = (if fd < 0 then s else snd (beep_close (usleep (10 * 1000000) (snd (beep_open_plat s)))))"

section \<open>What is heard\<close>

definition tone :: "Note \<Rightarrow> 32 word \<times> 32 word \<times> bool \<times> int" where
  "tone n = (100000 div word_of_int (fst n), 100000 div (2 * word_of_int (fst n)), True, snd n * 100)"

definition distinct_commands :: "(char \<Rightarrow> nat \<Rightarrow> 32 word) \<Rightarrow> bool" where
  "distinct_commands cmd \<longleftrightarrow> distinct [BEEP_ON cmd, BEEP_OFF cmd, BEEP_FREQ cmd]"

lemma ioctl_simps:
  assumes "distinct_commands cmd"
  shows "beep_ioctl cmd (BEEP_ON cmd) a s = Inr (None, fs4412_beep_on s)"
    "beep_ioctl cmd (BEEP_OFF cmd) a s = Inr (None, fs4412_beep_off s)"
    "beep_ioctl cmd (BEEP_FREQ cmd) a s = bindR (beep_freq a s) (\<lambda>s. Inr (None, s))"
  using assms by (auto simp: beep_ioctl_def distinct_commands_def)

lemma heard_writel [simp]: "heard (writel v a s) = heard s"
  by (simp add: writel_def)

lemma heard_set_bits [simp]: "heard (set_bits a x y s) = heard s"
  by (simp add: set_bits_def)

lemma usleep_simps [simp]:
  "timer_base (usleep us s) = timer_base s" "readl a (usleep us s) = readl a s"
  by (simp_all add: usleep_def readl_def)

definition silent :: "'a player_scheme \<Rightarrow> bool" where
  "silent s \<longleftrightarrow> \<not> bit (readl (timer_base s + TCON) s) 0"

lemma pitch_word:
  assumes "0 < p" "p < 2 ^ 30"
  shows "(word_of_int p :: 32 word) \<noteq> 0" "2 * (word_of_int p :: 32 word) \<noteq> 0"
proof -
  have "uint (word_of_int p :: 32 word) = p" "uint (2 * (word_of_int p :: 32 word)) = 2 * p"
    using assms by (simp_all add: uint_word_of_int uint_word_ariths)
  then show "(word_of_int p :: 32 word) \<noteq> 0" "2 * (word_of_int p :: 32 word) \<noteq> 0" using assms by auto
qed

lemma play_note:
  assumes "distinct_commands cmd" "0 < p" "p < 2 ^ 30"
  shows "\<exists>s'. play cmd [(p, d)] s = Inr s' \<and> heard s' = heard s @ [tone (p, d)] \<and> silent s' \<and> timer_base s' = timer_base s"
proof -
  define t where "t = writel (BEPP_IN_FREQ div (2 * word_of_int p)) (timer_base s + TCMPB0)
    (writel (BEPP_IN_FREQ div word_of_int p) (timer_base s + TCNTB0) s)"
  have f: "beep_freq (word_of_int p) s = Inr t" using pitch_word [OF assms(2,3)] by (simp add: beep_freq_def Let_def t_def)
  have b: "timer_base t = timer_base s" "heard t = heard s" by (simp_all add: t_def)
  have "play cmd [(p, d)] s = Inr (fs4412_beep_off (usleep (d * 100) (fs4412_beep_on t)))"
    by (simp add: ioctl_simps [OF assms(1)] f)
  moreover have "heard (fs4412_beep_off (usleep (d * 100) (fs4412_beep_on t))) = heard s @ [tone (p, d)]"
    by (simp add: fs4412_beep_off_def fs4412_beep_on_def usleep_def b tone_def bit_simps) (simp add: t_def io.rd_wr)
  moreover have "silent (fs4412_beep_off (usleep (d * 100) (fs4412_beep_on t)))"
    by (simp add: silent_def fs4412_beep_off_def bit_simps)
  ultimately show ?thesis by (simp add: fs4412_beep_off_def fs4412_beep_on_def b)
qed

lemma play_Cons: "play cmd (n # ns) s = bindR (play cmd [n] s) (play cmd ns)"
  by (cases n) (simp add: bindR_def split: sum.splits prod.splits)

definition playable :: "Note list \<Rightarrow> bool" where
  "playable ns \<longleftrightarrow> (\<forall>n \<in> set ns. 0 < fst n \<and> fst n < 2 ^ 30)"

lemma play_song:
  assumes "distinct_commands cmd" "playable ns" "silent s \<or> ns \<noteq> []"
  shows "\<exists>s'. play cmd ns s = Inr s' \<and> heard s' = heard s @ map tone ns \<and> silent s' \<and> timer_base s' = timer_base s"
  using assms(2,3)
proof (induction ns arbitrary: s)
  case (Cons n ns)
  obtain p d where n: "n = (p, d)" by fastforce
  have p: "0 < p" "p < 2 ^ 30" using Cons.prems(1) by (simp_all add: playable_def n)
  obtain t where t: "play cmd [(p, d)] s = Inr t" "heard t = heard s @ [tone (p, d)]" "silent t" "timer_base t = timer_base s"
    using play_note [OF assms(1) p, of d s] by blast
  obtain s' where "play cmd ns t = Inr s'" "heard s' = heard t @ map tone ns" "silent s'" "timer_base s' = timer_base t"
    using Cons.IH [of t] Cons.prems(1) t(3) by (auto simp: playable_def)
  then show ?case using t by (simp only: n play_Cons [of cmd _ ns] bindR_Inr) auto
qed simp

lemma songs_playable: "playable GreatlyLongNow" "playable MumIsTheBestInTheWorld" "playable FishBoat"
  by code_simp+

text \<open>
  The player plays the notes of its three songs in order, every one at the frequency of its pitch, with a
  running timer for its length, and leaves the buzzer silent. No note divides by zero.
\<close>
theorem music_plays_songs:
  assumes "distinct_commands cmd" and "dev_fd \<noteq> -1"
  shows "\<exists>s'. music_main cmd dev_fd s = Inr (0, s') \<and> silent s'
    \<and> heard s' = heard s @ map tone (GreatlyLongNow @ MumIsTheBestInTheWorld @ FishBoat)"
proof -
  have ne: "GreatlyLongNow \<noteq> []" by (simp add: GreatlyLongNow_def)
  obtain s1 where s1: "play cmd GreatlyLongNow s = Inr s1" "heard s1 = heard s @ map tone GreatlyLongNow" "silent s1"
    using play_song [OF assms(1) songs_playable(1), of s] ne by blast
  obtain s2 where s2: "play cmd MumIsTheBestInTheWorld s1 = Inr s2" "heard s2 = heard s1 @ map tone MumIsTheBestInTheWorld" "silent s2"
    using play_song [OF assms(1) songs_playable(2), of s1] s1(3) by blast
  obtain s3 where s3: "play cmd FishBoat s2 = Inr s3" "heard s3 = heard s2 @ map tone FishBoat"
    using play_song [OF assms(1) songs_playable(3), of s2] s2(3) by blast
  have "heard (snd (beep_close s3)) = heard s3" "silent (snd (beep_close s3))"
    by (simp_all add: beep_close_def fs4412_beep_off_def silent_def bit_simps)
  then show ?thesis using assms(2) s1 s2 s3 by (simp add: music_main_def beep_open_def)
qed

text \<open>The length of the whole performance in microseconds: 114.6 seconds.\<close>

lemma music_length: "sum_list (map (\<lambda>n. snd n * 100) (GreatlyLongNow @ MumIsTheBestInTheWorld @ FishBoat)) = 114600000"
  by code_simp

text \<open>The two test programs buzz once, with the frequency that is set, and end silent.\<close>

lemma tests_buzz:
  assumes "distinct_commands cmd" "0 \<le> fd"
  shows "\<exists>s'. test_beep_main cmd fd s = Inr s' \<and> silent s' \<and> silent (test_plat_main fd s)
    \<and> heard s' = heard s @ [(readl (timer_base s + TCNTB0) s, readl (timer_base s + TCMPB0) s, True, 6000000)]
    \<and> heard (test_plat_main fd s) = heard s @ [(readl (timer_base s + TCNTB0) s, readl (timer_base s + TCMPB0) s, True, 10000000)]"
proof -
  have off: "silent (fs4412_beep_off t)" "heard (fs4412_beep_off t) = heard t" for t :: "'a player_scheme"
    by (simp_all add: silent_def fs4412_beep_off_def bit_simps)
  have on: "heard (usleep us (fs4412_beep_on s))
      = heard s @ [(readl (timer_base s + TCNTB0) s, readl (timer_base s + TCMPB0) s, True, us)]" for us
    by (simp add: usleep_def fs4412_beep_on_def bit_simps)
  show ?thesis using assms(2)
    by (simp add: test_beep_main_def test_plat_main_def ioctl_simps [OF assms(1)] beep_open_def beep_open_plat_def beep_close_def off on)
qed

definition linux_io :: "char \<Rightarrow> nat \<Rightarrow> 32 word" where
  "linux_io c n = word_of_nat (of_char c * 256 + n)"

definition player_ex :: player where
  "player_ex = beep.extend beep_ex \<lparr>heard = []\<rparr>"

lemma heard_player_ex: "heard player_ex = []"
  by (simp add: player_ex_def beep.defs)

theorem music_plays_songs_witness:
  "\<exists>s'. music_main linux_io 3 player_ex = Inr (0, s') \<and> heard s' ! 0 = (303, 151, True, 600000)"
proof -
  have c: "distinct_commands linux_io"
    by (simp add: distinct_commands_def BEEP_ON_def BEEP_OFF_def BEEP_FREQ_def linux_io_def)
  have d: "(3 :: int) \<noteq> -1" by simp
  obtain s' where m: "music_main linux_io 3 player_ex = Inr (0, s')"
    and h: "heard s' = heard player_ex @ map tone (GreatlyLongNow @ MumIsTheBestInTheWorld @ FishBoat)"
    using music_plays_songs [OF c d] by blast
  have n: "map tone (GreatlyLongNow @ MumIsTheBestInTheWorld @ FishBoat) ! 0 = (303, 151, True, 600000)" by code_simp
  have "heard s' ! 0 = (303, 151, True, 600000)" unfolding h heard_player_ex append_Nil by (rule n)
  with m show ?thesis by blast
qed

end
