(* ===== verification/SharedCounter.thy ===== *)
theory SharedCounter
  imports TellWait
begin

text \<open>
  advio/devzero.c: parent and child take turns in incrementing a counter in shared memory, each
  checking that it finds the value the other has left. The increment is a read and a write, between
  which the other process may run; only the synchronisation of tellwait.c keeps them apart.
\<close>

datatype dz_pc = Looping int | Reading int | Writing int int | Tells int | Awaits int | Ended | ErrQuit

record dz = tw_pipes +
  area :: int
  p_pc :: dz_pc
  c_pc :: dz_pc

definition NLOOPS :: int where "NLOOPS = 1000"

text \<open>The two halves of update and the test of its result.\<close>

definition update_read :: "int \<Rightarrow> dz \<Rightarrow> dz_pc" where
  "update_read i s = Writing i (area s)"

definition update_write :: "int \<Rightarrow> dz \<Rightarrow> dz" where
  "update_write v s = s\<lparr>area := v + 1\<rparr>"

definition checked :: "int \<Rightarrow> int \<Rightarrow> dz_pc" where
  "checked i counter = (if counter \<noteq> i then ErrQuit else Tells i)"

text \<open>The loops of the parent (from 0) and of the child (from 1), one step each.\<close>

fun dz_parent :: "dz_pc \<Rightarrow> dz \<Rightarrow> dz outcome" where
  "dz_parent (Looping i) s = Goes (s\<lparr>p_pc := (if i < NLOOPS then Reading i else Ended)\<rparr>)"
| "dz_parent (Reading i) s = Goes (s\<lparr>p_pc := update_read i s\<rparr>)"
| "dz_parent (Writing i v) s = Goes ((update_write v s)\<lparr>p_pc := checked i v\<rparr>)"
| "dz_parent (Tells i) s = Goes ((TELL_CHILD s)\<lparr>p_pc := Awaits i\<rparr>)"
| "dz_parent (Awaits i) s = WAIT_CHILD (\<lambda>ok s. s\<lparr>p_pc := (if ok then Looping (i + 2) else ErrQuit)\<rparr>) s"
| "dz_parent _ s = Waits"

fun dz_child :: "dz_pc \<Rightarrow> dz \<Rightarrow> dz outcome" where
  "dz_child (Looping i) s = Goes (s\<lparr>c_pc := (if i < NLOOPS + 1 then Awaits i else Ended)\<rparr>)"
| "dz_child (Awaits i) s = WAIT_PARENT (\<lambda>ok s. s\<lparr>c_pc := (if ok then Reading i else ErrQuit)\<rparr>) s"
| "dz_child (Reading i) s = Goes (s\<lparr>c_pc := update_read i s\<rparr>)"
| "dz_child (Writing i v) s = Goes ((update_write v s)\<lparr>c_pc := checked i v\<rparr>)"
| "dz_child (Tells i) s = Goes ((TELL_PARENT s)\<lparr>c_pc := Looping (i + 2)\<rparr>)"
| "dz_child _ s = Waits"

text \<open>The mapped memory is zero, the pipes are made, and fork has returned in both.\<close>

definition dz_init :: dz where
  "dz_init = TELL_WAIT \<lparr>pfd1 = [], pfd2 = [], area = 0, p_pc = Looping 0, c_pc = Looping 1\<rparr>"

fun dz_do :: "bool \<Rightarrow> dz \<Rightarrow> dz outcome" where
  "dz_do True s = dz_parent (p_pc s) s"
| "dz_do False s = dz_child (c_pc s) s"

inductive dz_step :: "dz \<Rightarrow> dz \<Rightarrow> bool" where
  "dz_do who s = Goes s' \<Longrightarrow> dz_step s s'"

inductive_cases dz_stepE: "dz_step s s'"

section \<open>The invariant\<close>

text \<open>A process that is out of its turn: it sleeps before the value \<open>i\<close>, or is about to.\<close>

definition idle :: "int \<Rightarrow> dz_pc \<Rightarrow> bool" where
  "idle i pc \<longleftrightarrow> pc = Looping i \<or> pc = Awaits i \<and> i < NLOOPS + 1 \<or> pc = Ended \<and> i = NLOOPS + 1"

text \<open>A process in its turn, with the number of the value in the area.\<close>

definition in_turn :: "int \<Rightarrow> dz_pc \<Rightarrow> int \<Rightarrow> bool" where
  "in_turn i pc a \<longleftrightarrow> (pc = Reading i \<or> pc = Writing i i) \<and> a = i \<or> pc = Tells i \<and> a = i + 1"

text \<open>
  The parent's turn with \<open>i\<close>; the parent waits and the child has the word; the child's turn; the
  child has answered.
\<close>

definition parent_turn :: "int \<Rightarrow> dz \<Rightarrow> bool" where
  "parent_turn i s \<longleftrightarrow> pfd1 s = [] \<and> pfd2 s = [] \<and> idle (i + 1) (c_pc s)
     \<and> (p_pc s = Looping i \<and> area s = i \<or> p_pc s = Ended \<and> i = NLOOPS \<and> area s = i \<or> i < NLOOPS \<and> in_turn i (p_pc s) (area s))"

definition told_child :: "int \<Rightarrow> dz \<Rightarrow> bool" where
  "told_child i s \<longleftrightarrow> pfd1 s = ''p'' \<and> pfd2 s = [] \<and> i < NLOOPS \<and> p_pc s = Awaits i \<and> area s = i + 1
     \<and> (c_pc s = Looping (i + 1) \<or> c_pc s = Awaits (i + 1))"

definition child_turn :: "int \<Rightarrow> dz \<Rightarrow> bool" where
  "child_turn i s \<longleftrightarrow> pfd1 s = [] \<and> pfd2 s = [] \<and> i < NLOOPS \<and> p_pc s = Awaits i \<and> in_turn (i + 1) (c_pc s) (area s)"

definition told_parent :: "int \<Rightarrow> dz \<Rightarrow> bool" where
  "told_parent i s \<longleftrightarrow> pfd1 s = [] \<and> pfd2 s = ''c'' \<and> i < NLOOPS \<and> p_pc s = Awaits i \<and> area s = i + 2 \<and> idle (i + 3) (c_pc s)"

lemmas turn_defs = parent_turn_def told_child_def child_turn_def told_parent_def

definition dz_inv :: "dz \<Rightarrow> bool" where
  "dz_inv s \<longleftrightarrow> (\<exists>i. even i \<and> 0 \<le> i \<and> i \<le> NLOOPS \<and> (parent_turn i s \<or> told_child i s \<or> child_turn i s \<or> told_parent i s))"

lemma even_below: "even (i :: int) \<Longrightarrow> i < NLOOPS \<Longrightarrow> i + 2 \<le> NLOOPS"
  unfolding NLOOPS_def by presburger

lemmas dz_simps = TELL_CHILD_def TELL_PARENT_def WAIT_CHILD_def WAIT_PARENT_def update_read_def update_write_def checked_def idle_def in_turn_def

lemma idle_child:
  assumes "idle k (c_pc s)" "pfd1 s = []" "dz_child (c_pc s) s = Goes s'" "k \<le> NLOOPS + 1"
  shows "\<exists>pc. s' = s\<lparr>c_pc := pc\<rparr> \<and> idle k pc"
proof -
  consider "c_pc s = Looping k" | "c_pc s = Awaits k" | "c_pc s = Ended" using assms(1) by (auto simp: idle_def)
  then show ?thesis
  proof cases
    case 1
    then have "s' = s\<lparr>c_pc := (if k < NLOOPS + 1 then Awaits k else Ended)\<rparr>" using assms(3) by simp
    moreover have "idle k (if k < NLOOPS + 1 then Awaits k else Ended)" using assms(4) by (simp add: idle_def)
    ultimately show ?thesis by blast
  qed (use assms in \<open>simp_all add: WAIT_PARENT_def\<close>)
qed

lemma in_turn_parent:
  assumes "in_turn i (p_pc s) (area s)" "dz_parent (p_pc s) s = Goes s'"
  shows "s' = (TELL_CHILD s)\<lparr>p_pc := Awaits i\<rparr> \<and> area s = i + 1 \<or> (\<exists>pc a. s' = s\<lparr>area := a, p_pc := pc\<rparr> \<and> in_turn i pc a)"
proof -
  consider "p_pc s = Reading i" "area s = i" | "p_pc s = Writing i i" "area s = i" | "p_pc s = Tells i" "area s = i + 1"
    using assms(1) by (auto simp: in_turn_def)
  then show ?thesis
  proof cases
    case 1
    then have "s' = s\<lparr>area := i, p_pc := Writing i i\<rparr>" using assms(2) by (auto simp: update_read_def)
    then show ?thesis by (auto simp: in_turn_def)
  next
    case 2
    then have "s' = s\<lparr>area := i + 1, p_pc := Tells i\<rparr>" using assms(2) by (simp add: update_write_def checked_def)
    then show ?thesis by (auto simp: in_turn_def)
  next
    case 3
    then show ?thesis using assms(2) by (simp add: TELL_CHILD_def)
  qed
qed

lemma parent_turn_step:
  assumes "parent_turn i s" "i \<le> NLOOPS" "dz_do who s = Goes s'"
  shows "parent_turn i s' \<or> told_child i s'"
proof (cases who)
  case True
  then have st: "dz_parent (p_pc s) s = Goes s'" using assms(3) by simp
  have p: "pfd1 s = []" "pfd2 s = []" "idle (i + 1) (c_pc s)" using assms(1) by (simp_all add: parent_turn_def)
  consider "p_pc s = Looping i" "area s = i" | "p_pc s = Ended" | "i < NLOOPS" "in_turn i (p_pc s) (area s)"
    using assms(1) by (auto simp: parent_turn_def)
  then show ?thesis
  proof cases
    case 1
    then have "s' = s\<lparr>p_pc := (if i < NLOOPS then Reading i else Ended)\<rparr>" using st by simp
    then show ?thesis using 1 p assms(2) by (simp add: parent_turn_def in_turn_def)
  next
    case 2
    then show ?thesis using st by simp
  next
    case 3
    from in_turn_parent [OF this(2) st] show ?thesis
    proof
      assume "s' = (TELL_CHILD s)\<lparr>p_pc := Awaits i\<rparr> \<and> area s = i + 1"
      then show ?thesis using p 3(1) by (auto simp: told_child_def TELL_CHILD_def idle_def)
    qed (use p 3(1) in \<open>auto simp: parent_turn_def\<close>)
  qed
next
  case False
  then obtain pc where "s' = s\<lparr>c_pc := pc\<rparr>" "idle (i + 1) pc"
    using idle_child [of "i + 1" s s'] assms by (auto simp: parent_turn_def)
  then show ?thesis using assms(1) by (simp add: parent_turn_def)
qed

lemma told_child_step:
  assumes "told_child i s" "even i" "i \<le> NLOOPS" "dz_do who s = Goes s'"
  shows "told_child i s' \<or> child_turn i s'"
proof (cases who)
  case True
  then show ?thesis using assms by (auto simp: turn_defs dz_simps)
next
  case False
  then show ?thesis using assms by (auto simp: turn_defs dz_simps split: if_splits)
qed

lemma child_turn_step:
  assumes "child_turn i s" "even i" "i \<le> NLOOPS" "dz_do who s = Goes s'"
  shows "child_turn i s' \<or> told_parent i s'"
proof (cases who)
  case True
  then show ?thesis using assms by (auto simp: turn_defs dz_simps)
next
  case False
  then show ?thesis using assms by (auto simp: turn_defs dz_simps split: if_splits)
qed

lemma told_parent_step:
  assumes "told_parent i s" "even i" "i \<le> NLOOPS" "dz_do who s = Goes s'"
  shows "told_parent i s' \<or> parent_turn (i + 2) s'"
proof (cases who)
  case True
  then have "s' = s\<lparr>pfd2 := [], p_pc := Looping (i + 2)\<rparr>" using assms(1,4) by (simp add: told_parent_def WAIT_CHILD_def)
  then show ?thesis using assms(1) by (simp add: told_parent_def parent_turn_def add.commute)
next
  case False
  moreover have "i + 3 \<le> NLOOPS + 1" using even_below [of i] assms(1,2) by (simp add: told_parent_def)
  ultimately obtain pc where "s' = s\<lparr>c_pc := pc\<rparr>" "idle (i + 3) pc"
    using idle_child [of "i + 3" s s'] assms(1,4) by (auto simp: told_parent_def)
  then show ?thesis using assms(1) by (simp add: told_parent_def)
qed

lemma dz_inv_step:
  assumes "dz_step s s'" "dz_inv s"
  shows "dz_inv s'"
proof -
  obtain who where w: "dz_do who s = Goes s'" using assms(1) by (rule dz_stepE)
  obtain i where i: "even i" "0 \<le> i" "i \<le> NLOOPS" "parent_turn i s \<or> told_child i s \<or> child_turn i s \<or> told_parent i s"
    using assms(2) by (auto simp: dz_inv_def)
  have n: "told_parent i s \<Longrightarrow> i + 2 \<le> NLOOPS" using even_below [of i] i(1) by (simp add: told_parent_def)
  have "(parent_turn i s' \<or> told_child i s' \<or> child_turn i s' \<or> told_parent i s') \<or> told_parent i s \<and> parent_turn (i + 2) s'"
    using i parent_turn_step [OF _ i(3) w] told_child_step [OF _ i(1,3) w] child_turn_step [OF _ i(1,3) w] told_parent_step [OF _ i(1,3) w] by blast
  then show ?thesis
  proof
    assume "told_parent i s \<and> parent_turn (i + 2) s'"
    then show ?thesis using i n unfolding dz_inv_def by (intro exI [of _ "i + 2"]) auto
  qed (use i in \<open>auto simp: dz_inv_def\<close>)
qed

lemma dz_inv_init: "dz_inv dz_init"
  unfolding dz_inv_def by (intro exI [of _ "0 :: int"]) (simp add: parent_turn_def idle_def dz_init_def TELL_WAIT_def NLOOPS_def)

interpretation dz: event_system dz_init dz_step dz_inv dz_do
  by unfold_locales (auto intro: dz_inv_init dz_inv_step dz_step.intros)


section \<open>What it means\<close>

text \<open>
  C16: The two processes exclude each other from the counter, every value they read is the one they expect,
  and when both have ended the counter has counted every round.
\<close>
theorem counter_turns:
  assumes "reach dz_step dz_init s"
  shows "0 \<le> area s \<and> area s \<le> NLOOPS \<and> p_pc s \<noteq> ErrQuit \<and> c_pc s \<noteq> ErrQuit
    \<and> \<not> ((\<exists>i v. p_pc s \<in> {Reading i, Writing i v}) \<and> (\<exists>j w. c_pc s \<in> {Reading j, Writing j w}))
    \<and> (p_pc s = Ended \<longrightarrow> area s = NLOOPS)"
proof -
  obtain i where i: "even i" "0 \<le> i" "i \<le> NLOOPS" "parent_turn i s \<or> told_child i s \<or> child_turn i s \<or> told_parent i s"
    using dz.reach_inv [OF assms] by (auto simp: dz_inv_def)
  have n: "i < NLOOPS \<Longrightarrow> i + 2 \<le> NLOOPS" using even_below i(1) by blast
  from i(4) consider "parent_turn i s" | "told_child i s" | "child_turn i s" | "told_parent i s" by blast
  then show ?thesis
  proof cases
    case 1
    then show ?thesis using i(2,3) by (auto simp: parent_turn_def idle_def in_turn_def)
  next
    case 2
    then show ?thesis using i(2,3) by (auto simp: told_child_def)
  next
    case 3
    then show ?thesis using i(2,3) n by (auto simp: child_turn_def in_turn_def)
  next
    case 4
    then show ?thesis using i(2,3) n by (auto simp: told_parent_def idle_def)
  qed
qed

text \<open>The steps that are left, at most: three for each value, and the place in the round.\<close>

fun parent_left :: "dz_pc \<Rightarrow> int" where
  "parent_left (Looping i) = 3 * (NLOOPS + 2 - i) + 4"
| "parent_left (Reading i) = 3 * (NLOOPS + 2 - i) + 3"
| "parent_left (Writing i v) = 3 * (NLOOPS + 2 - i) + 2"
| "parent_left (Tells i) = 3 * (NLOOPS + 2 - i) + 1"
| "parent_left (Awaits i) = 3 * (NLOOPS + 2 - i)"
| "parent_left _ = 0"

fun child_left :: "dz_pc \<Rightarrow> int" where
  "child_left (Looping i) = 3 * (NLOOPS + 2 - i) + 4"
| "child_left (Awaits i) = 3 * (NLOOPS + 2 - i) + 3"
| "child_left (Reading i) = 3 * (NLOOPS + 2 - i) + 2"
| "child_left (Writing i v) = 3 * (NLOOPS + 2 - i) + 1"
| "child_left (Tells i) = 3 * (NLOOPS + 2 - i)"
| "child_left _ = 0"

definition dz_left :: "dz \<Rightarrow> int" where
  "dz_left s = parent_left (p_pc s) + child_left (c_pc s)"

text \<open>Every counter of the two loops stays in its bounds.\<close>

fun pc_bound :: "dz_pc \<Rightarrow> bool" where
  "pc_bound (Looping i) \<longleftrightarrow> i \<le> NLOOPS + 1"
| "pc_bound (Reading i) \<longleftrightarrow> i \<le> NLOOPS"
| "pc_bound (Writing i v) \<longleftrightarrow> i \<le> NLOOPS \<and> v = i"
| "pc_bound (Tells i) \<longleftrightarrow> i \<le> NLOOPS"
| "pc_bound (Awaits i) \<longleftrightarrow> i \<le> NLOOPS"
| "pc_bound pc \<longleftrightarrow> pc = Ended"

lemma idle_bound: "idle i pc \<Longrightarrow> i \<le> NLOOPS + 1 \<Longrightarrow> pc_bound pc"
  by (auto simp: idle_def)

lemma in_turn_bound: "in_turn i pc a \<Longrightarrow> i \<le> NLOOPS \<Longrightarrow> pc_bound pc"
  by (auto simp: in_turn_def)

lemma dz_inv_bounds:
  assumes "dz_inv s"
  shows "pc_bound (p_pc s) \<and> pc_bound (c_pc s) \<and> (pfd1 s = [] \<or> hd (pfd1 s) = CHR ''p'') \<and> (pfd2 s = [] \<or> hd (pfd2 s) = CHR ''c'')"
proof -
  obtain i where i: "even i" "i \<le> NLOOPS" "parent_turn i s \<or> told_child i s \<or> child_turn i s \<or> told_parent i s"
    using assms by (auto simp: dz_inv_def)
  have n: "i < NLOOPS \<Longrightarrow> i + 2 \<le> NLOOPS" using even_below i(1) by blast
  from i(3) show ?thesis
  proof (elim disjE)
    assume "parent_turn i s"
    then show ?thesis using i(2) idle_bound [of "i + 1" "c_pc s"] in_turn_bound [of i "p_pc s" "area s"] by (auto simp: parent_turn_def)
  next
    assume "told_child i s"
    then show ?thesis by (auto simp: told_child_def)
  next
    assume "child_turn i s"
    then show ?thesis using in_turn_bound [of "i + 1" "c_pc s" "area s"] by (auto simp: child_turn_def)
  next
    assume "told_parent i s"
    then show ?thesis using idle_bound [of "i + 3" "c_pc s"] n by (auto simp: told_parent_def)
  qed
qed

lemma dz_left_step:
  assumes "dz_step s s'" "dz_inv s"
  shows "dz_left s' < dz_left s"
proof -
  obtain who where w: "dz_do who s = Goes s'" using assms(1) by (rule dz_stepE)
  note b = dz_inv_bounds [OF assms(2)]
  show ?thesis
  proof (cases who)
    case True
    then show ?thesis using w b
      by (cases "p_pc s") (auto simp: dz_left_def TELL_CHILD_def WAIT_CHILD_def update_read_def update_write_def checked_def split: if_splits list.splits)
  next
    case False
    then show ?thesis using w b
      by (cases "c_pc s") (auto simp: dz_left_def TELL_PARENT_def WAIT_PARENT_def update_read_def update_write_def checked_def split: if_splits list.splits)
  qed
qed

lemma dz_left_start: "dz_left dz_init = 6017"
  by (simp add: dz_left_def dz_init_def TELL_WAIT_def NLOOPS_def)

lemma dz_left_nonneg:
  assumes inv: "dz_inv s"
  shows "0 \<le> dz_left s"
proof -
  have "0 \<le> parent_left (p_pc s)" "0 \<le> child_left (c_pc s)"
    using dz_inv_bounds [OF inv] by (cases "p_pc s"; simp) (use dz_inv_bounds [OF inv] in \<open>cases "c_pc s"; simp\<close>)
  then show ?thesis by (simp add: dz_left_def)
qed

lemma dz_goes_on:
  assumes "dz_inv s"
  shows "p_pc s = Ended \<and> c_pc s = Ended \<or> (\<exists>s'. dz_step s s')"
proof -
  obtain i where "parent_turn i s \<or> told_child i s \<or> child_turn i s \<or> told_parent i s" and n: "i \<le> NLOOPS"
    using assms by (auto simp: dz_inv_def)
  then consider "parent_turn i s" | "told_child i s" | "child_turn i s" | "told_parent i s" by blast
  then have "p_pc s = Ended \<and> c_pc s = Ended \<or> (\<exists>who s'. dz_do who s = Goes s')"
  proof cases
    case 1
    then consider "p_pc s = Looping i" | "p_pc s = Ended" "i = NLOOPS" "idle (NLOOPS + 1) (c_pc s)" | "in_turn i (p_pc s) (area s)"
      by (auto simp: parent_turn_def)
    then show ?thesis
    proof cases
      case 2
      then have "c_pc s = Looping (NLOOPS + 1) \<or> c_pc s = Ended" by (auto simp: idle_def)
      then show ?thesis using 2 by (auto intro: exI [of _ False])
    qed (auto simp: in_turn_def intro: exI [of _ True])
  next
    case 2
    then show ?thesis by (auto simp: told_child_def WAIT_PARENT_def intro: exI [of _ False])
  next
    case 3
    then show ?thesis by (auto simp: child_turn_def in_turn_def intro: exI [of _ False])
  next
    case 4
    then show ?thesis by (auto simp: told_parent_def WAIT_CHILD_def intro: exI [of _ True])
  qed
  then show ?thesis by (blast intro: dz_step.intros)
qed

interpretation dzr: ranked_system dz_init dz_step dz_inv "\<lambda>s. nat (dz_left s)"
proof unfold_locales
  fix s s'
  assume "dz_step s s'" "dz_inv s"
  moreover from this have "dz_inv s'" by (rule dz.inv_step)
  ultimately show "nat (dz_left s') < nat (dz_left s)" using dz_left_step [of s s'] dz_left_nonneg [of s'] by simp
qed

text \<open>
  No run has more than 6017 steps, and from every state on the way both processes come to their end.
\<close>
theorem counter_goes_on:
  assumes "reach dz_step dz_init s"
  shows "((dz_step ^^ k) dz_init s \<longrightarrow> k \<le> 6017) \<and> (\<exists>k t. (dz_step ^^ k) s t \<and> p_pc t = Ended \<and> c_pc t = Ended)"
proof -
  obtain j t where t: "(dz_step ^^ j) s t" "reach dz_step dz_init t" "\<nexists>u. dz_step t u"
    using dzr.comes_to_end [OF assms] by blast
  then have "p_pc t = Ended \<and> c_pc t = Ended" using dz_goes_on dz.reach_inv by blast
  then show ?thesis using t(1) dzr.run_bound [OF _ dz.inv_init, of k s] by (auto simp: dz_left_start)
qed

theorem counter_turns_witness:
  "\<exists>s. reach dz_step dz_init s \<and> area s = 2 \<and> area s \<le> NLOOPS \<and> c_pc s = Tells 1"
proof -
  have "case run_events dz_do [True, True, True, True, False, False, False, False] dz_init of None \<Rightarrow> False
    | Some s \<Rightarrow> area s = 2 \<and> c_pc s = Tells 1" by code_simp
  from dz.run_holds [OF this] obtain s where s: "reach dz_step dz_init s" "area s = 2" "c_pc s = Tells 1" by blast
  with counter_turns [OF s(1)] show ?thesis by blast
qed

theorem counter_goes_on_witness: "\<exists>k t. (dz_step ^^ k) dz_init t \<and> p_pc t = Ended \<and> c_pc t = Ended"
  using counter_goes_on [OF reach.start] by blast

end
