(* ===== verification/FileMaps.thy ===== *)
theory FileMaps
  imports CPrelude
begin

unbundle bit_operations_syntax

text \<open>
  Two programs that map files into memory: framebuffer/mmap_test.c, which shows a part of a file
  whose start need not be the start of a page, and advio/mcopy.c, which copies a file.
\<close>

section \<open>mmap_test.c\<close>

text \<open>
  The calls of the kernel: the file (None when it cannot be opened), whether fstat succeeds, the
  size of a page, whether a mapping of a length at an offset is made, and the result of write.
\<close>

record mm_env =
  mm_file :: "string option"
  mm_stat :: bool
  mm_page :: "64 word"
  mm_map :: "64 word \<Rightarrow> 64 word \<Rightarrow> bool"
  mm_write :: "string \<Rightarrow> int"

text \<open>mmap refuses an empty mapping and a negative offset.\<close>

definition mmap_ok :: "mm_env \<Rightarrow> 64 word \<Rightarrow> 64 word \<Rightarrow> bool" where
  "mmap_ok e len pa \<longleftrightarrow> len \<noteq> 0 \<and> 0 \<le> sint pa \<and> mm_map e len pa"

text \<open>The byte at this index of a mapping; the rest of the last page is zero.\<close>

definition mapped_byte :: "string \<Rightarrow> 64 word \<Rightarrow> nat \<Rightarrow> char" where
  "mapped_byte f pa k = (if unat pa + k < length f then f ! (unat pa + k) else NUL)"

definition page_start :: "64 word \<Rightarrow> 64 word \<Rightarrow> 64 word" where
  "page_start page offset = offset AND NOT (page - 1)"

text \<open>Mapping and writing; reading outside the mapping is undefined. The result is what was shown.\<close>

definition show_range :: "mm_env \<Rightarrow> string \<Rightarrow> 64 word \<Rightarrow> 64 word \<Rightarrow> string res" where
  "show_range e f offset len =
     (let pa = page_start (mm_page e) offset; total = len + offset - pa; d = unat (offset - pa) in
      if \<not> mmap_ok e total pa then Inl (Exit 1 ''mmap'')
      else if unat total < d + unat len then Inl (UB ''read outside of the mapping'')
      else (let bytes = map (mapped_byte f pa) [d..<d + unat len]; n = mm_write e bytes in
        if word_of_int n \<noteq> len then Inl (Exit 1 (if n = -1 then ''write'' else ''partial write'')) else Inr bytes))"

definition shown_length :: "string list \<Rightarrow> 64 word \<Rightarrow> 64 word \<Rightarrow> 64 word res" where
  "shown_length argv sz offset =
     (if length argv = 4 then bindR (atoi (argv ! 3)) (\<lambda>l.
        let len = word_of_int l in Inr (if offset + len > sz then sz - offset else len))
      else Inr (sz - offset))"

definition mmap_main :: "mm_env \<Rightarrow> string list \<Rightarrow> string res" where
  "mmap_main e argv =
     (if length argv < 3 \<or> 4 < length argv then Inl (Exit 1 ''file offset [length]'')
      else case mm_file e of None \<Rightarrow> Inl (Exit 1 ''open'')
      | Some f \<Rightarrow>
        if \<not> mm_stat e then Inl (Exit 1 ''fstat'')
        else bindR (atoi (argv ! 2)) (\<lambda>i.
          let offset = word_of_int i; sz = word_of_nat (length f) in
          if sint sz \<le> sint offset then Inl (Exit 1 ''offset is past end of file'')
          else bindR (shown_length argv sz offset) (show_range e f offset)))"

subsection \<open>What it shows\<close>

lemma page_start_le: "page_start page offset \<le> offset"
  by (simp add: page_start_def word_and_le2)

lemma int_ok_word:
  assumes "int_ok z" "0 \<le> z"
  shows "unat (word_of_int z :: 64 word) = nat z" "sint (word_of_int z :: 64 word) = z"
proof -
  have "0 \<le> z" "z < 2 ^ 63" using assms by (simp_all add: int_ok_def)
  then show "unat (word_of_int z :: 64 word) = nat z" "sint (word_of_int z :: 64 word) = z"
    by (simp_all add: unat_eq_nat_uint uint_word_of_int sint_sbintrunc' signed_take_bit_int_eq_self)
qed

text \<open>A range that lies in the file.\<close>

lemma show_range_file:
  assumes "unat offset + unat len \<le> length f" "length f < 2 ^ 63"
  shows "show_range e f offset len = Inr (take (unat len) (drop (unat offset) f)) \<or> (\<exists>m. show_range e f offset len = Inl (Exit 1 m))"
proof -
  let ?pa = "page_start (mm_page e) offset"
  have le: "unat ?pa \<le> unat offset" using page_start_le by (simp add: word_le_nat_alt)
  have d: "unat (offset - ?pa) = unat offset - unat ?pa" using page_start_le by (rule unat_sub)
  have eq: "len + offset - ?pa = len + (offset - ?pa)" by simp
  have "unat len + (unat offset - unat ?pa) < 2 ^ 64" using assms by simp
  then have s: "unat (len + offset - ?pa) = unat len + (unat offset - unat ?pa)"
    using unat_add_lem [of len "offset - ?pa"] unfolding eq d by simp
  have "map (mapped_byte f ?pa) [unat offset - unat ?pa..<unat offset - unat ?pa + unat len] = take (unat len) (drop (unat offset) f)"
    using assms(1) le by (intro nth_equalityI) (simp_all add: mapped_byte_def)
  then show ?thesis by (auto simp: show_range_def Let_def d s)
qed

lemma length_word:
  assumes "length f < 2 ^ 63"
  shows "unat (word_of_nat (length f) :: 64 word) = length f" "sint (word_of_nat (length f) :: 64 word) = int (length f)"
proof -
  have "length f < 2 ^ 64" "int (length f) < 2 ^ 63" using assms by simp_all
  moreover have "(word_of_nat (length f) :: 64 word) = word_of_int (int (length f))" by simp
  ultimately show "unat (word_of_nat (length f) :: 64 word) = length f" "sint (word_of_nat (length f) :: 64 word) = int (length f)"
    by (simp_all only: unat_eq_nat_uint uint_word_of_int sint_sbintrunc') (simp_all add: signed_take_bit_int_eq_self)
qed

definition shows_or_exits :: "string \<Rightarrow> string res \<Rightarrow> bool" where
  "shows_or_exits t r \<longleftrightarrow> r = Inr t \<or> (\<exists>m. r = Inl (Exit 1 m))"

lemma show_main:
  assumes f: "mm_file e = Some f" "length f < 2 ^ 63" and i: "0 \<le> i" "int_ok i" "i < int (length f)" and st: "mm_stat e"
    and argv: "length argv \<in> {3, 4}" "argv ! 2 = deci i"
    and r: "shown_length argv (word_of_nat (length f)) (word_of_int i) = Inr n" "nat i + unat n \<le> length f"
  shows "shows_or_exits (take (unat n) (drop (nat i) f)) (mmap_main e argv)"
  using show_range_file [of "word_of_int i" n f e] assms
  by (auto simp: mmap_main_def Let_def atoi_deci int_ok_word length_word shows_or_exits_def)

text \<open>
  With an offset that is not negative, and a length that is not, the program shows that part of
  the file, cut at its end, or says what failed; it never reads outside of its mapping.
\<close>
theorem mmap_shows:
  assumes f: "mm_file e = Some f" "length f < 2 ^ 63" and i: "0 \<le> i" "int_ok i" and l: "0 \<le> l" "int_ok l"
  shows "shows_or_exits (drop (nat i) f) (mmap_main e [prog, name, deci i])
    \<and> shows_or_exits (take (nat l) (drop (nat i) f)) (mmap_main e [prog, name, deci i, deci l])"
proof (cases "i < int (length f) \<and> mm_stat e")
  case False
  then show ?thesis using f i by (auto simp: mmap_main_def Let_def atoi_deci int_ok_word length_word shows_or_exits_def)
next
  case True
  let ?o = "word_of_int i :: 64 word" and ?z = "word_of_nat (length f) :: 64 word" and ?l = "word_of_int l :: 64 word"
  have o: "unat ?o = nat i" and ll: "unat ?l = nat l" using int_ok_word i l by simp_all
  have z: "unat ?z = length f" by (rule length_word(1) [OF f(2)])
  have le: "nat i \<le> length f" using True by linarith
  have rest: "unat (?z - ?o) = length f - nat i"
    using le by (subst unat_sub) (simp_all add: word_le_nat_alt o z)
  have sum: "unat (?o + ?l) = nat i + nat l"
  proof -
    have "nat i + nat l < 2 ^ 64" using i l by (simp add: int_ok_def)
    then show ?thesis using unat_add_lem [of ?o ?l] by (simp add: o ll)
  qed
  have "shown_length [prog, name, deci i] ?z ?o = Inr (?z - ?o)" by (simp add: shown_length_def)
  from show_main [OF f i _ _ _ _ this] have
    "shows_or_exits (take (length f - nat i) (drop (nat i) f)) (mmap_main e [prog, name, deci i])" using True i le by (simp add: rest)
  moreover have "shows_or_exits (take (nat l) (drop (nat i) f)) (mmap_main e [prog, name, deci i, deci l])"
  proof (cases "length f < nat i + nat l")
    case long: True
    have "shown_length [prog, name, deci i, deci l] ?z ?o = Inr (?z - ?o)"
      using long l by (simp add: shown_length_def atoi_deci Let_def word_less_nat_alt sum z)
    from show_main [OF f i _ _ _ _ this] show ?thesis using True i long le by (simp add: rest)
  next
    case short: False
    have "shown_length [prog, name, deci i, deci l] ?z ?o = Inr ?l"
      using short l by (simp add: shown_length_def atoi_deci Let_def word_less_nat_alt sum z)
    from show_main [OF f i _ _ _ _ this] show ?thesis using True i short by (simp add: ll)
  qed
  ultimately show ?thesis by simp
qed

text \<open>
  A negative length passes the test, because the sum of offset and length is computed without sign:
  the program then writes from outside of the (small) mapping.
\<close>
theorem mmap_negative_length:
  assumes "mm_file e = Some f" "mm_stat e" "mm_page e = 4096" "\<forall>n p. mm_map e n p" and i: "i < int (length f)" "length f < 2 ^ 63" "i < 4096" and k: "0 < k" "k < i"
  shows "mmap_main e [prog, name, deci i, deci (- k)] = Inl (UB ''read outside of the mapping'')"
proof -
  let ?o = "word_of_int i :: 64 word" and ?z = "word_of_nat (length f) :: 64 word" and ?l = "word_of_int (- k) :: 64 word"
  have ok: "int_ok i" "int_ok (- k)" "0 \<le> i" using i k by (simp_all add: int_ok_def)
  have o: "unat ?o = nat i" "sint ?o = i" using int_ok_word ok by simp_all
  have z: "unat ?z = length f" "sint ?z = int (length f)" by (rule length_word [OF i(2)])+
  have p: "page_start 4096 ?o = 0"
  proof -
    have "take_bit 12 ?o = ?o"
      using i(3) ok(3) o(1) by (simp add: word_unat_eq_iff unsigned_take_bit_eq take_bit_nat_eq_self)
    then have "?o AND NOT (mask 12) = take_bit 12 ?o AND NOT (mask 12)" by simp
    also have "\<dots> = 0" by (rule bit_word_eqI) (auto simp: bit_simps)
    finally show ?thesis by (simp add: page_start_def mask_eq_exp_minus_1)
  qed
  have s: "?o + ?l = word_of_int (i - k)" by simp
  have "int_ok (i - k)" using i k by (simp add: int_ok_def)
  then have su: "unat (?o + ?l) = nat (i - k)" unfolding s using k by (intro int_ok_word) simp_all
  have lu: "unat ?l = nat (2 ^ 64 - k)"
  proof -
    have "(- k) mod 2 ^ 64 = (2 ^ 64 - k) mod 2 ^ 64" by (rule minus_mod_self1 [symmetric])
    also have "\<dots> = 2 ^ 64 - k" using i(3) k by (intro mod_pos_pos_trivial) simp_all
    finally have "uint ?l = 2 ^ 64 - k" unfolding uint_word_of_int by simp
    then show ?thesis by (simp only: unat_eq_nat_uint)
  qed
  have "\<not> ?z < ?o + ?l" using i k unfolding word_less_nat_alt su z by simp
  then have r: "shown_length [prog, name, deci i, deci (- k)] ?z ?o = Inr ?l" by (simp add: shown_length_def atoi_deci ok Let_def)
  have "?l + ?o \<noteq> 0" using su k by (metis add.commute diff_gt_0_iff_gt nat_0_iff not_le unat_0)
  moreover have "nat (i - k) < nat i + nat (18446744073709551616 - k)" using i(3) k by linarith
  ultimately have "show_range e f ?o ?l = Inl (UB ''read outside of the mapping'')"
    using assms(3,4) su lu by (simp add: show_range_def Let_def p mmap_ok_def add.commute o)
  then show ?thesis using assms(1,2) i by (simp add: mmap_main_def Let_def atoi_deci ok o z r)
qed

theorem mmap_shows_witness:
  "\<exists>e. mmap_main e [''p'', ''f'', deci 2, deci 3] = Inr ''cde''"
proof -
  let ?e = "\<lparr>mm_file = Some ''abcdef'', mm_stat = True, mm_page = 4096, mm_map = (\<lambda>_ _. True), mm_write = (\<lambda>b. int (length b))\<rparr>"
  have "shows_or_exits (take (nat 3) (drop (nat 2) ''abcdef'')) (mmap_main ?e [''p'', ''f'', deci 2, deci 3])"
    using mmap_shows [of ?e "''abcdef''" 2 3] by (simp add: int_ok_def)
  moreover have "\<not> (\<exists>m. mmap_main ?e [''p'', ''f'', deci 2, deci 3] = Inl (Exit 1 m))"
  proof -
    have "case mmap_main ?e [''p'', ''f'', deci 2, deci 3] of Inr _ \<Rightarrow> True | Inl _ \<Rightarrow> False" by code_simp
    then show ?thesis by auto
  qed
  ultimately show ?thesis unfolding shows_or_exits_def by (intro exI [of _ ?e]) simp
qed

theorem mmap_negative_length_witness:
  "\<exists>e. mmap_main e [''p'', ''f'', deci 5, deci (- 1)] = Inl (UB ''read outside of the mapping'')"
  using mmap_negative_length [of "\<lparr>mm_file = Some ''abcdef'', mm_stat = True, mm_page = 4096, mm_map = (\<lambda>_ _. True), mm_write = (\<lambda>b. 0)\<rparr>"
      "''abcdef''" 5 1 "''p''" "''f''"] by auto

section \<open>mcopy.c\<close>

text \<open>Which of the calls succeed; the files are a map from their names to what they hold.\<close>

record mc_env =
  mc_open :: bool
  mc_creat :: bool
  mc_fstat :: bool
  mc_lseek :: bool
  mc_write :: bool
  mc_mmap_in :: bool
  mc_mmap_out :: bool

type_synonym file_map = "string \<rightharpoonup> string"

text \<open>
  The size comes from fstat of the open input, after the output has been truncated; lseek refuses
  a negative position; the byte that write puts at the end makes all before it zero. The result
  has the message when the program ends early.
\<close>

definition mcopy_main :: "mc_env \<Rightarrow> string list \<Rightarrow> file_map \<Rightarrow> string option \<times> file_map" where
  "mcopy_main e argv fs =
     (if length argv \<noteq> 3 then (Some ''usage: a.out <fromfile> <tofile>'', fs)
      else let from = argv ! 1; dest = argv ! 2 in
        if fs from = None \<or> \<not> mc_open e then (Some (''can't open '' @ from @ '' for reading''), fs)
        else if \<not> mc_creat e then (Some (''can't creat '' @ from @ '' for writing''), fs)
        else let fs = fs(dest \<mapsto> []); statbuf = the (fs from); n = length statbuf in
          if \<not> mc_fstat e then (Some ''fstat error'', fs)
          else if n = 0 \<or> \<not> mc_lseek e then (Some ''lseek error'', fs)
          else if \<not> mc_write e then (Some ''write error'', fs)
          else let fs = fs(dest \<mapsto> replicate (n - 1) NUL @ [NUL]) in
            if \<not> mc_mmap_in e then (Some ''mmap error for input'', fs)
            else if \<not> mc_mmap_out e then (Some ''mmap error for output'', fs)
            else (None, fs(dest \<mapsto> take n (the (fs from)) @ drop n (the (fs dest)))))"

text \<open>
  When the program ends without a message the output holds what the input held, the input is
  unchanged, and no other file is touched. It does so for no empty input, and never when a file is copied to itself:
  then, as in every other failure after the output has been opened, what the output held is lost.
\<close>
theorem mcopy_copies:
  assumes "mcopy_main e [prog, from, dest] fs = (r, fs')"
  shows "(r = None \<longrightarrow> fs' = fs(dest \<mapsto> the (fs from)) \<and> from \<noteq> dest \<and> the (fs from) \<noteq> [])
    \<and> (r \<noteq> None \<longrightarrow> fs' = fs \<or> (\<exists>n. fs' = fs(dest \<mapsto> replicate n NUL)))
    \<and> (from = dest \<longrightarrow> fs from \<noteq> None \<longrightarrow> mc_open e \<longrightarrow> mc_creat e \<longrightarrow> r \<noteq> None \<and> fs' dest = Some [])"
proof (cases "fs from = None \<or> \<not> mc_open e \<or> \<not> mc_creat e")
  case True
  then show ?thesis using assms by (auto simp: mcopy_main_def Let_def split: if_splits)
next
  case False
  then obtain t where t: "fs from = Some t" by auto
  have z: "replicate (n - 1) NUL @ [NUL] = replicate n NUL" if "n \<noteq> 0" for n
    using that by (cases n) (simp_all add: replicate_append_same)
  show ?thesis
  proof (cases "from = dest")
    case True
    then show ?thesis using assms False t by (auto simp: mcopy_main_def Let_def split: if_splits intro: exI [of _ "0::nat"])
  next
    case ne: False
    show ?thesis
      using assms False t ne z [of "length t"]
      by (auto simp: mcopy_main_def Let_def split: if_splits intro: exI [of _ "0::nat"])
  qed
qed

theorem mcopy_copies_witness:
  "\<exists>e fs'. mcopy_main e [''a'', ''b'', ''c''] [''b'' \<mapsto> ''text''] = (None, fs') \<and> fs' ''c'' = Some ''text''"
proof -
  let ?e = "\<lparr>mc_open = True, mc_creat = True, mc_fstat = True, mc_lseek = True, mc_write = True, mc_mmap_in = True, mc_mmap_out = True\<rparr>"
  obtain r fs' where r: "mcopy_main ?e [''a'', ''b'', ''c''] [''b'' \<mapsto> ''text''] = (r, fs')" by fastforce
  then have "r = None" by (simp add: mcopy_main_def Let_def)
  with mcopy_copies [OF r] have "fs' ''c'' = Some ''text''" by auto
  with r \<open>r = None\<close> show ?thesis by blast
qed

end
