(* ===== verification/Account.thy ===== *)
theory Account
  imports CPrelude
begin

unbundle bit_operations_syntax

text \<open>
  proc/pracct.c: printing the accounting records of the processes that have ended. The times and
  counts are 16 bit numbers of a floating format; the width of unsigned long is a type variable,
  the flag bits of the system header are arguments.
\<close>

record acct =
  ac_comm :: string \<comment> \<open>all the bytes of the array\<close>
  ac_etime :: "16 word"
  ac_io :: "16 word"
  ac_stat :: "8 word"
  ac_flag :: "8 word"

record acct_flags =
  ACORE :: "8 word option"
  AXSIG :: "8 word option"
  AFORK :: "8 word"
  ASU :: "8 word"

fun times8 :: "nat \<Rightarrow> 'l::len word \<Rightarrow> 'l word" where
  "times8 0 val = val"
| "times8 (Suc exp) val = times8 exp (val * 8)"

definition compt2ulong :: "16 word \<Rightarrow> 'l::len word" where
  "compt2ulong comptime = times8 (unat (drop_bit 13 comptime AND 7)) (ucast (comptime AND 8191))"

text \<open>The conversions of the format: %-*.*s, %6ld and %7ld, %3u.\<close>

definition left_field :: "nat \<Rightarrow> string \<Rightarrow> string" where
  "left_field n b = (let t = take n (cstr b) in t @ replicate (n - length t) CHR '' '')"

definition right_field :: "nat \<Rightarrow> string \<Rightarrow> string" where
  "right_field n t = replicate (n - length t) CHR '' '' @ t"

definition flag_char :: "8 word \<Rightarrow> 8 word \<Rightarrow> char \<Rightarrow> char" where
  "flag_char flags m c = (if flags AND m \<noteq> 0 then c else CHR '' '')"

definition opt_char :: "8 word \<Rightarrow> 8 word option \<Rightarrow> char \<Rightarrow> char" where
  "opt_char flags om c = (case om of None \<Rightarrow> CHR '' '' | Some m \<Rightarrow> flag_char flags m c)"

definition acct_line :: "'l::len itself \<Rightarrow> acct_flags \<Rightarrow> acct \<Rightarrow> string" where
  "acct_line L h a =
     left_field (length (ac_comm a)) (ac_comm a)
     @ ''  e = '' @ right_field 6 (deci (sint (compt2ulong (ac_etime a) :: 'l word)))
     @ '', chars = '' @ right_field 7 (deci (sint (compt2ulong (ac_io a) :: 'l word)))
     @ '', stat = '' @ right_field 3 (dec (unat (ac_stat a))) @ '': ''
     @ [opt_char (ac_flag a) (ACORE h) CHR ''D'', CHR '' '', opt_char (ac_flag a) (AXSIG h) CHR ''X'', CHR '' '',
        flag_char (ac_flag a) (AFORK h) CHR ''F'', CHR '' '', flag_char (ac_flag a) (ASU h) CHR ''S'', NL]"

text \<open>
  The file: None when it cannot be opened, the complete records that fread delivers one by one, and whether
  the reading stops with an error.
\<close>

definition pracct_main :: "'l::len itself \<Rightarrow> acct_flags \<Rightarrow> (acct list \<times> bool) option \<Rightarrow> string \<times> unit res" where
  "pracct_main L h f =
     (case f of None \<Rightarrow> ([], Inl (Exit 1 ''can't open /var/adm/pacct''))
      | Some (as, err) \<Rightarrow> (concat (map (acct_line L h) as), if err then Inl (Exit 1 ''read error'') else Inr ()))"

section \<open>The numbers\<close>

lemma times8_mod: "unat (times8 n v) = (unat v * 8 ^ n) mod 2 ^ LENGTH('l)" for v :: "'l::len word"
proof (induction n arbitrary: v)
  case 0
  then show ?case by (simp add: unsigned_less)
next
  case (Suc n)
  have "unat (v * 8) mod 2 ^ LENGTH('l) = (unat v * 8) mod 2 ^ LENGTH('l)"
  proof -
    have "v * 8 = word_of_nat (unat v * 8)" by simp
    then show ?thesis by (metis mod_mod_trivial unat_of_nat)
  qed
  then have "(unat (v * 8) * 8 ^ n) mod 2 ^ LENGTH('l) = (unat v * 8 * 8 ^ n) mod 2 ^ LENGTH('l)" by (metis mod_mult_left_eq)
  then show ?case using Suc.IH [of "v * 8"] by (simp add: ac_simps)
qed

lemma compt_parts:
  fixes c :: "16 word"
  shows "unat (c AND 8191) = unat c mod 8192" "unat (drop_bit 13 c AND 7) = unat c div 8192"
proof -
  have "c AND 8191 = take_bit 13 c" by (simp add: take_bit_eq_mask mask_eq_exp_minus_1)
  then show "unat (c AND 8191) = unat c mod 8192" by (simp add: unat_mod unsigned_take_bit_eq take_bit_eq_mod)
  have l: "unat c < 65536" using unsigned_less [of c, where ?'a = nat] by simp
  have "drop_bit 13 c AND 7 = take_bit 3 (drop_bit 13 c)" by (simp add: take_bit_eq_mask mask_eq_exp_minus_1)
  then have "unat (drop_bit 13 c AND 7) = (unat c div 8192) mod 8"
    by (simp add: unsigned_take_bit_eq unsigned_drop_bit_eq take_bit_eq_mod drop_bit_eq_div unat_mod unat_div)
  moreover have "unat c div 8192 < 8" using l by (simp add: less_mult_imp_div_less)
  ultimately show "unat (drop_bit 13 c AND 7) = unat c div 8192" by simp
qed

text \<open>The number that the format stands for: a fraction of 13 bits and an exponent of three, base 8.\<close>

definition compt_value :: "16 word \<Rightarrow> nat" where
  "compt_value c = unat c mod 8192 * 8 ^ (unat c div 8192)"

lemma compt2ulong_mod: "unat (compt2ulong c :: 'l::len word) = compt_value c mod 2 ^ LENGTH('l)"
proof -
  have "unat (ucast (c AND 8191) :: 'l word) = (unat c mod 8192) mod 2 ^ LENGTH('l)"
    by (simp add: unsigned_ucast_eq take_bit_eq_mod compt_parts)
  then show ?thesis by (simp add: compt2ulong_def times8_mod compt_parts compt_value_def mod_mult_left_eq)
qed

lemma compt_value_bound: "compt_value c < 2 ^ 34"
proof -
  have l: "unat c < 65536" using unsigned_less [of c, where ?'a = nat] by simp
  have "unat c div 8192 < 8" using l by (simp add: less_mult_imp_div_less)
  then have "(8 :: nat) ^ (unat c div 8192) \<le> 8 ^ 7" by (intro power_increasing) simp_all
  moreover have "unat c mod 8192 \<le> 8191" using mod_less_divisor [of 8192 "unat c"] by linarith
  ultimately have "compt_value c \<le> 8191 * 8 ^ 7" unfolding compt_value_def by (intro mult_mono) simp_all
  then show ?thesis by simp
qed

lemma sint_small:
  fixes w :: "'l::len word"
  shows "unat w < 2 ^ (LENGTH('l) - 1) \<Longrightarrow> sint w = int (unat w)"
  and "sint w < 2 ^ (LENGTH('l) - 1)"
proof -
  assume "unat w < 2 ^ (LENGTH('l) - 1)"
  then have "uint w < 2 ^ (LENGTH('l) - 1)" unfolding uint_nat by (metis of_nat_less_iff of_nat_numeral of_nat_power)
  moreover have "- (2 ^ (LENGTH('l) - 1)) \<le> uint w" by (rule order.trans [of _ "0 :: int"]) simp_all
  ultimately have "signed_take_bit (LENGTH('l) - 1) (uint w) = uint w" by (simp only: signed_take_bit_int_eq_self)
  then have "sint w = uint w" by (simp add: sint_uint)
  then show "sint w = int (unat w)" by (simp only: uint_nat)
next
  show "sint w < 2 ^ (LENGTH('l) - 1)" by (rule sint_lt)
qed

text \<open>
  The numbers of a record are printed as they are meant exactly when they fit into a signed long:
  always with 64 bits, but not with 32 (the largest number has 34 bits).
\<close>
theorem compt_printed:
  "sint (compt2ulong c :: 'l::len word) = int (compt_value c) \<longleftrightarrow> compt_value c < 2 ^ (LENGTH('l) - 1)"
proof
  assume "sint (compt2ulong c :: 'l word) = int (compt_value c)"
  then have "int (compt_value c) < 2 ^ (LENGTH('l) - 1)" using sint_small(2) [of "compt2ulong c :: 'l word"] by simp
  then show "compt_value c < 2 ^ (LENGTH('l) - 1)" by (metis of_nat_less_iff of_nat_numeral of_nat_power)
next
  assume l: "compt_value c < 2 ^ (LENGTH('l) - 1)"
  also have "(2 :: nat) ^ (LENGTH('l) - 1) \<le> 2 ^ LENGTH('l)" by (intro power_increasing) simp_all
  finally have "unat (compt2ulong c :: 'l word) = compt_value c" by (simp add: compt2ulong_mod)
  then show "sint (compt2ulong c :: 'l word) = int (compt_value c)" using sint_small(1) [of "compt2ulong c :: 'l word"] l by simp
qed

lemma compt_printed_64: "sint (compt2ulong c :: 64 word) = int (compt_value c)"
proof -
  have "compt_value c < 2 ^ (LENGTH(64) - 1)" using compt_value_bound [of c] by simp
  then show ?thesis by (subst sint_small(1)) (simp_all add: compt2ulong_mod)
qed

text \<open>A process of two to the 32 ticks is shown to have taken no time at all with 32 bits.\<close>

lemma compt_wraps_32: "compt_value 0xE800 = 2 ^ 32 \<and> sint (compt2ulong 0xE800 :: 32 word) = 0"
proof -
  have v: "compt_value 0xE800 = 2 ^ 32" by (simp add: compt_value_def)
  then have "unat (compt2ulong 0xE800 :: 32 word) = 0" by (simp add: compt2ulong_mod)
  then have "(compt2ulong 0xE800 :: 32 word) = 0" by (simp only: unat_eq_zero)
  with v show ?thesis by simp
qed

end
