(* ===== verification/LineProgs.thy ===== *)
theory LineProgs
  imports ProcOpen
begin

text \<open>
  Programs that read lines with fgets and pass them on: ipc/popen1.c with its filter myuclc.c, ipc/popen2.c
  and pipe2.c (a pager), pipe4.c and spipe4.c (a coprocess), and the two shells proc/shell1.c and
  shell2.c. What fgets delivers are the lines of the input, cut to the size of the array.
\<close>

section \<open>Lines\<close>

text \<open>The results of repeated calls of fgets with an array of \<open>n\<close> bytes.\<close>

function line_reads :: "nat \<Rightarrow> string \<Rightarrow> string list" where
  "line_reads n s =
     (if s = [] \<or> n \<le> 1 then [] else let l = take_line (n - 1) s in l # line_reads n (drop (length l) s))"
  by pat_completeness auto
termination
proof (relation "measure (\<lambda>(n, s). length s)", simp)
  fix n :: nat and s l :: string
  assume "\<not> (s = [] \<or> n \<le> 1)" "l = take_line (n - 1) s"
  then show "((n, drop (length l) s), n, s) \<in> measure (\<lambda>(n, s). length s)"
    using take_line_nonempty [of "n - 1" s] by (cases l) auto
qed

declare line_reads.simps [simp del]

text \<open>A loop over the lines; its body says whether it goes on.\<close>

fun each :: "(string \<Rightarrow> 's \<Rightarrow> ('s \<times> bool) res) \<Rightarrow> string list \<Rightarrow> 's \<Rightarrow> 's res" where
  "each f [] s = Inr s"
| "each f (l # ls) s = bindR (f l s) (\<lambda>(s, go). if go then each f ls s else Inr s)"

text \<open>
  The state: standard output, what was written to the other process, and which of the next calls fail (when the
  list is exhausted, none does).
\<close>

record text_io = proc_io +
  stdout :: string
  piped :: "string list"
  faults :: "bool list"

definition try_call :: "string \<Rightarrow> 'a text_io_scheme \<Rightarrow> 'a text_io_scheme res" where
  "try_call msg s =
     (case faults s of
        [] \<Rightarrow> Inr s
      | b # bs \<Rightarrow> let s = s\<lparr>faults := bs\<rparr> in if b then err_sys msg s else Inr s)"

definition put :: "string \<Rightarrow> 'a text_io_scheme \<Rightarrow> 'a text_io_scheme" where
  "put t s = s\<lparr>stdout := stdout s @ t\<rparr>"

section \<open>Pagers and filters\<close>

text \<open>popen2.c: the file is None when it cannot be opened; otherwise its text, and whether reading it fails at the end.\<close>

definition pass_line :: "string \<Rightarrow> string \<Rightarrow> 'a text_io_scheme \<Rightarrow> ('a text_io_scheme \<times> bool) res" where
  "pass_line msg line s = bindR (try_call msg s) (\<lambda>s. Inr (s\<lparr>piped := piped s @ [cstr line]\<rparr>, True))"

definition popen2_main :: "string list \<Rightarrow> (string \<times> bool) option \<Rightarrow> 'a text_io_scheme \<Rightarrow> 'a text_io_scheme res" where
  "popen2_main argv file s =
     (if length argv \<noteq> 2 then err_quit ''usage: a.out <pathname>'' s
      else case file of None \<Rightarrow> err_sys (''can't open '' @ argv ! 1) s
      | Some (text, err) \<Rightarrow>
        bindR (try_call ''popen error'' s) (\<lambda>s.
        bindR (each (pass_line ''fputs error to pipe'') (line_reads MAXLINE text) s) (\<lambda>s.
        if err then err_sys ''fgets error'' s else try_call ''pclose error'' s)))"

text \<open>pipe2.c: the parent, and the program that the child runs with its first argument.\<close>

definition pipe2_main :: "string list \<Rightarrow> (string \<times> bool) option \<Rightarrow> 'a text_io_scheme \<Rightarrow> 'a text_io_scheme res" where
  "pipe2_main argv file s =
     (if length argv \<noteq> 2 then err_quit ''usage: a.out <pathname>'' s
      else case file of None \<Rightarrow> err_sys (''can't open '' @ argv ! 1) s
      | Some (text, err) \<Rightarrow>
        bindR (try_call ''pipe error'' s) (\<lambda>s.
        bindR (try_call ''fork error'' s) (\<lambda>s.
        bindR (each (pass_line ''write error to pipe'') (line_reads MAXLINE text) s) (\<lambda>s.
        if err then err_sys ''fgets error'' s else try_call ''waitpid error'' s))))"

definition pipe2_child :: "int \<times> int \<Rightarrow> (int \<Rightarrow> nat option) \<Rightarrow> int \<Rightarrow> nat option" where
  "pipe2_child fd t =
     (let t = t(snd fd := None) in if fst fd \<noteq> 0 then (dup2 (fst fd) 0 t)(fst fd := None) else t)"

definition pager_args :: "string option \<Rightarrow> string \<times> string" where
  "pager_args env =
     (let pager = (case env of None \<Rightarrow> ''/usr/bin/more'' | Some p \<Rightarrow> p) in
      (pager, if CHR ''/'' \<in> set pager then rev (takeWhile (\<lambda>c. c \<noteq> CHR ''/'') (rev pager)) else pager))"

text \<open>popen1.c and the filter that it starts; the filter reads the same input.\<close>

definition tolower_c :: "char \<Rightarrow> char" where
  "tolower_c c = (let n = of_char c :: nat in if 65 \<le> n \<and> n \<le> 90 then char_of (n + 32) else c)"

definition myuclc_main :: "string \<Rightarrow> string" where
  "myuclc_main input = map tolower_c input"

definition prompt_line :: "string \<Rightarrow> 'a text_io_scheme \<Rightarrow> ('a text_io_scheme \<times> bool) res" where
  "prompt_line line s = bindR (try_call ''fputs error to pipe'' (put ''prompt> '' s)) (\<lambda>s. Inr (put (cstr line) s, True))"

definition popen1_main :: "string \<Rightarrow> 'a text_io_scheme \<Rightarrow> 'a text_io_scheme res" where
  "popen1_main input s =
     bindR (try_call ''popen error'' s) (\<lambda>s.
     bindR (each prompt_line (line_reads MAXLINE (myuclc_main input)) s) (\<lambda>s.
     bindR (try_call ''pclose error'' (put ''prompt> '' s)) (\<lambda>s. Inr (put [NL] s))))"

section \<open>A coprocess\<close>

text \<open>
  What the other program does after the lines it was sent: it has ended (the write raises SIGPIPE,
  whose handler ends the process), reading from it fails, or it answers (nothing: end of file).
  The answer is read into the same array of MAXLINE bytes and ended with a NUL.
\<close>

datatype co_answer = Gone | ReadError | Answer string

definition co_line :: "(string list \<Rightarrow> co_answer) \<Rightarrow> string \<Rightarrow> 'a text_io_scheme \<Rightarrow> ('a text_io_scheme \<times> bool) res" where
  "co_line child line s =
     bindR (try_call ''write error to pipe'' s) (\<lambda>s.
       let s = s\<lparr>piped := piped s @ [cstr line]\<rparr> in
       case child (piped s) of
         Gone \<Rightarrow> Inl (Exit 1 ''SIGPIPE caught'')
       | ReadError \<Rightarrow> err_sys ''read error from pipe'' s
       | Answer ans \<Rightarrow>
           let b = take MAXLINE ans in
           if b = [] then bindR (err_msg ''child closed pipe'' s) (\<lambda>s. Inr (s, False))
           else if MAXLINE \<le> length b then Inl (UB ''line[n]'')
           else bindR (try_call ''fputs error'' s) (\<lambda>s. Inr (put (cstr b) s, True)))"

definition pipe4_main :: "(string list \<Rightarrow> co_answer) \<Rightarrow> string \<times> bool \<Rightarrow> 'a text_io_scheme \<Rightarrow> 'a text_io_scheme res" where
  "pipe4_main child input s =
     bindR (try_call ''signal error'' s) (\<lambda>s.
     bindR (try_call ''pipe error'' s) (\<lambda>s.
     bindR (try_call ''pipe error'' s) (\<lambda>s.
     bindR (try_call ''fork error'' s) (\<lambda>s.
     bindR (each (co_line child) (line_reads MAXLINE (fst input)) s) (\<lambda>s.
     if snd input then err_sys ''fgets error on stdin'' s else Inr s)))))"

text \<open>The descriptors of the coprocess.\<close>

definition pipe4_child :: "int \<times> int \<Rightarrow> int \<times> int \<Rightarrow> (int \<Rightarrow> nat option) \<Rightarrow> int \<Rightarrow> nat option" where
  "pipe4_child fd1 fd2 t =
     (let t = t(snd fd1 := None, fst fd2 := None);
          t = (if fst fd1 \<noteq> 0 then (dup2 (fst fd1) 0 t)(fst fd1 := None) else t) in
      if snd fd2 \<noteq> 1 then (dup2 (snd fd2) 1 t)(snd fd2 := None) else t)"

definition spipe4_child :: "int \<times> int \<Rightarrow> (int \<Rightarrow> nat option) \<Rightarrow> int \<Rightarrow> nat option" where
  "spipe4_child fd t =
     (let t = t(fst fd := None);
          t = (if snd fd \<noteq> 0 then dup2 (snd fd) 0 t else t) in
      if snd fd \<noteq> 1 then dup2 (snd fd) 1 t else t)"

text \<open>The parent of spipe4.c: one stream pipe in place of the two pipes.\<close>

definition spipe4_main :: "(string list \<Rightarrow> co_answer) \<Rightarrow> string \<times> bool \<Rightarrow> 'a text_io_scheme \<Rightarrow> 'a text_io_scheme res" where
  "spipe4_main child input s =
     bindR (try_call ''signal error'' s) (\<lambda>s.
     bindR (try_call ''pipe error'' s) (\<lambda>s.
     bindR (try_call ''fork error'' s) (\<lambda>s.
     bindR (each (co_line child) (line_reads MAXLINE (fst input)) s) (\<lambda>s.
     if snd input then err_sys ''fgets error on stdin'' s else Inr s))))"

section \<open>Two shells\<close>

text \<open>
  One line: its last character is overwritten, and the rest is the name of a program, which the
  child runs (\<open>exec_ok\<close>) or complains about; \<open>ran\<close> lists the programs.
\<close>

record shell = text_io +
  ran :: "string list"

definition shell_line :: "(string \<Rightarrow> bool) \<Rightarrow> string \<Rightarrow> 'a shell_scheme \<Rightarrow> ('a shell_scheme \<times> bool) res" where
  "shell_line exec_ok line s =
     (if cstr line = [] then Inl (UB ''buf[-1]'')
      else let buf = butlast (cstr line) in
        bindR (try_call ''fork error'' s) (\<lambda>s.
        bindR (if exec_ok buf then Inr (s\<lparr>ran := ran s @ [buf]\<rparr>) else err_ret (''couldn't execute: '' @ buf) s) (\<lambda>s.
        bindR (try_call ''waitpid error'' s) (\<lambda>s. Inr (put ''% '' s, True)))))"

definition shell1_main :: "(string \<Rightarrow> bool) \<Rightarrow> string \<Rightarrow> 'a shell_scheme \<Rightarrow> 'a shell_scheme res" where
  "shell1_main exec_ok input s = each (shell_line exec_ok) (line_reads MAXLINE input) (put ''% '' s)"

text \<open>shell2.c catches SIGINT; the interrupts come, one after the other, before the lines that they precede.\<close>

definition sig_int :: "'a shell_scheme \<Rightarrow> 'a shell_scheme" where
  "sig_int s = put (''interrupt'' @ [NL] @ ''% '') s"

definition shell2_line :: "(string \<Rightarrow> bool) \<Rightarrow> (nat \<Rightarrow> nat) \<Rightarrow> string \<Rightarrow> nat \<times> 'a shell_scheme \<Rightarrow> ((nat \<times> 'a shell_scheme) \<times> bool) res" where
  "shell2_line exec_ok ints line ks =
     bindR (shell_line exec_ok line ((sig_int ^^ ints (fst ks)) (snd ks))) (\<lambda>(s, go). Inr ((fst ks + 1, s), go))"

definition shell2_main :: "(string \<Rightarrow> bool) \<Rightarrow> (nat \<Rightarrow> nat) \<Rightarrow> string \<Rightarrow> 'a shell_scheme \<Rightarrow> 'a shell_scheme res" where
  "shell2_main exec_ok ints input s =
     bindR (try_call ''signal error'' s) (\<lambda>s.
     bindR (each (shell2_line exec_ok ints) (line_reads MAXLINE input) (0, put ''% '' s)) (\<lambda>(k, s).
     Inr ((sig_int ^^ ints k) s)))"

section \<open>Loops whose body goes on\<close>

text \<open>
  As long as the rest of the lines is good for the state, the body succeeds and does what \<open>act\<close> says. What a line
  adds to an observed list is added for all lines, in order.
\<close>

locale line_loop =
  fixes body :: "string \<Rightarrow> 's \<Rightarrow> ('s \<times> bool) res"
    and act :: "string \<Rightarrow> 's \<Rightarrow> 's"
    and good :: "string list \<Rightarrow> 's \<Rightarrow> bool"
  assumes goes_on: "good (l # ls) s \<Longrightarrow> body l s = Inr (act l s, True) \<and> good ls (act l s)"
begin

lemma each_folds: "good ls s \<Longrightarrow> each body ls s = Inr (fold act ls s)"
proof (induction ls arbitrary: s)
  case (Cons l ls)
  then show ?case using goes_on [OF Cons.prems] by simp
qed simp

end

lemma fold_adds: "(\<And>l s. obs (act l s) = obs s @ f l) \<Longrightarrow> obs (fold act ls s) = obs s @ concat (map f ls)"
  by (induction ls arbitrary: s) simp_all

section \<open>What is read\<close>

lemma concat_line_reads: "1 < n \<Longrightarrow> concat (line_reads n s) = s"
proof (induction n s rule: line_reads.induct)
  case (1 n s)
  have "take_line k t = take (length (take_line k t)) t" for k t by (induction k t rule: take_line.induct) auto
  then have "take_line (n - 1) s @ drop (length (take_line (n - 1) s)) s = s" by (metis append_take_drop_id)
  then show ?case using 1 by (subst line_reads.simps) (auto simp: Let_def)
qed

lemma cstr_id: "NUL \<notin> set t \<Longrightarrow> cstr t = t"
  unfolding cstr_def by (auto simp: takeWhile_eq_all_conv)

lemma cstr_line_reads: "1 < n \<Longrightarrow> NUL \<notin> set s \<Longrightarrow> l \<in> set (line_reads n s) \<Longrightarrow> cstr l = l"
  using concat_line_reads [of n s] by (intro cstr_id) (metis in_set_conv_nth nth_mem UN_I set_concat)

lemma take_line_append:
  "NL \<notin> set c \<Longrightarrow> length c < n \<Longrightarrow> take_line n (c @ NL # t) = c @ [NL]"
  by (induction c arbitrary: n) (auto simp: Suc_less_eq2 gr0_conv_Suc)

text \<open>An input of short lines is read line by line.\<close>

lemma line_reads_lines:
  "\<forall>c \<in> set cs. NL \<notin> set c \<and> length c + 1 < n \<Longrightarrow> line_reads n (concat (map (\<lambda>c. c @ [NL]) cs) @ t) = map (\<lambda>c. c @ [NL]) cs @ line_reads n t"
proof (induction cs)
  case (Cons c cs)
  have "take_line (n - 1) (c @ NL # concat (map (\<lambda>c. c @ [NL]) cs) @ t) = c @ [NL]"
    using Cons.prems by (intro take_line_append) auto
  then show ?case using Cons by (subst line_reads.simps) (auto simp: Let_def)
qed simp

lemma try_call_ok [simp]: "faults s = [] \<Longrightarrow> try_call msg s = Inr s"
  by (simp add: try_call_def)

lemma put_simps [simp]: "faults (put t s) = faults s" "stdout (put t s) = stdout s @ t" "piped (put t s) = piped s"
  by (simp_all add: put_def)

section \<open>Pagers\<close>

interpretation pager: line_loop "pass_line msg" "\<lambda>l s. s\<lparr>piped := piped s @ [cstr l]\<rparr>" "\<lambda>ls s. faults s = []" for msg
  by unfold_locales (simp add: pass_line_def)

lemma each_pass_line:
  "faults s = [] \<Longrightarrow> each (pass_line msg) ls s = Inr (s\<lparr>piped := piped s @ map cstr ls\<rparr>)"
  by (simp add: pager.each_folds) (induction ls arbitrary: s; simp)

lemma map_cstr_reads: "1 < n \<Longrightarrow> NUL \<notin> set t \<Longrightarrow> map cstr (line_reads n t) = line_reads n t"
  by (rule map_idI) (rule cstr_line_reads)

lemma MAXLINE_big: "1 < MAXLINE"
  by (simp add: MAXLINE_def)

text \<open>
  Both pager programs give the pager the whole file, byte for byte and however long its lines are, if it has no NUL
  byte and no call fails.
\<close>
theorem pager_gets_file:
  assumes "NUL \<notin> set text" "faults s = []" "piped s = []" "length argv = 2"
  shows "\<exists>s1 s2. popen2_main argv (Some (text, False)) s = Inr s1 \<and> concat (piped s1) = text
    \<and> pipe2_main argv (Some (text, False)) s = Inr s2 \<and> concat (piped s2) = text"
  using assms by (simp add: popen2_main_def pipe2_main_def each_pass_line map_cstr_reads [OF MAXLINE_big] concat_line_reads [OF MAXLINE_big])

text \<open>A file with a NUL byte is cut in each line that holds one.\<close>

lemma pager_cuts_at_NUL:
  "faults s = [] \<Longrightarrow> piped s = [] \<Longrightarrow> \<exists>s'. popen2_main [p, f] (Some (''ab'' @ [NUL] @ ''cd'' @ [NL], False)) s = Inr s' \<and> piped s' = [''ab'']"
  using line_reads_lines [of "[''ab'' @ [NUL] @ ''cd'']" MAXLINE "[]"] line_reads.simps [of MAXLINE "[]"]
  by (simp add: popen2_main_def each_pass_line MAXLINE_def cstr_def)

text \<open>The first argument of the pager is the last component of its path.\<close>

lemma pager_args_last: "CHR ''/'' \<notin> set c \<Longrightarrow> pager_args (Some (d @ CHR ''/'' # c)) = (d @ CHR ''/'' # c, c)"
proof -
  assume "CHR ''/'' \<notin> set c"
  then have "takeWhile (\<lambda>x. x \<noteq> CHR ''/'') (rev c @ CHR ''/'' # rev d) = rev c"
    by (subst takeWhile_append2) auto
  then show ?thesis by (simp add: pager_args_def)
qed

text \<open>The dialogue of popen1: a prompt before every line, which is shown in small letters.\<close>

lemma put_put: "put t (put r s) = put (r @ t) s"
  by (simp add: put_def)

interpretation prompter: line_loop prompt_line "\<lambda>l. put (''prompt> '' @ cstr l)" "\<lambda>ls s. faults s = []"
  by unfold_locales (simp add: prompt_line_def put_put)

lemma fold_put: "fold (\<lambda>l. put (f l)) ls s = put (concat (map f ls)) s"
proof (induction ls arbitrary: s)
  case Nil
  show ?case by (cases s rule: text_io.cases_scheme) (simp add: put_def)
qed (simp add: put_put)

lemma each_prompt:
  "faults s = [] \<Longrightarrow> each prompt_line ls s = Inr (put (concat (map (\<lambda>l. ''prompt> '' @ cstr l) ls)) s)"
  using prompter.each_folds [of s ls] by (simp only: fold_put)

lemma tolower_low:
  assumes "x = NL \<or> x = NUL"
  shows "tolower_c c = x \<longleftrightarrow> c = x" "x \<in> set (map tolower_c t) \<longleftrightarrow> x \<in> set t"
proof -
  show *: "tolower_c c = x \<longleftrightarrow> c = x" for c
  proof (cases "65 \<le> (of_char c :: nat) \<and> (of_char c :: nat) \<le> 90")
    case True
    then have "97 \<le> (of_char (tolower_c c) :: nat)" by (simp add: tolower_c_def Let_def)
    moreover have "(of_char x :: nat) \<le> 10" using assms by auto
    ultimately have "tolower_c c \<noteq> x" "c \<noteq> x" using True by auto
    then show ?thesis by simp
  qed (auto simp: tolower_c_def Let_def)
  have "x \<in> set (map tolower_c t) \<longleftrightarrow> (\<exists>c \<in> set t. tolower_c c = x)" by auto
  then show "x \<in> set (map tolower_c t) \<longleftrightarrow> x \<in> set t" unfolding * by simp
qed

theorem popen1_dialogue:
  assumes "faults s = []" "\<forall>c \<in> set cs. NL \<notin> set c \<and> NUL \<notin> set c \<and> length c + 1 < MAXLINE"
  shows "\<exists>s'. popen1_main (concat (map (\<lambda>c. c @ [NL]) cs)) s = Inr s'
    \<and> stdout s' = stdout s @ concat (map (\<lambda>c. ''prompt> '' @ map tolower_c c @ [NL]) cs) @ ''prompt> '' @ [NL]"
proof -
  define ds where "ds = map (map tolower_c) cs"
  have ds: "\<forall>c \<in> set ds. NL \<notin> set c \<and> length c + 1 < MAXLINE" "\<forall>c \<in> set ds. NUL \<notin> set (c @ [NL])"
    unfolding ds_def set_map [of "map tolower_c"] ball_simps
    using assms(2) tolower_low(2) [of NL] tolower_low(2) [of NUL] by (simp_all del: set_map)
  have "map tolower_c (concat (map (\<lambda>c. c @ [NL]) cs)) = concat (map (\<lambda>c. c @ [NL]) ds)"
    unfolding ds_def using tolower_low(1) [of NL NL] by (induction cs) simp_all
  then have r: "line_reads MAXLINE (myuclc_main (concat (map (\<lambda>c. c @ [NL]) cs))) = map (\<lambda>c. c @ [NL]) ds"
    using line_reads_lines [OF ds(1), of "[]"] line_reads.simps [of MAXLINE "[]"] by (simp add: myuclc_main_def)
  have m: "map (\<lambda>l. ''prompt> '' @ cstr l) (map (\<lambda>c. c @ [NL]) ds) = map (\<lambda>c. ''prompt> '' @ map tolower_c c @ [NL]) cs"
    using ds(2) by (simp add: ds_def cstr_id)
  define T where "T = concat (map (\<lambda>c. ''prompt> '' @ map tolower_c c @ [NL]) cs)"
  have e: "each prompt_line (map (\<lambda>c. c @ [NL]) ds) s = Inr (put T s)"
    using each_prompt [OF assms(1), of "map (\<lambda>c. c @ [NL]) ds"] unfolding m T_def .
  show ?thesis unfolding T_def [symmetric]
    by (intro exI [of _ "put [NL] (put ''prompt> '' (put T s))"]) (simp add: popen1_main_def assms(1) r e)
qed

section \<open>The coprocess\<close>

text \<open>What the coprocess gets to see before each of its answers.\<close>

definition asked :: "string list \<Rightarrow> string list \<Rightarrow> string list list" where
  "asked sent ls = map (\<lambda>k. sent @ take (Suc k) ls) [0..<length ls]"

lemma asked_Cons: "asked sent (l # ls) = (sent @ [l]) # asked (sent @ [l]) ls"
  unfolding asked_def by (simp add: upt_conv_Cons map_Suc_upt [symmetric] del: upt_Suc)

lemma each_co:
  assumes "\<forall>h \<in> set (asked (piped s) (map cstr ls)). \<exists>b. child h = Answer b \<and> b \<noteq> [] \<and> NUL \<notin> set b \<and> length b < MAXLINE" "faults s = []"
  shows "\<exists>s'. each (co_line child) ls s = Inr s' \<and> piped s' = piped s @ map cstr ls
    \<and> stdout s' = stdout s @ concat (map (\<lambda>h. case child h of Answer b \<Rightarrow> b | _ \<Rightarrow> []) (asked (piped s) (map cstr ls)))"
  using assms
proof (induction ls arbitrary: s)
  case (Cons l ls)
  let ?h = "piped s @ [cstr l]"
  obtain b where b: "child ?h = Answer b" "b \<noteq> []" "NUL \<notin> set b" "length b < MAXLINE"
    using Cons.prems(1) by (auto simp: asked_Cons)
  let ?t = "put b (s\<lparr>piped := ?h\<rparr>)"
  have "co_line child l s = Inr (?t, True)" using b Cons.prems(2) by (simp add: co_line_def Let_def cstr_id)
  moreover obtain s' where "each (co_line child) ls ?t = Inr s'" "piped s' = ?h @ map cstr ls"
    "stdout s' = stdout s @ b @ concat (map (\<lambda>h. case child h of Answer b \<Rightarrow> b | _ \<Rightarrow> []) (asked ?h (map cstr ls)))"
    using Cons.IH [of ?t] Cons.prems by (auto simp: asked_Cons)
  ultimately show ?case using b by (auto simp: asked_Cons)
qed (simp add: asked_def)

text \<open>Both programs hold the same conversation.\<close>

lemma spipe4_same: "faults s = [] \<Longrightarrow> spipe4_main child input s = pipe4_main child input s"
  by (simp add: spipe4_main_def pipe4_main_def)

text \<open>
  A conversation: each line of the input is sent, and its answer is shown before the next line is sent, if
  the answers are not empty, have no NUL and are shorter than the array.
\<close>
theorem coprocess_answers:
  assumes "faults s = []" "piped s = []"
    and "\<forall>h \<in> set (asked [] (map cstr (line_reads MAXLINE input))). \<exists>b. child h = Answer b \<and> b \<noteq> [] \<and> NUL \<notin> set b \<and> length b < MAXLINE"
  shows "\<exists>s'. pipe4_main child (input, False) s = Inr s' \<and> spipe4_main child (input, False) s = Inr s' \<and> piped s' = map cstr (line_reads MAXLINE input)
    \<and> stdout s' = stdout s @ concat (map (\<lambda>h. case child h of Answer b \<Rightarrow> b | _ \<Rightarrow> []) (asked [] (map cstr (line_reads MAXLINE input))))"
  using each_co [of s "line_reads MAXLINE input" child] assms by (auto simp: spipe4_same) (auto simp: pipe4_main_def)

text \<open>An answer that fills the array is ended with a NUL one byte behind it.\<close>
theorem coprocess_overflow:
  assumes "faults s = []" "line_reads MAXLINE input = l # ls" "child (piped s @ [cstr l]) = Answer ans" "MAXLINE \<le> length ans"
  shows "pipe4_main child (input, err) s = Inl (UB ''line[n]'')"
proof -
  have "take MAXLINE ans \<noteq> []" using assms(4) MAXLINE_big by auto
  then show ?thesis using assms by (simp add: pipe4_main_def co_line_def Let_def)
qed

text \<open>
  The coprocess has the pipes as its standard input and output. With two pipes no other end is left
  open in it; with the stream pipe its end stays open a third time.
\<close>
theorem coprocess_descriptors:
  assumes "distinct [r1, w1, r2, w2]" "2 < r1" "2 < w1" "2 < r2" "2 < w2"
    and "t r1 = Some a" "t w1 = Some b" "t r2 = Some c" "t w2 = Some d"
  shows "pipe4_child (r1, w1) (r2, w2) t = t(r1 := None, w1 := None, r2 := None, w2 := None, 0 \<mapsto> a, 1 \<mapsto> d)"
    and "spipe4_child (r1, w1) t = t(r1 := None, 0 \<mapsto> b, 1 \<mapsto> b)"
  using assms by (auto simp: pipe4_child_def spipe4_child_def dup2_def Let_def fun_eq_iff)

section \<open>The shells\<close>

lemma shell_line_run:
  assumes "faults s = []" "c \<noteq> []" "NUL \<notin> set c" "exec_ok (butlast c)"
  shows "shell_line exec_ok c s = Inr (put ''% '' (s\<lparr>ran := ran s @ [butlast c]\<rparr>), True)"
  using assms by (simp add: shell_line_def cstr_id Let_def)

lemma ran_put [simp]: "ran (put t s) = ran s"
  by (simp add: put_def)

definition runnable :: "(string \<Rightarrow> bool) \<Rightarrow> string \<Rightarrow> bool" where
  "runnable exec_ok c \<longleftrightarrow> c \<noteq> [] \<and> NUL \<notin> set c \<and> exec_ok (butlast c)"

interpretation sh: line_loop "shell_line exec_ok" "\<lambda>c s. put ''% '' (s\<lparr>ran := ran s @ [butlast c]\<rparr>)"
    "\<lambda>cs s. faults s = [] \<and> (\<forall>c \<in> set cs. runnable exec_ok c)" for exec_ok
  by unfold_locales (simp add: runnable_def shell_line_run)

lemma each_shell:
  assumes "faults s = []" "\<forall>c \<in> set cs. c \<noteq> [] \<and> NUL \<notin> set c \<and> exec_ok (butlast c)"
  shows "\<exists>s'. each (shell_line exec_ok) cs s = Inr s' \<and> ran s' = ran s @ map butlast cs \<and> stdout s' = stdout s @ concat (map (\<lambda>c. ''% '') cs)"
proof -
  let ?t = "fold (\<lambda>c s. put ''% '' (s\<lparr>ran := ran s @ [butlast c]\<rparr>)) cs s"
  have "each (shell_line exec_ok) cs s = Inr ?t" using assms by (intro sh.each_folds) (simp add: runnable_def)
  moreover have "ran ?t = ran s @ concat (map (\<lambda>c. [butlast c]) cs)" by (rule fold_adds) simp
  moreover have "stdout ?t = stdout s @ concat (map (\<lambda>c. ''% '') cs)" by (rule fold_adds) simp
  ultimately show ?thesis by simp
qed

text \<open>
  The shell runs the commands of its lines in their order. A last line without a newline loses its last
  character: another program is run.
\<close>
theorem shell_runs_lines:
  assumes "faults s = []" "\<forall>c \<in> set cs. NL \<notin> set c \<and> NUL \<notin> set c \<and> length c + 1 < MAXLINE \<and> exec_ok c"
    and w: "NL \<notin> set w" "NUL \<notin> set w" "length w < MAXLINE" "exec_ok (butlast w)"
  shows "\<exists>s'. shell1_main exec_ok (concat (map (\<lambda>c. c @ [NL]) cs) @ w) s = Inr s' \<and> ran s' = ran s @ cs @ (if w = [] then [] else [butlast w])"
proof -
  have short: "take_line n t = t" if "NL \<notin> set t" "length t \<le> n" for n t
    using that by (induction n t rule: take_line.induct) auto
  have "line_reads MAXLINE w = (if w = [] then [] else [w])"
    using w short [of w "MAXLINE - 1"] MAXLINE_big line_reads.simps [of MAXLINE w] line_reads.simps [of MAXLINE "[]"] by (simp add: Let_def)
  then have r: "line_reads MAXLINE (concat (map (\<lambda>c. c @ [NL]) cs) @ w) = map (\<lambda>c. c @ [NL]) cs @ (if w = [] then [] else [w])"
    using line_reads_lines [of cs MAXLINE w] assms(2) by simp
  have f: "faults (put ''% '' s) = []" using assms(1) by simp
  have ok: "\<forall>c \<in> set (map (\<lambda>c. c @ [NL]) cs @ (if w = [] then [] else [w])). c \<noteq> [] \<and> NUL \<notin> set c \<and> exec_ok (butlast c)"
    using assms(2) w(2,4) by (auto split: if_splits)
  obtain s' where e: "each (shell_line exec_ok) (map (\<lambda>c. c @ [NL]) cs @ (if w = [] then [] else [w])) (put ''% '' s) = Inr s'"
    "ran s' = ran (put ''% '' s) @ map butlast (map (\<lambda>c. c @ [NL]) cs @ (if w = [] then [] else [w]))"
    using each_shell [OF f ok] by blast
  have "map butlast (map (\<lambda>c. c @ [NL]) cs) = cs" by (simp add: comp_def)
  then have "ran s' = ran s @ cs @ (if w = [] then [] else [butlast w])" using e(2) by simp
  then show ?thesis unfolding shell1_main_def r using e(1) by blast
qed

text \<open>A line that starts with a NUL byte makes the program store in front of its array.\<close>

lemma shell_NUL_line: "shell1_main exec_ok [NUL, NL] s = Inl (UB ''buf[-1]'')"
proof -
  have "line_reads MAXLINE [NUL, NL] = [[NUL, NL]]"
    using line_reads_lines [of "[[NUL]]" MAXLINE "[]"] line_reads.simps [of MAXLINE "[]"] by (simp add: MAXLINE_def)
  then show ?thesis by (simp add: shell1_main_def shell_line_def cstr_def)
qed

text \<open>Without interrupts the second shell does what the first does.\<close>

lemma shell2_quiet:
  assumes "faults s = []"
  shows "shell2_main exec_ok (\<lambda>_. 0) input s = shell1_main exec_ok input s"
proof -
  have e: "each (shell2_line exec_ok (\<lambda>_. 0)) ls (k, s) = bindR (each (shell_line exec_ok) ls s) (\<lambda>s'. Inr (k + length ls, s'))"
    if "True" for ls k and s :: "'a shell_scheme"
  proof (induction ls arbitrary: k s)
    case (Cons l ls)
    have st: "shell2_line exec_ok (\<lambda>_. 0) l (k, s) = bindR (shell_line exec_ok l s) (\<lambda>(s, go). Inr ((Suc k, s), go))"
      by (simp add: shell2_line_def)
    have go: "snd r" if "shell_line exec_ok l s = Inr r" for r
      using that by (auto simp: shell_line_def Let_def bindR_Inr_iff split: if_splits)
    show ?case
    proof (cases "shell_line exec_ok l s")
      case (Inr r)
      obtain t where "r = (t, True)" using go [OF Inr] by (cases r) auto
      then show ?thesis using Inr Cons.IH [of "Suc k" t] by (simp add: st)
    qed (simp add: st)
  qed simp
  show ?thesis using assms by (simp add: shell2_main_def shell1_main_def e bindR_def split: sum.split)
qed

section \<open>Examples\<close>

definition text_ex :: text_io where
  "text_ex = \<lparr>debug = 0, errno_text = [], stderr_out = [], syslog_out = [], heap = 0, stdout = [], piped = [], faults = []\<rparr>"

lemma text_ex_fields: "faults text_ex = []" "piped text_ex = []" "stdout text_ex = []"
  by (simp_all add: text_ex_def)

definition shell_ex :: shell where
  "shell_ex = text_io.extend text_ex \<lparr>ran = []\<rparr>"

lemma shell_ex_fields: "faults shell_ex = []" "ran shell_ex = []"
  by (simp_all add: shell_ex_def text_ex_def text_io.defs)

lemma reads_two: "line_reads MAXLINE (''1 2'' @ [NL]) = [''1 2'' @ [NL]]"
  using line_reads_lines [of "[''1 2'']" MAXLINE "[]"] line_reads.simps [of MAXLINE "[]"] by (simp add: MAXLINE_def)

theorem pager_gets_file_witness:
  "\<exists>s1. popen2_main [''a.out'', ''f''] (Some (''some text'', False)) text_ex = Inr s1 \<and> concat (piped s1) = ''some text''"
  using pager_gets_file [of "''some text''" text_ex "[''a.out'', ''f'']"] text_ex_fields by auto

theorem popen1_dialogue_witness:
  "\<exists>s'. popen1_main (''HeLLo'' @ [NL]) text_ex = Inr s' \<and> stdout s' = ''prompt> hello'' @ [NL] @ ''prompt> '' @ [NL]"
proof -
  have "map tolower_c ''HeLLo'' = ''hello''" by code_simp
  then show ?thesis using popen1_dialogue [of text_ex "[''HeLLo'']"] by (auto simp: text_ex_fields MAXLINE_def)
qed

theorem coprocess_answers_witness:
  "\<exists>s'. pipe4_main (\<lambda>h. Answer (''3'' @ [NL])) (''1 2'' @ [NL], False) text_ex = Inr s' \<and> stdout s' = ''3'' @ [NL]"
  using coprocess_answers [of text_ex "''1 2'' @ [NL]" "\<lambda>h. Answer (''3'' @ [NL])"] reads_two
  by (auto simp: text_ex_fields asked_def MAXLINE_def)

theorem coprocess_overflow_witness:
  "pipe4_main (\<lambda>h. Answer (replicate 4096 CHR ''x'')) (''1 2'' @ [NL], False) text_ex = Inl (UB ''line[n]'')"
  using coprocess_overflow [of text_ex "''1 2'' @ [NL]" "''1 2'' @ [NL]" "[]"] reads_two by (simp add: text_ex_fields MAXLINE_def)

theorem shell_runs_lines_witness:
  "\<exists>s'. shell1_main (\<lambda>_. True) (''date'' @ [NL] @ ''who'') shell_ex = Inr s' \<and> ran s' = [''date'', ''wh'']"
  using shell_runs_lines [of shell_ex "[''date'']" "\<lambda>_. True" "''who''"] by (simp add: shell_ex_fields MAXLINE_def)

end
