(* ===== verification/Commands.thy ===== *)
theory Commands
  imports ProcOpen "HOL-Library.Word"
begin

unbundle bit_operations_syntax

text \<open>
  proc/system.c, which runs a command with the shell and waits for it, proc/times1.c, which runs its
  arguments as commands and reports their times, and advio/nonblockw.c, which writes without blocking.
\<close>

section \<open>system.c\<close>

text \<open>
  The status of the child: of the shell, or of its exit when there is no shell (\<open>sh\<close> is None). The answers of
  waitpid are those of ProcOpen.
\<close>

definition system_child :: "(string \<Rightarrow> int option) \<Rightarrow> string \<Rightarrow> int" where
  "system_child sh cmd = (case sh cmd of Some st \<Rightarrow> st | None \<Rightarrow> 127 * 256)"

definition system_cmd :: "bool \<Rightarrow> wait_answer list \<Rightarrow> string option \<Rightarrow> int option" where
  "system_cmd fork_ok ws cmdstring =
     (case cmdstring of None \<Rightarrow> Some 1
      | Some cmd \<Rightarrow> if \<not> fork_ok then Some (-1) else wait_loop ws)"

section \<open>pr_exit\<close>

text \<open>
  The fields of a status as sys/wait.h reads them; \<open>core\<close> tells whether it has WCOREDUMP.
\<close>

definition WTERMSIG :: "int \<Rightarrow> int" where "WTERMSIG status = status mod 128"

definition WEXITSTATUS :: "int \<Rightarrow> int" where "WEXITSTATUS status = status div 256 mod 256"

definition WSTOPPED :: "int \<Rightarrow> bool" where "WSTOPPED status \<longleftrightarrow> status mod 256 = 127"

definition WCOREDUMP :: "int \<Rightarrow> bool" where "WCOREDUMP status \<longleftrightarrow> 128 \<le> status mod 256"

record clock = proc_io +
  clktck :: int
  printed :: string

definition print :: "string \<Rightarrow> 'a clock_scheme \<Rightarrow> 'a clock_scheme" where
  "print t s = s\<lparr>printed := printed s @ t\<rparr>"

definition exit_line :: "bool \<Rightarrow> int \<Rightarrow> string" where
  "exit_line core status =
     (if WTERMSIG status = 0 then ''normal termination, exit status = '' @ deci (WEXITSTATUS status) @ [NL]
      else if WTERMSIG status \<noteq> 127 then
        ''abnormal termination, signal number = '' @ deci (WTERMSIG status) @ (if core \<and> WCOREDUMP status then '' (core file generated)'' else []) @ [NL]
      else if WSTOPPED status then ''child stopped, signal number = '' @ deci (WEXITSTATUS status) @ [NL]
      else [])"

definition pr_exit :: "bool \<Rightarrow> int \<Rightarrow> 'a clock_scheme \<Rightarrow> 'a clock_scheme" where
  "pr_exit core status s = print (exit_line core status) s"

text \<open>The programs systest1.c and systest3.c; \<open>sys\<close> is what system returns for a command.\<close>

definition test_status :: "bool \<Rightarrow> int \<Rightarrow> 'a clock_scheme \<Rightarrow> 'a clock_scheme res" where
  "test_status core status s = (if status < 0 then err_sys ''system() error'' s else Inr (pr_exit core status s))"

definition systest1_main :: "bool \<Rightarrow> (string \<Rightarrow> int) \<Rightarrow> 'a clock_scheme \<Rightarrow> 'a clock_scheme res" where
  "systest1_main core sys s =
     bindR (test_status core (sys ''date'') s) (\<lambda>s.
     bindR (test_status core (sys ''nosuchcommand'') s) (\<lambda>s.
     test_status core (sys ''who; exit 44'') s))"

definition systest3_main :: "bool \<Rightarrow> (string \<Rightarrow> int) \<Rightarrow> string list \<Rightarrow> 'a clock_scheme \<Rightarrow> 'a clock_scheme res" where
  "systest3_main core sys argv s =
     (if length argv < 2 then err_quit ''command-line argument required'' s else test_status core (sys (argv ! 1)) s)"

text \<open>wait1.c: the results of fork and of wait for the three children.\<close>

definition wait_child :: "bool \<Rightarrow> int \<times> int \<times> int \<Rightarrow> 'a clock_scheme \<Rightarrow> 'a clock_scheme res" where
  "wait_child core c s =
     (case c of (pid, w, status) \<Rightarrow>
        if pid < 0 then err_sys ''fork error'' s
        else if w \<noteq> pid then err_sys ''wait error'' s
        else Inr (pr_exit core status s))"

definition wait1_main :: "bool \<Rightarrow> (nat \<Rightarrow> int \<times> int \<times> int) \<Rightarrow> 'a clock_scheme \<Rightarrow> 'a clock_scheme res" where
  "wait1_main core c s = bindR (wait_child core (c 1) s) (\<lambda>s. bindR (wait_child core (c 2) s) (wait_child core (c 3)))"

section \<open>times1.c\<close>

record tms =
  tms_utime :: int
  tms_stime :: int
  tms_cutime :: int
  tms_cstime :: int

text \<open>What happens around one command: the two results of times, the result of system and the ticks of sysconf.\<close>

record cmd_run =
  run_start :: "(int \<times> tms) option"
  run_status :: int
  run_end :: "(int \<times> tms) option"
  run_tck :: int

text \<open>\<open>F\<close> is the conversion %7.2f of a quotient. The reports go to the standard error output, the status to the standard output.\<close>

definition times_text :: "(int \<Rightarrow> int \<Rightarrow> string) \<Rightarrow> int \<Rightarrow> int \<Rightarrow> tms \<Rightarrow> tms \<Rightarrow> string" where
  "times_text F tck real t0 t1 =
     ''  real:  '' @ F real tck @ [NL] @ ''  user:  '' @ F (tms_utime t1 - tms_utime t0) tck @ [NL]
     @ ''  sys:   '' @ F (tms_stime t1 - tms_stime t0) tck @ [NL] @ ''  child user:  '' @ F (tms_cutime t1 - tms_cutime t0) tck @ [NL]
     @ ''  child sys:   '' @ F (tms_cstime t1 - tms_cstime t0) tck @ [NL]"

definition say :: "string \<Rightarrow> 'a proc_io_scheme \<Rightarrow> 'a proc_io_scheme" where
  "say t s = s\<lparr>stderr_out := stderr_out s @ t\<rparr>"

definition pr_times :: "(int \<Rightarrow> int \<Rightarrow> string) \<Rightarrow> int \<Rightarrow> int \<Rightarrow> tms \<Rightarrow> tms \<Rightarrow> 'a clock_scheme \<Rightarrow> 'a clock_scheme res" where
  "pr_times F tck real t0 t1 s =
     bindR (if clktck s = 0 then let s = s\<lparr>clktck := tck\<rparr> in if tck < 0 then err_sys ''sysconf error'' s else Inr s else Inr s)
       (\<lambda>s. Inr (say (times_text F (clktck s) real t0 t1) s))"

definition do_cmd :: "(int \<Rightarrow> int \<Rightarrow> string) \<Rightarrow> bool \<Rightarrow> string \<Rightarrow> cmd_run \<Rightarrow> 'a clock_scheme \<Rightarrow> 'a clock_scheme res" where
  "do_cmd F core cmd r s =
     (let s = say ([NL] @ ''command: '' @ cmd @ [NL]) s in
      case run_start r of None \<Rightarrow> err_sys ''times error'' s
      | Some (t0, b0) \<Rightarrow>
          if run_status r < 0 then err_sys ''system() error'' s
          else case run_end r of None \<Rightarrow> err_sys ''times error'' s
          | Some (t1, b1) \<Rightarrow> bindR (pr_times F (run_tck r) (t1 - t0) b0 b1 s) (\<lambda>s. Inr (pr_exit core (run_status r) s)))"

text \<open>The loop over the arguments after the first.\<close>

fun do_cmds :: "(int \<Rightarrow> int \<Rightarrow> string) \<Rightarrow> bool \<Rightarrow> (string \<times> cmd_run) list \<Rightarrow> 'a clock_scheme \<Rightarrow> 'a clock_scheme res" where
  "do_cmds F core [] s = Inr s"
| "do_cmds F core ((cmd, r) # rs) s = bindR (do_cmd F core cmd r s) (do_cmds F core rs)"

definition times1_main :: "(int \<Rightarrow> int \<Rightarrow> string) \<Rightarrow> bool \<Rightarrow> string list \<Rightarrow> cmd_run list \<Rightarrow> 'a clock_scheme \<Rightarrow> 'a clock_scheme res" where
  "times1_main F core argv rs s = do_cmds F core (zip (drop 1 argv) rs) s"

section \<open>The status flags of a descriptor: setfl.c, clr_fl and nonblockw.c\<close>

text \<open>The flags of the open descriptors; \<open>setfl_ok\<close> tells whether fcntl stores new ones.\<close>

record fl_io = proc_io +
  fl :: "int \<Rightarrow> 32 word option"
  setfl_ok :: bool

definition set_fl :: "int \<Rightarrow> 32 word \<Rightarrow> 'a fl_io_scheme \<Rightarrow> 'a fl_io_scheme res" where
  "set_fl fd flags s =
     (case fl s fd of None \<Rightarrow> err_sys ''fcntl F_GETFL error'' s
      | Some val \<Rightarrow> let val = val OR flags in
          if \<not> setfl_ok s then err_sys ''fcntl F_SETFL error'' s else Inr (s\<lparr>fl := (fl s)(fd \<mapsto> val)\<rparr>))"

definition clr_fl :: "int \<Rightarrow> 32 word \<Rightarrow> 'a fl_io_scheme \<Rightarrow> 'a fl_io_scheme res" where
  "clr_fl fd flags s =
     (case fl s fd of None \<Rightarrow> err_sys ''fcntl F_GETFL error'' s
      | Some val \<Rightarrow> let val = val AND NOT flags in
          if \<not> setfl_ok s then err_sys ''fcntl F_SETFL error'' s else Inr (s\<lparr>fl := (fl s)(fd \<mapsto> val)\<rparr>))"

text \<open>
  The results of write: a number of bytes it takes at most, or an error number; when there are no
  more, a write takes everything. The log is what is printed on the standard error output.
\<close>

datatype nb_answer = Takes nat | Fails int

function nb_loop :: "nb_answer list \<Rightarrow> string \<Rightarrow> string \<Rightarrow> (int \<times> int) list \<Rightarrow> string \<times> (int \<times> int) list" where
  "nb_loop as out buf log =
     (if buf = [] then (out, log)
      else case as of
        [] \<Rightarrow> (out @ buf, log @ [(int (length buf), 0)])
      | Takes k # as \<Rightarrow> nb_loop as (out @ take k buf) (drop k buf) (log @ [(int (min k (length buf)), 0)])
      | Fails e # as \<Rightarrow> nb_loop as out buf (log @ [(-1, e)]))"
  by pat_completeness auto
termination
  by (relation "measure (\<lambda>(as, _). length as)") auto

declare nb_loop.simps [simp del]

text \<open>The program: \<open>input\<close> is what the first read returns (None: an error, which is not examined).\<close>

definition nonblockw_main :: "32 word \<Rightarrow> string option \<Rightarrow> nb_answer list \<Rightarrow> 'a fl_io_scheme \<Rightarrow> (string \<times> (int \<times> int) list \<times> 'a fl_io_scheme) res" where
  "nonblockw_main O_NONBLOCK input as s =
     bindR (set_fl 1 O_NONBLOCK s) (\<lambda>s.
     let (out, log) = (case input of None \<Rightarrow> ([], []) | Some bs \<Rightarrow> nb_loop as [] (take 100000 bs) []) in
     bindR (clr_fl 1 O_NONBLOCK s) (\<lambda>s. Inr (out, log, s)))"

section \<open>Facts\<close>

text \<open>
  The result of system is the status of its command, however often the wait is interrupted; 127 from the child
  when there is no shell, and -1 when the process could not be started or waited for.
\<close>
theorem system_status:
  assumes "ws = replicate n Interrupted @ w # rest"
  shows "system_cmd True ws (Some cmd) = (case w of Interrupted \<Rightarrow> wait_loop rest | WaitError \<Rightarrow> Some (-1) | Terminated st \<Rightarrow> Some st)
    \<and> system_cmd False ws (Some cmd) = Some (-1) \<and> system_cmd fork_ok ws None = Some 1
    \<and> (w = Terminated (system_child (\<lambda>_. None) cmd) \<longrightarrow> system_cmd True ws (Some cmd) = Some 32512)"
proof -
  have "wait_loop (replicate n Interrupted @ w # rest) = wait_loop (w # rest)" by (induction n) auto
  then show ?thesis using assms by (cases w) (auto simp: system_cmd_def system_child_def)
qed

lemma say_simps [simp]: "clktck (say t s) = clktck s" "stderr_out (say t s) = stderr_out s @ t" "printed (say t s) = printed s"
  by (simp_all add: say_def)

lemma pr_exit_simps [simp]:
  "clktck (pr_exit core st s) = clktck s" "stderr_out (pr_exit core st s) = stderr_out s"
  "printed (pr_exit core st s) = printed s @ exit_line core st"
  by (simp_all add: pr_exit_def print_def)

text \<open>How a process ends, and the status that wait stores for it.\<close>

datatype ending = Ended nat | Killed nat bool | Stopped nat

fun status_of :: "ending \<Rightarrow> int" where
  "status_of (Ended n) = 256 * int (n mod 256)"
| "status_of (Killed sig dump) = int (sig mod 128) + (if dump then 128 else 0)"
| "status_of (Stopped sig) = 256 * int (sig mod 256) + 127"

fun ending_text :: "bool \<Rightarrow> ending \<Rightarrow> string" where
  "ending_text core (Ended n) = ''normal termination, exit status = '' @ deci (int (n mod 256)) @ [NL]"
| "ending_text core (Killed sig dump) =
     ''abnormal termination, signal number = '' @ deci (int sig) @ (if core \<and> dump then '' (core file generated)'' else []) @ [NL]"
| "ending_text core (Stopped sig) = ''child stopped, signal number = '' @ deci (int (sig mod 256)) @ [NL]"

text \<open>Signals have the numbers 1 to 126.\<close>

fun real_ending :: "ending \<Rightarrow> bool" where
  "real_ending (Killed sig dump) \<longleftrightarrow> 0 < sig \<and> sig < 127"
| "real_ending e \<longleftrightarrow> True"

lemma killed_fields:
  assumes "0 < z" "z < 127"
  shows "WTERMSIG z = z" "WTERMSIG (z + 128) = z" "\<not> WCOREDUMP z" "WCOREDUMP (z + 128)"
proof -
  have "z mod 128 = z" "z mod 256 = z" "(z + 128) mod 256 = z + 128" using assms by (auto intro: mod_pos_pos_trivial)
  then show "WTERMSIG z = z" "WTERMSIG (z + 128) = z" "\<not> WCOREDUMP z" "WCOREDUMP (z + 128)"
    using assms by (simp_all add: WTERMSIG_def WCOREDUMP_def)
qed

lemma ended_fields:
  assumes "0 \<le> z" "z < 256"
  shows "WTERMSIG (256 * z) = 0" "WEXITSTATUS (256 * z) = z"
proof -
  have "256 * z = 128 * (2 * z)" by simp
  then show "WTERMSIG (256 * z) = 0" unfolding WTERMSIG_def by (simp only: mod_mult_self1_is_0)
  show "WEXITSTATUS (256 * z) = z" using assms by (simp add: WEXITSTATUS_def)
qed

lemma stopped_fields:
  assumes "0 \<le> z" "z < 256"
  shows "WTERMSIG (256 * z + 127) = 127" "WSTOPPED (256 * z + 127)" "WEXITSTATUS (256 * z + 127) = z"
proof -
  have "(127 + 128 * (2 * z)) mod 128 = 127 mod 128" by (rule mod_mult_self2)
  then show "WTERMSIG (256 * z + 127) = 127" by (simp add: WTERMSIG_def add.commute)
  have "(127 + 256 * z) mod 256 = 127 mod 256" by (rule mod_mult_self2)
  then show "WSTOPPED (256 * z + 127)" by (simp add: WSTOPPED_def add.commute)
  have "(127 + 256 * z) div 256 = z" by simp
  then have "(256 * z + 127) div 256 = z" by (simp only: add.commute)
  then show "WEXITSTATUS (256 * z + 127) = z" using assms by (simp add: WEXITSTATUS_def)
qed

lemma exit_line_killed:
  assumes "0 < z" "z < 127"
  shows "exit_line core (z + (if dump then 128 else 0)) =
    ''abnormal termination, signal number = '' @ deci z @ (if core \<and> dump then '' (core file generated)'' else []) @ [NL]"
  using assms by (cases dump) (simp_all add: exit_line_def killed_fields)

lemma exit_line_status: "real_ending e \<Longrightarrow> exit_line core (status_of e) = ending_text core e"
proof (cases e)
  case (Ended n)
  have "int (n mod 256) < 256" by simp
  then show ?thesis by (simp only: Ended status_of.simps ending_text.simps exit_line_def ended_fields of_nat_0_le_iff if_True refl)
next
  case (Killed sig dump)
  moreover assume "real_ending e"
  ultimately have "0 < int sig" "int sig < 127" "sig mod 128 = sig" by simp_all
  with exit_line_killed [of "int sig"] show ?thesis by (simp only: Killed status_of.simps ending_text.simps)
next
  case (Stopped sig)
  have "int (sig mod 256) < 256" by simp
  note f = stopped_fields [OF of_nat_0_le_iff this]
  have "(127::int) \<noteq> 0" by simp
  then show ?thesis by (simp only: Stopped status_of.simps ending_text.simps exit_line_def f if_True if_False not_True_eq_False refl)
qed

lemma status_of_nonneg: "0 \<le> status_of e"
  by (cases e) simp_all

lemma test_status_ending: "real_ending e \<Longrightarrow> test_status core (status_of e) s = Inr (print (ending_text core e) s)"
  using status_of_nonneg [of e] by (simp add: test_status_def pr_exit_def exit_line_status)

text \<open>
  The programs print how each of their children ended, in order. When system fails the program ends.
\<close>
theorem endings_printed:
  fixes s :: "'a clock_scheme"
  assumes "real_ending e1" "real_ending e2" "real_ending e3" "\<forall>i. 0 < pid i"
    "sys ''date'' = status_of e1" "sys ''nosuchcommand'' = status_of e2" "sys ''who; exit 44'' = status_of e3"
  shows "wait1_main core (\<lambda>i. (pid i, pid i, sys (if i = 1 then ''date'' else if i = 2 then ''nosuchcommand'' else ''who; exit 44''))) s
      = systest1_main core sys s
    \<and> systest1_main core sys s = Inr (s\<lparr>printed := printed s @ ending_text core e1 @ ending_text core e2 @ ending_text core e3\<rparr>)
    \<and> systest3_main core sys [a, ''date''] s = Inr (s\<lparr>printed := printed s @ ending_text core e1\<rparr>)
    \<and> (sys cmd < 0 \<longrightarrow> systest3_main core sys [a, cmd] s = err_sys ''system() error'' s)"
proof -
  have p: "\<not> pid i < 0" for i using assms(4) [rule_format, of i] by simp
  have "wait_child core (pid i, pid i, status_of e) t = Inr (print (ending_text core e) t)" if "real_ending e" for i e and t :: "'a clock_scheme"
    using p [of i] that by (simp add: wait_child_def pr_exit_def exit_line_status)
  then show ?thesis using assms(1-3)
    by (simp add: assms(5-7) wait1_main_def systest1_main_def systest3_main_def test_status_ending print_def) (simp add: test_status_def)
qed

definition good_run :: "cmd_run \<Rightarrow> bool" where
  "good_run r \<longleftrightarrow> run_start r \<noteq> None \<and> run_end r \<noteq> None \<and> 0 \<le> run_status r"

definition report :: "(int \<Rightarrow> int \<Rightarrow> string) \<Rightarrow> int \<Rightarrow> string \<times> cmd_run \<Rightarrow> string" where
  "report F tck cr =
     (let (t0, b0) = the (run_start (snd cr)); (t1, b1) = the (run_end (snd cr)) in
      [NL] @ ''command: '' @ fst cr @ [NL] @ times_text F tck (t1 - t0) b0 b1)"

abbreviation exit_lines :: "bool \<Rightarrow> cmd_run list \<Rightarrow> string" where
  "exit_lines core rs \<equiv> concat (map (\<lambda>r. exit_line core (run_status r)) rs)"

lemma do_cmd_report:
  assumes "good_run r" "clktck s = 0 \<longrightarrow> 0 < run_tck r"
  shows "\<exists>s'. do_cmd F core cmd r s = Inr s' \<and> clktck s' = (if clktck s = 0 then run_tck r else clktck s)
    \<and> stderr_out s' = stderr_out s @ report F (clktck s') (cmd, r) \<and> printed s' = printed s @ exit_line core (run_status r)"
  using assms by (auto simp: good_run_def do_cmd_def pr_times_def report_def Let_def)

lemma do_cmds_report:
  "\<forall>(c, r) \<in> set rs. good_run r \<Longrightarrow> clktck s \<noteq> 0 \<Longrightarrow>
   \<exists>s'. do_cmds F core rs s = Inr s' \<and> stderr_out s' = stderr_out s @ concat (map (report F (clktck s)) rs)
     \<and> printed s' = printed s @ exit_lines core (map snd rs)"
proof (induction rs arbitrary: s)
  case (Cons cr rs)
  obtain c r where cr: "cr = (c, r)" by fastforce
  obtain t where t: "do_cmd F core c r s = Inr t" "clktck t = clktck s" "stderr_out t = stderr_out s @ report F (clktck s) (c, r)"
      "printed t = printed s @ exit_line core (run_status r)"
    using do_cmd_report [of r s F core c] Cons.prems by (auto simp: cr)
  obtain s' where "do_cmds F core rs t = Inr s'" "stderr_out s' = stderr_out t @ concat (map (report F (clktck t)) rs)"
      "printed s' = printed t @ exit_lines core (map snd rs)"
    using Cons.IH [of t] Cons.prems t(2) by auto
  then show ?case using t by (simp add: cr)
qed simp

text \<open>
  When no call fails every command gets its report, in the order of the arguments, with the differences of its own
  times; the length of a tick is asked for at the first command only.
\<close>
theorem times_report:
  assumes "\<forall>r \<in> set rs. good_run r" "rs \<noteq> []" "length argv = Suc (length rs)" "clktck s = 0" "0 < run_tck (hd rs)"
  shows "\<exists>s'. times1_main F core argv rs s = Inr s'
    \<and> stderr_out s' = stderr_out s @ concat (map (report F (run_tck (hd rs))) (zip (tl argv) rs))
    \<and> printed s' = printed s @ exit_lines core rs"
proof -
  obtain r rs' where rs: "rs = r # rs'" using assms(2) by (cases rs) auto
  obtain a c as where argv: "argv = a # c # as" "length as = length rs'"
    using assms(3) rs by (cases argv; cases "tl argv") auto
  obtain t where t: "do_cmd F core c r s = Inr t" "clktck t = run_tck r" "stderr_out t = stderr_out s @ report F (run_tck r) (c, r)"
      "printed t = printed s @ exit_line core (run_status r)"
    using do_cmd_report [of r s F core c] assms by (auto simp: rs)
  obtain s' where "do_cmds F core (zip as rs') t = Inr s'"
      "stderr_out s' = stderr_out t @ concat (map (report F (clktck t)) (zip as rs'))"
      "printed s' = printed t @ exit_lines core (map snd (zip as rs'))"
    using do_cmds_report [of "zip as rs'" t F core] assms(1,5) t(2) by (auto simp: rs dest: set_zip_rightD)
  then show ?thesis using t by (simp add: times1_main_def rs argv del: map_map)
qed

lemma nb_loop_out: "fst (nb_loop as out buf log) = out @ buf"
  by (induction as out buf log rule: nb_loop.induct) (subst nb_loop.simps, auto split: list.split nb_answer.split)

lemma flag_set_and_cleared: "(v OR f) AND NOT f = v AND NOT (f :: 32 word)"
  by (rule bit_word_eqI) (auto simp: bit_simps)

lemma clear_flag_stays:
  assumes z: "v AND f = 0"
  shows "v AND NOT f = (v :: 32 word)"
proof (rule bit_word_eqI)
  fix n :: nat
  assume n: "n < LENGTH(32)"
  have "bit (v AND f) n = False" by (simp add: z del: bit_and_iff)
  then show "bit (v AND NOT f) n = bit v n" using n by (auto simp: bit_simps)
qed

text \<open>
  Everything that was read (at most 100000 bytes) is written, in order and once, whatever part of it
  each write takes and however many fail: errors are retried at once and for ever. Only the flags of the
  output change, and they are the old ones unless it did not block before.
\<close>
theorem nonblock_writes_all:
  assumes "fl s 1 = Some v" "setfl_ok s"
  shows "\<exists>log s'. nonblockw_main nb (Some bs) as s = Inr (take 100000 bs, log, s')
    \<and> s' = s\<lparr>fl := (fl s)(1 \<mapsto> v AND NOT nb)\<rparr> \<and> (v AND nb = 0 \<longrightarrow> s' = s)"
proof -
  have "fst (nb_loop as [] (take 100000 bs) []) = take 100000 bs" by (simp add: nb_loop_out)
  then obtain log where "nb_loop as [] (take 100000 bs) [] = (take 100000 bs, log)" by (metis prod.collapse)
  moreover have "(fl s)(1 \<mapsto> v) = fl s" using assms(1) by (rule map_upd_triv)
  ultimately show ?thesis using assms
    by (auto simp: nonblockw_main_def set_fl_def clr_fl_def flag_set_and_cleared clear_flag_stays Let_def)
qed

theorem system_status_witness: "system_cmd True [Interrupted, Terminated 256] (Some ''false'') = Some 256"
  using system_status [of "[Interrupted, Terminated 256]" 1 "Terminated 256" "[]" "''false''"] by simp

theorem times_report_witness:
  "\<exists>s'. times1_main (\<lambda>a b. deci (a div b)) True [''times'', ''ls''] [\<lparr>run_start = Some (100, \<lparr>tms_utime = 0, tms_stime = 0, tms_cutime = 0, tms_cstime = 0\<rparr>),
      run_status = 0, run_end = Some (300, \<lparr>tms_utime = 0, tms_stime = 0, tms_cutime = 100, tms_cstime = 0\<rparr>), run_tck = 100\<rparr>]
    \<lparr>debug = 0, errno_text = [], stderr_out = [], syslog_out = [], heap = 0, clktck = 0, printed = []\<rparr> = Inr s' \<and> stderr_out s' \<noteq> []"
  using times_report [of "[\<lparr>run_start = Some (100, \<lparr>tms_utime = 0, tms_stime = 0, tms_cutime = 0, tms_cstime = 0\<rparr>),
      run_status = 0, run_end = Some (300, \<lparr>tms_utime = 0, tms_stime = 0, tms_cutime = 100, tms_cstime = 0\<rparr>), run_tck = 100\<rparr>]"
      "[''times'', ''ls'']" "\<lparr>debug = 0, errno_text = [], stderr_out = [], syslog_out = [], heap = 0, clktck = 0, printed = []\<rparr>" "\<lambda>a b. deci (a div b)" True]
  by (auto simp: good_run_def report_def)

theorem nonblock_writes_all_witness:
  "\<exists>log s'. nonblockw_main 4 (Some ''abc'') [Takes 1, Fails 11]
     \<lparr>debug = 0, errno_text = [], stderr_out = [], syslog_out = [], heap = 0, fl = [1 \<mapsto> 2], setfl_ok = True\<rparr> = Inr (''abc'', log, s')"
  using nonblock_writes_all [of "\<lparr>debug = 0, errno_text = [], stderr_out = [], syslog_out = [], heap = 0, fl = [1 \<mapsto> 2], setfl_ok = True\<rparr>" 2 4 "''abc''"
      "[Takes 1, Fails 11]"] by auto

theorem endings_printed_witness:
  "systest1_main True (\<lambda>c. if c = ''date'' then 256 else if c = ''nosuchcommand'' then 134 else 9)
     \<lparr>debug = 0, errno_text = [], stderr_out = [], syslog_out = [], heap = 0, clktck = 0, printed = []\<rparr>
   = Inr \<lparr>debug = 0, errno_text = [], stderr_out = [], syslog_out = [], heap = 0, clktck = 0,
       printed = ending_text True (Ended 1) @ ending_text True (Killed 6 True) @ ending_text True (Killed 9 False)\<rparr>"
  using endings_printed [of "Ended 1" "Killed 6 True" "Killed 9 False" "\<lambda>_. 5"
      "\<lambda>c. if c = ''date'' then 256 else if c = ''nosuchcommand'' then 134 else 9" True
      "\<lparr>debug = 0, errno_text = [], stderr_out = [], syslog_out = [], heap = 0, clktck = 0, printed = []\<rparr>"]
  by simp

end
