(* ===== verification/MailFile.thy ===== *)
theory MailFile
  imports ErrLog
begin

text \<open>
  printer/mail.c: what the printer sends back during a job is collected in a temporary file, which is
  mailed to the owner of the job at the end.
\<close>

record mail = proc_io +
  in_job :: bool
  loginname :: string
  hostname :: string
  done_intro :: bool
  temp_file :: string
  mailfp :: "string option" \<comment> \<open>what the open file holds\<close>
  fp_closed :: bool \<comment> \<open>the file is closed, but the pointer is still set\<close>
  mailed :: "(string \<times> string) list" \<comment> \<open>the commands, each with what its input file held\<close>

definition intro_text :: string where
  "intro_text = ''Your PostScript printer job produced the following output:'' @ [NL]"

text \<open>
  \<open>name\<close> is the result of tmpnam, \<open>ok\<close> whether fopen succeeds. The callers write to the file next, which is
  undefined when it has been closed.
\<close>

definition open_mailfp :: "string \<Rightarrow> bool \<Rightarrow> 'a mail_scheme \<Rightarrow> 'a mail_scheme res" where
  "open_mailfp name ok s =
     (if mailfp s = None then
        let s = s\<lparr>temp_file := name\<rparr> in
        if ok then Inr (s\<lparr>mailfp := Some []\<rparr>) else log_sys ''open_mailfp: fopen error'' s
      else if fp_closed s then Inl (UB ''use of a closed file'')
      else Inr s)"

definition mail_put :: "string \<Rightarrow> 'a mail_scheme \<Rightarrow> 'a mail_scheme" where
  "mail_put t s = s\<lparr>mailfp := map_option (\<lambda>f. f @ t) (mailfp s)\<rparr>"

definition mail_char :: "string \<Rightarrow> bool \<Rightarrow> char \<Rightarrow> 'a mail_scheme \<Rightarrow> 'a mail_scheme res" where
  "mail_char name ok c s =
     (if in_job s \<and> (done_intro s \<or> c \<noteq> NL) then
        bindR (open_mailfp name ok s) (\<lambda>s.
          let s = (if \<not> done_intro s then (mail_put intro_text s)\<lparr>done_intro := True\<rparr> else s) in
          Inr (mail_put [c] s))
      else Inr s)"

text \<open>The format and its one argument: %s and %% only, other conversions have no argument of their type.\<close>

fun format1 :: "string \<Rightarrow> string option \<Rightarrow> string option" where
  "format1 [] v = Some []"
| "format1 [c] v = (if c = CHR ''%'' then None else Some [c])"
| "format1 (c # d # cs) v =
     (if c \<noteq> CHR ''%'' then map_option ((#) c) (format1 (d # cs) v)
      else if d = CHR ''%'' then map_option ((#) d) (format1 cs v)
      else if d = CHR ''s'' then (case v of None \<Rightarrow> None | Some t \<Rightarrow> map_option ((@) t) (format1 cs None))
      else None)"

definition mail_line :: "string \<Rightarrow> bool \<Rightarrow> string \<Rightarrow> string \<Rightarrow> 'a mail_scheme \<Rightarrow> 'a mail_scheme res" where
  "mail_line name ok msg val s =
     (if in_job s then
        bindR (open_mailfp name ok s) (\<lambda>s.
          case format1 msg (Some val) of None \<Rightarrow> Inl (UB ''fprintf'') | Some t \<Rightarrow> Inr (mail_put t s))
      else Inr s)"

definition mail_cmd :: "'a mail_scheme \<Rightarrow> string" where
  "mail_cmd s = ''mail -s \"printer job\" '' @ loginname s @ ''@'' @ hostname s @ '' < '' @ temp_file s"

text \<open>The command is printed into an array of 1024 bytes; the pointer of the closed file stays set.\<close>

definition close_mailfp :: "bool \<Rightarrow> 'a mail_scheme \<Rightarrow> 'a mail_scheme res" where
  "close_mailfp ok s =
     (case mailfp s of
        None \<Rightarrow> Inr s
      | Some f \<Rightarrow>
          if fp_closed s then Inl (UB ''use of a closed file'')
          else if \<not> ok then log_sys ''close_mailfp: fclose error'' (s\<lparr>fp_closed := True\<rparr>)
          else if 1024 < length (mail_cmd s) + 1 then Inl (UB ''close_mailfp: command'')
          else Inr (s\<lparr>fp_closed := True, mailed := mailed s @ [(mail_cmd s, f)]\<rparr>))"

section \<open>What is mailed\<close>

fun mail_chars :: "string \<Rightarrow> string \<Rightarrow> 'a mail_scheme \<Rightarrow> 'a mail_scheme res" where
  "mail_chars name [] s = Inr s"
| "mail_chars name (c # cs) s = bindR (mail_char name True c s) (mail_chars name cs)"

text \<open>The file after some characters: it begins with the sentence, and blank lines before the first text are dropped.\<close>

definition mail_file :: "string \<Rightarrow> string option" where
  "mail_file cs = (let t = dropWhile (\<lambda>c. c = NL) cs in if t = [] then None else Some (intro_text @ t))"

lemma mail_chars_started:
  "in_job s \<Longrightarrow> done_intro s \<Longrightarrow> \<not> fp_closed s \<Longrightarrow> mailfp s = Some f \<Longrightarrow> mail_chars name cs s = Inr (s\<lparr>mailfp := Some (f @ cs)\<rparr>)"
proof (induction cs arbitrary: s f)
  case Nil
  then have "s = s\<lparr>mailfp := Some f\<rparr>" by simp
  then show ?case by simp
next
  case (Cons c cs)
  then show ?case by (simp add: mail_char_def open_mailfp_def mail_put_def)
qed

lemma mail_chars_file:
  assumes "in_job s" "\<not> done_intro s" "mailfp s = None" "\<not> fp_closed s"
  shows "\<exists>s'. mail_chars name cs s = Inr s' \<and> mailfp s' = mail_file cs \<and> loginname s' = loginname s \<and> hostname s' = hostname s
    \<and> fp_closed s' = fp_closed s \<and> mailed s' = mailed s \<and> (mailfp s' \<noteq> None \<longrightarrow> temp_file s' = name)"
  using assms
proof (induction cs arbitrary: s)
  case (Cons c cs)
  show ?case
  proof (cases "c = NL")
    case True
    then show ?thesis using Cons by (simp add: mail_char_def mail_file_def)
  next
    case False
    let ?t = "s\<lparr>temp_file := name, done_intro := True, mailfp := Some (intro_text @ [c])\<rparr>"
    have "mail_char name True c s = Inr ?t" using False Cons.prems by (simp add: mail_char_def open_mailfp_def mail_put_def Let_def)
    moreover have "mail_chars name cs ?t = Inr (?t\<lparr>mailfp := Some ((intro_text @ [c]) @ cs)\<rparr>)"
      by (rule mail_chars_started) (use Cons.prems in simp_all)
    ultimately show ?thesis using False by (simp add: mail_file_def)
  qed
qed (simp add: mail_file_def)

text \<open>
  A job whose printer sends some characters: at the end they are mailed to the owner once, after the
  sentence that introduces them and without the blank lines in front of them; nothing is mailed when nothing else came.
\<close>
theorem job_output_mailed:
  assumes "in_job s" "\<not> done_intro s" "mailfp s = None" "\<not> fp_closed s" "length (loginname s) + length (hostname s) + length name < 998"
  shows "\<exists>s'. bindR (mail_chars name cs s) (close_mailfp True) = Inr s' \<and>
    mailed s' = mailed s @ (case mail_file cs of None \<Rightarrow> []
      | Some f \<Rightarrow> [(''mail -s \"printer job\" '' @ loginname s @ ''@'' @ hostname s @ '' < '' @ name, f)])"
proof -
  obtain t where t: "mail_chars name cs s = Inr t" "mailfp t = mail_file cs" "loginname t = loginname s" "hostname t = hostname s" "fp_closed t = fp_closed s"
    "mailed t = mailed s" "mailfp t \<noteq> None \<longrightarrow> temp_file t = name"
    using mail_chars_file [OF assms(1-4)] by blast
  show ?thesis
  proof (cases "mail_file cs")
    case None
    then show ?thesis using t by (simp add: close_mailfp_def)
  next
    case (Some f)
    then have "temp_file t = name" using t(2,7) by simp
    moreover from this have "mail_cmd t = ''mail -s \"printer job\" '' @ loginname s @ ''@'' @ hostname s @ '' < '' @ name"
      using t(3,4) by (simp add: mail_cmd_def)
    ultimately show ?thesis using t Some assms(4,5) by (simp add: close_mailfp_def)
  qed
qed

text \<open>A line of the printer before any other output takes the place of the sentence's first position.\<close>

lemma mail_line_first:
  assumes "in_job s" "\<not> done_intro s" "mailfp s = None" "\<not> fp_closed s" "CHR ''%'' \<notin> set a" "c \<noteq> NL" "CHR ''%'' \<notin> set b"
  shows "\<exists>s'. bindR (mail_line name True (a @ ''%s'' @ b) v s) (mail_char name True c) = Inr s' \<and> mailfp s' = Some (a @ v @ b @ intro_text @ [c])"
proof -
  have p: "format1 x w = Some x" if "CHR ''%'' \<notin> set x" for x w
    using that by (induction x w rule: format1.induct) auto
  have "format1 (a @ ''%s'' @ b) (Some v) = Some (a @ v @ b)" using assms(5)
  proof (induction a)
    case Nil
    then show ?case using p [OF assms(7)] by simp
  next
    case (Cons x a)
    then show ?case by (cases a) auto
  qed
  then show ?thesis using assms by (simp add: mail_line_def mail_char_def open_mailfp_def mail_put_def Let_def)
qed

text \<open>The name of the owner is not limited: a long one overflows the array of the command.\<close>

lemma close_mailfp_overflow:
  "mailfp s = Some f \<Longrightarrow> \<not> fp_closed s \<Longrightarrow> 1024 \<le> length (loginname s) \<Longrightarrow> close_mailfp True s = Inl (UB ''close_mailfp: command'')"
  by (simp add: close_mailfp_def mail_cmd_def)

definition mail_ex :: mail where
  "mail_ex = \<lparr>debug = 0, errno_text = [], stderr_out = [], syslog_out = [], heap = 0, in_job = True, loginname = ''stevens'',
     hostname = ''kohala'', done_intro = False, temp_file = [], mailfp = None, fp_closed = False, mailed = []\<rparr>"

theorem job_output_mailed_witness:
  "\<exists>s'. bindR (mail_chars ''/tmp/x'' (NL # ''hello, world'') mail_ex) (close_mailfp True) = Inr s'
    \<and> map snd (mailed s') = [intro_text @ ''hello, world'']"
  using job_output_mailed [of mail_ex "''/tmp/x''" "NL # ''hello, world''"] by (auto simp: mail_ex_def mail_file_def)

end
