(* ===== verification/OpenCat.thy ===== *)
theory OpenCat
  imports OpenServ LineProgs
begin

text \<open>
  open/main.c: for each name on the standard input, the open server is asked for a descriptor, and what
  can be read from it is copied to the standard output.
\<close>

definition CAT_BUFFSIZE :: nat where "CAT_BUFFSIZE = 8192"

section \<open>Descriptors\<close>

text \<open>
  The descriptor table of the process: the numbers in use, and the number from which on the kernel gives none. A
  descriptor that comes with a message gets the lowest number that is free, also one that was used and closed before;
  what can be read from it is the file that the server has opened. When no number is left the message comes
  without it.
\<close>

record cat_client = open_client +
  open_fds :: "int list"
  fd_limit :: int

definition lowest_free :: "int list \<Rightarrow> int" where
  "lowest_free fds = int (length (takeWhile (\<lambda>i. int i \<in> set fds) [0..<Suc (length fds)]))"

lemma takeWhile_stops: "\<exists>x \<in> set xs. \<not> P x \<Longrightarrow> length (takeWhile P xs) < length xs"
  by (induction xs) auto

lemma lowest_free: "lowest_free fds \<notin> set fds" "0 \<le> lowest_free fds"
proof -
  let ?n = "length (takeWhile (\<lambda>i. int i \<in> set fds) [0..<Suc (length fds)])"
  have "\<not> int ` {0..<Suc (length fds)} \<subseteq> set fds"
  proof
    assume "int ` {0..<Suc (length fds)} \<subseteq> set fds"
    then have "card (int ` {0..<Suc (length fds)}) \<le> length fds"
      using card_mono [OF finite_set] card_length le_trans by blast
    then show False by (simp add: card_image)
  qed
  then have "\<exists>i \<in> set [0..<Suc (length fds)]. int i \<notin> set fds" by (simp only: set_upt image_subset_iff ball_simps bex_simps not_False_eq_True)
  then have "?n < length [0..<Suc (length fds)]" by (rule takeWhile_stops)
  moreover from this have "[0..<Suc (length fds)] ! ?n = ?n" by (simp del: upt_Suc)
  ultimately show "lowest_free fds \<notin> set fds"
    using nth_length_takeWhile [of "\<lambda>i. int i \<in> set fds" "[0..<Suc (length fds)]"] by (simp add: lowest_free_def del: upt_Suc)
qed (simp add: lowest_free_def)

type_synonym server_msg = "string \<times> rd_event list option"

fun deliver :: "server_msg list \<Rightarrow> 'a cat_client_scheme \<Rightarrow> recv_event list \<times> 'a cat_client_scheme" where
  "deliver [] s = ([], s)"
| "deliver ((bs, None) # ms) s = (let (es, s) = deliver ms s in (Msg bs None # es, s))"
| "deliver ((bs, Some file) # ms) s =
     (let fd = lowest_free (open_fds s) in
      if fd < fd_limit s then
        (let (es, s) = deliver ms (s\<lparr>open_fds := fd # open_fds s, rd_env := (rd_env s)(fd := file)\<rparr>) in (Msg bs (Some fd) # es, s))
      else (let (es, s) = deliver ms s in (Msg bs None # es, s)))"

definition close_fd :: "int \<Rightarrow> 'a cat_client_scheme \<Rightarrow> 'a cat_client_scheme" where
  "close_fd fd s = s\<lparr>open_fds := filter (\<lambda>d. d \<noteq> fd) (open_fds s)\<rparr>"

section \<open>The program\<close>

text \<open>The inner loop: read, write, until end of file.\<close>

lemma write_call_rd: "write_call fd bs rs s = (r, s') \<Longrightarrow> rd_env s' = rd_env s"
  by (auto simp: write_call_def split: list.splits wr_event.splits)

lemma read_call_less:
  assumes "read_call fd n s = (Some bs, s')" "bs \<noteq> []" "0 < n"
  shows "ev_size (rd_env s' fd) < ev_size (rd_env s fd)"
proof -
  have r: "read_ev n (rd_env s fd) = (Some bs, rd_env s' fd)" using assms(1) by (auto simp: read_call_def Let_def split: prod.splits)
  then have "rd_env s fd \<noteq> []" using assms(2) by auto
  then show ?thesis using read_ev_decreases [OF assms(3) r] by simp
qed

lemma cat_step:
  assumes "(Some bs, t) = read_call fd CAT_BUFFSIZE s" "bs \<noteq> []" "(int (length bs), t') = write_call 1 bs None t"
  shows "ev_size (rd_env t' fd) < ev_size (rd_env s fd)"
  using read_call_less [of fd CAT_BUFFSIZE s bs t] write_call_rd [of 1 bs None t "int (length bs)" t'] assms by (simp add: CAT_BUFFSIZE_def)

function cat_fd :: "int \<Rightarrow> 'a byte_io_scheme \<Rightarrow> 'a byte_io_scheme res" where
  "cat_fd fd s =
     (case read_call fd CAT_BUFFSIZE s of
        (None, s) \<Rightarrow> err_sys ''read error'' s
      | (Some bs, s) \<Rightarrow>
          if bs = [] then Inr s
          else let (r, s) = write_call 1 bs None s in
            if r \<noteq> int (length bs) then err_sys ''write error'' s else cat_fd fd s)"
  by pat_completeness auto
termination
proof (relation "measure (\<lambda>(fd, s). ev_size (rd_env s fd))", goal_cases)
  case 2
  then show ?case using cat_step by auto
qed simp

declare cat_fd.simps [simp del]

text \<open>
  One line of the input: its last character goes, and the server is asked; the connection is made in the first request.
  The messages that were not read, the answers of the server to the next requests and what was shown of its messages are
  threaded through. After the copying the descriptor is closed.
\<close>

definition open_line :: "int \<Rightarrow> (string \<Rightarrow> 'u \<Rightarrow> int \<times> 'u) \<Rightarrow> int \<Rightarrow> string
    \<Rightarrow> 'u \<times> recv_event list \<times> server_msg list list \<times> 'a cat_client_scheme
    \<Rightarrow> (('u \<times> recv_event list \<times> server_msg list list \<times> 'a cat_client_scheme) \<times> bool) res" where
  "open_line conn userfunc newfd line st =
     (case st of (u, es, ans, s) \<Rightarrow>
      if cstr line = [] then Inl (UB ''line[-1]'')
      else let s = (if csfd s < 0 \<and> 0 \<le> conn then s\<lparr>open_fds := conn # open_fds s\<rparr> else s);
               (new, s) = deliver (case ans of [] \<Rightarrow> [] | ms # _ \<Rightarrow> ms) s in
           bindR (csopen conn userfunc (es @ new) newfd (butlast (cstr line)) 0 u s) (\<lambda>(fd, u, es, s).
             if fd < 0 then Inr ((u, es, tl ans, s), True)
             else bindR (cat_fd fd s) (\<lambda>s. Inr ((u, es, tl ans, close_fd fd s), True))))"

definition open_main :: "int \<Rightarrow> (string \<Rightarrow> 'u \<Rightarrow> int \<times> 'u) \<Rightarrow> int \<Rightarrow> string \<Rightarrow> 'u \<Rightarrow> server_msg list list \<Rightarrow> 'a cat_client_scheme
    \<Rightarrow> ('u \<times> recv_event list \<times> server_msg list list \<times> 'a cat_client_scheme) res" where
  "open_main conn userfunc newfd input u ans s = each (open_line conn userfunc newfd) (line_reads MAXLINE input) (u, [], ans, s)"

section \<open>Copying a file\<close>

definition cat_sends :: "int \<Rightarrow> string list \<Rightarrow> 'a byte_io_scheme \<Rightarrow> 'a byte_io_scheme \<Rightarrow> bool" where
  "cat_sends fd bss s s' \<longleftrightarrow> fd_out s' = (fd_out s)(fd := fd_out s fd @ map (\<lambda>b. (b, None)) bss)"

lemma cat_fd_copies:
  assumes "rd_env s fd = map Data bss" "\<forall>b \<in> set bss. b \<noteq> [] \<and> length b \<le> CAT_BUFFSIZE" "wr_env s = []"
  shows "\<exists>s'. cat_fd fd s = Inr s' \<and> cat_sends 1 bss s s' \<and> wr_env s' = [] \<and> rd_env s' = (rd_env s)(fd := [])
    \<and> byte_io.more s' = byte_io.more s"
  using assms
proof (induction bss arbitrary: s)
  case Nil
  then have "read_call fd CAT_BUFFSIZE s = (Some [], s\<lparr>rd_env := (rd_env s)(fd := [])\<rparr>)" by (simp add: read_call_def)
  then show ?case using Nil by (subst cat_fd.simps) (simp add: cat_sends_def)
next
  case (Cons b bss)
  let ?t = "s\<lparr>rd_env := (rd_env s)(fd := map Data bss), fd_out := (fd_out s)(1 := fd_out s 1 @ [(b, None)])\<rparr>"
  have "read_call fd CAT_BUFFSIZE s = (Some b, s\<lparr>rd_env := (rd_env s)(fd := map Data bss)\<rparr>)" using Cons.prems by (simp add: read_call_def)
  moreover have "write_call 1 b None (s\<lparr>rd_env := (rd_env s)(fd := map Data bss)\<rparr>) = (int (length b), ?t)"
    using Cons.prems by (simp add: write_call_def)
  ultimately have st: "cat_fd fd s = cat_fd fd ?t" using Cons.prems by (subst cat_fd.simps) simp
  obtain s' where "cat_fd fd ?t = Inr s'" "cat_sends 1 bss ?t s'" "wr_env s' = []" "rd_env s' = (rd_env ?t)(fd := [])" "byte_io.more s' = byte_io.more ?t"
    using Cons.IH [of ?t] Cons.prems by (auto simp del: fun_upd_apply) (auto)
  then show ?case unfolding st by (auto simp: cat_sends_def)
qed

section \<open>The run of the program\<close>

text \<open>A file has a name and the pieces in which it can be read; what the server sends for it is the descriptor with its status.\<close>

type_synonym cat_file = "string \<times> string list"

definition cat_file_ok :: "cat_file \<Rightarrow> bool" where
  "cat_file_ok f \<longleftrightarrow> NUL \<notin> set (fst f) \<and> fst f \<noteq> [] \<and> (\<forall>b \<in> set (snd f). b \<noteq> [] \<and> length b \<le> CAT_BUFFSIZE)"

definition name_lines :: "cat_file list \<Rightarrow> string list" where
  "name_lines fs = map (\<lambda>f. fst f @ [NL]) fs"

definition answers :: "cat_file list \<Rightarrow> server_msg list list" where
  "answers fs = map (\<lambda>f. [([NUL, NUL], Some (map Data (snd f)))]) fs"

lemma cat_files_simps [simp]:
  "name_lines [] = []" "name_lines (f # fs) = (fst f @ [NL]) # name_lines fs" "answers [] = []"
  "answers (f # fs) = [([NUL, NUL], Some (map Data (snd f)))] # answers fs"
  by (simp_all add: name_lines_def answers_def)

text \<open>What the process holds between the requests: standard output, and the connection once it is made.\<close>

definition cat_holds :: "int \<Rightarrow> int list \<Rightarrow> 'a cat_client_scheme \<Rightarrow> bool" where
  "cat_holds conn fds s \<longleftrightarrow> wr_env s = [] \<and> 1 \<in> set fds \<and> lowest_free (conn # fds) < fd_limit s
     \<and> (csfd s = -1 \<and> open_fds s = fds \<or> csfd s = conn \<and> open_fds s = conn # fds)"

lemma csopen_ok:
  assumes "0 \<le> conn" "csfd s = -1 \<or> csfd s = conn" "wr_env s = []"
  shows "csopen conn uf (Msg [NUL, NUL] (Some fd) # es) newfd name 0 u s
    = Inr (fd, u, es, s\<lparr>csfd := conn, fd_out := (fd_out s)(conn := fd_out s conn @ [(open_msg name 0, None)])\<rparr>)"
proof -
  have "deci 0 = ''0''" by (simp add: deci_def dec.simps dig_def)
  then show ?thesis using assms by (auto simp: csopen_def write_call_def recv_scan.simps MAXLINE_def Let_def)
qed

lemma more_fields:
  "byte_io.more s = byte_io.more t \<Longrightarrow> csfd s = csfd t"
  "byte_io.more s = byte_io.more t \<Longrightarrow> open_fds s = open_fds t"
  "byte_io.more s = byte_io.more t \<Longrightarrow> fd_limit s = fd_limit t"
  by (cases s; cases t; simp)+

text \<open>One request: the descriptor that was got for the file is free again afterwards.\<close>

lemma open_line_ok:
  assumes conn: "0 \<le> conn" "conn \<noteq> 1" and s: "cat_holds conn fds s" and f: "cat_file_ok f" and fresh: "conn \<notin> set fds"
  shows "\<exists>s'. open_line conn uf newfd (fst f @ [NL]) (u, [], [([NUL, NUL], Some (map Data (snd f)))] # ans, s) = Inr ((u, [], ans, s'), True)
    \<and> cat_holds conn fds s' \<and> csfd s' = conn
    \<and> fd_out s' 1 = fd_out s 1 @ map (\<lambda>b. (b, None)) (snd f) \<and> fd_out s' conn = fd_out s conn @ [(open_msg (fst f) 0, None)]"
proof -
  define fd where "fd = lowest_free (conn # fds)"
  have fd: "0 \<le> fd" "fd \<noteq> conn" "fd \<notin> set fds" "fd < fd_limit s"
    using lowest_free [of "conn # fds"] s by (auto simp: fd_def cat_holds_def)
  have one: "fd \<noteq> 1" using fd(3) s by (auto simp: cat_holds_def)
  let ?s = "s\<lparr>open_fds := conn # fds\<rparr>"
  have s0: "(if csfd s < 0 \<and> 0 \<le> conn then s\<lparr>open_fds := conn # open_fds s\<rparr> else s) = ?s"
    using s conn(1) by (cases s) (auto simp: cat_holds_def)
  let ?r = "?s\<lparr>open_fds := fd # conn # fds, rd_env := (rd_env s)(fd := map Data (snd f))\<rparr>"
  have d: "deliver [([NUL, NUL], Some (map Data (snd f)))] ?s = ([Msg [NUL, NUL] (Some fd)], ?r)"
    using fd(4) by (simp add: Let_def flip: fd_def)
  let ?t = "?r\<lparr>csfd := conn, fd_out := (fd_out s)(conn := fd_out s conn @ [(open_msg (fst f) 0, None)])\<rparr>"
  have o: "csopen conn uf [Msg [NUL, NUL] (Some fd)] newfd (fst f) 0 u ?r = Inr (fd, u, [], ?t)"
    using csopen_ok [OF conn(1), of ?r uf fd "[]" newfd "fst f" u] s by (auto simp: cat_holds_def)
  obtain s' where s': "cat_fd fd ?t = Inr s'" "cat_sends 1 (snd f) ?t s'" "wr_env s' = []" "byte_io.more s' = byte_io.more ?t"
    using cat_fd_copies [of ?t fd "snd f"] f s by (auto simp: cat_file_ok_def cat_holds_def)
  have m: "csfd s' = conn" "open_fds s' = fd # conn # fds" "fd_limit s' = fd_limit s"
    using more_fields [OF s'(4)] by simp_all
  have "filter (\<lambda>d. d \<noteq> fd) (fd # conn # fds) = conn # fds"
    using fd(2,3) by (auto simp: filter_id_conv)
  then have "open_fds (close_fd fd s') = conn # fds" using m(2) by (simp add: close_fd_def)
  moreover have "csfd (close_fd fd s') = conn" "wr_env (close_fd fd s') = []" "fd_limit (close_fd fd s') = fd_limit s"
    "fd_out (close_fd fd s') = fd_out s'" using m s'(3) by (simp_all add: close_fd_def)
  ultimately have "cat_holds conn fds (close_fd fd s')" "csfd (close_fd fd s') = conn" "fd_out (close_fd fd s') = fd_out s'"
    using s by (simp_all add: cat_holds_def)
  moreover have "cstr (fst f @ [NL]) = fst f @ [NL]" using f by (intro cstr_id) (simp add: cat_file_ok_def)
  then have "open_line conn uf newfd (fst f @ [NL]) (u, [], [([NUL, NUL], Some (map Data (snd f)))] # ans, s)
      = Inr ((u, [], ans, close_fd fd s'), True)"
    using s0 d o s'(1) fd(1) by (simp add: open_line_def del: deliver.simps)
  ultimately show ?thesis using s'(2) conn(2) by (intro exI [of _ "close_fd fd s'"]) (simp add: cat_sends_def)
qed

lemma cat_files_run:
  assumes conn: "0 \<le> conn" "conn \<noteq> 1" and fresh: "conn \<notin> set fds"
  shows "cat_holds conn fds s \<Longrightarrow> \<forall>f \<in> set fs. cat_file_ok f \<Longrightarrow>
    \<exists>s'. each (open_line conn uf newfd) (name_lines fs) (u, [], answers fs, s) = Inr (u, [], [], s')
    \<and> concat (map fst (fd_out s' 1)) = concat (map fst (fd_out s 1)) @ concat (map (\<lambda>f. concat (snd f)) fs)
    \<and> map fst (fd_out s' conn) = map fst (fd_out s conn) @ map (\<lambda>f. open_msg (fst f) 0) fs
    \<and> cat_holds conn fds s' \<and> (fs \<noteq> [] \<longrightarrow> csfd s' = conn) \<and> (csfd s = conn \<longrightarrow> csfd s' = conn)"
proof (induction fs arbitrary: s)
  case (Cons f fs)
  have "cat_file_ok f" using Cons.prems(2) by simp
  from open_line_ok [OF conn Cons.prems(1) this fresh, of uf newfd u "answers fs"]
  obtain t where t: "open_line conn uf newfd (fst f @ [NL]) (u, [], answers (f # fs), s) = Inr ((u, [], answers fs, t), True)"
    "cat_holds conn fds t" "csfd t = conn"
    "fd_out t 1 = fd_out s 1 @ map (\<lambda>b. (b, None)) (snd f)" "fd_out t conn = fd_out s conn @ [(open_msg (fst f) 0, None)]"
    by auto
  obtain s' where s': "each (open_line conn uf newfd) (name_lines fs) (u, [], answers fs, t) = Inr (u, [], [], s')"
    "concat (map fst (fd_out s' 1)) = concat (map fst (fd_out t 1)) @ concat (map (\<lambda>f. concat (snd f)) fs)"
    "map fst (fd_out s' conn) = map fst (fd_out t conn) @ map (\<lambda>f. open_msg (fst f) 0) fs"
    "cat_holds conn fds s'" "csfd s' = conn"
    using Cons.IH [OF t(2)] Cons.prems(2) t(3) by auto
  have "map (fst \<circ> (\<lambda>b. (b, None :: int option))) bss = bss" for bss :: "string list" by (simp add: comp_def)
  then show ?case using s' t(1,4,5) by (intro exI [of _ s']) simp
qed simp

text \<open>
  C31: With a server that answers each request with a descriptor, the program asks for the names of its
  input in their order, on one connection, and its output is the files one after the other, however many there
  are: the kernel gives the lowest free descriptor, and one free number beside the connection is enough,
  because the descriptor of each file is closed before the next request. At the end the process holds what it
  held before and the connection.
\<close>
theorem open_cats_files:
  assumes "0 \<le> conn" "conn \<notin> set (open_fds s)" "1 \<in> set (open_fds s)" "lowest_free (conn # open_fds s) < fd_limit s"
    and "csfd s = -1" "wr_env s = []" "\<forall>f \<in> set fs. cat_file_ok f \<and> NL \<notin> set (fst f) \<and> length (fst f) + 1 < MAXLINE"
  shows "\<exists>s'. open_main conn uf newfd (concat (name_lines fs)) u (answers fs) s = Inr (u, [], [], s')
    \<and> concat (map fst (fd_out s' 1)) = concat (map fst (fd_out s 1)) @ concat (map (\<lambda>f. concat (snd f)) fs)
    \<and> map fst (fd_out s' conn) = map fst (fd_out s conn) @ map (\<lambda>f. open_msg (fst f) 0) fs
    \<and> (fs \<noteq> [] \<longrightarrow> csfd s' = conn \<and> open_fds s' = conn # open_fds s)"
proof -
  have n: "name_lines fs = map (\<lambda>c. c @ [NL]) (map fst fs)" by (simp add: name_lines_def)
  have l: "line_reads MAXLINE (concat (name_lines fs)) = name_lines fs"
    using line_reads_lines [of "map fst fs" MAXLINE "[]"] line_reads.simps [of MAXLINE "[]"] assms(7) unfolding n by simp
  have "conn \<noteq> 1" using assms(2,3) by auto
  moreover have "cat_holds conn (open_fds s) s" using assms(3-6) by (simp add: cat_holds_def)
  ultimately show ?thesis
    using cat_files_run [OF assms(1) _ assms(2), of s fs uf newfd u] assms(1,7) by (auto simp: open_main_def l cat_holds_def)
qed

text \<open>The last descriptor that the process may have is number 4: both files come with it.\<close>

definition cat_ex :: cat_client where
  "cat_ex = \<lparr>debug = 0, errno_text = [], stderr_out = [], syslog_out = [], heap = 0,
     rd_env = (\<lambda>_. []), wr_env = [], fd_out = (\<lambda>_. []), csfd = -1, open_fds = [0, 1, 2], fd_limit = 5\<rparr>"

theorem open_cats_files_witness:
  "\<exists>s'. open_main 3 (\<lambda>b u. (int (length b), u @ b)) (-1) (''f'' @ [NL] @ ''g'' @ [NL]) []
      [[([NUL, NUL], Some [Data ''some '', Data ''text''])], [([NUL, NUL], Some [Data ''; more''])]] cat_ex = Inr ([], [], [], s')
    \<and> concat (map fst (fd_out s' 1)) = ''some text; more'' \<and> open_fds s' = [3, 0, 1, 2]"
proof -
  have "lowest_free (3 # open_fds cat_ex) < fd_limit cat_ex" by (simp add: lowest_free_def cat_ex_def upt_rec)
  with open_cats_files [of 3 cat_ex "[(''f'', [''some '', ''text'']), (''g'', [''; more''])]" "\<lambda>b u. (int (length b), u @ b)" "-1" "[]"]
  show ?thesis by (auto simp: cat_ex_def cat_file_ok_def CAT_BUFFSIZE_def MAXLINE_def)
qed

end
