(* ===== verification/RecordLocks.thy ===== *)
theory RecordLocks
  imports TellWait
begin

text \<open>
  Two programs about locks on the bytes of a file, in lock/ourhdr.h: deadlock.c, in which parent and child
  each lock a byte and then want the other's, and daemon.c, which runs at most once because it holds a
  lock on the file with its number. The locks are those of the kernel: owned by a process, and
  given back when it ends. The lines that deadlock.c prints are left out.
\<close>

section \<open>deadlock.c\<close>

datatype dl_pc = AtLock nat | Asleep nat | AtTell | AtWait | AtExit | Done | Died

record dl = tw_pipes +
  owner :: "bool option list" \<comment> \<open>of the bytes 0 and 1; True is the parent\<close>
  p_at :: dl_pc
  c_at :: dl_pc

definition dl_at :: "bool \<Rightarrow> dl \<Rightarrow> dl_pc" where "dl_at who s = (if who then p_at s else c_at s)"

definition goto_at :: "bool \<Rightarrow> dl_pc \<Rightarrow> dl \<Rightarrow> dl" where
  "goto_at who pc s = (if who then s\<lparr>p_at := pc\<rparr> else s\<lparr>c_at := pc\<rparr>)"

text \<open>The byte that a process locks first.\<close>

definition first_byte :: "bool \<Rightarrow> nat" where "first_byte who = (if who then 1 else 0)"

definition drop_locks :: "bool \<Rightarrow> dl \<Rightarrow> dl" where
  "drop_locks who s = s\<lparr>owner := map (\<lambda>p. if p = Some who then None else p) (owner s)\<rparr>"

text \<open>
  The lock is given when no other process has it. Otherwise the process sleeps, unless the kernel looks
  for deadlocks (\<open>detect\<close>) and finds that the owner sleeps for a byte of this process: then the
  call fails and the process ends in err_sys.
\<close>

definition lockabyte :: "bool \<Rightarrow> bool \<Rightarrow> nat \<Rightarrow> dl \<Rightarrow> dl" where
  "lockabyte detect who offset s =
     (if owner s ! offset \<in> {None, Some who} then
        goto_at who (if offset = first_byte who then AtTell else AtExit) (s\<lparr>owner := (owner s)[offset := Some who]\<rparr>)
      else if detect \<and> (case dl_at (\<not> who) s of Asleep b \<Rightarrow> owner s ! b = Some who | _ \<Rightarrow> False) then goto_at who Died (drop_locks who s)
      else goto_at who (Asleep offset) s)"

fun dl_do :: "bool \<Rightarrow> bool \<Rightarrow> dl \<Rightarrow> dl outcome" where
  "dl_do detect who s =
     (case dl_at who s of
        AtLock offset \<Rightarrow> Goes (lockabyte detect who offset s)
      | Asleep offset \<Rightarrow> if owner s ! offset \<in> {None, Some who} then Goes (lockabyte detect who offset s) else Waits
      | AtTell \<Rightarrow> Goes (goto_at who AtWait (if who then TELL_CHILD s else TELL_PARENT s))
      | AtWait \<Rightarrow> (if who then WAIT_CHILD else WAIT_PARENT)
            (\<lambda>ok. goto_at who (if ok then AtLock (first_byte (\<not> who)) else Died)) s
      | AtExit \<Rightarrow> Goes (goto_at who Done (drop_locks who s))
      | _ \<Rightarrow> Waits)"

definition dl_init :: dl where
  "dl_init = TELL_WAIT \<lparr>pfd1 = [], pfd2 = [], owner = [None, None], p_at = AtLock (first_byte True), c_at = AtLock (first_byte False)\<rparr>"

declare dl_do.simps [simp del]

inductive dl_step :: "bool \<Rightarrow> dl \<Rightarrow> dl \<Rightarrow> bool" for detect :: bool where
  "dl_do detect who s = Goes s' \<Longrightarrow> dl_step detect s s'"

inductive_cases dl_stepE: "dl_step detect s s'"

lemma both: "b \<in> set [True, False]"
  by (cases b) simp_all

abbreviation dl_succs :: "bool \<Rightarrow> dl \<Rightarrow> dl list" where
  "dl_succs detect \<equiv> event_succs (dl_do detect) [True, False]"

text \<open>The two systems have few states, which are all found from the first one.\<close>

lemma dl_step_iff: "dl_step detect s s' \<longleftrightarrow> (\<exists>who. dl_do detect who s = Goes s')"
  by (auto intro: dl_step.intros elim: dl_stepE)

lemma dl_found: "closed_states (dl_succs True) dl_init (explore 200 (dl_succs True) [dl_init] [])"
  by code_simp

lemma dl_found_blind: "closed_states (dl_succs False) dl_init (explore 200 (dl_succs False) [dl_init] [])"
  by code_simp

text \<open>The steps that a process can still make.\<close>

definition dl_pc_rank :: "bool \<Rightarrow> dl_pc \<Rightarrow> nat" where
  "dl_pc_rank who pc =
     (case pc of AtLock b \<Rightarrow> if b = first_byte who then 8 else 4 | Asleep b \<Rightarrow> if b = first_byte who then 7 else 3
      | AtTell \<Rightarrow> 6 | AtWait \<Rightarrow> 5 | AtExit \<Rightarrow> 1 | _ \<Rightarrow> 0)"

definition dl_rank :: "dl \<Rightarrow> nat" where
  "dl_rank s = dl_pc_rank True (p_at s) + dl_pc_rank False (c_at s)"

lemma dl_ranked:
  "list_all (\<lambda>s. list_all (\<lambda>t. dl_rank t < dl_rank s) (dl_succs True s)) (explore 200 (dl_succs True) [dl_init] [])"
  by code_simp

lemma dl_ranked_blind:
  "list_all (\<lambda>s. list_all (\<lambda>t. dl_rank t < dl_rank s) (dl_succs False s)) (explore 200 (dl_succs False) [dl_init] [])"
  by code_simp

interpretation dl: explored_ranked dl_init "dl_step True" "dl_do True" "[True, False]" 200 dl_rank
  by unfold_locales (rule dl_step_iff both dl_found dl_ranked)+

interpretation dlb: explored_ranked dl_init "dl_step False" "dl_do False" "[True, False]" 200 dl_rank
  by unfold_locales (rule dl_step_iff both dl_found_blind dl_ranked_blind)+

definition dl_good :: "dl \<Rightarrow> bool" where
  "dl_good s \<longleftrightarrow> (dl_succs True s = [] \<longrightarrow> (dl_at True s, dl_at False s) \<in> set [(Done, Died), (Died, Done)] \<and> owner s = [None, None])"

definition dl_stuck :: "dl \<Rightarrow> bool" where
  "dl_stuck s \<longleftrightarrow> (dl_succs False s = [] \<longrightarrow> dl_at True s = Asleep 0 \<and> dl_at False s = Asleep 1)"

lemma dl_all_good: "list_all dl_good (explore 200 (dl_succs True) [dl_init] [])"
  by code_simp

lemma dl_all_stuck: "list_all dl_stuck (explore 200 (dl_succs False) [dl_init] [])"
  by code_simp

lemma dl_rank_init: "dl_rank dl_init = 16"
  by code_simp

text \<open>
  C18: Each process gets its first byte and wants the other's. Every run comes to a stop within 16 steps. When the kernel looks
  for deadlocks exactly one of the processes has failed then, and the other has got its second byte and ended with
  all locks given back; when it does not, both sleep, each for the byte of the other.
\<close>
theorem deadlock_one_fails:
  assumes "reach (dl_step detect) dl_init s"
  shows "((dl_step detect ^^ k) dl_init s \<longrightarrow> k \<le> 16)
    \<and> (\<exists>k t. (dl_step detect ^^ k) s t \<and> (\<nexists>u. dl_step detect t u)
         \<and> (if detect then {dl_at True t, dl_at False t} = {Done, Died} \<and> owner t = [None, None]
            else dl_at True t = Asleep 0 \<and> dl_at False t = Asleep 1))"
proof (cases detect)
  case True
  then have "reach (dl_step True) dl_init s" using assms by simp
  then obtain j t where t: "(dl_step True ^^ j) s t" "reach (dl_step True) dl_init t" "\<nexists>u. dl_step True t u"
    using dl.comes_to_end by blast
  have "dl_good t" by (rule dl.holds_everywhere [OF dl_all_good t(2)])
  then have e: "{dl_at True t, dl_at False t} = {Done, Died} \<and> owner t = [None, None]"
    using t(3) by (auto simp: dl_good_def dl.stuck_iff)
  have "(dl_step True ^^ k) dl_init s \<longrightarrow> k \<le> 16" using dl.run_bound [OF _ dl.found_init, of k s] by (auto simp: dl_rank_init)
  moreover have "detect = True" using True by simp
  ultimately show ?thesis using t(1,3) e by (simp only: if_True) blast
next
  case False
  then have "reach (dl_step False) dl_init s" using assms by simp
  then obtain j t where t: "(dl_step False ^^ j) s t" "reach (dl_step False) dl_init t" "\<nexists>u. dl_step False t u"
    using dlb.comes_to_end by blast
  have "dl_stuck t" by (rule dlb.holds_everywhere [OF dl_all_stuck t(2)])
  then have e: "dl_at True t = Asleep 0 \<and> dl_at False t = Asleep 1" using t(3) by (auto simp: dl_stuck_def dlb.stuck_iff)
  have "(dl_step False ^^ k) dl_init s \<longrightarrow> k \<le> 16" using dlb.run_bound [OF _ dlb.found_init, of k s] by (auto simp: dl_rank_init)
  moreover have "detect = False" using False by simp
  ultimately show ?thesis using t(1,3) e by (simp only: if_False) blast
qed

theorem deadlock_one_fails_witness:
  "\<exists>k t. (dl_step True ^^ k) dl_init t \<and> owner t = [None, None] \<and> {dl_at True t, dl_at False t} = {Done, Died}"
  using deadlock_one_fails [OF reach.start [of "dl_step True" dl_init]] unfolding if_True by blast

section \<open>daemon.c\<close>

text \<open>
  Any number of processes start the program. A process that holds the lock can be killed at any
  time; its lock is then free. \<open>lock_error\<close> is a failure of write_lock for another reason.
\<close>

datatype dm_pc = NotStarted | Opened | Locked | Truncated | Wrote | Running | Gone int

record dm =
  dm_at :: "nat \<Rightarrow> dm_pc"
  dm_owner :: "nat option"
  pidfile :: string

datatype dm_event = Next | LockError | Kill

definition dm_goto :: "nat \<Rightarrow> dm_pc \<Rightarrow> dm \<Rightarrow> dm" where
  "dm_goto p pc s = s\<lparr>dm_at := (dm_at s)(p := pc)\<rparr>"

definition dm_end :: "nat \<Rightarrow> int \<Rightarrow> dm \<Rightarrow> dm" where
  "dm_end p status s = dm_goto p (Gone status) (s\<lparr>dm_owner := (if dm_owner s = Some p then None else dm_owner s)\<rparr>)"

text \<open>The number is printed into ten bytes; it replaces the first bytes of the file.\<close>

definition write_pid :: "nat \<Rightarrow> dm \<Rightarrow> dm outcome" where
  "write_pid p s =
     (let buf = dec p @ [NL] in
      if 10 < length buf + 1 then Undef ''sprintf into buf''
      else Goes (dm_goto p Wrote (s\<lparr>pidfile := buf @ drop (length buf) (pidfile s)\<rparr>)))"

fun daemon_do :: "nat \<times> dm_event \<Rightarrow> dm \<Rightarrow> dm outcome" where
  "daemon_do (p, Kill) s = (case dm_at s p of NotStarted \<Rightarrow> Waits | Gone st \<Rightarrow> Waits | _ \<Rightarrow> Goes (dm_end p 137 s))"
| "daemon_do (p, LockError) s = (case dm_at s p of Opened \<Rightarrow> Goes (dm_end p 1 s) | _ \<Rightarrow> Waits)"
| "daemon_do (p, Next) s =
     (case dm_at s p of
        NotStarted \<Rightarrow> Goes (dm_goto p Opened s)
      | Opened \<Rightarrow> Goes (if dm_owner s \<noteq> None then dm_end p 0 s else dm_goto p Locked (s\<lparr>dm_owner := Some p\<rparr>))
      | Locked \<Rightarrow> Goes (dm_goto p Truncated (s\<lparr>pidfile := []\<rparr>))
      | Truncated \<Rightarrow> write_pid p s
      | Wrote \<Rightarrow> Goes (dm_goto p Running s)
      | Running \<Rightarrow> Goes (dm_end p 0 s)
      | Gone st \<Rightarrow> Waits)"

definition dm_init :: "string \<Rightarrow> dm" where
  "dm_init old = \<lparr>dm_at = (\<lambda>_. NotStarted), dm_owner = None, pidfile = old\<rparr>"

inductive dm_step :: "dm \<Rightarrow> dm \<Rightarrow> bool" where
  "daemon_do pe s = Goes s' \<Longrightarrow> dm_step s s'"

inductive_cases dm_stepE: "dm_step s s'"

definition holding :: "dm_pc \<Rightarrow> bool" where
  "holding pc \<longleftrightarrow> pc \<in> {Locked, Truncated, Wrote, Running}"

definition dm_inv :: "dm \<Rightarrow> bool" where
  "dm_inv s \<longleftrightarrow> (\<forall>p. holding (dm_at s p) \<longleftrightarrow> dm_owner s = Some p)
     \<and> (\<forall>p. dm_at s p = Truncated \<longrightarrow> pidfile s = []) \<and> (\<forall>p. dm_at s p \<in> {Wrote, Running} \<longrightarrow> pidfile s = dec p @ [NL])"

lemma dm_end_inv: "dm_inv s \<Longrightarrow> dm_inv (dm_end p st s)"
  by (auto simp: dm_inv_def dm_end_def dm_goto_def holding_def)

lemma dm_goto_inv:
  assumes "dm_inv s" "\<not> holding (dm_at s p)" "\<not> holding pc"
  shows "dm_inv (dm_goto p pc s)"
  using assms by (auto simp: dm_inv_def dm_goto_def holding_def)

lemma dm_take_inv: "dm_inv s \<Longrightarrow> dm_owner s = None \<Longrightarrow> dm_inv (dm_goto p Locked (s\<lparr>dm_owner := Some p\<rparr>))"
  by (auto simp: dm_inv_def dm_goto_def holding_def)

text \<open>The owner goes on and may change the file.\<close>

lemma dm_owner_inv:
  assumes "dm_inv s" "holding (dm_at s p)" "holding pc" "pc = Truncated \<longrightarrow> f = []" "pc \<in> {Wrote, Running} \<longrightarrow> f = dec p @ [NL]"
  shows "dm_inv (dm_goto p pc (s\<lparr>pidfile := f\<rparr>))"
proof -
  have o: "dm_owner s = Some p" and others: "\<And>q. q \<noteq> p \<Longrightarrow> \<not> holding (dm_at s q)" using assms(1,2) by (auto simp: dm_inv_def)
  have "dm_at s q \<notin> {Truncated, Wrote, Running}" if "q \<noteq> p" for q using others [OF that] by (auto simp: holding_def)
  then show ?thesis using assms o by (auto simp: dm_inv_def dm_goto_def)
qed

lemma dm_next_inv:
  assumes "daemon_do (p, Next) s = Goes s'" "dm_inv s"
  shows "dm_inv s'"
proof (cases "dm_at s p")
  case NotStarted
  then show ?thesis using assms dm_goto_inv [of s p Opened] by (auto simp: holding_def)
next
  case Opened
  then show ?thesis using assms dm_end_inv [of s p 0] dm_take_inv [of s p] by (auto split: if_splits)
next
  case Locked
  then show ?thesis using assms dm_owner_inv [of s p Truncated "[]"] by (auto simp: holding_def)
next
  case Truncated
  then have "pidfile s = []" using assms(2) by (auto simp: dm_inv_def)
  then show ?thesis using Truncated assms dm_owner_inv [of s p Wrote "dec p @ [NL]"]
    by (auto simp: holding_def write_pid_def Let_def split: if_splits)
next
  case Wrote
  then have "pidfile s = dec p @ [NL]" using assms(2) by (auto simp: dm_inv_def)
  then have "dm_inv (dm_goto p Running (s\<lparr>pidfile := pidfile s\<rparr>))"
    using Wrote by (intro dm_owner_inv [OF assms(2)]) (simp_all add: holding_def)
  then show ?thesis using Wrote assms(1) by simp
next
  case Running
  then show ?thesis using assms dm_end_inv [of s p 0] by auto
qed (use assms in simp)

lemma dm_inv_step: "dm_step s s' \<Longrightarrow> dm_inv s \<Longrightarrow> dm_inv s'"
proof (elim dm_stepE)
  fix pe
  assume a: "daemon_do pe s = Goes s'" "dm_inv s"
  obtain p e where pe: "pe = (p, e)" by (cases pe)
  show "dm_inv s'"
  proof (cases e)
    case Next
    then show ?thesis using a dm_next_inv [of p s s'] by (simp add: pe)
  qed (use a dm_end_inv in \<open>auto simp: pe split: dm_pc.splits\<close>)
qed

lemma dm_inv_init: "dm_inv (dm_init old)"
  by (simp add: dm_inv_def dm_init_def holding_def)

interpretation dm: event_system "dm_init old" dm_step dm_inv daemon_do for old
  by unfold_locales (auto intro: dm_inv_init dm_inv_step dm_step.intros)

text \<open>
  C17: At every moment at most one process is past the lock, and when it runs the file holds its number and nothing else;
  a process that finds another there ends with the status 0.
\<close>
theorem one_daemon:
  assumes "reach dm_step (dm_init old) s" "holding (dm_at s p)"
  shows "(\<forall>q. holding (dm_at s q) \<longrightarrow> q = p) \<and> (dm_at s p = Running \<longrightarrow> pidfile s = dec p @ [NL])
    \<and> (dm_at s q = Opened \<longrightarrow> (\<exists>s'. daemon_do (q, Next) s = Goes s' \<and> dm_at s' q = Gone 0 \<and> pidfile s' = pidfile s))"
  using dm.reach_inv [OF assms(1)] assms(2) by (auto simp: dm_inv_def dm_end_def dm_goto_def)

text \<open>A process number of nine digits does not fit into the array.\<close>

lemma daemon_long_pid: "dm_at s 123456789 = Truncated \<Longrightarrow> daemon_do (123456789, Next) s = Undef ''sprintf into buf''"
  by (simp add: write_pid_def Let_def dec.simps)

theorem one_daemon_witness:
  "\<exists>s. reach dm_step (dm_init ''99'') s \<and> dm_at s 7 = Running \<and> dm_at s 8 = Opened \<and> pidfile s = ''7'' @ [NL]"
proof -
  have "case run_events daemon_do [(8, Next), (7, Next), (7, Next), (7, Next), (7, Next), (7, Next)] (dm_init ''99'') of None \<Rightarrow> False
    | Some s \<Rightarrow> dm_at s 7 = Running \<and> dm_at s 8 = Opened"
    by (simp add: dm_init_def dm_goto_def write_pid_def dec.simps Let_def)
  from dm.run_holds [OF this] obtain s where s: "reach dm_step (dm_init ''99'') s" "dm_at s 7 = Running" "dm_at s 8 = Opened" by blast
  have "holding (dm_at s 7)" by (simp add: s(2) holding_def)
  from one_daemon [OF s(1) this, of 8] s(2) have "pidfile s = dec 7 @ [NL]" by blast
  moreover have "dec 7 = ''7''" by (subst dec.simps) (simp add: dig_def)
  ultimately have "pidfile s = ''7'' @ [NL]" by (simp only:)
  with s show ?thesis by blast
qed

end
