(* ===== verification/Signals.thy ===== *)
theory Signals
  imports Commands
begin

text \<open>
  Routines about signals: lib.sun/signal.c and signalintr.c, the alarm of the printer daemon
  (printer/alarm.c), and the two whole files in signals/ourhdr.h: abort.c, which ends a process whatever it does
  with the signal, and child.c, whose handler does not return on System V.
\<close>

section \<open>signal.c and signalintr.c\<close>

datatype 'h action = SIG_DFL | SIG_IGN | Catch 'h

record 'h sigaction =
  sa_handler :: "'h action"
  sa_interrupt :: bool
  sa_restart :: bool

text \<open>The flags that the headers of a system define, and whether an interrupted call starts again without a flag.\<close>

record sig_system =
  has_SA_INTERRUPT :: bool
  has_SA_RESTART :: bool
  restarts_anyway :: bool

definition SIGALRM :: nat where "SIGALRM = 14"

text \<open>The kernel refuses some numbers (\<open>valid\<close>); the routine returns the old action, or None for SIG_ERR.\<close>

definition sigaction_call :: "(nat \<Rightarrow> bool) \<Rightarrow> nat \<Rightarrow> 'h sigaction \<Rightarrow> (nat \<Rightarrow> 'h sigaction) \<Rightarrow> 'h action option \<times> (nat \<Rightarrow> 'h sigaction)" where
  "sigaction_call valid signo act t = (if valid signo then (Some (sa_handler (t signo)), t(signo := act)) else (None, t))"

definition c_signal :: "sig_system \<Rightarrow> (nat \<Rightarrow> bool) \<Rightarrow> nat \<Rightarrow> 'h action \<Rightarrow> (nat \<Rightarrow> 'h sigaction) \<Rightarrow> 'h action option \<times> (nat \<Rightarrow> 'h sigaction)" where
  "c_signal sys valid signo func t =
     sigaction_call valid signo
       (if signo = SIGALRM then \<lparr>sa_handler = func, sa_interrupt = has_SA_INTERRUPT sys, sa_restart = False\<rparr>
        else \<lparr>sa_handler = func, sa_interrupt = False, sa_restart = has_SA_RESTART sys\<rparr>) t"

definition signal_intr :: "sig_system \<Rightarrow> (nat \<Rightarrow> bool) \<Rightarrow> nat \<Rightarrow> 'h action \<Rightarrow> (nat \<Rightarrow> 'h sigaction) \<Rightarrow> 'h action option \<times> (nat \<Rightarrow> 'h sigaction)" where
  "signal_intr sys valid signo func t =
     sigaction_call valid signo \<lparr>sa_handler = func, sa_interrupt = has_SA_INTERRUPT sys, sa_restart = False\<rparr> t"

text \<open>Whether a slow call that the signal interrupted is started again by the kernel.\<close>

definition restarts :: "sig_system \<Rightarrow> 'h sigaction \<Rightarrow> bool" where
  "restarts sys a \<longleftrightarrow> (if restarts_anyway sys then \<not> sa_interrupt a else sa_restart a)"

text \<open>SunOS restarts unless told not to, SVR4 and 4.4BSD only when told to.\<close>

definition SunOS :: sig_system where "SunOS = \<lparr>has_SA_INTERRUPT = True, has_SA_RESTART = False, restarts_anyway = True\<rparr>"

definition SVR4 :: sig_system where "SVR4 = \<lparr>has_SA_INTERRUPT = False, has_SA_RESTART = True, restarts_anyway = False\<rparr>"

section \<open>printer/alarm.c\<close>

text \<open>The flag, the actions of the signals (the only handler sets the flag) and the seconds of the timer; 0: it is off.\<close>

record alarms = proc_io +
  alrm_flag :: bool
  actions :: "nat \<Rightarrow> unit sigaction"
  timer :: nat

definition sig_alrm :: "'a alarms_scheme \<Rightarrow> 'a alarms_scheme" where
  "sig_alrm s = s\<lparr>alrm_flag := True\<rparr>"

definition EXIT_REPRINT :: int where "EXIT_REPRINT = 1"

definition handle_alrm :: "'a alarms_scheme \<Rightarrow> 'a alarms_scheme res" where
  "handle_alrm s = bindR (log_ret ''printer not responding'' s) (\<lambda>s. Inl (Exit EXIT_REPRINT []))"

definition set_alrm :: "sig_system \<Rightarrow> (nat \<Rightarrow> bool) \<Rightarrow> nat \<Rightarrow> 'a alarms_scheme \<Rightarrow> 'a alarms_scheme res" where
  "set_alrm sys valid nsec s =
     (let s = s\<lparr>alrm_flag := False\<rparr> in
      case signal_intr sys valid SIGALRM (Catch ()) (actions s) of
        (None, t) \<Rightarrow> log_sys ''set_alrm: signal_intr error'' s
      | (Some old, t) \<Rightarrow> Inr (s\<lparr>actions := t, timer := nsec\<rparr>))"

definition clear_alrm :: "sig_system \<Rightarrow> (nat \<Rightarrow> bool) \<Rightarrow> 'a alarms_scheme \<Rightarrow> 'a alarms_scheme res" where
  "clear_alrm sys valid s =
     (let s = s\<lparr>timer := 0\<rparr> in
      case c_signal sys valid SIGALRM SIG_IGN (actions s) of
        (None, t) \<Rightarrow> log_sys ''clear_alrm: signal error'' s
      | (Some old, t) \<Rightarrow> Inr (s\<lparr>actions := t, alrm_flag := False\<rparr>))"

text \<open>A second passes: the kernel counts down and sends the signal at the end.\<close>

definition second :: "'a alarms_scheme \<Rightarrow> 'a alarms_scheme res" where
  "second s =
     (if timer s \<noteq> 1 then Inr (s\<lparr>timer := timer s - 1\<rparr>)
      else case sa_handler (actions s SIGALRM) of
        SIG_DFL \<Rightarrow> Inl (Abort ''killed by SIGALRM'')
      | SIG_IGN \<Rightarrow> Inr (s\<lparr>timer := 0\<rparr>)
      | Catch _ \<Rightarrow> Inr (sig_alrm (s\<lparr>timer := 0\<rparr>)))"

fun seconds :: "nat \<Rightarrow> 'a alarms_scheme \<Rightarrow> 'a alarms_scheme res" where
  "seconds 0 s = Inr s"
| "seconds (Suc n) s = bindR (second s) (seconds n)"

section \<open>abort.c\<close>

text \<open>A process with the text that its streams still hold and the text that they have written.\<close>

record 'h sig_proc =
  act :: "nat \<Rightarrow> 'h action"
  blocked :: "nat \<Rightarrow> bool"
  unflushed :: string
  flushed :: string

text \<open>How a handler or a call ends: it returns, the process is killed, it leaves with longjmp, or it exits.\<close>

datatype 's sig_end = Continues 's | KilledBy nat 's | Leaves 's | Exits int 's

definition SIGABRT :: nat where "SIGABRT = 6"

definition fflush_all :: "'h sig_proc \<Rightarrow> 'h sig_proc" where
  "fflush_all s = s\<lparr>flushed := flushed s @ unflushed s, unflushed := []\<rparr>"

text \<open>
  The signal arrives before kill returns unless it is blocked. It is blocked while its handler runs; then the mask
  is what it was.
\<close>

definition kill_self :: "('h \<Rightarrow> 'h sig_proc \<Rightarrow> 'h sig_proc sig_end) \<Rightarrow> nat \<Rightarrow> 'h sig_proc \<Rightarrow> 'h sig_proc sig_end" where
  "kill_self handler signo s =
     (if blocked s signo then Continues s
      else case act s signo of
        SIG_IGN \<Rightarrow> Continues s
      | SIG_DFL \<Rightarrow> KilledBy signo s
      | Catch h \<Rightarrow>
          (case handler h (s\<lparr>blocked := (\<lambda>x. blocked s x \<or> x = signo)\<rparr>) of
             Continues t \<Rightarrow> Continues (t\<lparr>blocked := blocked s\<rparr>)
           | e \<Rightarrow> e))"

definition c_abort :: "('h \<Rightarrow> 'h sig_proc \<Rightarrow> 'h sig_proc sig_end) \<Rightarrow> 'h sig_proc \<Rightarrow> 'h sig_proc sig_end" where
  "c_abort handler s =
     (let s = (case act s SIGABRT of SIG_IGN \<Rightarrow> s\<lparr>act := (act s)(SIGABRT := SIG_DFL)\<rparr> | _ \<Rightarrow> s);
          s = (case act s SIGABRT of SIG_DFL \<Rightarrow> fflush_all s | _ \<Rightarrow> s);
          mask = (\<lambda>x. x \<noteq> SIGABRT) in
      case kill_self handler SIGABRT (s\<lparr>blocked := mask\<rparr>) of
        Continues s \<Rightarrow>
          (let s = fflush_all s; s = s\<lparr>act := (act s)(SIGABRT := SIG_DFL), blocked := mask\<rparr> in
           case kill_self handler SIGABRT s of Continues s \<Rightarrow> Exits 1 s | e \<Rightarrow> e)
      | e \<Rightarrow> e)"

section \<open>child.c\<close>

text \<open>The children that have ended and were not waited for, and what was printed.\<close>

record cld =
  zombies :: "int list"
  cld_out :: string

definition cld_print :: "string \<Rightarrow> cld \<Rightarrow> cld" where
  "cld_print t s = s\<lparr>cld_out := cld_out s @ t\<rparr>"

definition cld_wait :: "cld \<Rightarrow> cld" where
  "cld_wait s =
     (case zombies s of [] \<Rightarrow> cld_print (''pid = '' @ deci (-1) @ [NL]) s
      | p # ps \<Rightarrow> cld_print (''pid = '' @ deci p @ [NL]) (s\<lparr>zombies := ps\<rparr>))"

text \<open>
  On System V (\<open>sysv\<close>) the call of signal sends the signal at once when a child has ended. None: the
  handler does not return.
\<close>

partial_function (option) sig_cld :: "bool \<Rightarrow> cld \<Rightarrow> cld option" where
  "sig_cld sysv s =
     Option.bind
       (if sysv \<and> zombies s \<noteq> [] then sig_cld sysv (cld_print (''SIGCLD received'' @ [NL]) s)
        else Some (cld_print (''SIGCLD received'' @ [NL]) s))
       (\<lambda>s. Some (cld_wait s))"

text \<open>The result of fork; without a child the parent pauses for ever.\<close>

definition child_main :: "bool \<Rightarrow> int \<Rightarrow> cld \<Rightarrow> cld option" where
  "child_main sysv pid s = (if pid < 0 then None else sig_cld sysv (s\<lparr>zombies := [pid]\<rparr>))"

section \<open>Facts\<close>

text \<open>
  Both routines mean the same on both kinds of systems: after signal a call starts again, but not for
  the alarm clock; after signal_intr it never does. The old action is returned and no other signal touched.
\<close>
theorem signal_same_everywhere:
  assumes "sys \<in> {SunOS, SVR4}" "valid signo"
  shows "(restarts sys (snd (c_signal sys valid signo (Catch h) t) signo) \<longleftrightarrow> signo \<noteq> SIGALRM)
    \<and> \<not> restarts sys (snd (signal_intr sys valid signo (Catch h) t) signo)
    \<and> fst (c_signal sys valid signo (Catch h) t) = Some (sa_handler (t signo))
    \<and> (x \<noteq> signo \<longrightarrow> snd (c_signal sys valid signo (Catch h) t) x = t x \<and> snd (signal_intr sys valid signo (Catch h) t) x = t x)"
  using assms by (auto simp: c_signal_def signal_intr_def sigaction_call_def restarts_def SunOS_def SVR4_def)

lemma second_off: "timer s = 0 \<Longrightarrow> second s = Inr s"
  by (cases s rule: alarms.cases_scheme) (simp add: second_def)

lemma seconds_off: "timer s = 0 \<Longrightarrow> seconds n s = Inr s"
  by (induction n) (simp_all add: second_off)

lemma seconds_running:
  "sa_handler (actions s SIGALRM) = Catch () \<Longrightarrow> 0 < timer s \<Longrightarrow>
   seconds n s = Inr (if n < timer s then s\<lparr>timer := timer s - n\<rparr> else s\<lparr>timer := 0, alrm_flag := True\<rparr>)"
proof (induction n arbitrary: s)
  case (Suc n)
  show ?case
  proof (cases "timer s = 1")
    case True
    then show ?thesis using Suc.prems by (simp add: second_def seconds_off sig_alrm_def)
  next
    case False
    then have "second s = Inr (s\<lparr>timer := timer s - 1\<rparr>)" by (simp add: second_def)
    then show ?thesis using Suc.IH [of "s\<lparr>timer := timer s - 1\<rparr>"] Suc.prems False by auto
  qed
qed simp

text \<open>
  The flag is set exactly when the time is over. After clear_alrm, at whatever moment, it stays clear and
  no signal of the timer reaches the process any more.
\<close>
theorem alarm_flag_in_time:
  assumes "valid SIGALRM"
  shows "(0 < nsec \<longrightarrow> (\<exists>t. bindR (set_alrm sys valid nsec s) (seconds n) = Inr t \<and> (alrm_flag t \<longleftrightarrow> nsec \<le> n)))
    \<and> (\<exists>t. bindR (clear_alrm sys valid s) (seconds n) = Inr t \<and> \<not> alrm_flag t)"
proof -
  let ?s = "s\<lparr>alrm_flag := False, actions := snd (signal_intr sys valid SIGALRM (Catch ()) (actions s)), timer := nsec\<rparr>"
  have "sa_handler (actions ?s SIGALRM) = Catch ()" using assms by (simp add: signal_intr_def sigaction_call_def)
  from seconds_running [OF this, of n]
  have "0 < nsec \<longrightarrow> (\<exists>t. bindR (set_alrm sys valid nsec s) (seconds n) = Inr t \<and> (alrm_flag t \<longleftrightarrow> nsec \<le> n))"
    using assms by (simp add: set_alrm_def signal_intr_def sigaction_call_def Let_def)
  moreover have "\<exists>t. bindR (clear_alrm sys valid s) (seconds n) = Inr t \<and> \<not> alrm_flag t"
    using assms by (simp add: clear_alrm_def c_signal_def sigaction_call_def Let_def seconds_off)
  ultimately show ?thesis ..
qed

text \<open>
  C19: The process always ends by the signal, whatever it has made of it before, unless its handler does not return. What
  the streams hold is written. A handler runs once, with every signal blocked.
\<close>
theorem abort_kills:
  "(case act s SIGABRT of
      Catch h \<Rightarrow>
        (case handler h (s\<lparr>blocked := (\<lambda>_. True)\<rparr>) of
           Continues t \<Rightarrow> \<exists>s'. c_abort handler s = KilledBy SIGABRT s' \<and> flushed s' = flushed t @ unflushed t \<and> unflushed s' = []
         | e \<Rightarrow> c_abort handler s = e)
    | _ \<Rightarrow> \<exists>s'. c_abort handler s = KilledBy SIGABRT s' \<and> flushed s' = flushed s @ unflushed s \<and> unflushed s' = [])"
  by (cases "act s SIGABRT") (auto simp: c_abort_def kill_self_def fflush_all_def Let_def split: sig_end.split)

lemma sig_cld_loops: "sig_cld sysv s = Some r \<Longrightarrow> \<not> (sysv \<and> zombies s \<noteq> [])"
proof (rule sig_cld.raw_induct [where P = "\<lambda>sysv s r. \<not> (sysv \<and> zombies s \<noteq> [])"])
  fix f sysv s r
  assume "\<And>sysv s r. f sysv s = Some r \<Longrightarrow> \<not> (sysv \<and> zombies s \<noteq> [])"
    and "Option.bind (if sysv \<and> zombies s \<noteq> [] then f sysv (cld_print (''SIGCLD received'' @ [NL]) s)
        else Some (cld_print (''SIGCLD received'' @ [NL]) s)) (\<lambda>s. Some (cld_wait s)) = Some (r :: cld)"
  then show "\<not> (sysv \<and> zombies s \<noteq> [])" by (fastforce simp: cld_print_def bind_eq_Some_conv split: if_splits)
qed

text \<open>
  On System V the handler calls itself for ever, because it asks for the signal again before it waits for the child;
  elsewhere it reports the child and the program ends.
\<close>
theorem child_handler:
  assumes "0 \<le> pid"
  shows "child_main True pid s = None
    \<and> child_main False pid s = Some \<lparr>zombies = [], cld_out = cld_out s @ ''SIGCLD received'' @ [NL] @ ''pid = '' @ deci pid @ [NL]\<rparr>"
proof -
  have "sig_cld True (s\<lparr>zombies := [pid]\<rparr>) = None" using sig_cld_loops [of True "s\<lparr>zombies := [pid]\<rparr>"] by fastforce
  then show ?thesis using assms by (simp add: child_main_def sig_cld.simps [of False] cld_wait_def cld_print_def)
qed

section \<open>Witnesses\<close>

theorem signal_same_everywhere_witness:
  "\<not> restarts SunOS (snd (c_signal SunOS (\<lambda>n. 0 < n) SIGALRM (Catch ()) (\<lambda>_. \<lparr>sa_handler = SIG_DFL, sa_interrupt = False, sa_restart = False\<rparr>)) SIGALRM)"
  using signal_same_everywhere [of SunOS "\<lambda>n. 0 < n" SIGALRM "()" "\<lambda>_. \<lparr>sa_handler = SIG_DFL, sa_interrupt = False, sa_restart = False\<rparr>"]
  by (simp add: SIGALRM_def)

definition alarm_ex :: alarms where
  "alarm_ex = \<lparr>debug = 0, errno_text = [], stderr_out = [], syslog_out = [], heap = 0, alrm_flag = True,
     actions = (\<lambda>_. \<lparr>sa_handler = SIG_DFL, sa_interrupt = False, sa_restart = False\<rparr>), timer = 3\<rparr>"

theorem alarm_flag_in_time_witness:
  "\<exists>t. bindR (set_alrm SVR4 (\<lambda>n. 0 < n) 30 alarm_ex) (seconds 29) = Inr t \<and> \<not> alrm_flag t"
  using alarm_flag_in_time [of "\<lambda>n. 0 < n" 30 SVR4 alarm_ex 29] by (simp add: SIGALRM_def)

theorem abort_kills_witness:
  "\<exists>s'. c_abort (\<lambda>h s. Continues (s\<lparr>unflushed := unflushed s @ h, act := (act s)(SIGABRT := SIG_IGN)\<rparr>))
      \<lparr>act = (\<lambda>_. Catch ''bye''), blocked = (\<lambda>_. True), unflushed = ''x'', flushed = []\<rparr> = KilledBy SIGABRT s' \<and> flushed s' = ''xbye''"
  using abort_kills [of "\<lambda>h s. Continues (s\<lparr>unflushed := unflushed s @ h, act := (act s)(SIGABRT := SIG_IGN)\<rparr>)"
      "\<lparr>act = (\<lambda>_. Catch ''bye''), blocked = (\<lambda>_. True), unflushed = ''x'', flushed = []\<rparr>"] by auto

theorem child_handler_witness: "child_main True 7 \<lparr>zombies = [], cld_out = []\<rparr> = None"
  using child_handler [of 7] by simp

end
