(* ===== verification/Streams.thy ===== *)
theory Streams
  imports Connect FdPass
begin

text \<open>
  Connections and descriptors on streams, the library of SVR4: send_fd, serv_accept, serv_listen and s_pipe
  (lib.svr4/semaph.c), cli_conn (lib.svr4/bufargs.c) and isastream (streams/ourhdr.h); and the contract
  that this library and the one with sockets (Connect) share: a server gets its clients in the order in
  which they came, and learns who they are.
\<close>

section \<open>What the libraries promise\<close>

text \<open>
  Clients come, time passes (in seconds) and the server takes the next client; a call that has to wait is
  made again later. The server gets the user (\<open>Inr\<close>) or the negative number of a refusal (\<open>Inl\<close>).
\<close>

datatype 'c net_event = Comes 'c | Passes nat | Takes_next

fun run_net :: "('c \<Rightarrow> 's \<Rightarrow> 's) \<Rightarrow> (nat \<Rightarrow> 's \<Rightarrow> 's) \<Rightarrow> ('s \<Rightarrow> ((int + int) \<times> 's) option) \<Rightarrow> 'c net_event list \<Rightarrow> 's \<Rightarrow> (int + int) list" where
  "run_net conn tick acc [] s = []"
| "run_net conn tick acc (Comes c # es) s = run_net conn tick acc es (conn c s)"
| "run_net conn tick acc (Passes d # es) s = run_net conn tick acc es (tick d s)"
| "run_net conn tick acc (Takes_next # es) s =
     (case acc s of None \<Rightarrow> run_net conn tick acc es s | Some (a, t) \<Rightarrow> a # run_net conn tick acc es t)"

fun all_can :: "('c \<Rightarrow> 's \<Rightarrow> 's) \<Rightarrow> (nat \<Rightarrow> 's \<Rightarrow> 's) \<Rightarrow> ('s \<Rightarrow> ((int + int) \<times> 's) option) \<Rightarrow> ('c \<Rightarrow> 's \<Rightarrow> bool) \<Rightarrow> 'c net_event list \<Rightarrow> 's \<Rightarrow> bool" where
  "all_can conn tick acc can [] s \<longleftrightarrow> True"
| "all_can conn tick acc can (Comes c # es) s \<longleftrightarrow> can c s \<and> all_can conn tick acc can es (conn c s)"
| "all_can conn tick acc can (Passes d # es) s \<longleftrightarrow> all_can conn tick acc can es (tick d s)"
| "all_can conn tick acc can (Takes_next # es) s \<longleftrightarrow> all_can conn tick acc can es (case acc s of None \<Rightarrow> s | Some (a, t) \<Rightarrow> t)"

text \<open>The abstract server: a clock, and a queue of users with the times at which they came.\<close>

fun run_queue :: "(int \<Rightarrow> int \<times> int \<Rightarrow> int + int) \<Rightarrow> ('c \<Rightarrow> int) \<Rightarrow> 'c net_event list \<Rightarrow> int \<Rightarrow> (int \<times> int) list \<Rightarrow> (int + int) list" where
  "run_queue answer user [] now q = []"
| "run_queue answer user (Comes c # es) now q = run_queue answer user es now (q @ [(user c, now)])"
| "run_queue answer user (Passes d # es) now q = run_queue answer user es (now + int d) q"
| "run_queue answer user (Takes_next # es) now q =
     (case q of [] \<Rightarrow> run_queue answer user es now [] | w # q \<Rightarrow> answer now w # run_queue answer user es now q)"

text \<open>Everybody is served, or nobody whose name is older than 30 seconds.\<close>

definition no_limit :: "int \<Rightarrow> int \<times> int \<Rightarrow> int + int" where
  "no_limit now w = Inr (fst w)"

definition age_limit :: "int \<Rightarrow> int \<times> int \<Rightarrow> int + int" where
  "age_limit now w = (if snd w < now - STALE then Inl (-5) else Inr (fst w))"

text \<open>Whether every client is taken within 30 seconds, from the times at which they came.\<close>

fun in_time :: "'c net_event list \<Rightarrow> int \<Rightarrow> int list \<Rightarrow> bool" where
  "in_time [] now q \<longleftrightarrow> True"
| "in_time (Comes c # es) now q \<longleftrightarrow> in_time es now (q @ [now])"
| "in_time (Passes d # es) now q \<longleftrightarrow> in_time es (now + int d) q"
| "in_time (Takes_next # es) now q \<longleftrightarrow> (case q of [] \<Rightarrow> in_time es now [] | t # q \<Rightarrow> now \<le> t + STALE \<and> in_time es now q)"

lemma limit_matters:
  "run_queue no_limit user es now q = run_queue age_limit user es now q \<longleftrightarrow> in_time es now (map snd q)"
proof (induction es arbitrary: now q)
  case (Cons e es)
  then show ?case by (cases e) (auto simp: no_limit_def age_limit_def split: list.split)
qed simp

locale named_server =
  fixes conn :: "'c \<Rightarrow> 's \<Rightarrow> 's"
    and tick :: "nat \<Rightarrow> 's \<Rightarrow> 's"
    and acc :: "'s \<Rightarrow> ((int + int) \<times> 's) option"
    and can :: "'c \<Rightarrow> 's \<Rightarrow> bool"
    and user :: "'c \<Rightarrow> int"
    and answer :: "int \<Rightarrow> int \<times> int \<Rightarrow> int + int"
    and waiting :: "'s \<Rightarrow> int \<Rightarrow> (int \<times> int) list \<Rightarrow> bool"
  assumes comes: "waiting s now q \<Longrightarrow> can c s \<Longrightarrow> waiting (conn c s) now (q @ [(user c, now)])"
    and passes: "waiting s now q \<Longrightarrow> waiting (tick d s) (now + int d) q"
    and takes: "waiting s now (w # q) \<Longrightarrow> \<exists>t. acc s = Some (answer now w, t) \<and> waiting t now q"
    and waits: "waiting s now [] \<Longrightarrow> acc s = None"
begin

lemma runs_as_queue:
  "waiting s now q \<Longrightarrow> all_can conn tick acc can es s \<Longrightarrow> run_net conn tick acc es s = run_queue answer user es now q"
proof (induction es arbitrary: s now q)
  case (Cons e es)
  show ?case
  proof (cases e)
    case (Comes c)
    then show ?thesis using Cons.prems Cons.IH comes by simp
  next
    case (Passes d)
    then show ?thesis using Cons.prems Cons.IH passes by simp
  next
    case Takes_next
    show ?thesis
    proof (cases q)
      case Nil
      then show ?thesis using Takes_next Cons.prems Cons.IH waits by simp
    next
      case (Cons w ws)
      with takes Cons.prems(1) obtain t where "acc s = Some (answer now w, t)" "waiting t now ws" by blast
      then show ?thesis using Takes_next Cons \<open>all_can conn tick acc can (e # es) s\<close> Cons.IH [of t now ws] by simp
    qed
  qed
qed simp

end

section \<open>Streams with names\<close>

text \<open>
  A name stands for a plain file or for a stream that is mounted on it: then an open makes a new stream and
  sends one of its ends to the descriptor where the server listens (the module connld).
\<close>

datatype file_kind = Plain | Mounted int

record str_net = byte_io +
  files :: "string \<Rightarrow> file_kind option"
  undeletable_names :: "string set"
  arrivals :: "int \<Rightarrow> (nat \<times> int) list" \<comment> \<open>streams and users that wait at a descriptor\<close>
  next_stream :: nat
  client_end :: "int \<times> int \<Rightarrow> nat option" \<comment> \<open>by process and descriptor\<close>
  server_end :: "int \<Rightarrow> nat option"

section \<open>The routines\<close>

definition s_pipe :: "(int \<times> int) option \<Rightarrow> int \<times> (int \<times> int)" where
  "s_pipe p = (case p of None \<Rightarrow> (-1, 0, 0) | Some fds \<Rightarrow> (0, fds))"

text \<open>The answers of the kernel to serv_listen.\<close>

record listen_env =
  le_creat :: bool
  le_close :: bool
  le_pipe :: "(int \<times> int) option"
  le_push :: bool
  le_attach :: bool

definition remove_name :: "string \<Rightarrow> 'a str_net_scheme \<Rightarrow> 'a str_net_scheme" where
  "remove_name name s = (if name \<in> undeletable_names s then s else s\<lparr>files := (files s)(name := None)\<rparr>)"

definition creat_name :: "string \<Rightarrow> 'a str_net_scheme \<Rightarrow> 'a str_net_scheme" where
  "creat_name name s = (if files s name = None then s\<lparr>files := (files s)(name \<mapsto> Plain)\<rparr> else s)"

definition svr4_serv_listen :: "listen_env \<Rightarrow> string \<Rightarrow> 'a str_net_scheme \<Rightarrow> int \<times> 'a str_net_scheme" where
  "svr4_serv_listen e name s =
     (let s = remove_name name s in
      if \<not> le_creat e then (-1, s)
      else let s = creat_name name s in
      if \<not> le_close e then (-2, s)
      else case le_pipe e of None \<Rightarrow> (-3, s)
      | Some (fd0, fd1) \<Rightarrow>
          if \<not> le_push e then (-4, s)
          else if \<not> le_attach e then (-5, s)
          else (fd0, s\<lparr>files := (files s)(name \<mapsto> Mounted fd0)\<rparr>))"

text \<open>open for the process \<open>pid\<close> of the user \<open>uid\<close>, which gets the descriptor \<open>fd\<close>; it is negative when the call fails.\<close>

definition open_name :: "int \<Rightarrow> int \<Rightarrow> int \<Rightarrow> string \<Rightarrow> 'a str_net_scheme \<Rightarrow> int \<times> 'a str_net_scheme" where
  "open_name pid uid fd name s =
     (if fd < 0 then (-1, s)
      else case files s name of
        None \<Rightarrow> (-1, s)
      | Some Plain \<Rightarrow> (fd, s\<lparr>client_end := (client_end s)((pid, fd) := None)\<rparr>)
      | Some (Mounted l) \<Rightarrow> (fd, s\<lparr>client_end := (client_end s)((pid, fd) \<mapsto> next_stream s),
          arrivals := (arrivals s)(l := arrivals s l @ [(next_stream s, uid)]), next_stream := next_stream s + 1\<rparr>))"

definition isastream :: "int \<Rightarrow> int \<Rightarrow> 'a str_net_scheme \<Rightarrow> bool" where
  "isastream pid fd s \<longleftrightarrow> client_end s (pid, fd) \<noteq> None"

definition svr4_cli_conn :: "int \<Rightarrow> int \<Rightarrow> int \<Rightarrow> string \<Rightarrow> 'a str_net_scheme \<Rightarrow> int \<times> 'a str_net_scheme" where
  "svr4_cli_conn pid uid fd name s =
     (let (fd, s) = open_name pid uid fd name s in
      if fd < 0 then (-1, s) else if \<not> isastream pid fd s then (-2, s) else (fd, s))"

text \<open>
  The result of the call that receives a descriptor is \<open>newfd\<close>; None: it waits. \<open>want\<close> tells
  whether the caller asks for the user. The result has what is stored for it.
\<close>

definition svr4_serv_accept :: "bool \<Rightarrow> int \<Rightarrow> bool \<Rightarrow> int \<Rightarrow> 'a str_net_scheme \<Rightarrow> (int \<times> int option \<times> 'a str_net_scheme) option" where
  "svr4_serv_accept ok newfd want listenfd s =
     (if \<not> ok then Some (-1, None, s)
      else case arrivals s listenfd of [] \<Rightarrow> None
      | (n, uid) # rest \<Rightarrow> Some (newfd, if want then Some uid else None,
          s\<lparr>arrivals := (arrivals s)(listenfd := rest), server_end := (server_end s)(newfd \<mapsto> n)\<rparr>))"

text \<open>The descriptor is sent as a message of its own, after the two bytes.\<close>

definition send_fd_svr4 :: "bool \<Rightarrow> int \<Rightarrow> int \<Rightarrow> 'a byte_io_scheme \<Rightarrow> (int \<times> 'a byte_io_scheme) res" where
  "send_fd_svr4 ok clifd fd s =
     (let (r, s) = write_call clifd [NUL, status_byte fd] None s in
      if r \<noteq> 2 then Inr (-1, s)
      else if 0 \<le> fd then
        (if \<not> ok then Inr (-1, s) else Inr (0, s\<lparr>fd_out := (fd_out s)(clifd := fd_out s clifd @ [([], Some fd)])\<rparr>))
      else Inr (0, s))"

text \<open>
  What the receiver's calls of getmsg return for the messages of a stream. A descriptor behind a message is there
  for the call that asks for it, under the number \<open>num\<close> that the receiver gets.
\<close>

fun stream_events :: "(int \<Rightarrow> int) \<Rightarrow> (string \<times> int option) list \<Rightarrow> recv_event list" where
  "stream_events num ((bs, None) # (cs, Some fd) # ms) = Msg bs (Some (num fd)) # stream_events num ms"
| "stream_events num ((bs, _) # ms) = Msg bs None # stream_events num ms"
| "stream_events num [] = []"

section \<open>cli_conn of 4.4BSD\<close>

text \<open>lib.44/cliconn.c: the addresses have a length, and every failure is -1.\<close>

definition cli_conn_44 :: "unix_sys \<Rightarrow> cli_env \<Rightarrow> int \<Rightarrow> int \<Rightarrow> string \<Rightarrow> 'a unix_net_scheme \<Rightarrow> (int \<times> 'a unix_net_scheme) res" where
  "cli_conn_44 sys e pid uid name s =
     (if ce_socket e < 0 then Inr (-1, s)
      else let path = client_name pid; len = int (LEN_SZ sys) + int (FAMILY_SZ sys) + int (length path) + 1 in
      if SUN_PATH sys \<le> length path then Inl (UB ''sprintf: sun_path'')
      else let s = unlink path s; (r, s) = bind_name (ce_bind e) uid path s in
      if r < 0 then Inr (-1, s)
      else let (r, s) = chmod (ce_chmod e) path CLI_PERM s in
      if r < 0 then Inr (-1, s)
      else if SUN_PATH sys \<le> length name then Inl (UB ''strcpy: sun_path'')
      else let (r, s) = connect_to (ce_connect e) name (path @ [NUL], len) s in
      if r < 0 then Inr (-1, s) else Inr (ce_socket e, s))"

lemma cli_conn_44_same:
  "SCM_RIGHTS sys \<Longrightarrow> cli_conn_44 sys e pid uid name s = bindR (cli_conn sys e pid uid name s) (\<lambda>(r, t). Inr (if r < 0 then -1 else r, t))"
  by (simp add: cli_conn_44_def cli_conn_def own_address_def addr_len_def Let_def split: prod.split)

section \<open>Both libraries keep the promise\<close>

text \<open>A client is its process number, its user and the descriptor it gets.\<close>

type_synonym client_id = "int \<times> int \<times> int"

definition user_of :: "client_id \<Rightarrow> int" where "user_of c = fst (snd c)"

definition str_conn :: "string \<Rightarrow> client_id \<Rightarrow> str_net \<Rightarrow> str_net" where
  "str_conn name c s = snd (svr4_cli_conn (fst c) (user_of c) (snd (snd c)) name s)"

text \<open>Nothing of a stream depends on the time.\<close>

definition str_tick :: "nat \<Rightarrow> str_net \<Rightarrow> str_net" where "str_tick d s = s"

definition str_acc :: "int \<Rightarrow> int \<Rightarrow> str_net \<Rightarrow> ((int + int) \<times> str_net) option" where
  "str_acc l newfd s =
     (case svr4_serv_accept True newfd True l s of None \<Rightarrow> None
      | Some (r, None, t) \<Rightarrow> Some (Inl r, t) | Some (r, Some u, t) \<Rightarrow> Some (Inr u, t))"

definition str_can :: "int \<Rightarrow> string \<Rightarrow> client_id \<Rightarrow> str_net \<Rightarrow> bool" where
  "str_can l name c s \<longleftrightarrow> 0 \<le> snd (snd c) \<and> files s name = Some (Mounted l)"

interpretation str: named_server "str_conn name" str_tick "str_acc l newfd" "str_can l name" user_of no_limit
  "\<lambda>s now q. map snd (arrivals s l) = map fst q" for name l newfd
proof
  fix c :: client_id and s :: str_net and now and q :: "(int \<times> int) list"
  obtain pid uid fd where c: "c = (pid, uid, fd)" by (cases c)
  assume "str_can l name c s" "map snd (arrivals s l) = map fst q"
  then show "map snd (arrivals (str_conn name c s) l) = map fst (q @ [(user_of c, now)])"
    by (simp add: c str_can_def str_conn_def svr4_cli_conn_def open_name_def isastream_def user_of_def)
next
  fix s :: str_net and now and w :: "int \<times> int" and q
  assume "map snd (arrivals s l) = map fst (w # q)"
  then show "\<exists>t. str_acc l newfd s = Some (no_limit now w, t) \<and> map snd (arrivals t l) = map fst q"
    by (auto simp: str_acc_def svr4_serv_accept_def no_limit_def)
qed (simp_all add: str_tick_def str_acc_def svr4_serv_accept_def)

text \<open>The same with the sockets of Connect; the calls of the kernel succeed.\<close>

definition sock_conn :: "unix_sys \<Rightarrow> string \<Rightarrow> client_id \<Rightarrow> unix_net \<Rightarrow> unix_net" where
  "sock_conn sys name c s =
     (case cli_conn sys \<lparr>ce_socket = snd (snd c), ce_bind = True, ce_chmod = True, ce_connect = True\<rparr> (fst c) (user_of c) name s of
        Inl e \<Rightarrow> s | Inr (r, t) \<Rightarrow> t)"

definition sock_tick :: "nat \<Rightarrow> unix_net \<Rightarrow> unix_net" where "sock_tick d s = s\<lparr>clock := clock s + int d\<rparr>"

definition sock_acc :: "unix_sys \<Rightarrow> string \<Rightarrow> int \<Rightarrow> unix_net \<Rightarrow> ((int + int) \<times> unix_net) option" where
  "sock_acc sys junk clifd s =
     (case serv_accept sys junk clifd s of None \<Rightarrow> None | Some (Inl e) \<Rightarrow> None
      | Some (Inr (r, None, t)) \<Rightarrow> Some (Inl r, t) | Some (Inr (r, Some u, t)) \<Rightarrow> Some (Inr u, t))"

definition sock_can :: "unix_sys \<Rightarrow> string \<Rightarrow> client_id \<Rightarrow> unix_net \<Rightarrow> bool" where
  "sock_can sys name c s \<longleftrightarrow> 0 \<le> snd (snd c) \<and> 0 \<le> fst c \<and> fst c < 100000 \<and> client_name (fst c) \<notin> undeletable s
     \<and> own_address sys (client_name (fst c)) \<notin> set (pending s) \<and> name \<in> servers s"

text \<open>Every address in the queue is the name of a process, with a socket that belongs to a user since the time when it came.\<close>

definition client_socket :: "int \<times> int \<Rightarrow> inode" where
  "client_socket w = \<lparr>st_sock = True, st_mode = CLI_PERM, st_uid = fst w, st_atime = snd w, st_mtime = snd w, st_ctime = snd w\<rparr>"

definition named_client :: "unix_net \<Rightarrow> int \<Rightarrow> int \<times> int \<Rightarrow> bool" where
  "named_client s pid w \<longleftrightarrow> 0 \<le> pid \<and> pid < 100000 \<and> client_name pid \<notin> undeletable s
     \<and> inodes s (client_name pid) = Some (client_socket w)"

definition sock_pids :: "unix_sys \<Rightarrow> unix_net \<Rightarrow> int list \<Rightarrow> (int \<times> int) list \<Rightarrow> bool" where
  "sock_pids sys s pids q \<longleftrightarrow> pending s = map (own_address sys \<circ> client_name) pids \<and> distinct pids \<and> list_all2 (named_client s) pids q"

definition sock_waiting :: "unix_sys \<Rightarrow> string \<Rightarrow> string \<Rightarrow> int \<Rightarrow> unix_net \<Rightarrow> int \<Rightarrow> (int \<times> int) list \<Rightarrow> bool" where
  "sock_waiting sys junk name clifd s now q \<longleftrightarrow> sizes_ok sys \<and> length junk = SUN_PATH sys \<and> length name < SUN_PATH sys
     \<and> 0 \<le> clifd \<and> clock s = now \<and> (\<exists>pids. sock_pids sys s pids q)"

lemma client_name_inj:
  assumes "0 \<le> p" "0 \<le> q" "client_name p = client_name q"
  shows "p = q"
proof -
  have z: "foldl (\<lambda>n c. 10 * n + digit_val c) 0 (replicate k (CHR ''0'')) = 0" for k
    by (induction k) (simp_all add: digit_val_def)
  have "foldl (\<lambda>n c. 10 * n + digit_val c) 0 (drop (length CLI_PATH) (client_name r)) = nat r" if "0 \<le> r" for r
    using that by (simp add: client_name_def z deci_def foldl_dec)
  from this [OF assms(1)] this [OF assms(2)] assms show ?thesis by simp
qed

lemma sock_peer:
  "sizes_ok sys \<Longrightarrow> length junk = SUN_PATH sys \<Longrightarrow> 0 \<le> pid \<Longrightarrow> pid < 100000 \<Longrightarrow>
   peer_path sys junk (own_address sys (client_name pid)) = Inr (client_name pid)"
  by (simp add: peer_path_own client_name_facts)

lemma cli_conn_fresh:
  assumes "sizes_ok sys" "length name < SUN_PATH sys" "sock_can sys name (pid, uid, fd) s"
  shows "sock_conn sys name (pid, uid, fd) s = s\<lparr>inodes := (inodes s)(client_name pid \<mapsto> client_socket (uid, clock s)), pending := pending s @ [own_address sys (client_name pid)]\<rparr>"
proof -
  let ?p = "client_name pid"
  have p: "length ?p = 14" using assms(3) client_name_facts by (simp add: sock_can_def)
  have len: "\<not> SUN_PATH sys \<le> 14" "(\<not> SCM_RIGHTS sys \<and> addr_len sys ?p \<noteq> 16) = False"
    using assms(1) p by (auto simp: sizes_ok_def addr_len_def)
  show ?thesis using assms p len(1)
    by (simp add: len(2) client_socket_def sock_conn_def user_of_def sock_can_def cli_conn_def unlink_def bind_name_def chmod_def connect_to_def Let_def)
qed

text \<open>Another name in the file system makes no difference to the clients that wait.\<close>

lemma named_clients_other:
  assumes "list_all2 (named_client s) pids q" "0 \<le> pid" "pid \<notin> set pids"
    and "inodes t = (inodes s)(client_name pid := n)" "undeletable t = undeletable s"
  shows "list_all2 (named_client t) pids q"
  using assms(1)
proof (rule list.rel_mono_strong)
  fix p w
  assume "p \<in> set pids" "named_client s p w"
  moreover have "client_name p \<noteq> client_name pid"
    using client_name_inj [of p pid] assms(2,3) calculation by (auto simp: named_client_def)
  ultimately show "named_client t p w" using assms(4,5) by (simp add: named_client_def)
qed

lemma sock_accept_first:
  assumes "sizes_ok sys" "length junk = SUN_PATH sys" "0 \<le> clifd" "sock_pids sys s (pid # pids) (w # q)"
  shows "sock_acc sys junk clifd s = Some (age_limit (clock s) w,
      s\<lparr>inodes := (if snd w < clock s - STALE then inodes s else (inodes s)(client_name pid := None)),
        pending := map (own_address sys \<circ> client_name) pids\<rparr>)"
  using assms sock_peer [OF assms(1,2), of pid]
  by (auto simp: sock_pids_def named_client_def client_socket_def age_limit_def sock_acc_def serv_accept_def CLI_PERM_def is_stale_def
      unlink_def S_IRWXU_def S_IRWXG_def S_IRWXO_def Let_def)

lemma sock_comes:
  assumes "sizes_ok sys" "length name < SUN_PATH sys" "sock_pids sys s pids q" "sock_can sys name (pid, uid, fd) s"
  shows "sock_pids sys (sock_conn sys name (pid, uid, fd) s) (pids @ [pid]) (q @ [(uid, clock s)])"
proof -
  have new: "pid \<notin> set pids" "0 \<le> pid" "pid < 100000" "client_name pid \<notin> undeletable s"
    using assms(3,4) by (auto simp: sock_can_def sock_pids_def)
  let ?t = "sock_conn sys name (pid, uid, fd) s"
  note e = cli_conn_fresh [OF assms(1,2,4)]
  have "list_all2 (named_client ?t) pids q"
    unfolding e by (rule named_clients_other [of s pids q pid]) (use assms(3) new(1,2) in \<open>simp_all add: sock_pids_def\<close>)
  moreover have "named_client ?t pid (uid, clock s)" using new unfolding e by (simp add: named_client_def)
  moreover have "pending ?t = pending s @ [own_address sys (client_name pid)]" by (simp add: e)
  ultimately show ?thesis using assms(3) new(1) unfolding sock_pids_def
    by (intro conjI list_all2_appendI) (simp_all del: fun_upd_apply)
qed

lemma sock_takes:
  assumes "sizes_ok sys" "length junk = SUN_PATH sys" "0 \<le> clifd" "sock_pids sys s (pid # pids) (w # q)"
  shows "\<exists>t. sock_acc sys junk clifd s = Some (age_limit (clock s) w, t) \<and> sock_pids sys t pids q \<and> clock t = clock s"
proof -
  let ?t = "s\<lparr>inodes := (if snd w < clock s - STALE then inodes s else (inodes s)(client_name pid := None)),
        pending := map (own_address sys \<circ> client_name) pids\<rparr>"
  have p: "pid \<notin> set pids" "0 \<le> pid" "list_all2 (named_client s) pids q" using assms(4) by (auto simp: sock_pids_def named_client_def)
  have "list_all2 (named_client ?t) pids q"
  proof (cases "snd w < clock s - STALE")
    case True
    have "list_all2 (named_client s) pids q \<longrightarrow> list_all2 (named_client ?t) pids q"
      using True by (auto simp: named_client_def elim!: list_all2_mono)
    then show ?thesis using p(3) by simp
  next
    case False
    then show ?thesis by (intro named_clients_other [OF p(3,2,1), of _ None]) simp_all
  qed
  then have "sock_pids sys ?t pids q" using assms(4) by (simp add: sock_pids_def)
  then show ?thesis using sock_accept_first [OF assms] by auto
qed

interpretation sock: named_server "sock_conn sys name" sock_tick "sock_acc sys junk clifd" "sock_can sys name" user_of age_limit
  "sock_waiting sys junk name clifd" for sys name junk clifd
proof
  fix s now q and c :: client_id
  obtain pid uid fd where c: "c = (pid, uid, fd)" by (cases c)
  assume w: "sock_waiting sys junk name clifd s now q" "sock_can sys name c s"
  then obtain pids where i: "sizes_ok sys" "length name < SUN_PATH sys" "sock_pids sys s pids q" by (auto simp: sock_waiting_def)
  note can = w(2) [unfolded c]
  have "clock (sock_conn sys name c s) = clock s" unfolding c cli_conn_fresh [OF i(1,2) can] by simp
  with sock_comes [OF i can] w(1) show "sock_waiting sys junk name clifd (sock_conn sys name c s) now (q @ [(user_of c, now)])"
    by (auto simp: sock_waiting_def c user_of_def)
next
  fix s now q d
  assume "sock_waiting sys junk name clifd s now q"
  moreover have "named_client (sock_tick d s) = named_client s" by (intro ext) (simp add: named_client_def sock_tick_def)
  ultimately show "sock_waiting sys junk name clifd (sock_tick d s) (now + int d) q"
    by (simp add: sock_waiting_def sock_pids_def) (simp add: sock_tick_def)
next
  fix s now w q
  assume i: "sock_waiting sys junk name clifd s now (w # q)"
  then obtain pids' where "sock_pids sys s pids' (w # q)" by (auto simp: sock_waiting_def)
  moreover from this obtain pid pids where "pids' = pid # pids" by (auto simp: sock_pids_def list_all2_Cons2)
  ultimately have "sock_pids sys s (pid # pids) (w # q)" by simp
  with sock_takes [OF _ _ _ this, of junk clifd] i
  show "\<exists>t. sock_acc sys junk clifd s = Some (age_limit now w, t) \<and> sock_waiting sys junk name clifd t now q"
    by (fastforce simp: sock_waiting_def)
next
  fix s now
  assume "sock_waiting sys junk name clifd s now []"
  then show "sock_acc sys junk clifd s = None"
    by (auto simp: sock_waiting_def sock_pids_def sock_acc_def serv_accept_def)
qed

section \<open>Properties\<close>

text \<open>
  C20: Both libraries give the server the users in the order in which they came, each once, with one
  difference: the library with sockets refuses a client (with -5) whose name is older than 30 seconds when
  the server takes it, and the one with streams does not. So they give the same results exactly when
  no client has to wait for more than 30 seconds. The clients of the library with sockets must be different
  processes with numbers of at most five digits.
\<close>
theorem libraries_agree:
  assumes "all_can (str_conn name) str_tick (str_acc l newfd) (str_can l name) es s" "arrivals s l = []"
    and "sock_waiting sys junk name clifd t now []"
    and "all_can (sock_conn sys name) sock_tick (sock_acc sys junk clifd) (sock_can sys name) es t"
  shows "run_net (str_conn name) str_tick (str_acc l newfd) es s = run_queue no_limit user_of es now []
    \<and> run_net (sock_conn sys name) sock_tick (sock_acc sys junk clifd) es t = run_queue age_limit user_of es now []
    \<and> (run_net (str_conn name) str_tick (str_acc l newfd) es s = run_net (sock_conn sys name) sock_tick (sock_acc sys junk clifd) es t
        \<longleftrightarrow> in_time es now [])"
  using str.runs_as_queue [OF _ assms(1), where q = "[]" and now = now] sock.runs_as_queue [OF assms(3,4)] assms(2) limit_matters [of user_of es now "[]"]
  by simp

text \<open>
  A client that opens the name of a server and is accepted holds one end of a stream that nobody else has, and the server
  the other one; the server learns the user. A name of something else is refused and no stream is made.
\<close>
theorem stream_connects:
  assumes "0 \<le> fd0" "svr4_serv_listen \<lparr>le_creat = True, le_close = True, le_pipe = Some (fd0, fd1), le_push = True, le_attach = True\<rparr> name s = (r, s1)"
    and "arrivals s fd0 = []" "0 \<le> fd" "svr4_cli_conn pid uid fd name s1 = (c, s2)"
    and "\<forall>k n. client_end s k = Some n \<longrightarrow> n < next_stream s"
  shows "\<exists>s3 n. svr4_serv_accept True newfd want r s2 = Some (newfd, (if want then Some uid else None), s3) \<and> c = fd
      \<and> client_end s3 (pid, fd) = Some n \<and> server_end s3 newfd = Some n \<and> arrivals s3 fd0 = []
      \<and> (\<forall>k. k \<noteq> (pid, fd) \<longrightarrow> client_end s3 k \<noteq> Some n)
    \<and> (\<forall>other. files s1 other = Some Plain \<longrightarrow> fst (svr4_cli_conn pid uid fd other s1) = -2 \<and> arrivals (snd (svr4_cli_conn pid uid fd other s1)) = arrivals s1)"
proof -
  have s1: "r = fd0" "files s1 name = Some (Mounted fd0)" "arrivals s1 = arrivals s" "client_end s1 = client_end s" "next_stream s1 = next_stream s"
    using assms(2) by (auto simp: svr4_serv_listen_def remove_name_def creat_name_def Let_def split: if_splits)
  have "c = fd" and s2: "s2 = s1\<lparr>client_end := (client_end s)((pid, fd) \<mapsto> next_stream s),
      arrivals := (arrivals s)(fd0 := [(next_stream s, uid)]), next_stream := next_stream s + 1\<rparr>"
    using assms(3-5) s1 by (auto simp: svr4_cli_conn_def open_name_def isastream_def)
  moreover have "\<forall>k. k \<noteq> (pid, fd) \<longrightarrow> client_end s2 k \<noteq> Some (next_stream s)" using assms(6) by (auto simp: s2)
  ultimately show ?thesis using assms(4)
    by (auto simp: s1 svr4_serv_accept_def svr4_cli_conn_def open_name_def isastream_def)
qed

lemma send_fd_svr4_error: "fd < 0 \<Longrightarrow> send_fd_svr4 ok clifd fd s = send_fd clifd fd s"
  by (simp add: send_fd_svr4_def send_fd_def split: prod.split)

text \<open>
  A descriptor or an error code that is sent on a stream arrives: recv_fd of this library gets the descriptor under the
  receiver's number, or the code. For an error both libraries send the same bytes, so that send_err is the same.
\<close>
theorem stream_passes_fd:
  assumes "wr_env s = []" "fd_out s clifd = []" "-255 \<le> fd" "send_fd_svr4 True clifd fd s = Inr (r, s')"
  shows "r = 0 \<and> recv_fd_svr4 f (stream_events num (fd_out s' clifd)) nf u t = Inr (if 0 \<le> fd then num fd else fd, u, [], t)
    \<and> (fd < 0 \<longrightarrow> send_fd clifd fd s = Inr (r, s'))"
proof (cases "fd < 0")
  case True
  have out: "send_fd clifd fd s = Inr (r, s')" using assms(4) by (simp add: send_fd_svr4_error [OF True])
  with send_fd_now [OF assms(1), of clifd fd] True assms(2)
  have r: "r = 0" "fd_out s' clifd = [([NUL, status_byte fd], None)]" by auto
  have "recv_scan_svr4 [NUL, c] None 0 2 (-1) nf = Some (Inr (0, int (of_char c :: nat), - int (of_char c :: nat)))" if "c \<noteq> NUL" for c
  proof -
    have "(of_char c :: nat) = of_char NUL \<longleftrightarrow> c = NUL" by (rule of_char_eq_iff)
    then show ?thesis using that by (simp add: recv_scan_svr4.simps [of _ _ 0] recv_scan_svr4.simps [of _ _ "Suc 0"] Let_def)
  qed
  from this [OF status_byte_neg [OF True]] show ?thesis
    using True r out status_byte_code [OF assms(3) True] by (simp add: MAXLINE_def numeral_2_eq_2)
next
  case False
  then have "r = 0" "fd_out s' clifd = [([NUL, NUL], None), ([], Some fd)]"
    using assms by (auto simp: send_fd_svr4_def write_call_def status_byte_def)
  moreover have "recv_scan_svr4 [NUL, NUL] (Some g) 0 2 (-1) nf = Some (Inr (0, 0, g))" for g
    by (simp add: recv_scan_svr4.simps [of _ _ 0] recv_scan_svr4.simps [of _ _ "Suc 0"] Let_def)
  ultimately show ?thesis using False by (simp add: MAXLINE_def numeral_2_eq_2)
qed

section \<open>Witnesses\<close>

definition str_ex :: str_net where
  "str_ex = \<lparr>debug = 0, errno_text = [], stderr_out = [], syslog_out = [], heap = 0, rd_env = (\<lambda>_. []), wr_env = [], fd_out = (\<lambda>_. []),
     files = [''/calld'' \<mapsto> Mounted 3], undeletable_names = {}, arrivals = (\<lambda>_. []), next_stream = 0, client_end = Map.empty, server_end = Map.empty\<rparr>"

theorem stream_passes_fd_witness:
  "\<exists>s'. send_fd_svr4 True 5 9 str_ex = Inr (0, s') \<and> recv_fd_svr4 collect (stream_events (\<lambda>n. n - 2) (fd_out s' 5)) 0 [] str_ex = Inr (7, [], [], str_ex)"
proof -
  obtain r s' where s': "send_fd_svr4 True 5 9 str_ex = Inr (r, s')" by (simp add: send_fd_svr4_def write_call_def str_ex_def)
  have "wr_env str_ex = []" "fd_out str_ex 5 = []" by (simp_all add: str_ex_def)
  from stream_passes_fd [OF this _ s', of collect "\<lambda>n. n - 2" 0 "[]" str_ex] s' show ?thesis by auto
qed

theorem stream_connects_witness:
  "\<exists>s3 n. svr4_serv_accept True 8 True 3 (snd (svr4_cli_conn 4711 203 5 ''/calld'' (snd (svr4_serv_listen
       \<lparr>le_creat = True, le_close = True, le_pipe = Some (3, 4), le_push = True, le_attach = True\<rparr> ''/calld'' str_ex)))) = Some (8, Some 203, s3)
     \<and> client_end s3 (4711, 5) = Some n \<and> server_end s3 8 = Some n"
proof -
  let ?e = "\<lparr>le_creat = True, le_close = True, le_pipe = Some (3, 4), le_push = True, le_attach = True\<rparr>"
  obtain r s1 where s1: "svr4_serv_listen ?e ''/calld'' str_ex = (r, s1)" by fastforce
  obtain c s2 where s2: "svr4_cli_conn 4711 203 5 ''/calld'' s1 = (c, s2)" by fastforce
  have "r = 3" using s1 by (simp add: svr4_serv_listen_def str_ex_def remove_name_def creat_name_def)
  with stream_connects [OF _ s1 _ _ s2, of 8 True] s1 s2 show ?thesis by (auto simp: str_ex_def)
qed

text \<open>The first client is taken after 30 seconds, the second one after 31.\<close>

definition two_clients :: "client_id net_event list" where
  "two_clients = [Comes (4711, 203, 5), Passes 30, Takes_next, Takes_next, Comes (4712, 0, 6), Passes 31, Takes_next]"

theorem libraries_agree_witness:
  "run_net (str_conn ''/calld'') str_tick (str_acc 3 8) two_clients str_ex = [Inr 203, Inr 0]
   \<and> run_net (sock_conn unix_sys_ex ''/calld'') sock_tick (sock_acc unix_sys_ex (replicate 104 (CHR ''x'')) 5) two_clients unix_net_ex
     = [Inr 203, Inl (-5)]"
proof -
  define junk where "junk = replicate 104 (CHR ''x'')"
  have sys: "sizes_ok unix_sys_ex" "length junk = SUN_PATH unix_sys_ex" "length ''/calld'' < SUN_PATH unix_sys_ex"
    by (simp_all add: sizes_ok_def junk_def)
  have can: "all_can (str_conn ''/calld'') str_tick (str_acc 3 8) (str_can 3 ''/calld'') two_clients str_ex" "arrivals str_ex 3 = []"
    by (simp_all add: two_clients_def str_can_def str_ex_def str_conn_def user_of_def svr4_cli_conn_def open_name_def isastream_def
        str_acc_def svr4_serv_accept_def str_tick_def)
  have none: "sock_pids unix_sys_ex unix_net_ex [] []" by (simp add: sock_pids_def)
  have inv: "sock_waiting unix_sys_ex junk ''/calld'' 5 unix_net_ex (clock unix_net_ex) []"
    using sys none by (auto simp: sock_waiting_def)
  have c1: "sock_can unix_sys_ex ''/calld'' (4711, 203, 5) unix_net_ex" by (simp add: sock_can_def)
  define s1 where "s1 = sock_tick 30 (sock_conn unix_sys_ex ''/calld'' (4711, 203, 5) unix_net_ex)"
  have u: "undeletable s1 = {}" "servers s1 = {''/calld''}"
    unfolding s1_def cli_conn_fresh [OF sys(1,3) c1] by (simp_all add: sock_tick_def)
  have "sock_pids unix_sys_ex s1 [4711] [(203, clock unix_net_ex)]"
    using sock_comes [OF sys(1,3) none c1] by (simp add: s1_def sock_pids_def sock_tick_def named_client_def)
  from sock_accept_first [OF sys(1,2) _ this, of 5]
  obtain a t where t: "sock_acc unix_sys_ex junk 5 s1 = Some (a, t)" "pending t = []" "undeletable t = {}" "servers t = {''/calld''}"
    by (auto simp: u)
  have w: "sock_acc unix_sys_ex junk 5 t = None" by (simp add: sock_acc_def serv_accept_def t(2))
  have "all_can (sock_conn unix_sys_ex ''/calld'') sock_tick (sock_acc unix_sys_ex junk 5) (sock_can unix_sys_ex ''/calld'') two_clients unix_net_ex"
    using c1 by (simp only: two_clients_def all_can.simps t(1) w option.case prod.case flip: s1_def) (simp add: t w sock_can_def)
  from libraries_agree [OF can inv this] show ?thesis
    by (simp add: two_clients_def user_of_def no_limit_def age_limit_def STALE_def flip: junk_def)
qed

end
