(* ===== verification/Forks.thy ===== *)
theory Forks
  imports Threads
begin

text \<open>
  What fork and vfork do to a process (proc/fork1.c, vfork1.c) and to its family (fork2.c). fork copies the
  memory with what the standard output still holds; vfork lets the child run in the parent's memory.
\<close>

section \<open>Memory and standard output\<close>

text \<open>\<open>held\<close> is what printf has put into the buffer of the stream and was not written yet.\<close>

record memory =
  glob :: int
  var :: int
  held :: string

text \<open>A stream to a terminal (\<open>tty\<close>) is written at every newline, one to a file when the process ends.\<close>

definition printf :: "bool \<Rightarrow> string \<Rightarrow> string \<times> memory \<Rightarrow> string \<times> memory" where
  "printf tty t om =
     (let b = held (snd om) @ t in
      if tty then let k = length (takeWhile (\<lambda>c. c \<noteq> NL) (rev b)) in (fst om @ take (length b - k) b, (snd om)\<lparr>held := drop (length b - k) b\<rparr>)
      else (fst om, (snd om)\<lparr>held := b\<rparr>))"

definition flush :: "string \<times> memory \<Rightarrow> string \<times> memory" where
  "flush om = (fst om @ held (snd om), (snd om)\<lparr>held := []\<rparr>)"

definition values_text :: "int \<Rightarrow> memory \<Rightarrow> string" where
  "values_text pid m = ''pid = '' @ deci pid @ '', glob = '' @ deci (glob m) @ '', var = '' @ deci (var m) @ [NL]"

definition modify :: "memory \<Rightarrow> memory" where
  "modify m = m\<lparr>glob := glob m + 1, var := var m + 1\<rparr>"

section \<open>fork1.c\<close>

datatype fork_pc = AtSleep | AtPrintf | AtFlush | Over

record forks =
  written :: string
  mem :: "bool \<Rightarrow> memory" \<comment> \<open>True is the parent\<close>
  pc :: "bool \<Rightarrow> fork_pc"

definition write_text :: string where "write_text = ''a write to stdout'' @ [NL]"

definition before_fork :: string where "before_fork = ''before fork'' @ [NL]"

definition before_vfork :: string where "before_vfork = ''before vfork'' @ [NL]"

text \<open>The part before fork, and fork.\<close>

definition fork_init :: "bool \<Rightarrow> forks" where
  "fork_init tty =
     (let (out, m) = printf tty before_fork (write_text, \<lparr>glob = 6, var = 88, held = []\<rparr>)
      in \<lparr>written = out, mem = (\<lambda>_. m), pc = (\<lambda>_. AtSleep)\<rparr>)"

definition io_step :: "bool \<Rightarrow> fork_pc \<Rightarrow> (string \<times> memory \<Rightarrow> string \<times> memory) \<Rightarrow> forks \<Rightarrow> forks" where
  "io_step who p f s =
     (let (out, m) = f (written s, mem s who) in s\<lparr>written := out, mem := (mem s)(who := m), pc := (pc s)(who := p)\<rparr>)"

fun fork_do :: "bool \<Rightarrow> (bool \<Rightarrow> int) \<Rightarrow> bool \<Rightarrow> forks \<Rightarrow> forks outcome" where
  "fork_do tty pid who s =
     (case pc s who of
        AtSleep \<Rightarrow> Goes (io_step who AtPrintf (\<lambda>(out, m). (out, if who then m else modify m)) s)
      | AtPrintf \<Rightarrow> Goes (io_step who AtFlush (printf tty (values_text (pid who) (mem s who))) s)
      | AtFlush \<Rightarrow> Goes (io_step who Over flush s)
      | Over \<Rightarrow> Waits)"

declare fork_do.simps [simp del]

inductive fork_step :: "bool \<Rightarrow> (bool \<Rightarrow> int) \<Rightarrow> forks \<Rightarrow> forks \<Rightarrow> bool" for tty :: bool and pid :: "bool \<Rightarrow> int" where
  "fork_do tty pid who s = Goes s' \<Longrightarrow> fork_step tty pid s s'"

inductive_cases fork_stepE: "fork_step tty pid s s'"

section \<open>vfork1.c\<close>

text \<open>The child changes the memory and ends with _exit, which writes no stream; then the parent goes on.\<close>

definition vfork1_main :: "bool \<Rightarrow> int \<Rightarrow> string" where
  "vfork1_main tty pid =
     (let (out, m) = printf tty before_vfork ([], \<lparr>glob = 6, var = 88, held = []\<rparr>);
          m = modify m
      in fst (flush (printf tty (values_text pid m) (out, m))))"

section \<open>What is printed\<close>

lemma printf_line: "printf tty (t @ [NL]) (out, m\<lparr>held := h\<rparr>) = (if tty then (out @ h @ t @ [NL], m\<lparr>held := []\<rparr>) else (out, m\<lparr>held := h @ t @ [NL]\<rparr>))"
  by (simp add: printf_def)

text \<open>What each of the two processes writes in all.\<close>

definition start_mem :: memory where "start_mem = \<lparr>glob = 6, var = 88, held = []\<rparr>"

definition end_text :: "(bool \<Rightarrow> int) \<Rightarrow> bool \<Rightarrow> string" where
  "end_text pid who = values_text (pid who) (if who then start_mem else modify start_mem)"

definition chunk :: "bool \<Rightarrow> (bool \<Rightarrow> int) \<Rightarrow> bool \<Rightarrow> string" where
  "chunk tty pid who = (if tty then [] else before_fork) @ end_text pid who"

text \<open>Whether its text has been written, and what it holds at its position.\<close>

definition emitted :: "bool \<Rightarrow> fork_pc \<Rightarrow> bool" where
  "emitted tty p \<longleftrightarrow> p = Over \<or> tty \<and> p = AtFlush"

definition mem_at :: "bool \<Rightarrow> (bool \<Rightarrow> int) \<Rightarrow> bool \<Rightarrow> fork_pc \<Rightarrow> memory" where
  "mem_at tty pid who p =
     (if who \<or> p = AtSleep then start_mem else modify start_mem)\<lparr>held := (if tty then [] else case p of Over \<Rightarrow> [] | AtFlush \<Rightarrow> chunk tty pid who | _ \<Rightarrow> before_fork)\<rparr>"

definition fork_inv :: "bool \<Rightarrow> (bool \<Rightarrow> int) \<Rightarrow> forks \<Rightarrow> bool" where
  "fork_inv tty pid s \<longleftrightarrow> (\<forall>who. mem s who = mem_at tty pid who (pc s who))
     \<and> (\<exists>order. distinct order \<and> set order = {who. emitted tty (pc s who)}
         \<and> written s = write_text @ (if tty then before_fork else []) @ concat (map (chunk tty pid) order))"

lemma fork_inv_init: "fork_inv tty pid (fork_init tty)"
  using printf_line [of tty "''before fork''" write_text "[]" start_mem]
  by (auto simp: fork_inv_def fork_init_def before_fork_def start_mem_def mem_at_def emitted_def intro!: exI [of _ "[]"])

text \<open>A step that writes nothing, and one that writes the whole text of its process.\<close>

lemma fork_inv_silent:
  assumes "fork_inv tty pid s" "emitted tty p = emitted tty (pc s who)"
  shows "fork_inv tty pid (s\<lparr>mem := (mem s)(who := mem_at tty pid who p), pc := (pc s)(who := p)\<rparr>)"
proof -
  have "emitted tty (((pc s)(who := p)) w) = emitted tty (pc s w)" for w using assms(2) by (cases "w = who") simp_all
  then show ?thesis using assms(1) by (auto simp: fork_inv_def)
qed

lemma fork_inv_writes:
  assumes "fork_inv tty pid s" "\<not> emitted tty (pc s who)" "emitted tty p"
  shows "fork_inv tty pid (s\<lparr>written := written s @ chunk tty pid who, mem := (mem s)(who := mem_at tty pid who p), pc := (pc s)(who := p)\<rparr>)"
proof -
  obtain order where o: "distinct order" "set order = {w. emitted tty (pc s w)}"
    "written s = write_text @ (if tty then before_fork else []) @ concat (map (chunk tty pid) order)"
    using assms(1) by (auto simp: fork_inv_def)
  have "emitted tty (((pc s)(who := p)) w) \<longleftrightarrow> w = who \<or> emitted tty (pc s w)" for w using assms(3) by (cases "w = who") simp_all
  then have "{w. emitted tty (((pc s)(who := p)) w)} = insert who {w. emitted tty (pc s w)}" by blast
  then show ?thesis using assms o by (auto simp: fork_inv_def intro!: exI [of _ "order @ [who]"])
qed

lemma values_text_held [simp]: "values_text pid (m\<lparr>held := h\<rparr>) = values_text pid m"
  by (simp add: values_text_def)

lemma printf_values:
  "printf tty (values_text pid m) (out, m'\<lparr>held := h\<rparr>)
     = (if tty then (out @ h @ values_text pid m, m'\<lparr>held := []\<rparr>) else (out, m'\<lparr>held := h @ values_text pid m\<rparr>))"
  using printf_line [of tty "''pid = '' @ deci pid @ '', glob = '' @ deci (glob m) @ '', var = '' @ deci (var m)" out h m']
  by (simp add: values_text_def)

lemma fork_inv_step:
  assumes "fork_step tty pid s s'" "fork_inv tty pid s"
  shows "fork_inv tty pid s'"
proof -
  obtain who where d: "fork_do tty pid who s = Goes s'" using assms(1) by (auto elim: fork_stepE)
  have m: "mem s who = mem_at tty pid who (pc s who)" using assms(2) by (simp add: fork_inv_def)
  note d' = d [unfolded fork_do.simps]
  show ?thesis
  proof (cases "pc s who")
    case AtSleep
    then have "s' = s\<lparr>mem := (mem s)(who := mem_at tty pid who AtPrintf), pc := (pc s)(who := AtPrintf)\<rparr>"
      using d' m AtSleep by (cases tty; cases who) (auto simp: io_step_def mem_at_def modify_def start_mem_def)
    then show ?thesis using fork_inv_silent [OF assms(2), of AtPrintf who] AtSleep by (simp add: emitted_def)
  next
    case AtPrintf
    let ?m = "if who then start_mem else modify start_mem"
    have "mem s who = ?m\<lparr>held := (if tty then [] else before_fork)\<rparr>" using m AtPrintf by (simp add: mem_at_def)
    then have e: "s' = (if tty then s\<lparr>written := written s @ chunk tty pid who, mem := (mem s)(who := mem_at tty pid who AtFlush), pc := (pc s)(who := AtFlush)\<rparr>
        else s\<lparr>mem := (mem s)(who := mem_at tty pid who AtFlush), pc := (pc s)(who := AtFlush)\<rparr>)"
      using d' AtPrintf by (cases tty; cases who) (auto simp: io_step_def printf_values mem_at_def chunk_def end_text_def)
    show ?thesis
    proof (cases tty)
      case True
      then show ?thesis using fork_inv_writes [OF assms(2), of who AtFlush] AtPrintf e by (simp add: emitted_def)
    next
      case False
      then show ?thesis using fork_inv_silent [OF assms(2), of AtFlush who] AtPrintf e by (simp add: emitted_def)
    qed
  next
    case AtFlush
    then have e: "s' = (if tty then s\<lparr>mem := (mem s)(who := mem_at tty pid who Over), pc := (pc s)(who := Over)\<rparr>
        else s\<lparr>written := written s @ chunk tty pid who, mem := (mem s)(who := mem_at tty pid who Over), pc := (pc s)(who := Over)\<rparr>)"
      using d' m AtFlush by (cases tty; cases who) (auto simp: io_step_def flush_def mem_at_def)
    show ?thesis
    proof (cases tty)
      case True
      then show ?thesis using fork_inv_silent [OF assms(2), of Over who] AtFlush e by (simp add: emitted_def)
    next
      case False
      then show ?thesis using fork_inv_writes [OF assms(2), of who Over] AtFlush e by (simp add: emitted_def)
    qed
  qed (use d' in simp)
qed

text \<open>The steps that are left.\<close>

definition pc_rank :: "fork_pc \<Rightarrow> nat" where
  "pc_rank p = (case p of AtSleep \<Rightarrow> 3 | AtPrintf \<Rightarrow> 2 | AtFlush \<Rightarrow> 1 | Over \<Rightarrow> 0)"

definition fork_rank :: "forks \<Rightarrow> nat" where
  "fork_rank s = pc_rank (pc s True) + pc_rank (pc s False)"

lemma fork_do_pc: "fork_do tty pid who s = Goes s' \<Longrightarrow> \<exists>p. pc s' = (pc s)(who := p) \<and> pc_rank p < pc_rank (pc s who)"
  by (auto simp: fork_do.simps io_step_def pc_rank_def split: fork_pc.splits prod.splits)

lemma fork_rank_step: "fork_step tty pid s s' \<Longrightarrow> fork_rank s' < fork_rank s"
proof (elim fork_stepE)
  fix who
  assume "fork_do tty pid who s = Goes s'"
  from fork_do_pc [OF this] show ?thesis by (cases who) (auto simp: fork_rank_def)
qed

interpretation fk: ranked_system "fork_init tty" "fork_step tty pid" "fork_inv tty pid" fork_rank for tty pid
  by unfold_locales (auto intro: fork_inv_init fork_inv_step fork_rank_step)

lemma fork_stuck: "(\<nexists>s'. fork_step tty pid s s') \<longleftrightarrow> pc s True = Over \<and> pc s False = Over"
proof
  assume n: "\<nexists>s'. fork_step tty pid s s'"
  have "pc s who = Over" for who
  proof (rule ccontr)
    assume "pc s who \<noteq> Over"
    then obtain s' where "fork_do tty pid who s = Goes s'" by (cases "pc s who") (auto simp: fork_do.simps)
    with n show False by (blast intro: fork_step.intros)
  qed
  then show "pc s True = Over \<and> pc s False = Over" by simp
next
  assume o: "pc s True = Over \<and> pc s False = Over"
  have "fork_do tty pid who s = Waits" for who using o by (cases who) (simp_all add: fork_do.simps)
  then show "\<nexists>s'. fork_step tty pid s s'" by (auto elim!: fork_stepE)
qed

text \<open>
  C39: Both processes come to their end within six steps, in either order. The line before fork is written once to a terminal and
  twice to a file, because each process has its copy of the buffer; only the child sees its own changes.
\<close>
theorem fork_copies_buffer:
  assumes "reach (fork_step tty pid) (fork_init tty) s"
  shows "(\<exists>k t. (fork_step tty pid ^^ k) s t \<and> k \<le> 6 \<and> (\<nexists>u. fork_step tty pid t u))
    \<and> ((\<nexists>u. fork_step tty pid s u) \<longrightarrow>
      (\<exists>a b. {a, b} = {values_text (pid True) \<lparr>glob = 6, var = 88, held = []\<rparr>, values_text (pid False) \<lparr>glob = 7, var = 89, held = []\<rparr>}
        \<and> written s = (if tty then write_text @ before_fork @ a @ b else write_text @ before_fork @ a @ before_fork @ b)))"
proof -
  obtain k t where t: "(fork_step tty pid ^^ k) s t" "k \<le> fork_rank s" "\<nexists>u. fork_step tty pid t u"
    using fk.comes_to_end [OF assms] by blast
  have "fork_rank s \<le> 6" by (auto simp: fork_rank_def pc_rank_def split: fork_pc.splits)
  with t have ends: "\<exists>k t. (fork_step tty pid ^^ k) s t \<and> k \<le> 6 \<and> (\<nexists>u. fork_step tty pid t u)" by (blast intro: le_trans)
  have texts: "end_text pid True = values_text (pid True) \<lparr>glob = 6, var = 88, held = []\<rparr>"
    "end_text pid False = values_text (pid False) \<lparr>glob = 7, var = 89, held = []\<rparr>"
    by (simp_all add: end_text_def start_mem_def modify_def)
  have "\<exists>a b. {a, b} = {end_text pid True, end_text pid False}
      \<and> written s = (if tty then write_text @ before_fork @ a @ b else write_text @ before_fork @ a @ before_fork @ b)"
    if "\<nexists>u. fork_step tty pid s u"
  proof -
    have over: "pc s who = Over" for who using that fork_stuck by (cases who) auto
    obtain order where o: "distinct order" "set order = UNIV"
      "written s = write_text @ (if tty then before_fork else []) @ concat (map (chunk tty pid) order)"
      using fk.reach_inv [OF assms] by (auto simp: fork_inv_def emitted_def over)
    have "length order = 2" using o(1,2) distinct_card [OF o(1)] by (simp add: card_UNIV_bool)
    then obtain x y where xy: "order = [x, y]" by (auto simp: numeral_2_eq_2 length_Suc_conv)
    then have "y = (\<not> x)" using o(1) by (cases x; cases y) auto
    then show ?thesis using o(3) xy by (cases x) (auto simp: chunk_def)
  qed
  then show ?thesis using ends unfolding texts by blast
qed

text \<open>
  After vfork there is one buffer: the line before is written once in every case, and the parent sees the changes of the child.
\<close>
theorem vfork_shares_memory:
  "vfork1_main tty pid = before_vfork @ values_text pid \<lparr>glob = 7, var = 89, held = []\<rparr>"
proof -
  have l: "printf y before_vfork ([], \<lparr>glob = 6, var = 88, held = []\<rparr>)
      = (if y then (before_vfork, \<lparr>glob = 6, var = 88, held = []\<rparr>) else ([], \<lparr>glob = 6, var = 88, held = before_vfork\<rparr>))" for y
    using printf_line [of y "''before vfork''" "[]" "[]" start_mem] by (simp add: before_vfork_def start_mem_def)
  let ?m = "\<lparr>glob = 7, var = 89, held = []\<rparr>"
  have p: "printf y (values_text pid ?m) (out, \<lparr>glob = 7, var = 89, held = h\<rparr>)
      = (if y then (out @ h @ values_text pid ?m, ?m) else (out, \<lparr>glob = 7, var = 89, held = h @ values_text pid ?m\<rparr>))" for y out h
    using printf_values [of y pid ?m out h ?m] by simp
  have "values_text pid \<lparr>glob = 7, var = 89, held = before_vfork\<rparr> = values_text pid ?m" by (simp add: values_text_def)
  then show ?thesis by (cases tty) (simp_all add: vfork1_main_def l modify_def flush_def p Let_def)
qed

section \<open>fork2.c\<close>

text \<open>
  The process, its child and the child of that one. init collects at once what becomes its own; a process that has
  ended and was not waited for is a zombie. The sleep of two seconds orders nothing.
\<close>

datatype member = Original | FirstChild | SecondChild

datatype parent_of = TheFirst | Init

datatype first_pc = Forks | FirstExits | FirstZombie | FirstReaped

datatype second_pc = Unborn | Sleeps | SecondExits | SecondZombie | SecondReaped

record family =
  orig_over :: bool
  first_at :: first_pc
  second_at :: second_pc
  getppid :: parent_of
  second_said :: "parent_of option"

fun family_do :: "member \<Rightarrow> family \<Rightarrow> family outcome" where
  "family_do Original s =
     (if \<not> orig_over s \<and> first_at s = FirstZombie then Goes (s\<lparr>first_at := FirstReaped, orig_over := True\<rparr>) else Waits)"
| "family_do FirstChild s =
     (case first_at s of
        Forks \<Rightarrow> Goes (s\<lparr>first_at := FirstExits, second_at := Sleeps, getppid := TheFirst\<rparr>)
      | FirstExits \<Rightarrow> Goes (s\<lparr>first_at := FirstZombie, getppid := Init,
          second_at := (if second_at s = SecondZombie then SecondReaped else second_at s)\<rparr>)
      | _ \<Rightarrow> Waits)"
| "family_do SecondChild s =
     (case second_at s of
        Sleeps \<Rightarrow> Goes (s\<lparr>second_at := SecondExits, second_said := Some (getppid s)\<rparr>)
      | SecondExits \<Rightarrow> Goes (s\<lparr>second_at := (if getppid s = Init then SecondReaped else SecondZombie)\<rparr>)
      | _ \<Rightarrow> Waits)"

definition family_init :: family where
  "family_init = \<lparr>orig_over = False, first_at = Forks, second_at = Unborn, getppid = TheFirst, second_said = None\<rparr>"

inductive family_step :: "family \<Rightarrow> family \<Rightarrow> bool" where
  "family_do m s = Goes s' \<Longrightarrow> family_step s s'"

inductive_simps family_step_iff: "family_step s s'"

definition family_rank :: "family \<Rightarrow> nat" where
  "family_rank s = (if orig_over s then 0 else 1) + (case first_at s of Forks \<Rightarrow> 4 | FirstExits \<Rightarrow> 1 | _ \<Rightarrow> 0)
     + (case second_at s of Sleeps \<Rightarrow> 2 | SecondExits \<Rightarrow> 1 | _ \<Rightarrow> 0)"

abbreviation members :: "member list" where "members \<equiv> [Original, FirstChild, SecondChild]"

abbreviation family_found :: "family list" where
  "family_found \<equiv> explore 100 (event_succs family_do members) [family_init] []"

lemma family_closed: "closed_states (event_succs family_do members) family_init family_found"
  by code_simp

lemma family_ranked: "list_all (\<lambda>s. list_all (\<lambda>t. family_rank t < family_rank s) (event_succs family_do members s)) family_found"
  by code_simp

lemma all_members: "m \<in> set members"
  by (cases m) simp_all

interpretation fam: explored_ranked family_init family_step family_do members 100 family_rank
  by unfold_locales (rule family_step_iff all_members family_closed family_ranked)+

definition no_zombies :: "family \<Rightarrow> bool" where
  "no_zombies s \<longleftrightarrow> (event_succs family_do members s = [] \<longrightarrow> orig_over s \<and> first_at s = FirstReaped \<and> second_at s = SecondReaped)
     \<and> (first_at s \<in> set [FirstZombie, FirstReaped] \<longrightarrow> getppid s = Init \<and> second_at s \<noteq> SecondZombie) \<and> family_rank s \<le> 5"

lemma family_good: "list_all no_zombies family_found"
  by code_simp

text \<open>
  In every order the three processes end within five steps and no zombie is left; once the first child has ended
  none is left behind by the second, whose parent is init.
\<close>
theorem fork2_no_zombie:
  assumes "reach family_step family_init s"
  shows "(\<exists>k t. (family_step ^^ k) s t \<and> k \<le> 5 \<and> orig_over t \<and> first_at t = FirstReaped \<and> second_at t = SecondReaped)
    \<and> (first_at s = FirstZombie \<or> first_at s = FirstReaped \<longrightarrow> getppid s = Init \<and> second_at s \<noteq> SecondZombie)"
proof -
  obtain k t where t: "(family_step ^^ k) s t" "k \<le> family_rank s" "reach family_step family_init t" "\<nexists>u. family_step t u"
    using fam.comes_to_end [OF assms] by blast
  have "no_zombies t" "no_zombies s" using fam.holds_everywhere [OF family_good] t(3) assms by blast+
  then show ?thesis using t fam.stuck_iff [of t] by (auto simp: no_zombies_def intro: le_trans)
qed

text \<open>The second child can print its first parent all the same, when that one is slow.\<close>

lemma fork2_prints_first: "\<exists>s. reach family_step family_init s \<and> second_said s = Some TheFirst"
proof -
  have "case run_events family_do [FirstChild, SecondChild] family_init of None \<Rightarrow> False | Some s \<Rightarrow> second_said s = Some TheFirst"
    by code_simp
  from fam.run_holds [OF this] show ?thesis .
qed

section \<open>Witnesses\<close>

theorem fork_copies_buffer_witness:
  "\<exists>k t. (fork_step False (\<lambda>p. if p then 10 else 11) ^^ k) (fork_init False) t \<and> k \<le> 6 \<and> (\<nexists>u. fork_step False (\<lambda>p. if p then 10 else 11) t u)"
  using fork_copies_buffer [OF reach.start, of False "\<lambda>p. if p then 10 else 11"] by blast

theorem fork2_no_zombie_witness: "\<exists>k t. (family_step ^^ k) family_init t \<and> k \<le> 5 \<and> second_at t = SecondReaped"
  using fork2_no_zombie [OF reach.start] by blast

end
