(* ===== verification/LibRoutines.thy ===== *)
theory LibRoutines
  imports Connect ExitTable
begin

text \<open>
  Smaller routines of the library: sleepus.c of two systems, strerror.c, prmask.c and nspipe.c in lib.sun and
  lib.svr4, getpwnam (datafiles/ourhdr.h), and the program doatexit.c (environ/ourhdr.h), which runs the
  exit functions of ExitTable.
\<close>

section \<open>sleepus.c\<close>

text \<open>The arguments of select (seconds and microseconds) and of poll (milliseconds).\<close>

definition sleep_us_sun :: "32 word \<Rightarrow> int \<times> int" where
  "sleep_us_sun nusecs = (uint (nusecs div 1000000), uint (nusecs mod 1000000))"

definition sleep_us_svr4 :: "32 word \<Rightarrow> int" where
  "sleep_us_svr4 nusecs = (let timeout = sint (nusecs div 1000) in if timeout \<le> 0 then 1 else timeout)"

text \<open>
  With select the time is exact. With poll it is rounded down to milliseconds, but at least one: a sleep
  can end up to 999 microseconds too early, and a sleep of no time lasts a millisecond.
\<close>
theorem sleep_us_times:
  "(case sleep_us_sun n of (sec, usec) \<Rightarrow> 1000000 * sec + usec = uint n \<and> 0 \<le> usec \<and> usec < 1000000)
   \<and> (let t = 1000 * sleep_us_svr4 n in if uint n < 1000 then t = 1000 else t \<le> uint n \<and> uint n < t + 1000)"
proof -
  have b: "0 \<le> uint n" "uint n < 2 ^ 32" using uint_bounded [of n] by simp_all
  have q: "uint (n div 1000) = uint n div 1000" "uint (n div 1000000) = uint n div 1000000" "uint (n mod 1000000) = uint n mod 1000000"
    by (simp_all add: uint_div_distrib uint_mod_distrib)
  have "uint n div 1000 < 2 ^ 31" using b by simp
  moreover have "- (2 ^ 31) \<le> uint n div 1000" using pos_imp_zdiv_nonneg_iff [of 1000 "uint n"] b(1) by simp
  ultimately have "sint (n div 1000) = uint n div 1000"
    using signed_take_bit_int_eq_self [of 31 "uint n div 1000"] by (simp add: sint_uint q)
  then have s: "sleep_us_svr4 n = (if uint n div 1000 \<le> 0 then 1 else uint n div 1000)" by (simp add: sleep_us_svr4_def Let_def)
  have division: "1000 * (uint n div 1000) + uint n mod 1000 = uint n" "0 \<le> uint n mod 1000" "uint n mod 1000 < 1000"
    "uint n div 1000 \<le> 0 \<longleftrightarrow> uint n < 1000"
    using b(1) zdiv_mono1 [of 1000 "uint n" 1000] by (auto simp: div_pos_pos_trivial not_less)
  show ?thesis
  proof (rule conjI)
    show "case sleep_us_sun n of (sec, usec) \<Rightarrow> 1000000 * sec + usec = uint n \<and> 0 \<le> usec \<and> usec < 1000000"
      by (simp add: sleep_us_sun_def q)
    show "let t = 1000 * sleep_us_svr4 n in if uint n < 1000 then t = 1000 else t \<le> uint n \<and> uint n < t + 1000"
      unfolding s Let_def using division by auto
  qed
qed

section \<open>strerror.c\<close>

text \<open>\<open>errlist\<close> is the table of the system, sys_nerr its length.\<close>

definition c_strerror :: "string list \<Rightarrow> int \<Rightarrow> string res" where
  "c_strerror errlist error =
     (let sys_nerr = int (length errlist) in
      if 0 \<le> error \<and> error \<le> sys_nerr then (if error < sys_nerr then Inr (errlist ! nat error) else Inl (UB ''sys_errlist index''))
      else let mesg = ''Unknown error ('' @ deci error @ '')'' in
        if 30 < length mesg + 1 then Inl (UB ''sprintf into mesg'') else Inr mesg)"

text \<open>
  Every number in the table gives its text and the buffer has room for every other number, but the first
  number behind the table reads past its end.
\<close>
theorem strerror_bounds:
  assumes "int_ok error"
  shows "c_strerror errlist error =
    (if 0 \<le> error \<and> error < int (length errlist) then Inr (errlist ! nat error)
     else if error = int (length errlist) then Inl (UB ''sys_errlist index'')
     else Inr (''Unknown error ('' @ deci error @ '')''))"
proof -
  have "nat error < 10 ^ 10" "nat (- error) < 10 ^ 10" using assms by (auto simp: int_ok_def)
  then have "length (deci error) \<le> 11"
    using length_dec [of 10 "nat error"] length_dec [of 10 "nat (- error)"] by (auto simp: deci_def)
  then show ?thesis by (auto simp: c_strerror_def Let_def)
qed

section \<open>prmask.c\<close>

record mask_io = proc_io +
  p_errno :: int
  p_out :: string

text \<open>\<open>sigset\<close> is what sigprocmask stores (None: it fails), \<open>e\<close> the error number that the calls leave behind.\<close>

definition pr_mask :: "(string \<Rightarrow> bool) option \<Rightarrow> int \<Rightarrow> string \<Rightarrow> 'a mask_io_scheme \<Rightarrow> 'a mask_io_scheme res" where
  "pr_mask sigset e str s =
     (let errno_save = p_errno s; s = s\<lparr>p_errno := e\<rparr> in
      case sigset of None \<Rightarrow> err_sys ''sigprocmask error'' s
      | Some m \<Rightarrow> Inr (s\<lparr>p_out := p_out s @ str @ concat (map (\<lambda>n. if m n then n @ '' '' else []) [''SIGINT'', ''SIGQUIT'', ''SIGUSR1'', ''SIGALRM'']) @ [NL],
          p_errno := errno_save\<rparr>))"

section \<open>nspipe.c\<close>

text \<open>A stream pipe with a name for its first end: the pipe is None when it cannot be made.\<close>

definition ns_pipe :: "unix_sys \<Rightarrow> (int \<times> int) option \<Rightarrow> bool \<Rightarrow> int \<Rightarrow> string \<Rightarrow> 'a unix_net_scheme \<Rightarrow> (int \<times> 'a unix_net_scheme) res" where
  "ns_pipe sys fd bind_ok uid name s =
     (case fd of None \<Rightarrow> Inr (-1, s)
      | Some fds \<Rightarrow>
          let s = unlink name s in
          if SUN_PATH sys \<le> length name then Inl (UB ''strcpy: sun_path'') else Inr (bind_name bind_ok uid name s))"

text \<open>When it succeeds the name is a fresh socket of the caller; a name that cannot be removed makes it fail and stays as it was.\<close>
theorem ns_pipe_names:
  assumes "ns_pipe sys (Some fds) bind_ok uid name s = Inr (r, s')"
  shows "(r = 0 \<longrightarrow> (\<exists>n. inodes s' name = Some n \<and> st_sock n \<and> st_uid n = uid \<and> st_ctime n = clock s))
    \<and> (name \<in> undeletable s \<and> inodes s name \<noteq> None \<longrightarrow> r = -1 \<and> s' = s) \<and> (\<forall>other. other \<noteq> name \<longrightarrow> inodes s' other = inodes s other)"
  using assms by (auto simp: ns_pipe_def bind_name_def unlink_def Let_def split: if_splits)

section \<open>getpwnam\<close>

text \<open>The password file that getpwent reads: its entries by name, what is left to read, and whether it is open.\<close>

record 'e pwfile =
  pw_all :: "(string \<times> 'e) list"
  pw_left :: "(string \<times> 'e) list"
  pw_open :: bool

definition setpwent :: "'e pwfile \<Rightarrow> 'e pwfile" where
  "setpwent s = s\<lparr>pw_left := pw_all s, pw_open := True\<rparr>"

definition endpwent :: "'e pwfile \<Rightarrow> 'e pwfile" where
  "endpwent s = s\<lparr>pw_left := pw_all s, pw_open := False\<rparr>"

fun getpwent :: "'e pwfile \<Rightarrow> (string \<times> 'e) option \<times> 'e pwfile" where
  "getpwent s = (case pw_left s of [] \<Rightarrow> (None, s) | p # ps \<Rightarrow> (Some p, s\<lparr>pw_left := ps\<rparr>))"

function pw_loop :: "string \<Rightarrow> 'e pwfile \<Rightarrow> (string \<times> 'e) option \<times> 'e pwfile" where
  "pw_loop name s =
     (case getpwent s of (None, s) \<Rightarrow> (None, s) | (Some p, s) \<Rightarrow> if name = fst p then (Some p, s) else pw_loop name s)"
  by pat_completeness auto
termination
  by (relation "measure (\<lambda>(name, s). length (pw_left s))") (auto split: list.splits)

declare pw_loop.simps [simp del]

definition getpwnam :: "string \<Rightarrow> 'e pwfile \<Rightarrow> (string \<times> 'e) option \<times> 'e pwfile" where
  "getpwnam name s = (let (p, s) = pw_loop name (setpwent s) in (p, endpwent s))"

lemma pw_loop_find: "\<exists>s'. pw_loop name s = (find (\<lambda>p. name = fst p) (pw_left s), s') \<and> pw_all s' = pw_all s"
proof (induction "pw_left s" arbitrary: s)
  case Nil
  then show ?case by (simp add: pw_loop.simps [of name s] flip: Nil)
next
  case (Cons p ps)
  have "pw_loop name s = (if name = fst p then (Some p, s\<lparr>pw_left := ps\<rparr>) else pw_loop name (s\<lparr>pw_left := ps\<rparr>))"
    by (simp add: pw_loop.simps [of name s] flip: Cons.hyps(2))
  then show ?case using Cons.hyps(1) [of "s\<lparr>pw_left := ps\<rparr>"] by (simp flip: Cons.hyps(2))
qed

text \<open>The first entry of the name is found wherever the file was before, and the file is closed in every case.\<close>
theorem getpwnam_first: "\<exists>s'. getpwnam name s = (find (\<lambda>p. name = fst p) (pw_all s), s') \<and> \<not> pw_open s' \<and> pw_left s' = pw_all s"
  using pw_loop_find [of name "setpwent s"] by (auto simp: getpwnam_def setpwent_def endpwent_def)

section \<open>doatexit.c\<close>

definition exit_say :: "string \<Rightarrow> 'a exits_scheme \<Rightarrow> 'a exits_scheme" where
  "exit_say t s = s\<lparr>fd_out := (fd_out s)(1 := fd_out s 1 @ [(t @ [NL], None)])\<rparr>"

text \<open>my_exit1 and my_exit2 are the functions 1 and 2.\<close>

definition my_exit :: "nat \<Rightarrow> 'a exits_scheme \<Rightarrow> 'a exits_scheme res" where
  "my_exit fn s = Inr (exit_say (if fn = 1 then ''first exit handler'' else ''second exit handler'') s)"

definition atexit_or :: "nat \<Rightarrow> string \<Rightarrow> 'a exits_scheme \<Rightarrow> 'a exits_scheme res" where
  "atexit_or fn msg s = bindR (c_atexit fn s) (\<lambda>(r, s). if r \<noteq> 0 then err_sys msg s else Inr s)"

definition doatexit_main :: "'a exits_scheme \<Rightarrow> (int \<times> 'a exits_scheme) res" where
  "doatexit_main s =
     bindR (atexit_or 2 ''can't register my_exit2'' s) (\<lambda>s.
     bindR (atexit_or 1 ''can't register my_exit1'' s) (\<lambda>s.
     bindR (atexit_or 1 ''can't register my_exit1'' s) (\<lambda>s.
     c_exit my_exit 0 (exit_say ''main is done'' s))))"

lemma atexit_or_holds:
  "holds_fns fns s \<Longrightarrow> length fns < ATEXIT_SIZE \<Longrightarrow> \<exists>t. atexit_or fn msg s = Inr t \<and> holds_fns (fns @ [fn]) t \<and> exit_core t = exit_core s"
  using atexit_holds [of fns s fn] c_atexit_core [of fn s 0] by (auto simp: atexit_or_def)

lemma fd_out_core: "exit_core t = exit_core s \<Longrightarrow> fd_out t = fd_out s"
  unfolding exit_core_def by (cases s; cases t) simp

text \<open>The functions run after main, in the reverse order of their registration, and one that was registered twice runs twice.\<close>
theorem doatexit_order:
  assumes "exit_tabs s = [static_tab]" "exit_top s = None"
  shows "\<exists>t. doatexit_main s = Inr (0, t) \<and> map fst (fd_out t 1)
    = map fst (fd_out s 1) @ map (\<lambda>l. l @ [NL]) [''main is done'', ''first exit handler'', ''first exit handler'', ''second exit handler'']"
proof -
  have size: "3 < ATEXIT_SIZE" by (simp add: ATEXIT_SIZE_def)
  obtain a where a: "atexit_or 2 ''can't register my_exit2'' s = Inr a" "holds_fns [2] a" "exit_core a = exit_core s"
    using atexit_or_holds [OF holds_fns_start [OF assms], of 2] size by auto
  obtain b where b: "atexit_or 1 ''can't register my_exit1'' a = Inr b" "holds_fns [2, 1] b" "exit_core b = exit_core s"
    using atexit_or_holds [OF a(2), of 1] size a(3) by auto
  obtain c where c: "atexit_or 1 ''can't register my_exit1'' b = Inr c" "holds_fns [2, 1, 1] c" "exit_core c = exit_core s"
    using atexit_or_holds [OF b(2), of 1] size b(3) by auto
  have "holds_fns [2, 1, 1] (exit_say ''main is done'' c)" using c(2) by (simp add: holds_fns_def exit_say_def)
  from exit_holds [OF this, of my_exit 0]
  have "c_exit my_exit 0 (exit_say ''main is done'' c)
      = Inr (0, exit_say ''second exit handler'' (exit_say ''first exit handler'' (exit_say ''first exit handler'' (exit_say ''main is done'' c))))"
    by (simp add: my_exit_def exit_say_def)
  then show ?thesis using a(1) b(1) c(1) fd_out_core [OF c(3)] by (simp add: doatexit_main_def exit_say_def)
qed

section \<open>Witnesses\<close>

theorem strerror_bounds_witness: "c_strerror [''Success'', ''Not owner''] 2 = Inl (UB ''sys_errlist index'')"
  using strerror_bounds [of 2 "[''Success'', ''Not owner'']"] by (simp add: int_ok_def)

theorem ns_pipe_names_witness:
  "\<exists>s'. ns_pipe unix_sys_ex (Some (3, 4)) True 7 ''/tmp/np'' unix_net_ex = Inr (0, s') \<and> (\<exists>n. inodes s' ''/tmp/np'' = Some n \<and> st_uid n = 7)"
proof -
  obtain s' where s': "ns_pipe unix_sys_ex (Some (3, 4)) True 7 ''/tmp/np'' unix_net_ex = Inr (0, s')"
    by (simp add: ns_pipe_def bind_name_def unlink_def)
  with ns_pipe_names [OF s'] show ?thesis by blast
qed

theorem doatexit_order_witness:
  "\<exists>t. doatexit_main \<lparr>debug = 0, errno_text = [], stderr_out = [], syslog_out = [], heap = 1, rd_env = (\<lambda>_. []), wr_env = [], fd_out = (\<lambda>_. []),
     exit_tabs = [static_tab], exit_top = None\<rparr> = Inr (0, t) \<and> length (fd_out t 1) = 4"
proof -
  define s :: exits where "s = \<lparr>debug = 0, errno_text = [], stderr_out = [], syslog_out = [], heap = 1, rd_env = (\<lambda>_. []), wr_env = [],
     fd_out = (\<lambda>_. []), exit_tabs = [static_tab], exit_top = None\<rparr>"
  obtain t where t: "doatexit_main s = Inr (0, t)" "map fst (fd_out t 1)
      = map fst (fd_out s 1) @ map (\<lambda>l. l @ [NL]) [''main is done'', ''first exit handler'', ''first exit handler'', ''second exit handler'']"
    using doatexit_order [of s] by (auto simp: s_def)
  from arg_cong [OF t(2), of length] have "length (fd_out t 1) = 4" by (simp add: s_def)
  with t(1) show ?thesis unfolding s_def by blast
qed

end
