(* ===== verification/Excerpts.thy ===== *)
theory Excerpts
  imports LineProgs
begin

text \<open>
  Two of the excerpts: excerpts/msg.c, which sends a line to a queue of messages and shows one that it receives,
  and write_vms of excerpts/vms.c, which reports movements of a virtual mouse.
\<close>

section \<open>msg.c\<close>

definition BUFSZ :: nat where "BUFSZ = 512"

text \<open>The queue of the key (type and bytes of each message), and what was printed.\<close>

record msg_queue = proc_io +
  msgs :: "(int \<times> string) list"
  msg_out :: string

text \<open>
  The answers of the calls: whether ftok and msgget succeed, the number of the queue, the input, the process number, what
  msg_text held before (\<open>junk\<close>), and whether msgsnd, msgrcv and msgctl succeed.
\<close>

record msg_env =
  me_key :: bool
  me_qid :: int
  me_input :: string
  me_pid :: int
  me_junk :: string
  me_send :: bool
  me_receive :: bool
  me_remove :: bool

definition perror :: "string \<Rightarrow> 'a proc_io_scheme \<Rightarrow> 'b res" where
  "perror msg s = Inl (Exit 1 msg)"

definition message_line :: "string \<Rightarrow> 'a msg_queue_scheme \<Rightarrow> 'a msg_queue_scheme" where
  "message_line t s = s\<lparr>msg_out := msg_out s @ t @ [NL]\<rparr>"

text \<open>fgets into an array that held \<open>junk\<close>.\<close>

definition fgets_into :: "nat \<Rightarrow> string \<Rightarrow> string \<Rightarrow> string option" where
  "fgets_into n input junk =
     (if input = [] then None else let l = take_line (n - 1) input in Some (l @ [NUL] @ drop (length l + 1) junk))"

definition msg_main :: "msg_env \<Rightarrow> 'a msg_queue_scheme \<Rightarrow> 'a msg_queue_scheme res" where
  "msg_main e s =
     (if \<not> me_key e then perror ''ftok'' s
      else if me_qid e = -1 then perror ''msgget'' s
      else let s = message_line (''open msg queue:'' @ deci (me_qid e) @ '' '') s;
               s = message_line ''please intput a message to queue:'' s in
      case fgets_into BUFSZ (me_input e) (me_junk e) of
        None \<Rightarrow> perror ''fgets'' s
      | Some text \<Rightarrow>
          if \<not> me_send e \<or> me_pid e \<le> 0 then perror ''msgsnd'' s
          else let s = s\<lparr>msgs := msgs s @ [(me_pid e, text)]\<rparr> in
          if \<not> me_receive e then perror ''msgrcv'' s
          else case msgs s of
            [] \<Rightarrow> perror ''msgrcv'' s
          | (typ, m) # rest \<Rightarrow>
              if BUFSZ < length m then perror ''msgrcv'' s
              else let s = s\<lparr>msgs := rest\<rparr>; text' = m @ drop (length m) text in
              if NUL \<notin> set text' then Inl (UB ''printf: no NUL'')
              else let s = message_line (''message is : '' @ cstr text') s in
              if \<not> me_remove e then perror ''msgctl'' s else Inr (s\<lparr>msgs := []\<rparr>))"

section \<open>write_vms\<close>

datatype input_event = RelX int | RelY int | Syn

text \<open>The conversion %d of sscanf; None: no number could be read and nothing is stored.\<close>

definition scan_int :: "string \<Rightarrow> (int \<times> string) option" where
  "scan_int s =
     (let t = dropWhile (\<lambda>c. c \<in> set '' '' \<or> c = TAB \<or> c = NL \<or> c = CR) s;
          neg = (t \<noteq> [] \<and> hd t = CHR ''-'');
          u = (if t \<noteq> [] \<and> (hd t = CHR ''-'' \<or> hd t = CHR ''+'') then tl t else t);
          ds = takeWhile is_digit u; v = int (foldl (\<lambda>n c. 10 * n + digit_val c) 0 ds)
      in if ds = [] then None else Some (if neg then - v else v, dropWhile is_digit u))"

definition write_vms :: "string \<Rightarrow> nat \<Rightarrow> input_event list \<Rightarrow> (nat \<times> input_event list) res" where
  "write_vms buffer count evs =
     (case scan_int buffer of
        None \<Rightarrow> Inl (UB ''x is not initialised'')
      | Some (x, rest) \<Rightarrow>
          bindR (int_or_ub ''sscanf'' x) (\<lambda>x.
          case scan_int rest of
            None \<Rightarrow> Inl (UB ''y is not initialised'')
          | Some (y, rest) \<Rightarrow> bindR (int_or_ub ''sscanf'' y) (\<lambda>y. Inr (count, evs @ [RelX x, RelY y, Syn]))))"

section \<open>Facts\<close>

lemma cstr_buffer: "NUL \<notin> set l \<Longrightarrow> cstr (l @ NUL # r) = l"
  unfolding cstr_def by (induction l) auto

lemma message_line_msgs [simp]: "msgs (message_line t s) = msgs s"
  by (simp add: message_line_def)

text \<open>
  The program shows the oldest message of the queue: its own line only when the queue was empty. Afterwards
  the queue is gone, with its own line in it when it showed another one.
\<close>
theorem msg_shows_oldest:
  assumes "me_key e" "me_qid e \<noteq> -1" "0 < me_pid e" "me_send e" "me_receive e" "me_remove e"
    and input: "me_input e = l @ [NL]" "NL \<notin> set l" "NUL \<notin> set l" "length l + 1 < BUFSZ"
    and junk: "length (me_junk e) = BUFSZ" and old: "\<forall>m \<in> set (msgs s). \<exists>t r. snd m = t @ NUL # r \<and> NUL \<notin> set t \<and> length (snd m) \<le> BUFSZ"
  shows "\<exists>s'. msg_main e s = Inr s' \<and> msgs s' = []
    \<and> msg_out s' = msg_out s @ ''open msg queue:'' @ deci (me_qid e) @ '' '' @ [NL] @ ''please intput a message to queue:'' @ [NL]
        @ ''message is : '' @ (case msgs s of [] \<Rightarrow> l @ [NL] | m # _ \<Rightarrow> cstr (snd m)) @ [NL]"
proof -
  define tx where "tx = l @ NL # NUL # drop (length l + 2) (me_junk e)"
  have t: "fgets_into BUFSZ (me_input e) (me_junk e) = Some tx" "length tx = BUFSZ" "cstr tx = l @ [NL]" "NUL \<in> set tx"
    using input junk take_line_append [of l "BUFSZ - 1" "[]"] cstr_buffer [of "l @ [NL]"]
    by (auto simp: fgets_into_def tx_def Let_def)
  show ?thesis
  proof (cases "msgs s")
    case Nil
    then show ?thesis using assms(1-6) t by (simp add: msg_main_def Let_def) (simp add: message_line_def)
  next
    case (Cons m ms)
    obtain ty b where m: "m = (ty, b)" by (cases m)
    obtain u r where b: "b = u @ NUL # r" "NUL \<notin> set u" "length b \<le> BUFSZ" using old Cons m by auto
    then have "cstr (b @ drop (length b) tx) = cstr b" "NUL \<in> set b" using cstr_buffer [OF b(2)] by simp_all
    then show ?thesis using assms(1-6) t(1) Cons m b(3) by (simp add: msg_main_def Let_def) (simp add: message_line_def)
  qed
qed

lemma scan_int_deci:
  assumes "rest = [] \<or> \<not> is_digit (hd rest)"
  shows "scan_int (deci z @ rest) = Some (z, rest)" "scan_int (CHR '' '' # deci z @ rest) = Some (z, rest)"
proof -
  have d: "takeWhile is_digit (dec n @ rest) = dec n" "dropWhile is_digit (dec n @ rest) = rest" for n
    using assms dec_digits [of n] by (cases rest; simp)+
  have h: "hd (dec n @ rest) \<noteq> CHR ''-''" "hd (dec n @ rest) \<noteq> CHR ''+''"
    "dropWhile (\<lambda>c. c \<in> set '' '' \<or> c = TAB \<or> c = NL \<or> c = CR) (dec n @ rest) = dec n @ rest" for n
  proof -
    obtain c cs where c: "dec n = c # cs" by (cases "dec n") (use dec_nonempty in auto)
    then have "is_digit c" using dec_digits [of n] by simp
    with is_digit_not [of c] show "hd (dec n @ rest) \<noteq> CHR ''-''" "hd (dec n @ rest) \<noteq> CHR ''+''"
      "dropWhile (\<lambda>c. c \<in> set '' '' \<or> c = TAB \<or> c = NL \<or> c = CR) (dec n @ rest) = dec n @ rest" by (simp_all add: c)
  qed
  show "scan_int (deci z @ rest) = Some (z, rest)"
    using d h by (cases "z < 0") (simp_all add: scan_int_def deci_def foldl_dec Let_def)
  then show "scan_int (CHR '' '' # deci z @ rest) = Some (z, rest)" by (simp add: scan_int_def)
qed

text \<open>
  Two numbers are reported as they are, with one synchronisation. A text without two numbers makes the driver
  report a variable that was never stored.
\<close>
theorem write_vms_reports:
  assumes "int_ok x" "int_ok y"
  shows "write_vms (deci x @ '' '' @ deci y @ [NL]) n evs = Inr (n, evs @ [RelX x, RelY y, Syn])
    \<and> write_vms (deci x @ [NL]) n evs = Inl (UB ''y is not initialised'')"
proof (rule conjI)
  have nl: "\<not> is_digit NL" "\<not> is_digit (CHR '' '')" by (simp_all add: is_digit_def)
  show "write_vms (deci x @ '' '' @ deci y @ [NL]) n evs = Inr (n, evs @ [RelX x, RelY y, Syn])"
    using assms nl scan_int_deci(1) [of "CHR '' '' # deci y @ [NL]" x] scan_int_deci(2) [of "[NL]" y] by (simp add: write_vms_def int_or_ub_def)
  have "scan_int [NL] = None" by (simp add: scan_int_def)
  then show "write_vms (deci x @ [NL]) n evs = Inl (UB ''y is not initialised'')"
    using assms nl scan_int_deci(1) [of "[NL]" x] by (simp add: write_vms_def int_or_ub_def)
qed

definition msg_env_ex :: msg_env where
  "msg_env_ex = \<lparr>me_key = True, me_qid = 5, me_input = ''hi'' @ [NL], me_pid = 7, me_junk = replicate BUFSZ (CHR ''x''),
     me_send = True, me_receive = True, me_remove = True\<rparr>"

definition msg_queue_ex :: msg_queue where
  "msg_queue_ex = \<lparr>debug = 0, errno_text = [], stderr_out = [], syslog_out = [], heap = 0, msgs = [(3, ''old'' @ [NUL])], msg_out = []\<rparr>"

theorem msg_shows_oldest_witness: "\<exists>s'. msg_main msg_env_ex msg_queue_ex = Inr s' \<and> msgs s' = []"
proof -
  have "\<exists>t r. ''old'' @ [NUL] = t @ NUL # r \<and> NUL \<notin> set t \<and> length (''old'' @ [NUL]) \<le> BUFSZ"
    by (intro exI [of _ "''old''"] exI [of _ "[]"]) (simp add: BUFSZ_def)
  then have "\<forall>m \<in> set (msgs msg_queue_ex). \<exists>t r. snd m = t @ NUL # r \<and> NUL \<notin> set t \<and> length (snd m) \<le> BUFSZ"
    by (simp add: msg_queue_ex_def)
  from msg_shows_oldest [of msg_env_ex "''hi''", OF _ _ _ _ _ _ _ _ _ _ _ this] show ?thesis
    by (auto simp: msg_env_ex_def BUFSZ_def)
qed

theorem write_vms_reports_witness: "write_vms (deci 10 @ '' '' @ deci (-3) @ [NL]) 6 [] = Inr (6, [RelX 10, RelY (-3), Syn])"
  using write_vms_reports [of 10 "-3" 6 "[]"] by (simp add: int_ok_def)

end
