(* ===== verification/Spec2Isabelle.thy ===== *)
theory Spec2Isabelle
  imports BufArgs CDial CLoop LcdProbe Beep Semaph Stm8Pwm DbStore Connect PtyMain WorkQueue FifoThreads AlsaLatency FileServer OpenServ
    TellWait MusicPlayer SharedCounter FileMaps Account LineProgs Commands MailFile OpenCat RecordLocks Signals Streams Forks LibRoutines Excerpts
begin

text \<open>
  \<^bold>\<open>What the repository holds and what is modelled\<close>

  The repository collects C programs. Those with logic of their own are: the programs of a book on
  Unix programming (unix_source: a server that dials modems for its clients, a database library,
  semaphores, pseudo terminals, support routines), an LCD driver (excerpts/s3c2440_LCD_driver.c), two buzzer drivers
  (driver_test, driver_platform_test), the firmware of a PWM light (stm8_pwm/main.c), and some
  larger programs among the excerpts: a latency test of a sound card (alsa-test-latency.c), a file
  server (select.c), a queue of work with its thread (kernel_list.c) and a producer with its
  consumer (product.c).

  \<^bold>\<open>Conventions.\<close> A routine maps the state to a result (theory CPrelude): a value with the new state,
  or the reason why the process stopped: exit, abort, or behaviour that C leaves undefined (an index
  outside an array, a value that was never stored). State is a record with the fields of the
  program's global variables; the records extend each other, so that the routines of a component run
  on the state of every program that contains it. What the kernel answers is part of the state (a
  list of events) or an argument. Code that is not in the repository (missing library routines,
  header constants) is an argument. Machine words are used where the width matters.

  \<^bold>\<open>The dialing server\<close> (unix_source/calld and the library routines it uses)
  \<^item> ErrLog: lib.sun/error.c and errorlog.c; ByteIO: readn.c and writen.c; BufArgs: bufargs.c;
    FdPass: sendfd.c, senderr.c, recvfd.c on two systems.
  \<^item> CLock: lock.c, the table of locked devices; CClient: client.c, the table of clients. Both are
    arrays that grow; CPrelude has the lemmas on first matches that both rest on.
  \<^item> TableFile and CFiles: sysfile.c, devfile.c, dialfile.c, readers of three configuration files.
  \<^item> CRequest: request.c, which picks a system and a free device and starts a child that dials.
  \<^item> CDial: what the child does: ctlstr.c, expectstr.c, sendstr.c, ttydial.c, ttyopen.c.
  \<^item> CLoop: loop.c, sigchld.c, main.c: one round of the server per event, signals at the points
    where the code can receive them.

  Shown: the invariant of all reachable states of the server (select set, bounds, tables), that a
  request starts one child which alone holds a free device (and refines an abstract choice), that a
  failing request changes nothing, that a hang-up releases exactly the client's device, what the
  readers of the files find, and round trips and termination of the byte routines.

  \<^bold>\<open>The database library\<close> (unix_source/db.lock.fine)
  \<^item> DbFile: writeptr.c, writedat.c, writeidx.c on two files with record locks; DbStore: store.c,
    rewind.c, stats.c, parts of alloc.c, checkfree.c and close.c, and the programs t4.c and tstats.c.

  Shown: db_store refines putting a record in front of the list that a hash chain stands for, leaves
  no lock behind whatever the kernel answers, and its result tells whether the record existed.

  \<^bold>\<open>Semaphores\<close> (lib.sun/semaph.c): theory Semaph. Any number of processes run the routines, one
  system call at a time; an inductive step relation, invariants of all reachable states.

  \<^bold>\<open>Processes, connections and terminals\<close>
  \<^item> ExitTable: atexit.c, exit.c; TtyModes: ttymodes.c; ProcOpen: popen.c, openmax.c, pathalloc.c;
    Signals: signal.c, signalintr.c, printer/alarm.c, and abort.c and child.c in signals/ourhdr.h;
    LibRoutines: sleepus.c, strerror.c, prmask.c, nspipe.c, getpwnam and doatexit.c.
  \<^item> Connect: the named sockets between a server and its clients (servlisten.c, cliconn.c,
    servaccept.c); Streams: the same on streams (lib.svr4/semaph.c and bufargs.c) and 4.4BSD's cli_conn,
    with the locale \<open>named_server\<close> that states what a server may expect of its library while time passes and is
    interpreted on both; PtyOpen: ptyopen.c, ptyfork.c and do_driver; PtyMain: pty/main.c and loop (both
    do_driver and loop stand in pty/ourhdr.h), which run the exit functions, the terminal modes,
    the byte routines and the pseudo terminals together. The two processes of loop share the user's
    terminal and run in turns, in any order; a signal is handled in read or elsewhere.

  Shown: exit functions run once and in reverse order, the terminal gets its attributes back, both
  sides of a pipe or a pseudo terminal hold the right ends, abort ends every process, both libraries
  give a server its clients in order and differ only for clients that wait for more than 30 seconds, a
  server takes only fresh private sockets and learns their owner, and a session of pty shows what its
  program writes, and keeps the terminal raw until one of its processes exits.

  \<^bold>\<open>Programs that wait for each other\<close>
  \<^item> Threads: what the models of concurrent programs share. Every point where a thread can be
    interrupted is a step of an inductive relation; a step goes on, waits, or is undefined. The locale
    \<open>inductive_invariant\<close> turns preservation by each step into a law of all reachable states, its
    extension \<open>event_system\<close> runs a list of events, for concrete executions. A rank that every step
    lowers (\<open>ranked_system\<close>) bounds all runs and brings every state to an end; the states of a small
    system are all found by \<open>explored_system\<close> and \<open>explored_ranked\<close>, which give both kinds of laws.
  \<^item> WorkQueue: excerpts/kernel_list.c, the list of work with its mutex, condition and worker;
    FifoThreads: excerpts/product.c, the ring buffer between two threads with its semaphores;
    TellWait: ipc/tellwait.c and the two programs proc/tellwait1.c and tellwait2.c; SharedCounter:
    advio/devzero.c, a counter in shared memory that rests on the same pipes; RecordLocks: deadlock.c
    (on those pipes) and daemon.c, both in lock/ourhdr.h; Forks: fork1.c, vfork1.c and fork2.c in proc.
    Each interprets one of these locales on its own step relation.
  \<^item> FileServer: excerpts/select.c, the commands get, put and ls for many clients; it interprets
    \<open>inductive_invariant\<close>. OpenServ: open/open.c and its call of a server, the cli_args routines of the two
    open servers (call and opend.fe) and takeput.c; OpenCat: open/main.c, a client of that server. The
    kernel gives a received descriptor the lowest free number, so that a number comes again after it was closed.

  Shown: work is called once and in the order it was submitted, and a sleeping worker is woken; the
  semaphores of the ring count its cells, messages are read in order, neither thread blocks the
  other for ever; the parent writes before the child when told to, and the two processes exclude each other from the
  counter; of two processes that lock each other out exactly one fails; one daemon runs at a time;
  what fork copies; clients are served in turn, and
  where the file server answers the wrong one; what a request to the open server becomes, and that its client shows the files it asked for, however many, with one free descriptor.

  \<^bold>\<open>Small programs\<close>
  \<^item> LineProgs: popen1.c with myuclc.c, popen2.c, pipe2.c, pipe4.c, spipe4.c and the shells
    shell1.c and shell2.c, all loops over the lines that fgets delivers (the locale \<open>line_loop\<close>);
    Commands: system.c, pr_exit, times1.c, systest1.c, systest3.c, wait1.c, setfl.c and nonblockw.c;
    FileMaps: mmap_test.c and mcopy.c; Account: pracct.c; MailFile: printer/mail.c;
    Excerpts: msg.c and the write routine of vms.c.

  Shown: what they pass on, show or mail, in which order, that mapped files are read inside their
  mapping, and the inputs for which they store outside of an array or lose a character.

  \<^bold>\<open>The latency test\<close> (excerpts/alsa-test-latency.c)
  \<^item> AlsaParams: the options and the search for a buffer size that the card takes; AlsaLatency: time
    differences, reading and writing a buffer, the low-pass effect, and the loop over the latencies.

  Shown: the bounds that the options establish, that the search ends and what it then has found, that
  the measured difference is exact, that the test ends when the devices answer, what a success means in
  non-blocking mode, and the options for which its arithmetic overflows or its loop does not end. The sound library and the floating-point
  arithmetic of the effect are arguments.

  \<^bold>\<open>The LCD driver\<close>
  \<^item> Mmio: memory-mapped registers and the laws of reading and writing them (a locale that the
    model of the accesses interprets).
  \<^item> LcdRegs: registers, palette and the frame interrupt. A palette register takes a write or loses it, as the
    controller likes; a frame interrupt comes only while LCDINTMSK does not mask it, and the pending registers
    clear the bits that are written. LcdMode: checking and setting a video
    mode, blanking; LcdProbe: probe, remove, suspend and resume with the resources they hold.

  Shown: the hardware palette follows the colours that were set, because lost writes are retried, a mode programs the
  timing of its display, the pixel clock and where its divider leaves the field of the register, colour round trip, what a probe holds, and that resume restores.

  \<^bold>\<open>Buzzers and light\<close>: Beep (both buzzer drivers and their equivalence), MusicPlayer
  (test_beep_music.c with its songs and the two test programs, on those drivers), Stm8Pwm (the firmware's
  main loop on the values of its port).

  \<^bold>\<open>Bounds and fuel.\<close> Most loops end by themselves and are total functions. Fuel stands for loops that
  need not end: the echo and expect loops of CDial, the free list of DbStore (one round per record
  and one more are enough), the search of AlsaParams (one round per size that is left and one more),
  the copying loop of AlsaLatency (one round per frame to transfer and one more). The server loops take one event per round. Theorems
  about them say how much fuel gives a result. Step relations need none; what they must reach
  (WorkQueue, FifoThreads, TellWait, SharedCounter, RecordLocks, Forks) is stated as the existence of
  steps or as a bound on them.

  \<^bold>\<open>Not modelled.\<close> The child_dial routine and the cli_args of the dialing server, and find, findfree,
  dodelete, nextrec and the readers of the database, which are not in the repository. Headers of
  the kernel and of the compiler, and the vendor's register header, which has no operations. linux_frameBuffer.c is an article with fragments
  of kernel code. Parts of the archive that are cut off before their end, daemon_init, and the demonstrations of single
  system calls that neither decide nor compute anything (among them test1.c, tshm.c, fifo1.c, shm.c, read_lock.c).
\<close>

end
